(* ===== verification/Serval_Prelude.thy ===== *)
theory Serval_Prelude
  imports Main "HOL-Library.Word"
begin

text \<open>
  Shared vocabulary of the development: the machine integer types of the C sources, the
  theorem collections the component proofs use, facts on words that several components
  need, the outcome of a C function that may panic, halt or leave by \<^verbatim>\<open>mret\<close>, and the
  interface of a transition system with an inductive invariant.
\<close>

unbundle bit_operations_syntax

section \<open>Machine integers\<close>

type_synonym u8 = "8 word"
type_synonym u16 = "16 word"
type_synonym u32 = "32 word"
type_synonym u64 = "64 word"

text \<open>Error numbers of \<^verbatim>\<open>include/sys/errno.h\<close>, as the two's complement \<open>long\<close> the code returns.\<close>

abbreviation EINVAL :: u64 where "EINVAL \<equiv> 22"
abbreviation ENOSYS :: u64 where "ENOSYS \<equiv> 38"

named_theorems csr_simps \<open>reads of control and status registers after writes\<close>
named_theorems mem_simps \<open>reads of memory words after writes\<close>
named_theorems op_defs \<open>definitions of monitor operations\<close>
named_theorems rv_simps \<open>execution of RISC-V instructions\<close>

lemma mask8_u64: "(0xff :: u64) = mask 8"
  by (simp add: mask_eq_exp_minus_1)

lemma mask32_u64: "(0xffffffff :: u64) = mask 32"
  by (simp add: mask_eq_exp_minus_1)

lemma word_pred_less: "0 < (n :: 'a::len word) \<Longrightarrow> n - 1 < n"
  by (metis less_irrefl measure_unat word_less_nat_alt word_neq_0_conv)

lemma finite_word_set [simp]: "finite (A :: 'a::len word set)"
  by (rule finite_subset [OF subset_UNIV finite])

lemma card_less_word: "card {p :: 'a::len word. p < n} = unat n"
proof -
  have "bij_betw unat {p :: 'a word. p < n} {..<unat n}"
  proof (rule bij_betwI')
    fix x y :: "'a word"
    show "(unat x = unat y) = (x = y)" by (simp add: word_unat_eq_iff)
  next
    fix x :: "'a word"
    assume "x \<in> {p. p < n}"
    then show "unat x \<in> {..<unat n}" by (simp add: word_less_nat_alt)
  next
    fix k
    assume "k \<in> {..<unat n}"
    then have k: "k < unat n" by simp
    then have "k < 2 ^ LENGTH('a)"
      using unsigned_less [of n] by (rule order.strict_trans)
    then have "unat (word_of_nat k :: 'a word) = k"
      by (simp add: unsigned_of_nat take_bit_nat_eq_self)
    then show "\<exists>x \<in> {p. p < n}. k = unat x"
      using k by (intro bexI [of _ "word_of_nat k"]) (auto simp: word_less_nat_alt)
  qed
  then show ?thesis by (simp add: bij_betw_same_card)
qed

section \<open>Outcomes of C functions in machine mode\<close>

text \<open>
  A function of a monitor returns a value, or panics (\<^verbatim>\<open>BUG()\<close>, \<^verbatim>\<open>panic()\<close>, \<^verbatim>\<open>die()\<close>), or powers the
  machine off, or never returns because it resumes a lower privilege mode with a given
  register file (\<^verbatim>\<open>mret_with_regs\<close>). Every outcome but the panic carries the state.
\<close>

datatype ('a, 'r, 's) outcome =
    Panic
  | Halt 's
  | Return 'a 's
  | Mret 'r 's

fun obind :: "('a, 'r, 's) outcome \<Rightarrow> ('a \<Rightarrow> 's \<Rightarrow> ('b, 'r, 's) outcome) \<Rightarrow> ('b, 'r, 's) outcome" where
  "obind Panic f = Panic"
| "obind (Halt s) f = Halt s"
| "obind (Return a s) f = f a s"
| "obind (Mret r s) f = Mret r s"

definition holds_after :: "('s \<Rightarrow> bool) \<Rightarrow> ('a, 'r, 's) outcome \<Rightarrow> bool" where
  "holds_after P r = (case r of Panic \<Rightarrow> False | Halt s \<Rightarrow> P s | Return a s \<Rightarrow> P s | Mret m s \<Rightarrow> P s)"

lemma holds_after_simps [simp]:
  "holds_after P Panic = False"
  "holds_after P (Halt s) = P s"
  "holds_after P (Return a s) = P s"
  "holds_after P (Mret m s) = P s"
  by (simp_all add: holds_after_def)

lemma holds_after_obind:
  assumes "holds_after P m"
    and "\<And>a s. m = Return a s \<Longrightarrow> P s \<Longrightarrow> holds_after P (f a s)"
  shows "holds_after P (obind m f)"
  using assms by (cases m) auto

lemma holds_after_mono:
  "holds_after P m \<Longrightarrow> (\<And>s. P s \<Longrightarrow> Q s) \<Longrightarrow> holds_after Q m"
  by (cases m) auto

lemma holds_after_not_Panic: "holds_after P m \<Longrightarrow> m \<noteq> Panic"
  by auto

lemma holds_after_if:
  "(c \<Longrightarrow> holds_after P a) \<Longrightarrow> (\<not> c \<Longrightarrow> holds_after P b) \<Longrightarrow> holds_after P (if c then a else b)"
  by simp

section \<open>Transition systems and invariants\<close>

inductive reach :: "('s \<Rightarrow> bool) \<Rightarrow> ('s \<Rightarrow> 's \<Rightarrow> bool) \<Rightarrow> 's \<Rightarrow> bool"
  for init :: "'s \<Rightarrow> bool" and step :: "'s \<Rightarrow> 's \<Rightarrow> bool" where
  reach_init: "init s \<Longrightarrow> reach init step s"
| reach_step: "reach init step s \<Longrightarrow> step s t \<Longrightarrow> reach init step t"

text \<open>
  The contract between a monitor and the proofs about its executions: an invariant that
  the boot code establishes and every step of the machine keeps.
\<close>

locale inv_system =
  fixes init :: "'s \<Rightarrow> bool" and step :: "'s \<Rightarrow> 's \<Rightarrow> bool" and inv :: "'s \<Rightarrow> bool"
  assumes init_inv: "init s \<Longrightarrow> inv s"
    and step_inv: "inv s \<Longrightarrow> step s t \<Longrightarrow> inv t"
begin

lemma reach_inv: "reach init step s \<Longrightarrow> inv s"
  by (induction rule: reach.induct) (auto intro: init_inv step_inv)

lemma reach_safe:
  assumes "reach init step s" and "\<And>u. inv u \<Longrightarrow> safe u"
  shows "safe s"
  using assms(2) [OF reach_inv [OF assms(1)]] .

end

end
