(* ===== verification/Riscv_Arch.thy ===== *)
theory Riscv_Arch
  imports Serval_Prelude
begin

text \<open>
  The machine as the monitors see it: the saved register file \<^verbatim>\<open>struct pt_regs\<close>, the control and
  status registers with the accessors of \<^verbatim>\<open>asm/csr.h\<close>, physical memory protection
  (\<^verbatim>\<open>asm/pmp.h\<close>), the page table entry constructors of \<^verbatim>\<open>asm/pgtable.h\<close> and the machine call
  dispatcher of \<^verbatim>\<open>bios/mcall.c\<close>. The lemmas give reads after writes, for one register and for
  the lists of registers that \<^verbatim>\<open>csrs.h\<close> expands to.
\<close>

unbundle bit_operations_syntax

section \<open>The saved register file\<close>

datatype gpr =
    RA | SP | GP | TP | T0 | T1 | T2 | S0 | S1
  | A0 | A1 | A2 | A3 | A4 | A5 | A6 | A7
  | S2 | S3 | S4 | S5 | S6 | S7 | S8 | S9 | S10 | S11
  | T3 | T4 | T5 | T6

type_synonym pt_regs = "gpr \<Rightarrow> u64"

text \<open>The index of a field in \<^verbatim>\<open>struct pt_regs\<close>, counted in 64-bit words.\<close>

primrec pt_index :: "gpr \<Rightarrow> u64" where
  "pt_index RA = 0" | "pt_index SP = 1" | "pt_index GP = 2" | "pt_index TP = 3"
| "pt_index T0 = 4" | "pt_index T1 = 5" | "pt_index T2 = 6" | "pt_index S0 = 7"
| "pt_index S1 = 8" | "pt_index A0 = 9" | "pt_index A1 = 10" | "pt_index A2 = 11"
| "pt_index A3 = 12" | "pt_index A4 = 13" | "pt_index A5 = 14" | "pt_index A6 = 15"
| "pt_index A7 = 16" | "pt_index S2 = 17" | "pt_index S3 = 18" | "pt_index S4 = 19"
| "pt_index S5 = 20" | "pt_index S6 = 21" | "pt_index S7 = 22" | "pt_index S8 = 23"
| "pt_index S9 = 24" | "pt_index S10 = 25" | "pt_index S11 = 26" | "pt_index T3 = 27"
| "pt_index T4 = 28" | "pt_index T5 = 29" | "pt_index T6 = 30"

definition all_gprs :: "gpr list" where
  "all_gprs = [RA, SP, GP, TP, T0, T1, T2, S0, S1, A0, A1, A2, A3, A4, A5, A6, A7,
     S2, S3, S4, S5, S6, S7, S8, S9, S10, S11, T3, T4, T5, T6]"

definition copy_pt_regs :: "pt_regs \<Rightarrow> pt_regs \<Rightarrow> pt_regs" where
  "copy_pt_regs dst src = dst(
     RA := src RA, SP := src SP, GP := src GP, TP := src TP,
     T0 := src T0, T1 := src T1, T2 := src T2, S0 := src S0, S1 := src S1,
     A0 := src A0, A1 := src A1, A2 := src A2, A3 := src A3,
     A4 := src A4, A5 := src A5, A6 := src A6, A7 := src A7,
     S2 := src S2, S3 := src S3, S4 := src S4, S5 := src S5, S6 := src S6,
     S7 := src S7, S8 := src S8, S9 := src S9, S10 := src S10, S11 := src S11,
     T3 := src T3, T4 := src T4, T5 := src T5, T6 := src T6)"

lemma copy_pt_regs_eq [simp]: "copy_pt_regs dst src = src"
proof
  fix r
  show "copy_pt_regs dst src r = src r"
    by (cases r) (simp_all add: copy_pt_regs_def)
qed

lemma pt_index_le: "pt_index r \<le> 30"
  by (cases r) simp_all

lemma inj_pt_index: "inj pt_index"
proof (rule injI)
  fix x y
  assume "pt_index x = pt_index y"
  then show "x = y" by (cases x; cases y) simp_all
qed

lemma pt_index_eq_iff [simp]: "pt_index x = pt_index y \<longleftrightarrow> x = y"
  using inj_pt_index by (auto dest: injD)

lemma all_gprs_complete: "r \<in> set all_gprs"
  by (cases r) (simp_all add: all_gprs_def)

section \<open>Control and status registers\<close>

text \<open>
  \<^verbatim>\<open>sstatus\<close>, \<^verbatim>\<open>sip\<close> and \<^verbatim>\<open>sie\<close> are views of \<^verbatim>\<open>mstatus\<close>, \<^verbatim>\<open>mip\<close> and \<^verbatim>\<open>mie\<close>; the masks are those of
  \<^verbatim>\<open>serval/serval/riscv/base.rkt\<close>.
\<close>

datatype csr =
    MEPC | MSTATUS | MEDELEG | MIDELEG | MIE | MIP | MCOUNTEREN | MCYCLE | MINSTRET
  | SATP | STVEC | SCOUNTEREN | STVAL | SIP | SCAUSE | SEPC | SSTATUS | SSCRATCH | SIE
  | PMPCFG0 | PMPCFG2
  | PMPADDR0 | PMPADDR1 | PMPADDR2 | PMPADDR3 | PMPADDR4 | PMPADDR5 | PMPADDR6 | PMPADDR7
  | PMPADDR8 | PMPADDR9 | PMPADDR10 | PMPADDR11 | PMPADDR12 | PMPADDR13 | PMPADDR14 | PMPADDR15

type_synonym csr_file = "csr \<Rightarrow> u64"

definition sstatus_mask :: u64 where "sstatus_mask = 0x80000003000DE133"
definition sip_mask :: u64 where "sip_mask = 0x333"
definition sie_mask :: u64 where "sie_mask = 0x333"

definition csr_read :: "csr_file \<Rightarrow> csr \<Rightarrow> u64" where
  "csr_read f c = (case c of
      SSTATUS \<Rightarrow> f MSTATUS AND sstatus_mask
    | SIP \<Rightarrow> f MIP AND sip_mask
    | SIE \<Rightarrow> f MIE AND sie_mask
    | _ \<Rightarrow> f c)"

definition csr_write :: "csr \<Rightarrow> u64 \<Rightarrow> csr_file \<Rightarrow> csr_file" where
  "csr_write c v f = (case c of
      SSTATUS \<Rightarrow> f(MSTATUS := (f MSTATUS AND NOT sstatus_mask) OR (v AND sstatus_mask))
    | SIP \<Rightarrow> f(MIP := (f MIP AND NOT sip_mask) OR (v AND sip_mask))
    | SIE \<Rightarrow> f(MIE := (f MIE AND NOT sie_mask) OR (v AND sie_mask))
    | _ \<Rightarrow> f(c := v))"

definition csr_set :: "csr \<Rightarrow> u64 \<Rightarrow> csr_file \<Rightarrow> csr_file" where
  "csr_set c v f = csr_write c (csr_read f c OR v) f"

definition csr_clear :: "csr \<Rightarrow> u64 \<Rightarrow> csr_file \<Rightarrow> csr_file" where
  "csr_clear c v f = csr_write c (csr_read f c AND NOT v) f"

text \<open>The register whose storage a register name denotes.\<close>

definition csr_base :: "csr \<Rightarrow> csr" where
  "csr_base c = (case c of SSTATUS \<Rightarrow> MSTATUS | SIP \<Rightarrow> MIP | SIE \<Rightarrow> MIE | _ \<Rightarrow> c)"

lemma and_or_not_mask: "((x AND NOT m) OR (v AND m)) AND m = (v AND m :: u64)"
  by (rule bit_word_eqI) (auto simp: bit_simps)

lemma csr_read_write_other [csr_simps]:
  "csr_base c \<noteq> csr_base d \<Longrightarrow> csr_read (csr_write c v f) d = csr_read f d"
  by (cases c; cases d) (simp_all add: csr_base_def csr_read_def csr_write_def)

lemma csr_read_write_same:
  "csr_read (csr_write c v f) c =
     (case c of SSTATUS \<Rightarrow> v AND sstatus_mask | SIP \<Rightarrow> v AND sip_mask | SIE \<Rightarrow> v AND sie_mask | _ \<Rightarrow> v)"
  by (cases c) (simp_all add: csr_read_def csr_write_def and_or_not_mask)

lemma csr_read_set_other [csr_simps]:
  "csr_base c \<noteq> csr_base d \<Longrightarrow> csr_read (csr_set c v f) d = csr_read f d"
  by (simp add: csr_set_def csr_read_write_other)

lemma csr_read_clear_other [csr_simps]:
  "csr_base c \<noteq> csr_base d \<Longrightarrow> csr_read (csr_clear c v f) d = csr_read f d"
  by (simp add: csr_clear_def csr_read_write_other)

text \<open>A value read from a register survives being written back to it.\<close>

lemma csr_read_write_read:
  "csr_read (csr_write c (csr_read g c) f) c = csr_read g c"
  by (cases c) (simp_all add: csr_read_def csr_write_def and_or_not_mask and.assoc)

text \<open>
  \<^verbatim>\<open>#include "csrs.h"\<close> with \<^verbatim>\<open>__CSR\<close> defined expands to one statement per listed register: reading the
  registers into a structure, or writing the fields of a structure back.
\<close>

definition save_csrs :: "csr list \<Rightarrow> csr_file \<Rightarrow> (csr \<Rightarrow> u64) \<Rightarrow> (csr \<Rightarrow> u64)" where
  "save_csrs cs f st = fold (\<lambda>c st. st(c := csr_read f c)) cs st"

definition load_csrs :: "csr list \<Rightarrow> (csr \<Rightarrow> u64) \<Rightarrow> csr_file \<Rightarrow> csr_file" where
  "load_csrs cs st f = fold (\<lambda>c f. csr_write c (st c) f) cs f"

lemma save_csrs_apply:
  "save_csrs cs f st c = (if c \<in> set cs then csr_read f c else st c)"
  unfolding save_csrs_def by (induction cs arbitrary: st) auto

lemma load_csrs_other:
  "csr_base d \<notin> csr_base ` set cs \<Longrightarrow> csr_read (load_csrs cs st f) d = csr_read f d"
  unfolding load_csrs_def
  by (induction cs arbitrary: f) (auto simp: csr_read_write_other)

lemma load_csrs_Cons [simp]: "load_csrs (c # cs) st f = load_csrs cs st (csr_write c (st c) f)"
  by (simp add: load_csrs_def)

lemma load_csrs_Nil [simp]: "load_csrs [] st f = f"
  by (simp add: load_csrs_def)

lemma load_csrs_saved:
  assumes "distinct (map csr_base cs)" and "d \<in> set cs" and "st d = csr_read g d"
  shows "csr_read (load_csrs cs st f) d = csr_read g d"
  using assms
proof (induction cs arbitrary: f)
  case Nil
  then show ?case by simp
next
  case (Cons c cs)
  show ?case
  proof (cases "d = c")
    case True
    with Cons.prems have "csr_base d \<notin> csr_base ` set cs" by auto
    with True Cons.prems show ?thesis
      by (simp add: load_csrs_other csr_read_write_read)
  next
    case False
    with Cons show ?thesis by simp
  qed
qed

section \<open>Status, delegation and translation bits\<close>

abbreviation (input) SR_MPP :: u64 where "SR_MPP \<equiv> 0x1800"
abbreviation (input) SR_MPP_U :: u64 where "SR_MPP_U \<equiv> 0"
abbreviation (input) SR_MPP_S :: u64 where "SR_MPP_S \<equiv> 0x800"
abbreviation (input) SR_MPP_M :: u64 where "SR_MPP_M \<equiv> 0x1800"
abbreviation (input) SR_TVM :: u64 where "SR_TVM \<equiv> 0x100000"
abbreviation (input) SR_UXL :: u64 where "SR_UXL \<equiv> 0x300000000"
abbreviation (input) SR_UXL_64 :: u64 where "SR_UXL_64 \<equiv> 0x200000000"
abbreviation (input) SR_SXL :: u64 where "SR_SXL \<equiv> 0xC00000000"
abbreviation (input) SR_SXL_64 :: u64 where "SR_SXL_64 \<equiv> 0x800000000"

abbreviation (input) EXC_ECALL_S :: u64 where "EXC_ECALL_S \<equiv> 9"

definition EDEL_DEFAULT :: u64 where
  "EDEL_DEFAULT = push_bit 3 1 OR push_bit 8 1 OR push_bit 0 1 OR push_bit 12 1
     OR push_bit 4 1 OR push_bit 13 1 OR push_bit 6 1 OR push_bit 15 1"

definition IDEL_DEFAULT :: u64 where
  "IDEL_DEFAULT = push_bit 1 1 OR push_bit 5 1 OR push_bit 9 1"

definition IE_DEFAULT :: u64 where
  "IE_DEFAULT = push_bit 1 1 OR push_bit 5 1 OR push_bit 9 1"

definition SATP_MODE_SV39 :: u64 where
  "SATP_MODE_SV39 = push_bit 60 8"

definition SATP_MODE_BARE :: u64 where
  "SATP_MODE_BARE = push_bit 60 0"

section \<open>Physical memory protection\<close>

abbreviation (input) PMPCFG_R :: u64 where "PMPCFG_R \<equiv> 1"
abbreviation (input) PMPCFG_W :: u64 where "PMPCFG_W \<equiv> 2"
abbreviation (input) PMPCFG_X :: u64 where "PMPCFG_X \<equiv> 4"
abbreviation (input) PMPCFG_A_OFF :: u64 where "PMPCFG_A_OFF \<equiv> 0"
abbreviation (input) PMPCFG_A_TOR :: u64 where "PMPCFG_A_TOR \<equiv> 8"

definition pmpaddr_read :: "csr_file \<Rightarrow> csr \<Rightarrow> u64" where
  "pmpaddr_read f r = push_bit 2 (csr_read f r)"

definition pmpaddr_write :: "csr \<Rightarrow> u64 \<Rightarrow> csr_file \<Rightarrow> csr_file" where
  "pmpaddr_write r v f = csr_write r (drop_bit 2 v) f"

definition pmpcfg_read :: "csr_file \<Rightarrow> nat \<Rightarrow> u64" where
  "pmpcfg_read f nr =
     (let shift = (nr mod 8) * 8;
          r = (if nr < 8 then csr_read f PMPCFG0 else csr_read f PMPCFG2)
      in drop_bit shift r AND 0xff)"

text \<open>Reading the entry back afterwards serves only to print a message and is left out.\<close>

definition pmpcfg_write :: "nat \<Rightarrow> u64 \<Rightarrow> csr_file \<Rightarrow> csr_file" where
  "pmpcfg_write nr value f =
     (let shift = (nr mod 8) * 8;
          msk = push_bit shift 0xff
      in if nr < 8 then csr_set PMPCFG0 (push_bit shift value) (csr_clear PMPCFG0 msk f)
         else csr_set PMPCFG2 (push_bit shift value) (csr_clear PMPCFG2 msk f))"

lemma pmpcfg_write_other [csr_simps]:
  "d \<noteq> PMPCFG0 \<Longrightarrow> d \<noteq> PMPCFG2 \<Longrightarrow> csr_read (pmpcfg_write nr v f) d = csr_read f d"
  by (cases d) (simp_all add: pmpcfg_write_def Let_def csr_simps csr_base_def)

lemma pmpaddr_write_other [csr_simps]:
  "csr_base r \<noteq> csr_base d \<Longrightarrow> csr_read (pmpaddr_write r v f) d = csr_read f d"
  by (simp add: pmpaddr_write_def csr_simps)

text \<open>One byte of a configuration register is replaced, the other seven are kept.\<close>

lemma byte_replace_same:
  assumes "v AND mask 8 = (v :: u64)" and "s < 57"
  shows "drop_bit s ((x AND NOT (push_bit s (mask 8))) OR push_bit s v) AND mask 8 = v"
proof (rule bit_word_eqI)
  fix n :: nat
  assume "n < LENGTH(64)"
  then have n: "n < 64" by simp
  have v: "bit v n \<Longrightarrow> n < 8"
    using arg_cong [OF assms(1), of "\<lambda>w. bit w n"] by (auto simp: bit_simps)
  show "bit (drop_bit s ((x AND NOT (push_bit s (mask 8))) OR push_bit s v) AND mask 8) n = bit v n"
    using assms(2) n v by (auto simp: bit_simps)
qed

lemma byte_replace_other:
  assumes "v AND mask 8 = (v :: u64)" and "s + 8 \<le> t \<or> t + 8 \<le> s"
  shows "drop_bit t ((x AND NOT (push_bit s (mask 8))) OR push_bit s v) AND mask 8
       = drop_bit t x AND mask 8"
proof (rule bit_word_eqI)
  fix n :: nat
  assume "n < LENGTH(64)"
  have v: "bit v (t + n - s) \<Longrightarrow> t + n - s < 8"
    using arg_cong [OF assms(1), of "\<lambda>w. bit w (t + n - s)"] by (auto simp: bit_simps)
  show "bit (drop_bit t ((x AND NOT (push_bit s (mask 8))) OR push_bit s v) AND mask 8) n
      = bit (drop_bit t x AND mask 8) n"
    using assms(2) v by (auto simp: bit_simps dest: bit_imp_le_length)
qed

lemma csr_read_PMPCFG0_set_clear:
  "csr_read (csr_set PMPCFG0 v (csr_clear PMPCFG0 m f)) PMPCFG0 = (csr_read f PMPCFG0 AND NOT m) OR v"
  by (simp add: csr_set_def csr_clear_def csr_read_write_same)

lemma csr_read_PMPCFG2_set_clear:
  "csr_read (csr_set PMPCFG2 v (csr_clear PMPCFG2 m f)) PMPCFG2 = (csr_read f PMPCFG2 AND NOT m) OR v"
  by (simp add: csr_set_def csr_clear_def csr_read_write_same)

lemma pmpcfg_read_write:
  assumes "v AND 0xff = v" and "n < 16" and "m < 16"
  shows "pmpcfg_read (pmpcfg_write n v f) m = (if n = m then v else pmpcfg_read f m)"
proof -
  have v: "v AND mask 8 = v" using assms(1) by (simp add: mask8_u64)
  have lt: "n mod 8 * 8 < 57"
  proof -
    have "n mod 8 \<le> 7" using mod_less_divisor [of 8 n] by simp
    then show ?thesis by simp
  qed
  consider "n = m" | "n \<noteq> m" "(n < 8) = (m < 8)" | "n \<noteq> m" "(n < 8) \<noteq> (m < 8)" by blast
  then show ?thesis
  proof cases
    case 1
    then show ?thesis
      using byte_replace_same [OF v lt]
      by (cases "m < 8") (simp_all add: pmpcfg_read_def pmpcfg_write_def Let_def mask8_u64
          csr_read_PMPCFG0_set_clear csr_read_PMPCFG2_set_clear)
  next
    case 2
    have "n mod 8 \<noteq> m mod 8"
      using 2 assms(2,3) by (auto simp: mod_if split: if_splits)
    then have "n mod 8 * 8 + 8 \<le> m mod 8 * 8 \<or> m mod 8 * 8 + 8 \<le> n mod 8 * 8"
      by arith
    from byte_replace_other [OF v this] 2 show ?thesis
      by (cases "m < 8") (simp_all add: pmpcfg_read_def pmpcfg_write_def Let_def mask8_u64
          csr_read_PMPCFG0_set_clear csr_read_PMPCFG2_set_clear)
  next
    case 3
    then show ?thesis
      by (auto simp: pmpcfg_read_def pmpcfg_write_def Let_def csr_simps csr_base_def)
  qed
qed

lemma pmpcfg_read_cong:
  "csr_read f PMPCFG0 = csr_read g PMPCFG0 \<Longrightarrow> csr_read f PMPCFG2 = csr_read g PMPCFG2 \<Longrightarrow>
   pmpcfg_read f n = pmpcfg_read g n"
  by (simp add: pmpcfg_read_def)

lemma pmpcfg_read_csr_write [csr_simps]:
  "csr_base c \<noteq> PMPCFG0 \<Longrightarrow> csr_base c \<noteq> PMPCFG2 \<Longrightarrow> pmpcfg_read (csr_write c v f) n = pmpcfg_read f n"
  by (rule pmpcfg_read_cong; rule csr_read_write_other) (simp_all add: csr_base_def)

text \<open>
  The access check of \<^verbatim>\<open>serval/serval/riscv/pmp.rkt\<close>: entries are examined in order, the first
  top-of-range entry that overlaps the access decides, and an access that no active entry
  matches is allowed only if no entry is active. \<open>None\<close> is the unsupported matching mode.
\<close>

fun pmp_walk :: "u64 \<Rightarrow> bool \<Rightarrow> (u64 \<times> u64) list \<Rightarrow> u64 \<Rightarrow> u64 \<Rightarrow> u64 option" where
  "pmp_walk prev any [] ptr sz = Some (if \<not> any then 7 else 0)"
| "pmp_walk prev any ((cfg, addr) # es) ptr sz =
     (let cfg_a = cfg AND 24; cfg_perm = cfg AND 7; this = push_bit 2 addr in
      if cfg_a = PMPCFG_A_OFF then pmp_walk this any es ptr sz
      else if cfg_a = PMPCFG_A_TOR then
        (if ptr + sz > prev \<and> ptr < this
         then (if ptr \<ge> prev \<and> ptr + sz \<le> this then Some cfg_perm else Some 0)
         else pmp_walk this True es ptr sz)
      else None)"

definition pmp_addr_regs :: "csr list" where
  "pmp_addr_regs = [PMPADDR0, PMPADDR1, PMPADDR2, PMPADDR3, PMPADDR4, PMPADDR5, PMPADDR6, PMPADDR7,
     PMPADDR8, PMPADDR9, PMPADDR10, PMPADDR11, PMPADDR12, PMPADDR13, PMPADDR14, PMPADDR15]"

definition pmp_entries :: "csr_file \<Rightarrow> (u64 \<times> u64) list" where
  "pmp_entries f = zip (map (pmpcfg_read f) [0..<16]) (map (csr_read f) pmp_addr_regs)"

definition pmp_privs :: "csr_file \<Rightarrow> u64 \<Rightarrow> u64 \<Rightarrow> u64 option" where
  "pmp_privs f ptr sz = pmp_walk 0 False (pmp_entries f) ptr sz"

text \<open>Protection entries after reset: all off.\<close>

definition pmp_reset :: "csr_file \<Rightarrow> bool" where
  "pmp_reset f \<longleftrightarrow> (\<forall>n < 16. pmpcfg_read f n AND 24 = PMPCFG_A_OFF)"

lemma pmp_entries_list:
  "pmp_entries f =
    [(pmpcfg_read f 0, csr_read f PMPADDR0), (pmpcfg_read f 1, csr_read f PMPADDR1),
     (pmpcfg_read f 2, csr_read f PMPADDR2), (pmpcfg_read f 3, csr_read f PMPADDR3),
     (pmpcfg_read f 4, csr_read f PMPADDR4), (pmpcfg_read f 5, csr_read f PMPADDR5),
     (pmpcfg_read f 6, csr_read f PMPADDR6), (pmpcfg_read f 7, csr_read f PMPADDR7),
     (pmpcfg_read f 8, csr_read f PMPADDR8), (pmpcfg_read f 9, csr_read f PMPADDR9),
     (pmpcfg_read f 10, csr_read f PMPADDR10), (pmpcfg_read f 11, csr_read f PMPADDR11),
     (pmpcfg_read f 12, csr_read f PMPADDR12), (pmpcfg_read f 13, csr_read f PMPADDR13),
     (pmpcfg_read f 14, csr_read f PMPADDR14), (pmpcfg_read f 15, csr_read f PMPADDR15)]"
proof -
  have "[0..<16] = [0, 1, 2, 3, 4, 5, 6, 7, 8, 9, 10, 11, 12, 13, 14, 15 :: nat]"
    by (simp add: upt_conv_Cons)
  then show ?thesis by (simp add: pmp_entries_def pmp_addr_regs_def)
qed

lemma pmp_walk_off:
  "cfg AND 24 = 0 \<Longrightarrow> pmp_walk prev any ((cfg, addr) # es) ptr sz = pmp_walk (push_bit 2 addr) any es ptr sz"
  by simp

lemma pmp_walk_tor:
  "cfg AND 24 = 8 \<Longrightarrow> pmp_walk prev any ((cfg, addr) # es) ptr sz =
     (if ptr + sz > prev \<and> ptr < push_bit 2 addr
      then (if ptr \<ge> prev \<and> ptr + sz \<le> push_bit 2 addr then Some (cfg AND 7) else Some 0)
      else pmp_walk (push_bit 2 addr) True es ptr sz)"
  by (simp add: Let_def)

text \<open>Word arithmetic on physical addresses.\<close>

lemma unat_plus_small:
  fixes x y :: u64
  assumes "unat x + unat y \<le> 2 ^ 56"
  shows "unat (x + y) = unat x + unat y"
proof -
  have "unat x + unat y < 2 ^ 64" using assms by simp
  then show ?thesis using unat_add_lem [of x y] by simp
qed

lemma push_drop_aligned: "take_bit 12 x = 0 \<Longrightarrow> push_bit 2 (drop_bit 2 (x :: u64)) = x"
proof (rule bit_word_eqI)
  fix n :: nat
  assume x: "take_bit 12 x = 0" and n: "n < LENGTH(64)"
  have "n < 12 \<Longrightarrow> \<not> bit x n" using arg_cong [OF x, of "\<lambda>w. bit w n"] by (simp add: bit_simps)
  moreover have "2 \<le> n \<Longrightarrow> Suc (Suc (n - 2)) = n" by arith
  ultimately show "bit (push_bit 2 (drop_bit 2 x)) n = bit x n"
    using n by (cases "n < 12") (auto simp: bit_simps)
qed

lemma aligned_add:
  "take_bit 12 (x :: u64) = 0 \<Longrightarrow> take_bit 12 y = 0 \<Longrightarrow> take_bit 12 (x + y) = 0"
  by (simp add: take_bit_eq_0_iff dvd_add)

section \<open>Page tables\<close>

definition PFN_DOWN :: "u64 \<Rightarrow> u64" where
  "PFN_DOWN x = drop_bit 12 x"

abbreviation (input) PAGE_PRESENT :: u64 where "PAGE_PRESENT \<equiv> 1"
abbreviation (input) PAGE_ACCESSED :: u64 where "PAGE_ACCESSED \<equiv> 64"
abbreviation (input) PAGE_DIRTY :: u64 where "PAGE_DIRTY \<equiv> 128"
abbreviation (input) PAGE_TABLE :: u64 where "PAGE_TABLE \<equiv> PAGE_PRESENT"

text \<open>\<^verbatim>\<open>pgd_t\<close>, \<^verbatim>\<open>pmd_t\<close>, \<^verbatim>\<open>pte_t\<close> and \<^verbatim>\<open>pgprot_t\<close> wrap one \<^verbatim>\<open>unsigned long\<close> each.\<close>

definition pfn_pgd :: "u64 \<Rightarrow> u64 \<Rightarrow> u64" where
  "pfn_pgd pfn prot = push_bit 10 pfn OR prot"

definition pfn_pmd :: "u64 \<Rightarrow> u64 \<Rightarrow> u64" where
  "pfn_pmd pfn prot = push_bit 10 pfn OR prot"

definition pfn_pte :: "u64 \<Rightarrow> u64 \<Rightarrow> u64" where
  "pfn_pte pfn prot = push_bit 10 pfn OR prot"

definition pgd_pfn :: "u64 \<Rightarrow> u64" where
  "pgd_pfn e = drop_bit 10 e"

definition pmd_pfn :: "u64 \<Rightarrow> u64" where
  "pmd_pfn e = drop_bit 10 e"

definition pte_pfn :: "u64 \<Rightarrow> u64" where
  "pte_pfn e = drop_bit 10 e"

definition pte_present :: "u64 \<Rightarrow> u64" where
  "pte_present e = e AND PAGE_PRESENT"

lemma fits_bit: "take_bit k v = (v :: u64) \<Longrightarrow> bit v n \<Longrightarrow> n < k"
  by (metis bit_take_bit_iff)

lemma entry_pfn:
  assumes "take_bit 54 pfn = pfn" and "take_bit 10 prot = (prot :: u64)"
  shows "drop_bit 10 (push_bit 10 pfn OR prot) = pfn"
proof (rule bit_word_eqI)
  fix n :: nat
  assume "n < LENGTH(64)"
  have "\<not> bit prot (10 + n)"
    using fits_bit [OF assms(2), of "10 + n"] by auto
  moreover have "bit pfn n \<Longrightarrow> n < 54"
    by (rule fits_bit [OF assms(1)])
  ultimately show "bit (drop_bit 10 (push_bit 10 pfn OR prot)) n = bit pfn n"
    by (auto simp: bit_simps)
qed

lemma PFN_DOWN_fits: "take_bit 54 (PFN_DOWN x) = PFN_DOWN x"
  by (rule bit_word_eqI) (auto simp: PFN_DOWN_def bit_simps dest: bit_imp_le_length)

section \<open>Machine calls\<close>

text \<open>
  The devices behind the machine calls: the \<^verbatim>\<open>tohost\<close> word of the verification build and a console
  of the production build. Diagnostics printed with \<^verbatim>\<open>pr_*\<close> are left out.
\<close>

record mio =
  tohost :: u64
  con_out :: "u8 list"
  con_in :: "u8 list"

abbreviation (input) SBI_CONSOLE_PUTCHAR :: u64 where "SBI_CONSOLE_PUTCHAR \<equiv> 1"
abbreviation (input) SBI_CONSOLE_GETCHAR :: u64 where "SBI_CONSOLE_GETCHAR \<equiv> 2"
abbreviation (input) SBI_SHUTDOWN :: u64 where "SBI_SHUTDOWN \<equiv> 8"
abbreviation (input) SBI_LAST :: u64 where "SBI_LAST \<equiv> SBI_SHUTDOWN"

definition console_putchar :: "u8 \<Rightarrow> mio \<Rightarrow> mio" where
  "console_putchar c io = io\<lparr>con_out := con_out io @ (if c = 10 then [13, c] else [c])\<rparr>"

definition console_getchar :: "mio \<Rightarrow> u64 \<times> mio" where
  "console_getchar io = (case con_in io of [] \<Rightarrow> (- 11, io) | c # cs \<Rightarrow> (ucast c, io\<lparr>con_in := cs\<rparr>))"

definition mcall_console_putchar :: "bool \<Rightarrow> u8 \<Rightarrow> mio \<Rightarrow> mio" where
  "mcall_console_putchar verif c io =
     (if verif then io\<lparr>tohost := push_bit 56 1 OR push_bit 48 1 OR ucast c\<rparr>
      else console_putchar c io)"

definition mcall_console_getchar :: "bool \<Rightarrow> mio \<Rightarrow> u64 \<times> mio" where
  "mcall_console_getchar verif io = (if verif then (- ENOSYS, io) else console_getchar io)"

definition mcall_shutdown :: "bool \<Rightarrow> mio \<Rightarrow> mio" where
  "mcall_shutdown verif io = (if verif then io\<lparr>tohost := 1\<rparr> else io)"

definition do_mcall :: "bool \<Rightarrow> pt_regs \<Rightarrow> mio \<Rightarrow> (u64, pt_regs, mio) outcome" where
  "do_mcall verif regs io =
     (let nr = regs A7 in
      if nr = SBI_CONSOLE_PUTCHAR then Return 0 (mcall_console_putchar verif (ucast (regs A0)) io)
      else if nr = SBI_CONSOLE_GETCHAR then (let (r, io') = mcall_console_getchar verif io in Return r io')
      else if nr = SBI_SHUTDOWN then Halt (mcall_shutdown verif io)
      else Return (- ENOSYS) io)"

lemma do_mcall_not_Panic: "do_mcall verif regs io \<noteq> Panic"
  by (auto simp: do_mcall_def Let_def split: prod.splits)

lemma do_mcall_not_Mret: "do_mcall verif regs io \<noteq> Mret r io'"
  by (auto simp: do_mcall_def Let_def split: prod.splits)

end
