(* ===== verification/Komodo.thy ===== *)
theory Komodo
  imports Riscv_Arch
begin

text \<open>
  The Komodo monitor (\<^verbatim>\<open>monitors/komodo\<close>): the page database, the secure pages with the structures
  the monitor lays over them, every secure monitor call and supervisor call, the world
  switch, trap dispatch and boot. Secure pages are raw 64-bit words, because \<^verbatim>\<open>struct kom_addrspace\<close>,
  \<^verbatim>\<open>struct kom_dispatcher\<close> and the page tables are views of the same memory that user data
  occupies. \<^verbatim>\<open>CONFIG_VERIFICATION_LLVM\<close> is off, as in the monitor that runs on the machine.
\<close>

unbundle bit_operations_syntax

section \<open>Data\<close>

abbreviation (input) KOM_MAGIC :: u64 where "KOM_MAGIC \<equiv> 0x4b6d646f"
abbreviation (input) KOM_PAGE_SIZE :: u64 where "KOM_PAGE_SIZE \<equiv> 0x1000"
abbreviation (input) KOM_SECURE_NPAGES :: u64 where "KOM_SECURE_NPAGES \<equiv> 1024"
abbreviation (input) KOM_SECURE_RESERVE :: u64 where "KOM_SECURE_RESERVE \<equiv> 0x400000"
abbreviation (input) KOM_INSECURE_NPAGES :: u64 where "KOM_INSECURE_NPAGES \<equiv> 256"
abbreviation (input) KOM_INSECURE_RESERVE :: u64 where "KOM_INSECURE_RESERVE \<equiv> 0x100000"
abbreviation (input) PTRS_PER_PMD :: u64 where "PTRS_PER_PMD \<equiv> 512"
abbreviation (input) PTRS_PER_PTE :: u64 where "PTRS_PER_PTE \<equiv> 512"

abbreviation (input) KOM_ERR_SUCCESS :: u64 where "KOM_ERR_SUCCESS \<equiv> 0"
abbreviation (input) KOM_ERR_INVALID_PAGENO :: u64 where "KOM_ERR_INVALID_PAGENO \<equiv> 1"
abbreviation (input) KOM_ERR_PAGEINUSE :: u64 where "KOM_ERR_PAGEINUSE \<equiv> 2"
abbreviation (input) KOM_ERR_INVALID_ADDRSPACE :: u64 where "KOM_ERR_INVALID_ADDRSPACE \<equiv> 3"
abbreviation (input) KOM_ERR_ALREADY_FINAL :: u64 where "KOM_ERR_ALREADY_FINAL \<equiv> 4"
abbreviation (input) KOM_ERR_NOT_FINAL :: u64 where "KOM_ERR_NOT_FINAL \<equiv> 5"
abbreviation (input) KOM_ERR_INVALID_MAPPING :: u64 where "KOM_ERR_INVALID_MAPPING \<equiv> 6"
abbreviation (input) KOM_ERR_ADDRINUSE :: u64 where "KOM_ERR_ADDRINUSE \<equiv> 7"
abbreviation (input) KOM_ERR_NOT_STOPPED :: u64 where "KOM_ERR_NOT_STOPPED \<equiv> 8"
abbreviation (input) KOM_ERR_INTERRUPTED :: u64 where "KOM_ERR_INTERRUPTED \<equiv> 9"
abbreviation (input) KOM_ERR_FAULT :: u64 where "KOM_ERR_FAULT \<equiv> 10"
abbreviation (input) KOM_ERR_ALREADY_ENTERED :: u64 where "KOM_ERR_ALREADY_ENTERED \<equiv> 11"
abbreviation (input) KOM_ERR_NOT_ENTERED :: u64 where "KOM_ERR_NOT_ENTERED \<equiv> 12"

abbreviation (input) KOM_ADDRSPACE_INIT :: u64 where "KOM_ADDRSPACE_INIT \<equiv> 0"
abbreviation (input) KOM_ADDRSPACE_FINAL :: u64 where "KOM_ADDRSPACE_FINAL \<equiv> 1"
abbreviation (input) KOM_ADDRSPACE_STOPPED :: u64 where "KOM_ADDRSPACE_STOPPED \<equiv> 2"

datatype kom_pagetype =
    KOM_PAGE_FREE
  | KOM_PAGE_ADDRSPACE
  | KOM_PAGE_DISPATCHER
  | KOM_PAGE_L1PTABLE
  | KOM_PAGE_L2PTABLE
  | KOM_PAGE_L3PTABLE
  | KOM_PAGE_DATA
  | KOM_PAGE_INVALID

record kom_pagedb_entry =
  pg_type :: kom_pagetype
  pg_addrspace_page :: u64

record host_state =
  host_regs :: pt_regs
  host_csrs :: "csr \<Rightarrow> u64"

text \<open>
  \<open>secure_pages s p i\<close> is word \<open>i\<close> of secure page \<open>p\<close> and \<open>payload s p i\<close> word \<open>i\<close> of insecure page \<open>p\<close>
  (\<^verbatim>\<open>_payload_start\<close>). \<open>regs\<close> is \<^verbatim>\<open>*current_pt_regs()\<close>.
\<close>

record kom =
  g_pagedb :: "u64 \<Rightarrow> kom_pagedb_entry"
  secure_pages :: "u64 \<Rightarrow> u64 \<Rightarrow> u64"
  payload :: "u64 \<Rightarrow> u64 \<Rightarrow> u64"
  hstate :: host_state
  enclave_mode :: bool
  g_cur_dispatcher_pageno :: u64
  regs :: pt_regs
  csrs :: csr_file
  kio :: mio

text \<open>The build configuration and the addresses the linker gives the two page arrays.\<close>

record kom_config =
  CONFIG_VERIFICATION :: bool
  secure_pages_addr :: u64
  payload_addr :: u64

type_synonym 'a kom_outcome = "('a, pt_regs, kom) outcome"

text \<open>Word offsets of the fields of \<^verbatim>\<open>struct kom_addrspace\<close> and \<^verbatim>\<open>struct kom_dispatcher\<close>.\<close>

abbreviation (input) AS_L1PT :: u64 where "AS_L1PT \<equiv> 0"
abbreviation (input) AS_REFCOUNT :: u64 where "AS_REFCOUNT \<equiv> 1"
abbreviation (input) AS_STATE :: u64 where "AS_STATE \<equiv> 2"
abbreviation (input) DISP_ENTERED :: u64 where "DISP_ENTERED \<equiv> 0"
abbreviation (input) DISP_REGS :: u64 where "DISP_REGS \<equiv> 1"

definition komodo_csrs :: "csr list" where
  "komodo_csrs =
     [MEPC, SATP, STVEC, SCOUNTEREN, STVAL, SIP, SCAUSE, SEPC, SSTATUS, SSCRATCH, SIE]"

definition disp_csr :: "csr \<Rightarrow> u64" where
  "disp_csr c = (case c of
      MEPC \<Rightarrow> 32 | SATP \<Rightarrow> 33 | STVEC \<Rightarrow> 34 | SCOUNTEREN \<Rightarrow> 35 | STVAL \<Rightarrow> 36 | SIP \<Rightarrow> 37
    | SCAUSE \<Rightarrow> 38 | SEPC \<Rightarrow> 39 | SSTATUS \<Rightarrow> 40 | SSCRATCH \<Rightarrow> 41 | SIE \<Rightarrow> 42 | _ \<Rightarrow> 43)"

section \<open>Pages\<close>

definition page_is_valid :: "u64 \<Rightarrow> bool" where
  "page_is_valid pageno = (pageno < KOM_SECURE_NPAGES)"

definition page_is_typed :: "kom \<Rightarrow> u64 \<Rightarrow> kom_pagetype \<Rightarrow> bool" where
  "page_is_typed s pageno t = (page_is_valid pageno \<and> pg_type (g_pagedb s pageno) = t)"

definition page_is_free :: "kom \<Rightarrow> u64 \<Rightarrow> bool" where
  "page_is_free s pageno = page_is_typed s pageno KOM_PAGE_FREE"

text \<open>\<^verbatim>\<open>page_monvaddr\<close> panics on an invalid page number and otherwise hands the page on.\<close>

definition page_monvaddr :: "u64 \<Rightarrow> (u64 \<Rightarrow> 'a kom_outcome) \<Rightarrow> 'a kom_outcome" where
  "page_monvaddr pageno k = (if \<not> page_is_valid pageno then Panic else k pageno)"

definition page_paddr :: "kom_config \<Rightarrow> u64 \<Rightarrow> u64" where
  "page_paddr C pageno = secure_pages_addr C + pageno * KOM_PAGE_SIZE"

definition insecure_page_paddr :: "kom_config \<Rightarrow> u64 \<Rightarrow> u64" where
  "insecure_page_paddr C pageno = payload_addr C + pageno * KOM_PAGE_SIZE"

definition insecure_page_is_valid :: "u64 \<Rightarrow> bool" where
  "insecure_page_is_valid pageno = (pageno < KOM_INSECURE_NPAGES)"

definition enclave_prot :: "u64 \<Rightarrow> u64" where
  "enclave_prot mapping = (mapping AND 14) OR (PAGE_PRESENT OR PAGE_ACCESSED OR PAGE_DIRTY)"

text \<open>Reading and writing one word of a secure page, and clearing a page.\<close>

definition set_word :: "u64 \<Rightarrow> u64 \<Rightarrow> u64 \<Rightarrow> kom \<Rightarrow> kom" where
  "set_word p i v s = s\<lparr>secure_pages := (secure_pages s)(p := (secure_pages s p)(i := v))\<rparr>"

definition zero_page :: "u64 \<Rightarrow> kom \<Rightarrow> kom" where
  "zero_page p s = s\<lparr>secure_pages := (secure_pages s)(p := (\<lambda>_. 0))\<rparr>"

definition set_pagedb :: "u64 \<Rightarrow> kom_pagetype \<Rightarrow> u64 \<Rightarrow> kom \<Rightarrow> kom" where
  "set_pagedb p t a s = s\<lparr>g_pagedb := (g_pagedb s)(p := \<lparr>pg_type = t, pg_addrspace_page = a\<rparr>)\<rparr>"

definition disp_regs :: "kom \<Rightarrow> u64 \<Rightarrow> pt_regs" where
  "disp_regs s d = (\<lambda>r. secure_pages s d (DISP_REGS + pt_index r))"

definition disp_csrs :: "kom \<Rightarrow> u64 \<Rightarrow> csr \<Rightarrow> u64" where
  "disp_csrs s d = (\<lambda>c. secure_pages s d (disp_csr c))"

definition set_disp_regs :: "u64 \<Rightarrow> pt_regs \<Rightarrow> kom \<Rightarrow> kom" where
  "set_disp_regs d rs s = fold (\<lambda>r. set_word d (DISP_REGS + pt_index r) (rs r)) all_gprs s"

definition set_disp_csrs :: "u64 \<Rightarrow> csr_file \<Rightarrow> kom \<Rightarrow> kom" where
  "set_disp_csrs d f s = fold (\<lambda>c. set_word d (disp_csr c) (csr_read f c)) komodo_csrs s"

section \<open>The world switch\<close>

definition enter_secure_world :: "u64 \<Rightarrow> kom \<Rightarrow> unit kom_outcome" where
  "enter_secure_world dispatcher_pageno s =
     page_monvaddr dispatcher_pageno (\<lambda>d.
       let h = hstate s;
           h' = h\<lparr>host_regs := copy_pt_regs (host_regs h) (regs s),
                  host_csrs := save_csrs komodo_csrs (csrs s) (host_csrs h)\<rparr>;
           f = load_csrs komodo_csrs (disp_csrs s d) (csrs s);
           f = pmpcfg_write 5 (PMPCFG_A_TOR OR PMPCFG_R OR PMPCFG_W OR PMPCFG_X) f;
           f = csr_set MSTATUS SR_TVM f;
           f = csr_write MIDELEG 0 f;
           f = csr_write MEDELEG 0 f
       in Return () (s\<lparr>hstate := h', csrs := f, enclave_mode := True,
            g_cur_dispatcher_pageno := dispatcher_pageno\<rparr>))"

definition leave_secure_world :: "bool \<Rightarrow> kom \<Rightarrow> unit kom_outcome" where
  "leave_secure_world entered s =
     page_monvaddr (g_cur_dispatcher_pageno s) (\<lambda>d.
       let s1 = set_word d DISP_ENTERED (if entered then 1 else 0) s;
           s2 = set_disp_regs d (copy_pt_regs (disp_regs s1 d) (regs s1)) s1;
           s3 = set_disp_csrs d (csrs s2) s2;
           f = load_csrs komodo_csrs (host_csrs (hstate s3)) (csrs s3);
           f = pmpcfg_write 5 PMPCFG_A_TOR f;
           f = csr_clear MSTATUS SR_TVM f;
           f = csr_write MIDELEG IDEL_DEFAULT f;
           f = csr_write MEDELEG EDEL_DEFAULT f
       in Return () (s3\<lparr>csrs := f, enclave_mode := False, g_cur_dispatcher_pageno := 0\<rparr>))"

section \<open>Secure monitor calls\<close>

definition allocate_page :: "u64 \<Rightarrow> u64 \<Rightarrow> kom_pagetype \<Rightarrow> kom \<Rightarrow> u64 kom_outcome" where
  "allocate_page page addrspace_page t s =
     (if \<not> page_is_valid page then Return KOM_ERR_INVALID_PAGENO s
      else if \<not> page_is_free s page then Return KOM_ERR_PAGEINUSE s
      else page_monvaddr addrspace_page (\<lambda>addrspace.
        if secure_pages s addrspace AS_STATE \<noteq> KOM_ADDRSPACE_INIT
        then Return KOM_ERR_ALREADY_FINAL s
        else page_monvaddr page (\<lambda>p.
          let s1 = zero_page p s;
              s2 = set_pagedb page t addrspace_page s1;
              s3 = set_word addrspace AS_REFCOUNT (secure_pages s2 addrspace AS_REFCOUNT + 1) s2
          in Return KOM_ERR_SUCCESS s3)))"

definition kom_smc_query :: "kom \<Rightarrow> u64 kom_outcome" where
  "kom_smc_query s = Return KOM_MAGIC s"

definition kom_smc_get_phys_pages :: "kom \<Rightarrow> u64 kom_outcome" where
  "kom_smc_get_phys_pages s = Return KOM_SECURE_NPAGES s"

definition kom_smc_init_addrspace :: "u64 \<Rightarrow> u64 \<Rightarrow> kom \<Rightarrow> u64 kom_outcome" where
  "kom_smc_init_addrspace addrspace_page l1pt_page s =
     (if addrspace_page = l1pt_page \<or> \<not> (page_is_valid addrspace_page \<and> page_is_valid l1pt_page)
      then Return KOM_ERR_INVALID_PAGENO s
      else if \<not> (page_is_free s addrspace_page \<and> page_is_free s l1pt_page)
      then Return KOM_ERR_PAGEINUSE s
      else page_monvaddr addrspace_page (\<lambda>addrspace. page_monvaddr l1pt_page (\<lambda>l1pt.
        let s1 = zero_page l1pt (zero_page addrspace s);
            s2 = set_pagedb addrspace_page KOM_PAGE_ADDRSPACE addrspace_page s1;
            s3 = set_pagedb l1pt_page KOM_PAGE_L1PTABLE addrspace_page s2;
            s4 = set_word addrspace AS_L1PT l1pt_page s3;
            s5 = set_word addrspace AS_REFCOUNT 2 s4;
            s6 = set_word addrspace AS_STATE KOM_ADDRSPACE_INIT s5
        in Return KOM_ERR_SUCCESS s6)))"

definition kom_smc_init_dispatcher :: "kom_config \<Rightarrow> u64 \<Rightarrow> u64 \<Rightarrow> u64 \<Rightarrow> kom \<Rightarrow> u64 kom_outcome" where
  "kom_smc_init_dispatcher C page addrspace_page entrypoint s =
     (if \<not> page_is_typed s addrspace_page KOM_PAGE_ADDRSPACE
      then Return KOM_ERR_INVALID_ADDRSPACE s
      else obind (allocate_page page addrspace_page KOM_PAGE_DISPATCHER s) (\<lambda>err s.
        if err \<noteq> KOM_ERR_SUCCESS then Return err s
        else page_monvaddr addrspace_page (\<lambda>addrspace. page_monvaddr page (\<lambda>disp.
          page_monvaddr (secure_pages s addrspace AS_L1PT) (\<lambda>l1pt.
            let s1 = set_word disp (disp_csr MEPC) entrypoint s;
                s2 = set_word disp (disp_csr SATP)
                       (SATP_MODE_SV39 OR PFN_DOWN (page_paddr C l1pt)) s1;
                s3 = set_word disp (disp_csr SIE) IE_DEFAULT s2
            in Return KOM_ERR_SUCCESS s3)))))"

definition kom_smc_init_l2ptable :: "kom_config \<Rightarrow> u64 \<Rightarrow> u64 \<Rightarrow> u64 \<Rightarrow> kom \<Rightarrow> u64 kom_outcome" where
  "kom_smc_init_l2ptable C page l1pt_page l1_index s =
     (if l1_index \<ge> PTRS_PER_PMD then Return KOM_ERR_INVALID_MAPPING s
      else if \<not> page_is_typed s l1pt_page KOM_PAGE_L1PTABLE
      then Return KOM_ERR_INVALID_PAGENO s
      else page_monvaddr l1pt_page (\<lambda>l1pt.
        if secure_pages s l1pt l1_index \<noteq> 0 then Return KOM_ERR_ADDRINUSE s
        else obind (allocate_page page (pg_addrspace_page (g_pagedb s l1pt_page))
                     KOM_PAGE_L2PTABLE s) (\<lambda>err s.
          if err \<noteq> KOM_ERR_SUCCESS then Return err s
          else page_monvaddr page (\<lambda>p.
            Return KOM_ERR_SUCCESS
              (set_word l1pt l1_index (pfn_pgd (PFN_DOWN (page_paddr C p)) PAGE_TABLE) s)))))"

definition kom_smc_init_l3ptable :: "kom_config \<Rightarrow> u64 \<Rightarrow> u64 \<Rightarrow> u64 \<Rightarrow> kom \<Rightarrow> u64 kom_outcome" where
  "kom_smc_init_l3ptable C page l2pt_page l2_index s =
     (if l2_index \<ge> PTRS_PER_PMD then Return KOM_ERR_INVALID_MAPPING s
      else if \<not> page_is_typed s l2pt_page KOM_PAGE_L2PTABLE
      then Return KOM_ERR_INVALID_PAGENO s
      else page_monvaddr l2pt_page (\<lambda>l2pt.
        if secure_pages s l2pt l2_index \<noteq> 0 then Return KOM_ERR_ADDRINUSE s
        else obind (allocate_page page (pg_addrspace_page (g_pagedb s l2pt_page))
                     KOM_PAGE_L3PTABLE s) (\<lambda>err s.
          if err \<noteq> KOM_ERR_SUCCESS then Return err s
          else page_monvaddr page (\<lambda>p.
            Return KOM_ERR_SUCCESS
              (set_word l2pt l2_index (pfn_pmd (PFN_DOWN (page_paddr C p)) PAGE_TABLE) s)))))"

text \<open>\<^verbatim>\<open>memcpy(dst, src, SZ_4K)\<close> from an insecure page to a secure page.\<close>

definition copy_page :: "u64 \<Rightarrow> u64 \<Rightarrow> kom \<Rightarrow> kom" where
  "copy_page dst src s = s\<lparr>secure_pages := (secure_pages s)(dst := payload s src)\<rparr>"

definition kom_smc_map_secure ::
    "kom_config \<Rightarrow> u64 \<Rightarrow> u64 \<Rightarrow> u64 \<Rightarrow> u64 \<Rightarrow> u64 \<Rightarrow> kom \<Rightarrow> u64 kom_outcome" where
  "kom_smc_map_secure C page l3pt_page l3_index mapping content s =
     (if l3_index \<ge> PTRS_PER_PTE then Return KOM_ERR_INVALID_MAPPING s
      else if \<not> insecure_page_is_valid content then Return KOM_ERR_INVALID_PAGENO s
      else if \<not> page_is_typed s l3pt_page KOM_PAGE_L3PTABLE
      then Return KOM_ERR_INVALID_PAGENO s
      else page_monvaddr l3pt_page (\<lambda>l3pt.
        if secure_pages s l3pt l3_index \<noteq> 0 then Return KOM_ERR_ADDRINUSE s
        else obind (allocate_page page (pg_addrspace_page (g_pagedb s l3pt_page))
                     KOM_PAGE_DATA s) (\<lambda>err s.
          if err \<noteq> KOM_ERR_SUCCESS then Return err s
          else page_monvaddr page (\<lambda>p.
            let s1 = set_word l3pt l3_index
                       (pfn_pte (PFN_DOWN (page_paddr C p)) (enclave_prot mapping)) s
            in Return KOM_ERR_SUCCESS (copy_page p content s1)))))"

definition kom_smc_map_insecure ::
    "kom_config \<Rightarrow> u64 \<Rightarrow> u64 \<Rightarrow> u64 \<Rightarrow> u64 \<Rightarrow> kom \<Rightarrow> u64 kom_outcome" where
  "kom_smc_map_insecure C l3pt_page l3_index mapping insecure_pageno s =
     (if \<not> insecure_page_is_valid insecure_pageno then Return KOM_ERR_INVALID_PAGENO s
      else if l3_index \<ge> PTRS_PER_PTE then Return KOM_ERR_INVALID_MAPPING s
      else if \<not> page_is_typed s l3pt_page KOM_PAGE_L3PTABLE
      then Return KOM_ERR_INVALID_PAGENO s
      else page_monvaddr l3pt_page (\<lambda>l3pt.
        if secure_pages s l3pt l3_index \<noteq> 0 then Return KOM_ERR_ADDRINUSE s
        else page_monvaddr (pg_addrspace_page (g_pagedb s l3pt_page)) (\<lambda>addrspace.
          if secure_pages s addrspace AS_STATE \<noteq> KOM_ADDRSPACE_INIT
          then Return KOM_ERR_ALREADY_FINAL s
          else Return KOM_ERR_SUCCESS
                 (set_word l3pt l3_index
                    (pfn_pte (PFN_DOWN (insecure_page_paddr C insecure_pageno))
                       (enclave_prot mapping)) s))))"

text \<open>The last three statements of \<^verbatim>\<open>kom_smc_remove\<close>, which both branches share.\<close>

definition free_page :: "u64 \<Rightarrow> u64 \<Rightarrow> kom \<Rightarrow> kom" where
  "free_page addrspace pageno s =
     set_pagedb pageno KOM_PAGE_FREE (NOT 0)
       (set_word addrspace AS_REFCOUNT (secure_pages s addrspace AS_REFCOUNT - 1) s)"

definition kom_smc_remove :: "u64 \<Rightarrow> kom \<Rightarrow> u64 kom_outcome" where
  "kom_smc_remove pageno s =
     (if \<not> page_is_valid pageno then Return KOM_ERR_INVALID_PAGENO s
      else if pg_type (g_pagedb s pageno) = KOM_PAGE_FREE then Return KOM_ERR_SUCCESS s
      else if pg_type (g_pagedb s pageno) = KOM_PAGE_ADDRSPACE
      then page_monvaddr pageno (\<lambda>addrspace.
        if secure_pages s addrspace AS_REFCOUNT \<noteq> 1 then Return KOM_ERR_PAGEINUSE s
        else if secure_pages s addrspace AS_STATE \<noteq> KOM_ADDRSPACE_STOPPED
        then Return KOM_ERR_NOT_STOPPED s
        else Return KOM_ERR_SUCCESS (free_page addrspace pageno s))
      else page_monvaddr (pg_addrspace_page (g_pagedb s pageno)) (\<lambda>addrspace.
        if secure_pages s addrspace AS_STATE \<noteq> KOM_ADDRSPACE_STOPPED
        then Return KOM_ERR_NOT_STOPPED s
        else Return KOM_ERR_SUCCESS (free_page addrspace pageno s)))"

definition kom_smc_finalise :: "u64 \<Rightarrow> kom \<Rightarrow> u64 kom_outcome" where
  "kom_smc_finalise addrspace_page s =
     (if \<not> page_is_typed s addrspace_page KOM_PAGE_ADDRSPACE
      then Return KOM_ERR_INVALID_ADDRSPACE s
      else page_monvaddr addrspace_page (\<lambda>addrspace.
        if secure_pages s addrspace AS_STATE \<noteq> KOM_ADDRSPACE_INIT
        then Return KOM_ERR_ALREADY_FINAL s
        else Return KOM_ERR_SUCCESS (set_word addrspace AS_STATE KOM_ADDRSPACE_FINAL s)))"

definition kom_smc_stop :: "u64 \<Rightarrow> kom \<Rightarrow> u64 kom_outcome" where
  "kom_smc_stop addrspace_page s =
     (if \<not> page_is_typed s addrspace_page KOM_PAGE_ADDRSPACE
      then Return KOM_ERR_INVALID_ADDRSPACE s
      else page_monvaddr addrspace_page (\<lambda>addrspace.
        Return KOM_ERR_SUCCESS (set_word addrspace AS_STATE KOM_ADDRSPACE_STOPPED s)))"

text \<open>\<^verbatim>\<open>enter_secure_world\<close> followed by \<^verbatim>\<open>mret_with_regs(&dispatcher->regs)\<close>.\<close>

definition run_dispatcher :: "u64 \<Rightarrow> kom \<Rightarrow> u64 kom_outcome" where
  "run_dispatcher disp_page s =
     obind (enter_secure_world disp_page s) (\<lambda>_ s. Mret (disp_regs s disp_page) s)"

definition kom_smc_enter :: "u64 \<Rightarrow> u64 \<Rightarrow> u64 \<Rightarrow> u64 \<Rightarrow> kom \<Rightarrow> u64 kom_outcome" where
  "kom_smc_enter disp_page arg1 arg2 arg3 s =
     (if \<not> page_is_typed s disp_page KOM_PAGE_DISPATCHER then Return KOM_ERR_INVALID_PAGENO s
      else page_monvaddr disp_page (\<lambda>dispatcher.
        page_monvaddr (pg_addrspace_page (g_pagedb s disp_page)) (\<lambda>addrspace.
          if secure_pages s addrspace AS_STATE \<noteq> KOM_ADDRSPACE_FINAL
          then Return KOM_ERR_NOT_FINAL s
          else if secure_pages s dispatcher DISP_ENTERED \<noteq> 0
          then Return KOM_ERR_ALREADY_ENTERED s
          else
            let s1 = set_word dispatcher (DISP_REGS + pt_index A0) arg1 s;
                s2 = set_word dispatcher (DISP_REGS + pt_index A1) arg2 s1;
                s3 = set_word dispatcher (DISP_REGS + pt_index A2) arg3 s2
            in run_dispatcher disp_page s3)))"

definition kom_smc_resume :: "u64 \<Rightarrow> kom \<Rightarrow> u64 kom_outcome" where
  "kom_smc_resume disp_page s =
     (if \<not> page_is_typed s disp_page KOM_PAGE_DISPATCHER then Return KOM_ERR_INVALID_PAGENO s
      else page_monvaddr disp_page (\<lambda>dispatcher.
        page_monvaddr (pg_addrspace_page (g_pagedb s disp_page)) (\<lambda>addrspace.
          if secure_pages s addrspace AS_STATE \<noteq> KOM_ADDRSPACE_FINAL
          then Return KOM_ERR_NOT_FINAL s
          else if secure_pages s dispatcher DISP_ENTERED = 0
          then Return KOM_ERR_NOT_ENTERED s
          else run_dispatcher disp_page s)))"

section \<open>Returning to the host\<close>

definition set_host_result :: "u64 \<Rightarrow> u64 \<Rightarrow> kom \<Rightarrow> kom" where
  "set_host_result r v s =
     s\<lparr>hstate := (hstate s)\<lparr>host_regs := (host_regs (hstate s))(A0 := r, A1 := v)\<rparr>\<rparr>"

definition kom_svc_exit :: "u64 \<Rightarrow> kom \<Rightarrow> u64 kom_outcome" where
  "kom_svc_exit exitvalue s =
     obind (leave_secure_world False (set_host_result KOM_ERR_SUCCESS exitvalue s))
       (\<lambda>_ s. Mret (host_regs (hstate s)) s)"

definition kom_handle_trap :: "u64 \<Rightarrow> kom \<Rightarrow> u64 kom_outcome" where
  "kom_handle_trap cause s =
     obind (leave_secure_world True
              (set_host_result (if sint cause < 0 then KOM_ERR_INTERRUPTED else KOM_ERR_FAULT) cause s))
       (\<lambda>_ s. Mret (host_regs (hstate s)) s)"

section \<open>Trap dispatch\<close>

text \<open>The prologue of both call handlers advances \<^verbatim>\<open>mepc\<close>; the epilogue stores the result in \<^verbatim>\<open>a0\<close>.\<close>

definition skip_ecall :: "kom \<Rightarrow> kom" where
  "skip_ecall s = s\<lparr>csrs := csr_write MEPC (csr_read (csrs s) MEPC + 4) (csrs s)\<rparr>"

definition set_a0 :: "u64 kom_outcome \<Rightarrow> unit kom_outcome" where
  "set_a0 m = obind m (\<lambda>r s. Return () (s\<lparr>regs := (regs s)(A0 := r)\<rparr>))"

definition smc_call :: "kom_config \<Rightarrow> kom \<Rightarrow> u64 kom_outcome" where
  "smc_call C s =
     (let nr = regs s A7; a0 = regs s A0; a1 = regs s A1; a2 = regs s A2;
          a3 = regs s A3; a4 = regs s A4 in
      if \<not> CONFIG_VERIFICATION C \<and> nr \<le> SBI_LAST
      then map_outcome id id (\<lambda>i. s\<lparr>kio := i\<rparr>) (do_mcall (CONFIG_VERIFICATION C) (regs s) (kio s))
      else if nr = 10 then kom_smc_query s
      else if nr = 11 then kom_smc_get_phys_pages s
      else if nr = 12 then kom_smc_init_addrspace a0 a1 s
      else if nr = 13 then kom_smc_init_dispatcher C a0 a1 a2 s
      else if nr = 14 then kom_smc_init_l2ptable C a0 a1 a2 s
      else if nr = 15 then kom_smc_init_l3ptable C a0 a1 a2 s
      else if nr = 16 then kom_smc_map_secure C a0 a1 a2 a3 a4 s
      else if nr = 17 then kom_smc_map_insecure C a0 a1 a2 a3 s
      else if nr = 20 then kom_smc_remove a0 s
      else if nr = 21 then kom_smc_finalise a0 s
      else if nr = 22 then kom_smc_enter a0 a1 a2 a3 s
      else if nr = 23 then kom_smc_resume a0 s
      else if nr = 29 then kom_smc_stop a0 s
      else Return (- ENOSYS) s)"

definition do_smc_calls :: "kom_config \<Rightarrow> kom \<Rightarrow> unit kom_outcome" where
  "do_smc_calls C s = set_a0 (smc_call C (skip_ecall s))"

definition do_svc_calls :: "kom \<Rightarrow> unit kom_outcome" where
  "do_svc_calls s =
     (let s = skip_ecall s in
      set_a0 (if regs s A7 = 30 then kom_svc_exit (regs s A0) s else Return (- ENOSYS) s))"

definition do_trap_ecall_s :: "kom_config \<Rightarrow> kom \<Rightarrow> unit kom_outcome" where
  "do_trap_ecall_s C s =
     (if \<not> CONFIG_VERIFICATION C \<and> csr_read (csrs s) MSTATUS AND SR_MPP = SR_MPP_M then Panic
      else if \<not> CONFIG_VERIFICATION C \<and> csr_read (csrs s) MSTATUS AND SR_MPP = SR_MPP_U then Panic
      else if enclave_mode s then do_svc_calls s
      else do_smc_calls C s)"

definition do_trap :: "kom_config \<Rightarrow> u64 \<Rightarrow> kom \<Rightarrow> unit kom_outcome" where
  "do_trap C cause s =
     (if cause = EXC_ECALL_S then do_trap_ecall_s C s
      else if enclave_mode s then obind (kom_handle_trap cause s) (\<lambda>_ s. Return () s)
      else Return () s)"

section \<open>Boot\<close>

definition init_monitor :: "kom \<Rightarrow> kom" where
  "init_monitor s = s\<lparr>
     enclave_mode := False,
     g_cur_dispatcher_pageno := 0,
     g_pagedb := (\<lambda>p. if page_is_valid p then \<lparr>pg_type = KOM_PAGE_FREE, pg_addrspace_page = 0\<rparr>
                      else g_pagedb s p),
     secure_pages := (\<lambda>p. if page_is_valid p then (\<lambda>_. 0) else secure_pages s p),
     hstate := \<lparr>host_regs = (\<lambda>_. 0), host_csrs = (\<lambda>_. 0)\<rparr>\<rparr>"

definition kom_pmp_init :: "kom_config \<Rightarrow> csr_file \<Rightarrow> csr_file" where
  "kom_pmp_init C f =
     (let rwx = PMPCFG_R OR PMPCFG_W OR PMPCFG_X;
          pa_insecure_start = payload_addr C;
          pa_insecure_end = pa_insecure_start + KOM_INSECURE_RESERVE;
          pa_secure_start = secure_pages_addr C;
          pa_secure_end = pa_secure_start + KOM_SECURE_RESERVE;
          f = pmpaddr_write PMPADDR2 pa_insecure_start f;
          f = pmpaddr_write PMPADDR3 pa_insecure_end f;
          f = pmpcfg_write 2 PMPCFG_A_OFF f;
          f = pmpcfg_write 3 (PMPCFG_A_TOR OR rwx) f;
          f = pmpaddr_write PMPADDR4 pa_secure_start f;
          f = pmpaddr_write PMPADDR5 pa_secure_end f;
          f = pmpcfg_write 4 PMPCFG_A_OFF f
      in pmpcfg_write 5 PMPCFG_A_TOR f)"

text \<open>
  The production build clears the registers it does not set; the verification build leaves
  them as they are on the stack (\<open>junk\<close>).
\<close>

definition supervisor_init :: "kom_config \<Rightarrow> pt_regs \<Rightarrow> u64 \<Rightarrow> u64 \<Rightarrow> kom \<Rightarrow> unit kom_outcome" where
  "supervisor_init C junk hartid dtb s =
     (let rs = (if CONFIG_VERIFICATION C then junk else (\<lambda>_. 0))(A0 := hartid, A1 := dtb);
          f = kom_pmp_init C (csrs s);
          f = csr_write MSTATUS SR_MPP_S f;
          f = csr_write MCOUNTEREN (ucast (NOT 0 :: u32)) f;
          f = csr_write MEDELEG EDEL_DEFAULT f;
          f = csr_write MIDELEG IDEL_DEFAULT f;
          f = csr_write MEPC (payload_addr C) f
      in Mret rs (s\<lparr>csrs := f\<rparr>))"

definition kom_main :: "kom_config \<Rightarrow> pt_regs \<Rightarrow> u64 \<Rightarrow> u64 \<Rightarrow> kom \<Rightarrow> unit kom_outcome" where
  "kom_main C junk hartid kernel_dtb s = supervisor_init C junk hartid kernel_dtb (init_monitor s)"

end
