(* ===== verification/Komodo_Inv.thy ===== *)
theory Komodo_Inv
  imports Komodo
begin

text \<open>
  The invariant of the Komodo monitor and its preservation. The page invariant \<open>page_inv\<close> speaks
  of the page database and the secure pages: owners, reference counts, states of address
  spaces, page tables and the translation registers saved in dispatchers. \<open>mode_inv\<close>
  speaks of the world the machine is in and of the registers that confine it. Every effect that the
  handlers have on the pages is one of five primitives, each with one preservation lemma.
\<close>

unbundle bit_operations_syntax

section \<open>The page invariant\<close>

type_synonym pagedb = "u64 \<Rightarrow> kom_pagedb_entry"
type_synonym pages = "u64 \<Rightarrow> u64 \<Rightarrow> u64"

definition ptyped :: "pagedb \<Rightarrow> u64 \<Rightarrow> kom_pagetype \<Rightarrow> bool" where
  "ptyped db p t \<longleftrightarrow> page_is_valid p \<and> pg_type (db p) = t"

abbreviation powner :: "pagedb \<Rightarrow> u64 \<Rightarrow> u64" where
  "powner db p \<equiv> pg_addrspace_page (db p)"

definition used :: "pagedb \<Rightarrow> u64 \<Rightarrow> bool" where
  "used db p \<longleftrightarrow> page_is_valid p \<and> pg_type (db p) \<noteq> KOM_PAGE_FREE"

definition owned :: "pagedb \<Rightarrow> u64 \<Rightarrow> u64 set" where
  "owned db a = {p. used db p \<and> powner db p = a}"

text \<open>An address space that has not been stopped.\<close>

definition live :: "pagedb \<Rightarrow> pages \<Rightarrow> u64 \<Rightarrow> bool" where
  "live db pg a \<longleftrightarrow> ptyped db a KOM_PAGE_ADDRSPACE \<and> pg a AS_STATE \<noteq> KOM_ADDRSPACE_STOPPED"

definition table_entry :: "kom_config \<Rightarrow> u64 \<Rightarrow> u64" where
  "table_entry C q = pfn_pgd (PFN_DOWN (page_paddr C q)) PAGE_TABLE"

text \<open>The entries a table of a given type may hold when its owner is \<open>a\<close>.\<close>

definition entry_ok :: "kom_config \<Rightarrow> pagedb \<Rightarrow> u64 \<Rightarrow> kom_pagetype \<Rightarrow> u64 \<Rightarrow> bool" where
  "entry_ok C db a t e \<longleftrightarrow> e = 0 \<or> (case t of
      KOM_PAGE_L1PTABLE \<Rightarrow> (\<exists>q. ptyped db q KOM_PAGE_L2PTABLE \<and> powner db q = a \<and> e = table_entry C q)
    | KOM_PAGE_L2PTABLE \<Rightarrow> (\<exists>q. ptyped db q KOM_PAGE_L3PTABLE \<and> powner db q = a \<and> e = table_entry C q)
    | KOM_PAGE_L3PTABLE \<Rightarrow>
        (\<exists>q m. ptyped db q KOM_PAGE_DATA \<and> powner db q = a \<and>
               e = pfn_pte (PFN_DOWN (page_paddr C q)) (enclave_prot m)) \<or>
        (\<exists>q m. insecure_page_is_valid q \<and>
               e = pfn_pte (PFN_DOWN (insecure_page_paddr C q)) (enclave_prot m))
    | _ \<Rightarrow> True)"

definition enclave_satp :: "kom_config \<Rightarrow> pages \<Rightarrow> u64 \<Rightarrow> u64" where
  "enclave_satp C pg a = SATP_MODE_SV39 OR PFN_DOWN (page_paddr C (pg a AS_L1PT))"

definition owner_inv :: "pagedb \<Rightarrow> bool" where
  "owner_inv db \<longleftrightarrow> (\<forall>p. used db p \<longrightarrow> ptyped db (powner db p) KOM_PAGE_ADDRSPACE)"

definition self_inv :: "pagedb \<Rightarrow> bool" where
  "self_inv db \<longleftrightarrow> (\<forall>a. ptyped db a KOM_PAGE_ADDRSPACE \<longrightarrow> powner db a = a)"

definition refcount_inv :: "pagedb \<Rightarrow> pages \<Rightarrow> bool" where
  "refcount_inv db pg \<longleftrightarrow>
     (\<forall>a. ptyped db a KOM_PAGE_ADDRSPACE \<longrightarrow> pg a AS_REFCOUNT = of_nat (card (owned db a)))"

definition state_inv :: "pagedb \<Rightarrow> pages \<Rightarrow> bool" where
  "state_inv db pg \<longleftrightarrow>
     (\<forall>a. ptyped db a KOM_PAGE_ADDRSPACE \<longrightarrow> pg a AS_STATE \<le> KOM_ADDRSPACE_STOPPED)"

definition l1pt_inv :: "pagedb \<Rightarrow> pages \<Rightarrow> bool" where
  "l1pt_inv db pg \<longleftrightarrow> (\<forall>a. live db pg a \<longrightarrow>
     ptyped db (pg a AS_L1PT) KOM_PAGE_L1PTABLE \<and> powner db (pg a AS_L1PT) = a)"

definition satp_inv :: "kom_config \<Rightarrow> pagedb \<Rightarrow> pages \<Rightarrow> bool" where
  "satp_inv C db pg \<longleftrightarrow>
     (\<forall>d. ptyped db d KOM_PAGE_DISPATCHER \<and> live db pg (powner db d) \<longrightarrow>
        pg d (disp_csr SATP) = enclave_satp C pg (powner db d))"

definition table_inv :: "kom_config \<Rightarrow> pagedb \<Rightarrow> pages \<Rightarrow> bool" where
  "table_inv C db pg \<longleftrightarrow>
     (\<forall>p i. used db p \<and> live db pg (powner db p) \<longrightarrow>
        entry_ok C db (powner db p) (pg_type (db p)) (pg p i))"

definition page_inv :: "kom_config \<Rightarrow> pagedb \<Rightarrow> pages \<Rightarrow> bool" where
  "page_inv C db pg \<longleftrightarrow> owner_inv db \<and> self_inv db \<and> refcount_inv db pg \<and> state_inv db pg \<and>
     l1pt_inv db pg \<and> satp_inv C db pg \<and> table_inv C db pg"

lemmas inv_defs = owner_inv_def self_inv_def refcount_inv_def state_inv_def l1pt_inv_def
  satp_inv_def table_inv_def

lemma ptyped_valid: "ptyped db p t \<Longrightarrow> page_is_valid p"
  by (simp add: ptyped_def)

lemma ptyped_type: "ptyped db p t \<Longrightarrow> pg_type (db p) = t"
  by (simp add: ptyped_def)

lemma ptyped_used: "ptyped db p t \<Longrightarrow> t \<noteq> KOM_PAGE_FREE \<Longrightarrow> used db p"
  by (simp add: ptyped_def used_def)

lemma used_not_free: "used db p \<Longrightarrow> \<not> ptyped db p KOM_PAGE_FREE"
  by (simp add: ptyped_def used_def)

lemma page_is_typed_ptyped: "page_is_typed s p t = ptyped (g_pagedb s) p t"
  by (simp add: page_is_typed_def ptyped_def)

lemma page_is_free_ptyped: "page_is_free s p = ptyped (g_pagedb s) p KOM_PAGE_FREE"
  by (simp add: page_is_free_def page_is_typed_ptyped)

lemma card_owned_le: "card (owned db a) \<le> 1024"
proof -
  have "owned db a \<subseteq> {p. p < KOM_SECURE_NPAGES}"
    by (auto simp: owned_def used_def page_is_valid_def)
  then have "card (owned db a) \<le> card {p :: u64. p < KOM_SECURE_NPAGES}"
    by (rule card_mono [rotated]) simp
  also have "\<dots> = 1024" by (simp add: card_less_word)
  finally show ?thesis .
qed

lemma page_invD:
  assumes "page_inv C db pg"
  shows "used db p \<Longrightarrow> ptyped db (powner db p) KOM_PAGE_ADDRSPACE"
    and "ptyped db a KOM_PAGE_ADDRSPACE \<Longrightarrow> powner db a = a"
    and "ptyped db a KOM_PAGE_ADDRSPACE \<Longrightarrow> pg a AS_REFCOUNT = of_nat (card (owned db a))"
    and "ptyped db a KOM_PAGE_ADDRSPACE \<Longrightarrow> pg a AS_STATE \<le> KOM_ADDRSPACE_STOPPED"
    and "live db pg a \<Longrightarrow> ptyped db (pg a AS_L1PT) KOM_PAGE_L1PTABLE"
    and "live db pg a \<Longrightarrow> powner db (pg a AS_L1PT) = a"
    and "ptyped db d KOM_PAGE_DISPATCHER \<Longrightarrow> live db pg (powner db d) \<Longrightarrow>
           pg d (disp_csr SATP) = enclave_satp C pg (powner db d)"
    and "used db p \<Longrightarrow> live db pg (powner db p) \<Longrightarrow>
           entry_ok C db (powner db p) (pg_type (db p)) (pg p i)"
  using assms unfolding page_inv_def inv_defs by blast+

text \<open>The owner of a used page is a valid page, so \<^verbatim>\<open>page_monvaddr\<close> accepts it.\<close>

lemma owner_valid: "page_inv C db pg \<Longrightarrow> ptyped db p t \<Longrightarrow> t \<noteq> KOM_PAGE_FREE \<Longrightarrow>
    page_is_valid (powner db p)"
  using page_invD(1) ptyped_used ptyped_valid by blast

lemma ptyped_upd:
  "ptyped (db(p := e)) q t \<longleftrightarrow> (if q = p then page_is_valid p \<and> pg_type e = t else ptyped db q t)"
  by (simp add: ptyped_def)

lemma used_upd:
  "used (db(p := e)) q \<longleftrightarrow> (if q = p then page_is_valid p \<and> pg_type e \<noteq> KOM_PAGE_FREE else used db q)"
  by (simp add: used_def)

lemma disp_csr_SATP [simp]: "disp_csr SATP = 33"
  by (simp add: disp_csr_def)

section \<open>Allocating a page\<close>

text \<open>
  The net effect of a successful \<^verbatim>\<open>allocate_page\<close> after which the caller has filled the page:
  page \<open>p\<close> gets type \<open>t\<close>, owner \<open>a\<close> and contents \<open>w\<close>, and the owner one more reference.
\<close>

definition alloc_db :: "u64 \<Rightarrow> u64 \<Rightarrow> kom_pagetype \<Rightarrow> pagedb \<Rightarrow> pagedb" where
  "alloc_db p a t db = db(p := \<lparr>pg_type = t, pg_addrspace_page = a\<rparr>)"

definition alloc_pg :: "u64 \<Rightarrow> u64 \<Rightarrow> (u64 \<Rightarrow> u64) \<Rightarrow> pages \<Rightarrow> pages" where
  "alloc_pg p a w pg = pg(p := w, a := (pg a)(AS_REFCOUNT := pg a AS_REFCOUNT + 1))"

definition content_ok :: "kom_config \<Rightarrow> pages \<Rightarrow> u64 \<Rightarrow> kom_pagetype \<Rightarrow> (u64 \<Rightarrow> u64) \<Rightarrow> bool" where
  "content_ok C pg a t w \<longleftrightarrow>
     (t = KOM_PAGE_DISPATCHER \<and> w (disp_csr SATP) = enclave_satp C pg a) \<or>
     (t \<in> {KOM_PAGE_L2PTABLE, KOM_PAGE_L3PTABLE} \<and> w = (\<lambda>_. 0)) \<or> t = KOM_PAGE_DATA"

text \<open>Entries stay well formed as long as no page they can refer to changes its type or owner.\<close>

lemma entry_ok_mono:
  assumes "entry_ok C db b k e"
    and "\<And>q u. ptyped db q u \<Longrightarrow> u \<noteq> KOM_PAGE_FREE \<Longrightarrow> powner db q = b \<Longrightarrow>
           ptyped db' q u \<and> powner db' q = b"
  shows "entry_ok C db' b k e"
proof -
  have keep: "ptyped db q u \<and> powner db q = b \<Longrightarrow> u \<noteq> KOM_PAGE_FREE \<Longrightarrow>
      ptyped db' q u \<and> powner db' q = b" for q u
    using assms(2) by blast
  show ?thesis
  proof (cases "e = 0")
    case False
    then show ?thesis
      using assms(1) unfolding entry_ok_def
      by (cases k) (simp_all, (use keep in blast)+)
  qed (simp add: entry_ok_def)
qed

lemma entry_ok_alloc:
  assumes "entry_ok C db b k e" and "ptyped db p KOM_PAGE_FREE"
  shows "entry_ok C (alloc_db p a t db) b k e"
  using assms(1)
  by (rule entry_ok_mono) (use assms(2) in \<open>auto simp: alloc_db_def ptyped_def\<close>)

lemma alloc_frame:
  assumes "ptyped db p KOM_PAGE_FREE" and "ptyped db a KOM_PAGE_ADDRSPACE"
  shows "p \<noteq> a" and "\<And>q u. u \<noteq> KOM_PAGE_FREE \<Longrightarrow> ptyped db q u \<Longrightarrow> q \<noteq> p"
    and "\<And>q. used db q \<Longrightarrow> q \<noteq> p"
  using assms by (auto simp: ptyped_def used_def)

lemma free_not_owned: "ptyped db p KOM_PAGE_FREE \<Longrightarrow> p \<notin> owned db a"
  by (simp add: owned_def used_def ptyped_def)

lemma owned_alloc:
  assumes "ptyped db p KOM_PAGE_FREE" and "t \<noteq> KOM_PAGE_FREE"
  shows "owned (alloc_db p a t db) b = (if b = a then insert p (owned db a) else owned db b)"
  using assms by (auto simp: owned_def alloc_db_def used_def ptyped_def)

lemma content_ok_type:
  "content_ok C pg a t w \<Longrightarrow> t \<noteq> KOM_PAGE_FREE \<and> t \<noteq> KOM_PAGE_ADDRSPACE \<and> t \<noteq> KOM_PAGE_L1PTABLE"
  by (auto simp: content_ok_def)

lemma ptyped_alloc:
  assumes "ptyped db p KOM_PAGE_FREE"
  shows "ptyped (alloc_db p a t db) q u \<longleftrightarrow> (if q = p then u = t else ptyped db q u)"
  using assms by (auto simp: alloc_db_def ptyped_def)

lemma alloc_AS:
  assumes "ptyped db p KOM_PAGE_FREE" and "t \<noteq> KOM_PAGE_ADDRSPACE"
  shows "ptyped (alloc_db p a t db) b KOM_PAGE_ADDRSPACE \<longleftrightarrow> ptyped db b KOM_PAGE_ADDRSPACE"
    and "live (alloc_db p a t db) (alloc_pg p a w pg) b \<longleftrightarrow> live db pg b"
  using assms by (auto simp: alloc_db_def alloc_pg_def ptyped_def live_def)

lemma used_alloc:
  assumes "ptyped db p KOM_PAGE_FREE" and "t \<noteq> KOM_PAGE_FREE"
  shows "used (alloc_db p a t db) q \<longleftrightarrow> q = p \<or> used db q"
  using assms by (auto simp: alloc_db_def ptyped_def used_def)

lemma alloc_apply:
  "powner (alloc_db p a t db) q = (if q = p then a else powner db q)"
  "pg_type (alloc_db p a t db q) = (if q = p then t else pg_type (db q))"
  "p \<noteq> a \<Longrightarrow> alloc_pg p a w pg q i =
     (if q = p then w i else if q = a \<and> i = AS_REFCOUNT then pg a i + 1 else pg q i)"
  by (auto simp: alloc_db_def alloc_pg_def)

text \<open>The tables, dispatchers and root tables that an allocation leaves alone.\<close>

lemma table_inv_alloc:
  assumes inv: "page_inv C db pg" and free: "ptyped db p KOM_PAGE_FREE"
    and as: "ptyped db a KOM_PAGE_ADDRSPACE" and ok: "content_ok C pg a t w"
  shows "table_inv C (alloc_db p a t db) (alloc_pg p a w pg)"
  unfolding table_inv_def
proof (intro allI impI)
  fix q i
  let ?db = "alloc_db p a t db" and ?pg = "alloc_pg p a w pg"
  note t = content_ok_type [OF ok] and ne = alloc_frame [OF free as]
  assume *: "used ?db q \<and> live ?db ?pg (powner ?db q)"
  show "entry_ok C ?db (powner ?db q) (pg_type (?db q)) (?pg q i)"
  proof (cases "q = p")
    case True
    with ok ne show ?thesis by (auto simp: alloc_apply entry_ok_def content_ok_def)
  next
    case False
    with * t free have "used db q" "live db pg (powner db q)"
      by (auto simp: used_alloc alloc_AS alloc_apply)
    then have old: "entry_ok C ?db (powner db q) (pg_type (db q)) (pg q i)"
      using page_invD(8) [OF inv] entry_ok_alloc [OF _ free] by blast
    show ?thesis
    proof (cases "q = a")
      case True
      with as have "pg_type (db q) = KOM_PAGE_ADDRSPACE" by (simp add: ptyped_def)
      with False show ?thesis by (simp add: alloc_apply entry_ok_def)
    next
      case not_a: False
      with old False ne show ?thesis by (simp add: alloc_apply)
    qed
  qed
qed

lemma satp_inv_alloc:
  assumes inv: "page_inv C db pg" and free: "ptyped db p KOM_PAGE_FREE"
    and as: "ptyped db a KOM_PAGE_ADDRSPACE" and ok: "content_ok C pg a t w"
  shows "satp_inv C (alloc_db p a t db) (alloc_pg p a w pg)"
  unfolding satp_inv_def
proof (intro allI impI)
  fix d
  let ?db = "alloc_db p a t db" and ?pg = "alloc_pg p a w pg"
  note t = content_ok_type [OF ok] and ne = alloc_frame [OF free as]
  assume *: "ptyped ?db d KOM_PAGE_DISPATCHER \<and> live ?db ?pg (powner ?db d)"
  show "?pg d (disp_csr SATP) = enclave_satp C ?pg (powner ?db d)"
  proof (cases "d = p")
    case True
    with * ok free ne show ?thesis
      by (auto simp: alloc_apply ptyped_alloc content_ok_def enclave_satp_def)
  next
    case False
    with * t free have d: "ptyped db d KOM_PAGE_DISPATCHER" "live db pg (powner db d)"
      by (auto simp: ptyped_alloc alloc_AS alloc_apply)
    then have "powner db d \<noteq> p" using free by (auto simp: live_def ptyped_def)
    moreover have "d \<noteq> a" using d as by (auto simp: ptyped_def)
    ultimately show ?thesis
      using page_invD(7) [OF inv d] False ne by (simp add: alloc_apply enclave_satp_def)
  qed
qed

lemma l1pt_inv_alloc:
  assumes inv: "page_inv C db pg" and free: "ptyped db p KOM_PAGE_FREE"
    and as: "ptyped db a KOM_PAGE_ADDRSPACE" and t: "t \<noteq> KOM_PAGE_ADDRSPACE"
  shows "l1pt_inv (alloc_db p a t db) (alloc_pg p a w pg)"
  unfolding l1pt_inv_def
proof (intro allI impI)
  fix b
  let ?db = "alloc_db p a t db" and ?pg = "alloc_pg p a w pg"
  note ne = alloc_frame [OF free as]
  assume "live ?db ?pg b"
  with t free have b: "live db pg b" by (simp add: alloc_AS)
  then have "b \<noteq> p" using free by (auto simp: live_def ptyped_def)
  moreover from page_invD(5) [OF inv b] have "pg b AS_L1PT \<noteq> p"
    using free by (auto simp: ptyped_def)
  ultimately show "ptyped ?db (?pg b AS_L1PT) KOM_PAGE_L1PTABLE \<and> powner ?db (?pg b AS_L1PT) = b"
    using page_invD(5,6) [OF inv b] ne free by (simp add: alloc_apply ptyped_alloc)
qed

lemma page_inv_alloc:
  assumes inv: "page_inv C db pg" and free: "ptyped db p KOM_PAGE_FREE"
    and as: "ptyped db a KOM_PAGE_ADDRSPACE" and ok: "content_ok C pg a t w"
  shows "page_inv C (alloc_db p a t db) (alloc_pg p a w pg)"
proof -
  let ?db = "alloc_db p a t db" and ?pg = "alloc_pg p a w pg"
  note t = content_ok_type [OF ok] and ne = alloc_frame [OF free as]
  note D = page_invD [OF inv]
  have "owner_inv ?db"
    using t free as D(1) ne
    by (auto simp: owner_inv_def used_alloc alloc_AS alloc_apply)
  moreover have "self_inv ?db"
    using t free D(2) by (auto simp: self_inv_def alloc_AS alloc_apply ptyped_def)
  moreover have "refcount_inv ?db ?pg"
    unfolding refcount_inv_def
  proof (intro allI impI)
    fix b assume "ptyped ?db b KOM_PAGE_ADDRSPACE"
    with t free have b: "ptyped db b KOM_PAGE_ADDRSPACE" by (simp add: alloc_AS)
    then have "b \<noteq> p" using free by (auto simp: ptyped_def)
    then show "?pg b AS_REFCOUNT = of_nat (card (owned ?db b))"
      using D(3) [OF b] t free ne by (auto simp: alloc_apply owned_alloc free_not_owned)
  qed
  moreover have "state_inv ?db ?pg"
    using t free ne D(4) by (auto simp: state_inv_def alloc_AS alloc_apply ptyped_def)
  ultimately show ?thesis
    using table_inv_alloc [OF assms] satp_inv_alloc [OF assms] l1pt_inv_alloc [OF inv free as] t
    by (simp add: page_inv_def)
qed

section \<open>Changing words of a page\<close>

text \<open>
  A change of page contents that keeps the page database keeps the invariant if it keeps the fields
  of address spaces, the saved translation root of dispatchers, and gives tables good entries.
\<close>

definition word_change :: "kom_config \<Rightarrow> pagedb \<Rightarrow> pages \<Rightarrow> pages \<Rightarrow> bool" where
  "word_change C db pg pg' \<longleftrightarrow> (\<forall>p i. pg' p i = pg p i \<or>
     ptyped db p KOM_PAGE_DATA \<or> \<not> used db p \<or>
     (ptyped db p KOM_PAGE_DISPATCHER \<and> i \<noteq> disp_csr SATP) \<or>
     (pg_type (db p) \<in> {KOM_PAGE_L1PTABLE, KOM_PAGE_L2PTABLE, KOM_PAGE_L3PTABLE} \<and>
      entry_ok C db (powner db p) (pg_type (db p)) (pg' p i)))"

lemma word_changeD:
  assumes "word_change C db pg pg'"
  shows "ptyped db a KOM_PAGE_ADDRSPACE \<Longrightarrow> pg' a i = pg a i"
    and "ptyped db d KOM_PAGE_DISPATCHER \<Longrightarrow> pg' d (disp_csr SATP) = pg d (disp_csr SATP)"
    and "pg' p i = pg p i \<or> pg_type (db p) = KOM_PAGE_DATA \<or> \<not> used db p \<or>
         pg_type (db p) = KOM_PAGE_DISPATCHER \<or>
         entry_ok C db (powner db p) (pg_type (db p)) (pg' p i)"
proof -
  note W = assms [unfolded word_change_def, rule_format]
  show "ptyped db a KOM_PAGE_ADDRSPACE \<Longrightarrow> pg' a i = pg a i"
    using W [of a i] by (auto simp: ptyped_def used_def)
  show "ptyped db d KOM_PAGE_DISPATCHER \<Longrightarrow> pg' d (disp_csr SATP) = pg d (disp_csr SATP)"
    using W [of d "disp_csr SATP"] by (auto simp: ptyped_def used_def)
  show "pg' p i = pg p i \<or> pg_type (db p) = KOM_PAGE_DATA \<or> \<not> used db p \<or>
        pg_type (db p) = KOM_PAGE_DISPATCHER \<or>
        entry_ok C db (powner db p) (pg_type (db p)) (pg' p i)"
    using W [of p i] by (auto simp: ptyped_def)
qed

lemma entry_ok_not_table [simp]:
  "entry_ok C db a KOM_PAGE_DATA e" "entry_ok C db a KOM_PAGE_DISPATCHER e"
  "entry_ok C db a KOM_PAGE_ADDRSPACE e" "entry_ok C db a t 0"
  by (simp_all add: entry_ok_def)

lemma page_inv_words:
  assumes inv: "page_inv C db pg" and W: "word_change C db pg pg'"
  shows "page_inv C db pg'"
proof -
  note W = word_changeD [OF W] and D = page_invD [OF inv]
  have live: "live db pg' a \<longleftrightarrow> live db pg a" for a
    by (auto simp: live_def W(1))
  have satp: "live db pg a \<Longrightarrow> enclave_satp C pg' a = enclave_satp C pg a" for a
    by (simp add: enclave_satp_def live_def W(1))
  have "entry_ok C db (powner db p) (pg_type (db p)) (pg' p i)"
    if "used db p" "live db pg (powner db p)" for p i
    using W(3) [of p i] D(8) [OF that, of i] that(1) by auto
  then have "table_inv C db pg'" by (simp add: table_inv_def live)
  moreover have "l1pt_inv db pg'"
    using D(5,6) by (auto simp: l1pt_inv_def live) (auto simp: live_def W(1))
  moreover have "satp_inv C db pg'"
    unfolding satp_inv_def live
  proof (intro allI impI)
    fix d assume d: "ptyped db d KOM_PAGE_DISPATCHER \<and> live db pg (powner db d)"
    then show "pg' d (disp_csr SATP) = enclave_satp C pg' (powner db d)"
      by (simp only: W(2) satp D(7))
  qed
  ultimately show ?thesis
    using inv by (simp add: page_inv_def refcount_inv_def state_inv_def W(1))
qed

section \<open>Changing the state of an address space\<close>

lemma page_inv_state:
  assumes inv: "page_inv C db pg" and as: "ptyped db a KOM_PAGE_ADDRSPACE"
    and v: "v \<le> KOM_ADDRSPACE_STOPPED"
    and mono: "pg a AS_STATE = KOM_ADDRSPACE_STOPPED \<Longrightarrow> v = KOM_ADDRSPACE_STOPPED"
  shows "page_inv C db (pg(a := (pg a)(AS_STATE := v)))"
proof -
  let ?pg = "pg(a := (pg a)(AS_STATE := v))"
  note D = page_invD [OF inv]
  have live: "live db ?pg b \<Longrightarrow> live db pg b" for b
    using mono as by (auto simp: live_def split: if_splits)
  have satp: "enclave_satp C ?pg b = enclave_satp C pg b" for b
    by (simp add: enclave_satp_def)
  have words: "?pg b AS_L1PT = pg b AS_L1PT" "?pg b AS_REFCOUNT = pg b AS_REFCOUNT" for b
    by simp_all
  have "table_inv C db ?pg"
    unfolding table_inv_def
  proof (intro allI impI)
    fix p i assume "used db p \<and> live db ?pg (powner db p)"
    with live have p: "used db p" "live db pg (powner db p)" by blast+
    show "entry_ok C db (powner db p) (pg_type (db p)) (?pg p i)"
      using D(8) [OF p] as by (auto simp: ptyped_def)
  qed
  moreover have "satp_inv C db ?pg"
    using D(7) live as by (fastforce simp: satp_inv_def satp ptyped_def)
  moreover have "l1pt_inv db ?pg"
    using D(5,6) live unfolding l1pt_inv_def words by blast
  moreover have "refcount_inv db ?pg"
    using inv unfolding refcount_inv_def words page_inv_def by blast
  moreover have "state_inv db ?pg"
    using inv v by (simp add: state_inv_def page_inv_def)
  ultimately show ?thesis using inv by (simp add: page_inv_def)
qed

section \<open>Creating an address space\<close>

definition new_db :: "u64 \<Rightarrow> u64 \<Rightarrow> pagedb \<Rightarrow> pagedb" where
  "new_db a l db = db(a := \<lparr>pg_type = KOM_PAGE_ADDRSPACE, pg_addrspace_page = a\<rparr>,
                      l := \<lparr>pg_type = KOM_PAGE_L1PTABLE, pg_addrspace_page = a\<rparr>)"

definition new_pg :: "u64 \<Rightarrow> u64 \<Rightarrow> pages \<Rightarrow> pages" where
  "new_pg a l pg = pg(l := (\<lambda>_. 0),
     a := (\<lambda>_. 0)(AS_L1PT := l, AS_REFCOUNT := 2, AS_STATE := KOM_ADDRSPACE_INIT))"

lemma new_apply:
  assumes "a \<noteq> l" and "page_is_valid a" and "page_is_valid l"
  shows "ptyped (new_db a l db) q u \<longleftrightarrow>
      (if q = a then u = KOM_PAGE_ADDRSPACE else if q = l then u = KOM_PAGE_L1PTABLE else ptyped db q u)"
    and "used (new_db a l db) q \<longleftrightarrow> q = a \<or> q = l \<or> used db q"
    and "powner (new_db a l db) q = (if q = a \<or> q = l then a else powner db q)"
    and "pg_type (new_db a l db q) = (if q = a then KOM_PAGE_ADDRSPACE else
           if q = l then KOM_PAGE_L1PTABLE else pg_type (db q))"
    and "new_pg a l pg q = (if q = a then (\<lambda>_. 0)(AS_L1PT := l, AS_REFCOUNT := 2)
           else if q = l then (\<lambda>_. 0) else pg q)"
  using assms by (auto simp: new_db_def new_pg_def ptyped_def used_def fun_eq_iff)

lemma entry_ok_new:
  assumes "entry_ok C db b k e" and "ptyped db a KOM_PAGE_FREE" and "ptyped db l KOM_PAGE_FREE"
  shows "entry_ok C (new_db a l db) b k e"
  using assms(1)
  by (rule entry_ok_mono) (use assms(2,3) in \<open>auto simp: new_db_def ptyped_def\<close>)

text \<open>A free page owns nothing, because owners are address spaces.\<close>

lemma owned_free_empty:
  assumes "page_inv C db pg" and "ptyped db a KOM_PAGE_FREE"
  shows "owned db a = {}"
proof -
  have "powner db p \<noteq> a" if "used db p" for p
    using page_invD(1) [OF assms(1) that] assms(2) by (auto simp: ptyped_def)
  then show ?thesis by (auto simp: owned_def)
qed

lemma page_inv_new:
  assumes inv: "page_inv C db pg" and ne: "a \<noteq> l"
    and fa: "ptyped db a KOM_PAGE_FREE" and fl: "ptyped db l KOM_PAGE_FREE"
  shows "page_inv C (new_db a l db) (new_pg a l pg)"
proof -
  let ?db = "new_db a l db" and ?pg = "new_pg a l pg"
  note A = new_apply [OF ne ptyped_valid [OF fa] ptyped_valid [OF fl]]
  note D = page_invD [OF inv]
  have own: "used db q \<Longrightarrow> powner db q \<noteq> a \<and> powner db q \<noteq> l \<and> q \<noteq> a \<and> q \<noteq> l" for q
    using D(1) [of q] fa fl by (auto simp: ptyped_def used_def)
  have AS: "ptyped db b KOM_PAGE_ADDRSPACE \<Longrightarrow> b \<noteq> a \<and> b \<noteq> l" for b
    using fa fl by (auto simp: ptyped_def)
  have L1: "live db pg b \<Longrightarrow> pg b AS_L1PT \<noteq> a \<and> pg b AS_L1PT \<noteq> l" for b
    using D(5) [of b] fa fl by (auto simp: ptyped_def)
  have live: "live ?db ?pg b \<longleftrightarrow> b = a \<or> live db pg b" for b
    using AS by (auto simp: live_def A split: if_splits)
  have liveAS: "live db pg b \<Longrightarrow> b \<noteq> a \<and> b \<noteq> l" for b
    using AS by (simp add: live_def)
  have ownedn: "owned ?db b = (if b = a then {a, l} else owned db b)" for b
    using own owned_free_empty [OF inv fa] by (auto simp: owned_def A)
  have "owner_inv ?db" using own D(1) ne by (auto simp: owner_inv_def A)
  moreover have "self_inv ?db" using D(2) by (auto simp: self_inv_def A)
  moreover have "refcount_inv ?db ?pg"
    using D(3) ne by (auto simp: refcount_inv_def A ownedn)
  moreover have "state_inv ?db ?pg" using D(4) by (auto simp: state_inv_def A)
  moreover have "l1pt_inv ?db ?pg"
    using D(5,6) ne L1 liveAS by (auto simp: l1pt_inv_def live A)
  moreover have "satp_inv C ?db ?pg"
    unfolding satp_inv_def
  proof (intro allI impI)
    fix d assume *: "ptyped ?db d KOM_PAGE_DISPATCHER \<and> live ?db ?pg (powner ?db d)"
    then have d: "ptyped db d KOM_PAGE_DISPATCHER" "d \<noteq> a" "d \<noteq> l"
      by (auto simp: A split: if_splits)
    then have "used db d" by (simp add: ptyped_def used_def)
    with * d own [of d] have l: "live db pg (powner db d)" by (simp add: live A)
    show "?pg d (disp_csr SATP) = enclave_satp C ?pg (powner ?db d)"
      using D(7) [OF d(1) l] liveAS [OF l] d by (simp add: A enclave_satp_def)
  qed
  moreover have "table_inv C ?db ?pg"
    using D(8) own by (auto simp: table_inv_def live A intro: entry_ok_new [OF _ fa fl])
  ultimately show ?thesis by (simp add: page_inv_def)
qed

section \<open>Freeing a page\<close>

definition free_db :: "u64 \<Rightarrow> pagedb \<Rightarrow> pagedb" where
  "free_db p db = db(p := \<lparr>pg_type = KOM_PAGE_FREE, pg_addrspace_page = NOT 0\<rparr>)"

definition free_pg :: "u64 \<Rightarrow> pages \<Rightarrow> pages" where
  "free_pg a pg = pg(a := (pg a)(AS_REFCOUNT := pg a AS_REFCOUNT - 1))"

lemma free_apply:
  "ptyped (free_db p db) q u \<longleftrightarrow>
     (if q = p then page_is_valid p \<and> u = KOM_PAGE_FREE else ptyped db q u)"
  "used (free_db p db) q \<longleftrightarrow> q \<noteq> p \<and> used db q"
  "q \<noteq> p \<Longrightarrow> free_db p db q = db q"
  "i \<noteq> AS_REFCOUNT \<Longrightarrow> free_pg a pg q i = pg q i"
  "q \<noteq> a \<Longrightarrow> free_pg a pg q = pg q"
  by (auto simp: free_db_def free_pg_def ptyped_def used_def)

lemma owned_free: "owned (free_db p db) b = owned db b - {p}"
  by (auto simp: owned_def free_apply)

text \<open>The owner of the page was stopped, and an address space goes last.\<close>

lemma sole_owner:
  assumes inv: "page_inv C db pg" and as: "ptyped db a KOM_PAGE_ADDRSPACE"
    and one: "pg a AS_REFCOUNT = 1"
  shows "owned db a = {a}"
proof -
  have "of_nat (card (owned db a)) = (1 :: u64)"
    using page_invD(3) [OF inv as] one by simp
  then have "unat (of_nat (card (owned db a)) :: u64) = 1" by simp
  moreover have "take_bit 64 (card (owned db a)) = card (owned db a)"
    using card_owned_le [of db a] by (intro take_bit_nat_eq_self) simp
  ultimately have "card (owned db a) = 1" by (simp add: unsigned_of_nat)
  then obtain x where "owned db a = {x}" by (rule card_1_singletonE)
  moreover have "a \<in> owned db a"
    using as page_invD(2) [OF inv as] by (simp add: owned_def ptyped_def used_def)
  ultimately show ?thesis by simp
qed

lemma free_frame:
  assumes inv: "page_inv C db pg" and p: "used db p"
    and stopped: "pg (powner db p) AS_STATE = KOM_ADDRSPACE_STOPPED"
  shows "live (free_db p db) (free_pg (powner db p) pg) b \<Longrightarrow>
           live db pg b \<and> b \<noteq> powner db p \<and> b \<noteq> p"
    and "live db pg (powner db q) \<Longrightarrow> q \<noteq> p"
    and "live db pg (powner db q) \<Longrightarrow> q \<noteq> powner db p"
proof -
  have as: "ptyped db (powner db p) KOM_PAGE_ADDRSPACE" by (rule page_invD(1) [OF inv p])
  show "live (free_db p db) (free_pg (powner db p) pg) b \<Longrightarrow>
      live db pg b \<and> b \<noteq> powner db p \<and> b \<noteq> p"
    using stopped by (auto simp: live_def free_apply split: if_splits)
  show "live db pg (powner db q) \<Longrightarrow> q \<noteq> p"
    using stopped by (auto simp: live_def)
  show "live db pg (powner db q) \<Longrightarrow> q \<noteq> powner db p"
    using stopped page_invD(2) [OF inv as] by (auto simp: live_def)
qed

lemma no_orphans:
  assumes inv: "page_inv C db pg" and p: "used db p" and q: "used db q" "powner db q = p"
    and last: "pg_type (db p) = KOM_PAGE_ADDRSPACE \<Longrightarrow> pg (powner db p) AS_REFCOUNT = 1"
  shows "q = p"
proof -
  have as: "ptyped db p KOM_PAGE_ADDRSPACE" using page_invD(1) [OF inv q(1)] q(2) by simp
  then have "powner db p = p" by (rule page_invD(2) [OF inv])
  with as last have "owned db p = {p}"
    using sole_owner [OF inv as] by (simp add: ptyped_def)
  with q show ?thesis by (auto simp: owned_def)
qed

lemma refcount_inv_free:
  assumes inv: "page_inv C db pg" and p: "used db p"
  shows "refcount_inv (free_db p db) (free_pg (powner db p) pg)"
  unfolding refcount_inv_def
proof (intro allI impI)
  fix b assume "ptyped (free_db p db) b KOM_PAGE_ADDRSPACE"
  then have b: "ptyped db b KOM_PAGE_ADDRSPACE" by (auto simp: free_apply split: if_splits)
  have mem: "p \<in> owned db b \<longleftrightarrow> b = powner db p" using p by (auto simp: owned_def)
  have "p \<in> owned db (powner db p)" using p by (simp add: owned_def)
  then have "card (owned db (powner db p)) > 0" by (auto simp: card_gt_0_iff)
  then show "free_pg (powner db p) pg b AS_REFCOUNT = of_nat (card (owned (free_db p db) b))"
    using page_invD(3) [OF inv b] mem by (auto simp: free_pg_def owned_free of_nat_diff)
qed

lemma tables_free:
  assumes inv: "page_inv C db pg" and p: "used db p"
    and stopped: "pg (powner db p) AS_STATE = KOM_ADDRSPACE_STOPPED"
  shows "l1pt_inv (free_db p db) (free_pg (powner db p) pg)"
    and "satp_inv C (free_db p db) (free_pg (powner db p) pg)"
    and "table_inv C (free_db p db) (free_pg (powner db p) pg)"
proof -
  let ?db = "free_db p db" and ?a = "powner db p"
  let ?pg = "free_pg ?a pg"
  note D = page_invD [OF inv] and F = free_frame [OF assms]
  show "l1pt_inv ?db ?pg"
    unfolding l1pt_inv_def
  proof (intro allI impI)
    fix b assume "live ?db ?pg b"
    with F(1) have b: "live db pg b" "b \<noteq> ?a" by blast+
    from F(2) [of "pg b AS_L1PT"] b(1) have "pg b AS_L1PT \<noteq> p" by (simp add: D(6) [OF b(1)])
    then show "ptyped ?db (?pg b AS_L1PT) KOM_PAGE_L1PTABLE \<and> powner ?db (?pg b AS_L1PT) = b"
      using D(5,6) [OF b(1)] b(2) by (simp add: free_apply)
  qed
  show "satp_inv C ?db ?pg"
    unfolding satp_inv_def
  proof (intro allI impI)
    fix d assume *: "ptyped ?db d KOM_PAGE_DISPATCHER \<and> live ?db ?pg (powner ?db d)"
    then have d: "ptyped db d KOM_PAGE_DISPATCHER" "d \<noteq> p" by (auto simp: free_apply split: if_splits)
    with * F(1) have l: "live db pg (powner db d)" "powner db d \<noteq> ?a" by (auto simp: free_apply)
    show "?pg d (disp_csr SATP) = enclave_satp C ?pg (powner ?db d)"
      using D(7) [OF d(1) l(1)] d l by (simp add: free_apply enclave_satp_def)
  qed
  show "table_inv C ?db ?pg"
    unfolding table_inv_def
  proof (intro allI impI)
    fix q i assume *: "used ?db q \<and> live ?db ?pg (powner ?db q)"
    then have q: "used db q" "q \<noteq> p" by (auto simp: free_apply)
    with * F(1) have l: "live db pg (powner db q)" by (auto simp: free_apply)
    have "entry_ok C ?db (powner db q) (pg_type (db q)) (pg q i)"
      using D(8) [OF q(1) l]
    proof (rule entry_ok_mono)
      fix r u assume r: "ptyped db r u" "powner db r = powner db q"
      with l F(2) [of r] show "ptyped ?db r u \<and> powner ?db r = powner db q" by (simp add: free_apply)
    qed
    then show "entry_ok C ?db (powner ?db q) (pg_type (?db q)) (?pg q i)"
      using F(3) [OF l] q(2) by (simp add: free_apply)
  qed
qed

lemma page_inv_free:
  assumes inv: "page_inv C db pg" and p: "used db p"
    and stopped: "pg (powner db p) AS_STATE = KOM_ADDRSPACE_STOPPED"
    and last: "pg_type (db p) = KOM_PAGE_ADDRSPACE \<Longrightarrow> pg (powner db p) AS_REFCOUNT = 1"
  shows "page_inv C (free_db p db) (free_pg (powner db p) pg)"
proof -
  note D = page_invD [OF inv]
  have "owner_inv (free_db p db)"
    using D(1) no_orphans [OF inv p _ _ last] by (auto simp: owner_inv_def free_apply)
  moreover have "self_inv (free_db p db)"
    using D(2) by (auto simp: self_inv_def free_apply split: if_splits)
  moreover have "state_inv (free_db p db) (free_pg (powner db p) pg)"
    using D(4) by (auto simp: state_inv_def free_apply split: if_splits)
  ultimately show ?thesis
    using refcount_inv_free [OF inv p] tables_free [OF inv p stopped] by (simp add: page_inv_def)
qed

end
