(* ===== verification/Komodo_Safe.thy ===== *)
theory Komodo_Safe
  imports Komodo_Inv
begin

text \<open>
  Every handler of the Komodo monitor keeps the invariant and never panics: first the calls of
  the host, then the world switch and the calls of enclaves, then trap dispatch.
\<close>

unbundle bit_operations_syntax

section \<open>The full invariant\<close>

text \<open>
  The protection registers as \<^verbatim>\<open>pmp_init\<close> sets them; \<open>en\<close> tells whether the secure pages are open.
  Entries the monitor does not use are off.
\<close>

definition pmp_inv :: "kom_config \<Rightarrow> bool \<Rightarrow> csr_file \<Rightarrow> bool" where
  "pmp_inv C en f \<longleftrightarrow>
     pmpcfg_read f 2 = PMPCFG_A_OFF \<and> pmpcfg_read f 3 = 15 \<and>
     pmpcfg_read f 4 = PMPCFG_A_OFF \<and> pmpcfg_read f 5 = (if en then 15 else PMPCFG_A_TOR) \<and>
     (\<forall>n < 16. n \<notin> {2, 3, 4, 5} \<longrightarrow> pmpcfg_read f n AND 24 = PMPCFG_A_OFF) \<and>
     csr_read f PMPADDR2 = drop_bit 2 (payload_addr C) \<and>
     csr_read f PMPADDR3 = drop_bit 2 (payload_addr C + KOM_INSECURE_RESERVE) \<and>
     csr_read f PMPADDR4 = drop_bit 2 (secure_pages_addr C) \<and>
     csr_read f PMPADDR5 = drop_bit 2 (secure_pages_addr C + KOM_SECURE_RESERVE)"

definition deleg_inv :: "bool \<Rightarrow> csr_file \<Rightarrow> bool" where
  "deleg_inv en f \<longleftrightarrow>
     csr_read f MEDELEG = (if en then 0 else EDEL_DEFAULT) \<and>
     csr_read f MIDELEG = (if en then 0 else IDEL_DEFAULT) \<and>
     csr_read f MSTATUS AND SR_TVM = (if en then SR_TVM else 0)"

definition current_inv :: "kom_config \<Rightarrow> kom \<Rightarrow> bool" where
  "current_inv C s \<longleftrightarrow>
     (let d = g_cur_dispatcher_pageno s; a = powner (g_pagedb s) d in
      ptyped (g_pagedb s) d KOM_PAGE_DISPATCHER \<and>
      secure_pages s a AS_STATE = KOM_ADDRSPACE_FINAL \<and>
      csr_read (csrs s) SATP = enclave_satp C (secure_pages s) a)"

definition mode_inv :: "kom_config \<Rightarrow> kom \<Rightarrow> bool" where
  "mode_inv C s \<longleftrightarrow>
     page_is_valid (g_cur_dispatcher_pageno s) \<and>
     pmp_inv C (enclave_mode s) (csrs s) \<and> deleg_inv (enclave_mode s) (csrs s) \<and>
     (enclave_mode s \<longrightarrow> current_inv C s)"

definition kom_inv :: "kom_config \<Rightarrow> kom \<Rightarrow> bool" where
  "kom_inv C s \<longleftrightarrow> page_inv C (g_pagedb s) (secure_pages s) \<and> mode_inv C s"

lemma kom_inv_page: "kom_inv C s \<Longrightarrow> page_inv C (g_pagedb s) (secure_pages s)"
  by (simp add: kom_inv_def)

text \<open>In the host world the mode invariant does not look at the pages.\<close>

lemma kom_inv_hostI:
  assumes "kom_inv C s" and "\<not> enclave_mode s" and "enclave_mode s' = enclave_mode s"
    and "g_cur_dispatcher_pageno s' = g_cur_dispatcher_pageno s" and "csrs s' = csrs s"
    and "page_inv C (g_pagedb s') (secure_pages s')"
  shows "kom_inv C s'"
  using assms by (simp add: kom_inv_def mode_inv_def)

lemma page_fields [simp]:
  "g_pagedb (set_word p i v s) = g_pagedb s" "enclave_mode (set_word p i v s) = enclave_mode s"
  "csrs (set_word p i v s) = csrs s" "regs (set_word p i v s) = regs s"
  "g_cur_dispatcher_pageno (set_word p i v s) = g_cur_dispatcher_pageno s"
  "hstate (set_word p i v s) = hstate s" "payload (set_word p i v s) = payload s"
  "secure_pages (set_word p i v s) = (secure_pages s)(p := (secure_pages s p)(i := v))"
  "g_pagedb (copy_page p q s) = g_pagedb s" "enclave_mode (copy_page p q s) = enclave_mode s"
  "csrs (copy_page p q s) = csrs s"
  "g_cur_dispatcher_pageno (copy_page p q s) = g_cur_dispatcher_pageno s"
  "secure_pages (copy_page p q s) = (secure_pages s)(p := payload s q)"
  by (simp_all add: set_word_def copy_page_def)

section \<open>Allocation\<close>

definition alloc_state :: "u64 \<Rightarrow> u64 \<Rightarrow> kom_pagetype \<Rightarrow> kom \<Rightarrow> kom" where
  "alloc_state p a t s = s\<lparr>secure_pages := alloc_pg p a (\<lambda>_. 0) (secure_pages s),
                           g_pagedb := alloc_db p a t (g_pagedb s)\<rparr>"

lemma alloc_state_fields [simp]:
  "g_pagedb (alloc_state p a t s) = alloc_db p a t (g_pagedb s)"
  "secure_pages (alloc_state p a t s) = alloc_pg p a (\<lambda>_. 0) (secure_pages s)"
  "enclave_mode (alloc_state p a t s) = enclave_mode s" "csrs (alloc_state p a t s) = csrs s"
  "g_cur_dispatcher_pageno (alloc_state p a t s) = g_cur_dispatcher_pageno s"
  "payload (alloc_state p a t s) = payload s" "regs (alloc_state p a t s) = regs s"
  "hstate (alloc_state p a t s) = hstate s"
  by (simp_all add: alloc_state_def)

lemma allocate_page_eq:
  assumes "ptyped (g_pagedb s) a KOM_PAGE_ADDRSPACE"
  shows "allocate_page p a t s =
    (if \<not> page_is_valid p then Return KOM_ERR_INVALID_PAGENO s
     else if \<not> ptyped (g_pagedb s) p KOM_PAGE_FREE then Return KOM_ERR_PAGEINUSE s
     else if secure_pages s a AS_STATE \<noteq> KOM_ADDRSPACE_INIT then Return KOM_ERR_ALREADY_FINAL s
     else Return KOM_ERR_SUCCESS (alloc_state p a t s))"
proof -
  have "p \<noteq> a" if "ptyped (g_pagedb s) p KOM_PAGE_FREE"
    using that assms by (auto simp: ptyped_def)
  then show ?thesis
    using ptyped_valid [OF assms]
    by (auto simp: allocate_page_def page_is_free_ptyped page_monvaddr_def Let_def alloc_state_def
        zero_page_def set_pagedb_def set_word_def alloc_pg_def alloc_db_def intro!: arg_cong2 [where f = Return])
qed

text \<open>What a caller of \<^verbatim>\<open>allocate_page\<close> has to show: only its continuation after success matters.\<close>

lemma holds_after_allocate:
  assumes "ptyped (g_pagedb s) a KOM_PAGE_ADDRSPACE" and "P s"
    and "ptyped (g_pagedb s) p KOM_PAGE_FREE \<Longrightarrow> secure_pages s a AS_STATE = KOM_ADDRSPACE_INIT \<Longrightarrow>
         p \<noteq> a \<Longrightarrow> holds_after P (k (alloc_state p a t s))"
  shows "holds_after P (obind (allocate_page p a t s)
           (\<lambda>err s. if err \<noteq> KOM_ERR_SUCCESS then Return err s else k s))"
proof -
  have "p \<noteq> a" if "ptyped (g_pagedb s) p KOM_PAGE_FREE"
    using that assms(1) by (auto simp: ptyped_def)
  then show ?thesis
    using assms(2,3) by (simp add: allocate_page_eq [OF assms(1)])
qed

lemma page_monvaddr_valid: "page_is_valid p \<Longrightarrow> page_monvaddr p k = k p"
  by (simp add: page_monvaddr_def)

section \<open>Calls of the host\<close>

lemma init_addrspace_inv:
  assumes inv: "kom_inv C s" and host: "\<not> enclave_mode s"
  shows "holds_after (kom_inv C) (kom_smc_init_addrspace a l s)"
proof (cases "a \<noteq> l \<and> page_is_free s a \<and> page_is_free s l")
  case True
  then have fr: "ptyped (g_pagedb s) a KOM_PAGE_FREE" "ptyped (g_pagedb s) l KOM_PAGE_FREE" "a \<noteq> l"
    by (simp_all add: page_is_free_ptyped)
  let ?s = "s\<lparr>secure_pages := new_pg a l (secure_pages s), g_pagedb := new_db a l (g_pagedb s)\<rparr>"
  have "kom_inv C ?s"
    by (rule kom_inv_hostI [OF inv host])
      (simp_all add: page_inv_new [OF kom_inv_page [OF inv] fr(3,1,2)])
  moreover have "kom_smc_init_addrspace a l s = Return KOM_ERR_SUCCESS ?s"
    using True ptyped_valid [OF fr(1)] ptyped_valid [OF fr(2)]
    by (auto simp: kom_smc_init_addrspace_def page_monvaddr_def Let_def zero_page_def set_pagedb_def
        set_word_def new_pg_def new_db_def fun_eq_iff intro!: kom.equality)
  ultimately show ?thesis by simp
qed (auto simp: kom_smc_init_addrspace_def inv)

lemma init_dispatcher_inv:
  assumes inv: "kom_inv C s" and host: "\<not> enclave_mode s"
  shows "holds_after (kom_inv C) (kom_smc_init_dispatcher C p a e s)"
proof (cases "page_is_typed s a KOM_PAGE_ADDRSPACE")
  case True
  then have as: "ptyped (g_pagedb s) a KOM_PAGE_ADDRSPACE" by (simp add: page_is_typed_ptyped)
  show ?thesis
    unfolding kom_smc_init_dispatcher_def if_not_P [OF not_not [THEN iffD2, OF True]]
  proof (rule holds_after_allocate [where P = "kom_inv C", OF as inv])
    let ?s = "alloc_state p a KOM_PAGE_DISPATCHER s"
    let ?w = "(\<lambda>_. 0)(disp_csr MEPC := e, disp_csr SATP := enclave_satp C (secure_pages s) a,
                disp_csr SIE := IE_DEFAULT)"
    assume fr: "ptyped (g_pagedb s) p KOM_PAGE_FREE" and init: "secure_pages s a AS_STATE = KOM_ADDRSPACE_INIT"
      and ne: "p \<noteq> a"
    have "page_inv C (g_pagedb ?s) (alloc_pg p a ?w (secure_pages s))"
      using page_inv_alloc [OF kom_inv_page [OF inv] fr as] by (simp add: content_ok_def disp_csr_def)
    moreover have "live (g_pagedb s) (secure_pages s) a" using as init by (simp add: live_def)
    then have "page_is_valid (secure_pages s a AS_L1PT)"
      using page_invD(5) [OF kom_inv_page [OF inv]] ptyped_valid by blast
    ultimately show "holds_after (kom_inv C) (page_monvaddr a (\<lambda>addrspace. page_monvaddr p (\<lambda>disp.
          page_monvaddr (secure_pages ?s addrspace AS_L1PT) (\<lambda>l1pt.
            let s1 = set_word disp (disp_csr MEPC) e ?s;
                s2 = set_word disp (disp_csr SATP)
                       (SATP_MODE_SV39 OR PFN_DOWN (page_paddr C l1pt)) s1;
                s3 = set_word disp (disp_csr SIE) IE_DEFAULT s2
            in Return KOM_ERR_SUCCESS s3))))"
      using ne ptyped_valid [OF as] ptyped_valid [OF fr]
      by (auto simp: page_monvaddr_def alloc_pg_def Let_def enclave_satp_def fun_upd_twist
          intro!: kom_inv_hostI [OF inv host])
  qed
qed (simp add: kom_smc_init_dispatcher_def inv)

text \<open>Allocating a page and entering it in a table of the same address space.\<close>

lemma alloc_entry_inv:
  assumes inv: "page_inv C db pg" and fr: "ptyped db p KOM_PAGE_FREE" and l: "ptyped db l T"
    and T: "T \<in> {KOM_PAGE_L1PTABLE, KOM_PAGE_L2PTABLE, KOM_PAGE_L3PTABLE}"
    and t: "t \<in> {KOM_PAGE_L2PTABLE, KOM_PAGE_L3PTABLE, KOM_PAGE_DATA}"
    and e: "entry_ok C (alloc_db p (powner db l) t db) (powner db l) T e"
  shows "page_inv C (alloc_db p (powner db l) t db)
    ((alloc_pg p (powner db l) (\<lambda>_. 0) pg)
      (l := (alloc_pg p (powner db l) (\<lambda>_. 0) pg l)(i := e)))"
proof -
  let ?a = "powner db l"
  have "used db l" using l T by (auto simp: ptyped_def used_def)
  then have as: "ptyped db ?a KOM_PAGE_ADDRSPACE" by (rule page_invD(1) [OF inv])
  have "page_inv C (alloc_db p ?a t db) (alloc_pg p ?a (\<lambda>_. 0) pg)"
    using t by (intro page_inv_alloc [OF inv fr as]) (auto simp: content_ok_def)
  then show ?thesis
  proof (rule page_inv_words)
    have "l \<noteq> p" using fr l T by (auto simp: ptyped_def)
    then show "word_change C (alloc_db p ?a t db) (alloc_pg p ?a (\<lambda>_. 0) pg)
        ((alloc_pg p ?a (\<lambda>_. 0) pg)(l := (alloc_pg p ?a (\<lambda>_. 0) pg l)(i := e)))"
      using e T l by (auto simp: word_change_def alloc_apply ptyped_def)
  qed
qed

lemma entry_ok_table:
  assumes "page_is_valid p"
  shows "entry_ok C (alloc_db p a KOM_PAGE_L2PTABLE db) a KOM_PAGE_L1PTABLE
           (pfn_pgd (PFN_DOWN (page_paddr C p)) PAGE_TABLE)"
    and "entry_ok C (alloc_db p a KOM_PAGE_L3PTABLE db) a KOM_PAGE_L2PTABLE
           (pfn_pmd (PFN_DOWN (page_paddr C p)) PAGE_TABLE)"
    and "entry_ok C (alloc_db p a KOM_PAGE_DATA db) a KOM_PAGE_L3PTABLE
           (pfn_pte (PFN_DOWN (page_paddr C p)) (enclave_prot m))"
  using assms
  by (auto simp: entry_ok_def alloc_db_def ptyped_def table_entry_def pfn_pgd_def pfn_pmd_def)

lemma table_owner:
  assumes "kom_inv C s" and "ptyped (g_pagedb s) l T" and "T \<noteq> KOM_PAGE_FREE"
  shows "ptyped (g_pagedb s) (powner (g_pagedb s) l) KOM_PAGE_ADDRSPACE"
  using page_invD(1) [OF kom_inv_page [OF assms(1)] ptyped_used [OF assms(2,3)]] .

lemma init_l2ptable_inv:
  assumes inv: "kom_inv C s" and host: "\<not> enclave_mode s"
  shows "holds_after (kom_inv C) (kom_smc_init_l2ptable C p l i s)"
proof -
  { assume l: "ptyped (g_pagedb s) l KOM_PAGE_L1PTABLE"
    have "holds_after (kom_inv C) (obind (allocate_page p (powner (g_pagedb s) l) KOM_PAGE_L2PTABLE s)
        (\<lambda>err s. if err \<noteq> KOM_ERR_SUCCESS then Return err s else page_monvaddr p (\<lambda>p.
            Return KOM_ERR_SUCCESS (set_word l i (pfn_pgd (PFN_DOWN (page_paddr C p)) PAGE_TABLE) s))))"
      by (rule holds_after_allocate [where P = "kom_inv C", OF table_owner [OF inv l] inv])
        (simp_all add: page_monvaddr_valid ptyped_valid kom_inv_hostI [OF inv host]
          alloc_entry_inv [OF kom_inv_page [OF inv] _ l] entry_ok_table) }
  then show ?thesis
    by (simp add: kom_smc_init_l2ptable_def page_is_typed_ptyped page_monvaddr_valid ptyped_valid inv)
qed

lemma init_l3ptable_inv:
  assumes inv: "kom_inv C s" and host: "\<not> enclave_mode s"
  shows "holds_after (kom_inv C) (kom_smc_init_l3ptable C p l i s)"
proof -
  { assume l: "ptyped (g_pagedb s) l KOM_PAGE_L2PTABLE"
    have "holds_after (kom_inv C) (obind (allocate_page p (powner (g_pagedb s) l) KOM_PAGE_L3PTABLE s)
        (\<lambda>err s. if err \<noteq> KOM_ERR_SUCCESS then Return err s else page_monvaddr p (\<lambda>p.
            Return KOM_ERR_SUCCESS (set_word l i (pfn_pmd (PFN_DOWN (page_paddr C p)) PAGE_TABLE) s))))"
      by (rule holds_after_allocate [where P = "kom_inv C", OF table_owner [OF inv l] inv])
        (simp_all add: page_monvaddr_valid ptyped_valid kom_inv_hostI [OF inv host]
          alloc_entry_inv [OF kom_inv_page [OF inv] _ l] entry_ok_table) }
  then show ?thesis
    by (simp add: kom_smc_init_l3ptable_def page_is_typed_ptyped page_monvaddr_valid ptyped_valid inv)
qed

lemma page_inv_data:
  assumes "page_inv C db pg" and "ptyped db p KOM_PAGE_DATA"
  shows "page_inv C db (pg(p := w))"
  using assms by (auto intro!: page_inv_words [OF assms(1)] simp: word_change_def)

lemma map_secure_inv:
  assumes inv: "kom_inv C s" and host: "\<not> enclave_mode s"
  shows "holds_after (kom_inv C) (kom_smc_map_secure C p l i m c s)"
proof -
  { assume l: "ptyped (g_pagedb s) l KOM_PAGE_L3PTABLE"
    have "holds_after (kom_inv C) (obind (allocate_page p (powner (g_pagedb s) l) KOM_PAGE_DATA s)
        (\<lambda>err s. if err \<noteq> KOM_ERR_SUCCESS then Return err s else page_monvaddr p (\<lambda>p.
            let s1 = set_word l i (pfn_pte (PFN_DOWN (page_paddr C p)) (enclave_prot m)) s
            in Return KOM_ERR_SUCCESS (copy_page p c s1))))"
      by (rule holds_after_allocate [where P = "kom_inv C", OF table_owner [OF inv l] inv])
        (simp_all add: page_monvaddr_valid ptyped_valid kom_inv_hostI [OF inv host] ptyped_alloc Let_def
          page_inv_data alloc_entry_inv [OF kom_inv_page [OF inv] _ l] entry_ok_table) }
  then show ?thesis
    by (simp add: kom_smc_map_secure_def page_is_typed_ptyped page_monvaddr_valid ptyped_valid inv)
qed

lemma map_insecure_inv:
  assumes inv: "kom_inv C s" and host: "\<not> enclave_mode s"
  shows "holds_after (kom_inv C) (kom_smc_map_insecure C l i m q s)"
proof -
  { assume l: "ptyped (g_pagedb s) l KOM_PAGE_L3PTABLE" and q: "insecure_page_is_valid q"
    let ?e = "pfn_pte (PFN_DOWN (insecure_page_paddr C q)) (enclave_prot m)"
    have "entry_ok C (g_pagedb s) (powner (g_pagedb s) l) KOM_PAGE_L3PTABLE ?e"
      using q by (auto simp: entry_ok_def)
    then have "word_change C (g_pagedb s) (secure_pages s)
        ((secure_pages s)(l := (secure_pages s l)(i := ?e)))"
      using l by (auto simp: word_change_def ptyped_def)
    then have "kom_inv C (set_word l i ?e s)"
      by (intro kom_inv_hostI [OF inv host]) (simp_all add: page_inv_words [OF kom_inv_page [OF inv]])
    moreover have "page_is_valid (powner (g_pagedb s) l)"
      using table_owner [OF inv l] ptyped_valid by blast
    moreover note ptyped_valid [OF l] calculation }
  then show ?thesis
    by (simp add: kom_smc_map_insecure_def page_is_typed_ptyped page_monvaddr_def inv)
qed

lemma free_page_inv:
  assumes inv: "kom_inv C s" and host: "\<not> enclave_mode s" and p: "used (g_pagedb s) p"
    and "secure_pages s (powner (g_pagedb s) p) AS_STATE = KOM_ADDRSPACE_STOPPED"
    and "pg_type (g_pagedb s p) = KOM_PAGE_ADDRSPACE \<Longrightarrow>
         secure_pages s (powner (g_pagedb s) p) AS_REFCOUNT = 1"
  shows "kom_inv C (free_page (powner (g_pagedb s) p) p s)"
proof (rule kom_inv_hostI [OF inv host])
  have "g_pagedb (free_page (powner (g_pagedb s) p) p s) = free_db p (g_pagedb s)"
    and "secure_pages (free_page (powner (g_pagedb s) p) p s) =
         free_pg (powner (g_pagedb s) p) (secure_pages s)"
    by (simp_all add: free_page_def set_pagedb_def set_word_def free_db_def free_pg_def)
  then show "page_inv C (g_pagedb (free_page (powner (g_pagedb s) p) p s))
      (secure_pages (free_page (powner (g_pagedb s) p) p s))"
    using page_inv_free [OF kom_inv_page [OF inv] p assms(4,5)] by simp
qed (simp_all add: free_page_def set_pagedb_def)

lemma remove_inv:
  assumes inv: "kom_inv C s" and host: "\<not> enclave_mode s"
  shows "holds_after (kom_inv C) (kom_smc_remove p s)"
proof (cases "used (g_pagedb s) p")
  case True
  note D = page_invD [OF kom_inv_page [OF inv]]
  have v: "page_is_valid p" "page_is_valid (powner (g_pagedb s) p)"
    using True ptyped_valid [OF D(1) [OF True]] by (simp_all add: used_def)
  have self: "pg_type (g_pagedb s p) = KOM_PAGE_ADDRSPACE \<Longrightarrow> powner (g_pagedb s) p = p"
    using D(2) [of p] v by (simp add: ptyped_def)
  from True v show ?thesis
    using free_page_inv [OF inv host True] self
    by (auto simp: kom_smc_remove_def page_monvaddr_valid inv used_def)
qed (auto simp: kom_smc_remove_def used_def inv)

lemma set_state_inv:
  assumes inv: "kom_inv C s" and host: "\<not> enclave_mode s"
    and "ptyped (g_pagedb s) a KOM_PAGE_ADDRSPACE" and "v \<le> KOM_ADDRSPACE_STOPPED"
    and "secure_pages s a AS_STATE = KOM_ADDRSPACE_STOPPED \<Longrightarrow> v = KOM_ADDRSPACE_STOPPED"
  shows "kom_inv C (set_word a AS_STATE v s)"
  by (rule kom_inv_hostI [OF inv host])
    (simp_all add: page_inv_state [OF kom_inv_page [OF inv] assms(3-5)])

lemma finalise_inv:
  assumes "kom_inv C s" and "\<not> enclave_mode s"
  shows "holds_after (kom_inv C) (kom_smc_finalise a s)"
  using assms by (auto simp: kom_smc_finalise_def page_is_typed_ptyped page_monvaddr_valid ptyped_valid
      intro!: set_state_inv)

lemma stop_inv:
  assumes "kom_inv C s" and "\<not> enclave_mode s"
  shows "holds_after (kom_inv C) (kom_smc_stop a s)"
  using assms by (auto simp: kom_smc_stop_def page_is_typed_ptyped page_monvaddr_valid ptyped_valid
      intro!: set_state_inv)

section \<open>The world switch\<close>

definition pmp_csrs :: "csr list" where
  "pmp_csrs = [PMPCFG0, PMPCFG2, PMPADDR2, PMPADDR3, PMPADDR4, PMPADDR5]"

lemma pmp_inv_cong:
  assumes "pmp_inv C en g" and "\<And>c. c \<in> set pmp_csrs \<Longrightarrow> csr_read f c = csr_read g c"
  shows "pmp_inv C en f"
proof -
  have "pmpcfg_read f n = pmpcfg_read g n" for n
    using assms(2) by (intro pmpcfg_read_cong) (simp_all add: pmp_csrs_def)
  then show ?thesis using assms by (simp add: pmp_inv_def pmp_csrs_def)
qed

lemma pmp_inv_switch:
  assumes "pmp_inv C en f"
  shows "pmp_inv C en' (pmpcfg_write 5 (if en' then 15 else PMPCFG_A_TOR) f)"
  using assms by (auto simp: pmp_inv_def pmpcfg_read_write pmpcfg_write_other)

lemma load_komodo_other:
  assumes "c \<in> set (MEDELEG # MIDELEG # pmp_csrs)"
  shows "csr_read (load_csrs komodo_csrs st f) c = csr_read f c"
  using assms by (intro load_csrs_other) (auto simp: komodo_csrs_def csr_base_def pmp_csrs_def)

text \<open>The registers after the second half of either direction of the world switch.\<close>

definition switch_csrs :: "bool \<Rightarrow> (csr \<Rightarrow> u64) \<Rightarrow> csr_file \<Rightarrow> csr_file" where
  "switch_csrs en st f =
     (let f = pmpcfg_write 5 (if en then 15 else PMPCFG_A_TOR) (load_csrs komodo_csrs st f);
          f = (if en then csr_set else csr_clear) MSTATUS SR_TVM f;
          f = csr_write MIDELEG (if en then 0 else IDEL_DEFAULT) f
      in csr_write MEDELEG (if en then 0 else EDEL_DEFAULT) f)"

lemma switch_csrs_pmp:
  assumes "pmp_inv C b f"
  shows "pmp_inv C en (switch_csrs en st f)"
proof (rule pmp_inv_cong)
  show "pmp_inv C en (pmpcfg_write 5 (if en then 15 else PMPCFG_A_TOR) (load_csrs komodo_csrs st f))"
    by (rule pmp_inv_switch [of C b])
      (rule pmp_inv_cong [OF assms], simp add: load_komodo_other)
qed (auto simp: switch_csrs_def Let_def pmp_csrs_def csr_simps csr_base_def)

lemma switch_csrs_deleg: "deleg_inv en (switch_csrs en st f)"
proof -
  have "(x OR SR_TVM) AND SR_TVM = SR_TVM" "(x AND NOT SR_TVM) AND SR_TVM = 0" for x :: u64
    by (rule bit_word_eqI; auto simp: bit_simps)+
  then show ?thesis
    by (simp add: deleg_inv_def switch_csrs_def Let_def csr_simps csr_base_def csr_read_write_same
        csr_set_def csr_clear_def)
qed

lemma switch_csrs_SATP: "csr_read (switch_csrs en st f) SATP = st SATP"
proof -
  have "csr_read (load_csrs komodo_csrs st f) SATP = csr_read (\<lambda>_. st SATP) SATP"
    by (rule load_csrs_saved) (simp_all add: komodo_csrs_def csr_base_def csr_read_def)
  then show ?thesis
    by (auto simp: switch_csrs_def Let_def csr_simps csr_base_def csr_read_def [of "\<lambda>_. st SATP"])
qed

lemma enter_secure_world_eq:
  assumes "page_is_valid d"
  shows "enter_secure_world d s = Return () (s\<lparr>
     hstate := \<lparr>host_regs = regs s, host_csrs = save_csrs komodo_csrs (csrs s) (host_csrs (hstate s))\<rparr>,
     csrs := switch_csrs True (disp_csrs s d) (csrs s),
     enclave_mode := True, g_cur_dispatcher_pageno := d\<rparr>)"
proof -
  have "PMPCFG_A_TOR OR PMPCFG_R OR PMPCFG_W OR PMPCFG_X = 15" by simp
  then show ?thesis
    using assms by (simp add: enter_secure_world_def page_monvaddr_def switch_csrs_def Let_def)
qed

lemma set_words_fold:
  "fold (\<lambda>x. set_word d (g x) (v x)) xs s =
   s\<lparr>secure_pages := (secure_pages s)(d := fold (\<lambda>x w. w(g x := v x)) xs (secure_pages s d))\<rparr>"
  by (induction xs arbitrary: s) (simp_all add: set_word_def)

text \<open>The contents of a dispatcher page after the context of an enclave has been saved in it.\<close>

definition saved_context :: "bool \<Rightarrow> pt_regs \<Rightarrow> csr_file \<Rightarrow> (u64 \<Rightarrow> u64) \<Rightarrow> (u64 \<Rightarrow> u64)" where
  "saved_context entered rs f w =
     fold (\<lambda>c w. w(disp_csr c := csr_read f c)) komodo_csrs
       (fold (\<lambda>r w. w(DISP_REGS + pt_index r := rs r)) all_gprs
         (w(DISP_ENTERED := (if entered then 1 else 0))))"

lemma leave_secure_world_eq:
  assumes "page_is_valid (g_cur_dispatcher_pageno s)"
  shows "leave_secure_world entered s =
    (let d = g_cur_dispatcher_pageno s in
     Return () (s\<lparr>
       secure_pages := (secure_pages s)(d := saved_context entered (regs s) (csrs s) (secure_pages s d)),
       csrs := switch_csrs False (host_csrs (hstate s)) (csrs s),
       enclave_mode := False, g_cur_dispatcher_pageno := 0\<rparr>))"
  using assms
  by (simp add: leave_secure_world_def page_monvaddr_def Let_def set_disp_regs_def set_disp_csrs_def
      set_words_fold switch_csrs_def saved_context_def set_word_def)

lemma fold_upd_other: "i \<notin> g ` set xs \<Longrightarrow> fold (\<lambda>x w. w(g x := v x)) xs w i = w i"
  by (induction xs arbitrary: w) auto

lemma fold_upd_same:
  "distinct (map g xs) \<Longrightarrow> x \<in> set xs \<Longrightarrow> fold (\<lambda>x w. w(g x := v x)) xs w (g x) = v x"
proof (induction xs arbitrary: w)
  case (Cons y ys)
  show ?case
  proof (cases "x = y")
    case True
    with Cons.prems show ?thesis by (simp add: fold_upd_other [of "g y" g ys v "w(g y := v y)"] fun_upd_same del: fun_upd_apply)
  next
    case False
    with Cons show ?thesis by simp
  qed
qed simp

lemma distinct_disp_csr: "distinct (map disp_csr komodo_csrs)"
  by (simp add: komodo_csrs_def disp_csr_def)

lemma saved_csr: "c \<in> set komodo_csrs \<Longrightarrow> saved_context e rs f w (disp_csr c) = csr_read f c"
  unfolding saved_context_def by (rule fold_upd_same [OF distinct_disp_csr])

lemma saved_reg: "saved_context e rs f w (DISP_REGS + pt_index r) = rs r"
proof -
  have "DISP_REGS + pt_index r \<notin> disp_csr ` set komodo_csrs"
    by (cases r) (simp_all add: komodo_csrs_def disp_csr_def)
  then have "saved_context e rs f w (DISP_REGS + pt_index r) =
      fold (\<lambda>r w. w(DISP_REGS + pt_index r := rs r)) all_gprs
        (w(DISP_ENTERED := (if e then 1 else 0))) (DISP_REGS + pt_index r)"
    unfolding saved_context_def by (rule fold_upd_other)
  also have "\<dots> = rs r"
    by (rule fold_upd_same [where g = "\<lambda>r. DISP_REGS + pt_index r", OF _ all_gprs_complete])
      (simp add: all_gprs_def)
  finally show ?thesis .
qed

lemma saved_entered: "saved_context e rs f w DISP_ENTERED = (if e then 1 else 0)"
proof -
  have "DISP_REGS + pt_index r \<noteq> 0" for r by (cases r) simp_all
  then have "DISP_ENTERED \<notin> (\<lambda>r. DISP_REGS + pt_index r) ` set all_gprs"
    by (metis (no_types, lifting) imageE)
  then show ?thesis
    unfolding saved_context_def
    by (subst fold_upd_other) (simp_all add: komodo_csrs_def disp_csr_def fold_upd_other)
qed

lemma live_final:
  assumes "current_inv C s" and "kom_inv C s"
  shows "live (g_pagedb s) (secure_pages s) (powner (g_pagedb s) (g_cur_dispatcher_pageno s))"
proof -
  from assms(1) have "ptyped (g_pagedb s) (g_cur_dispatcher_pageno s) KOM_PAGE_DISPATCHER"
    by (simp add: current_inv_def Let_def)
  from table_owner [OF assms(2) this] assms(1) show ?thesis
    by (simp add: live_def current_inv_def Let_def)
qed

text \<open>Saving the context of the running enclave changes nothing the invariant relies on.\<close>

lemma page_inv_saved:
  assumes inv: "kom_inv C s" and en: "enclave_mode s"
  shows "page_inv C (g_pagedb s) ((secure_pages s)(g_cur_dispatcher_pageno s :=
           saved_context e (regs s) (csrs s) (secure_pages s (g_cur_dispatcher_pageno s))))"
proof (rule page_inv_words [OF kom_inv_page [OF inv]])
  let ?d = "g_cur_dispatcher_pageno s"
  have cur: "current_inv C s" using inv en by (simp add: kom_inv_def mode_inv_def)
  then have d: "ptyped (g_pagedb s) ?d KOM_PAGE_DISPATCHER" by (simp add: current_inv_def Let_def)
  have "saved_context e (regs s) (csrs s) (secure_pages s ?d) (disp_csr SATP) = csr_read (csrs s) SATP"
    by (rule saved_csr) (simp add: komodo_csrs_def)
  also have "\<dots> = secure_pages s ?d (disp_csr SATP)"
    using page_invD(7) [OF kom_inv_page [OF inv] d live_final [OF cur inv]] cur
    by (simp add: current_inv_def Let_def)
  finally show "word_change C (g_pagedb s) (secure_pages s)
      ((secure_pages s)(?d := saved_context e (regs s) (csrs s) (secure_pages s ?d)))"
    using d by (auto simp: word_change_def)
qed

lemma leave_inv:
  assumes inv: "kom_inv C s" and en: "enclave_mode s"
  shows "holds_after (kom_inv C) (leave_secure_world e s)"
    and "leave_secure_world e s = Return u s' \<Longrightarrow> \<not> enclave_mode s'"
proof -
  have v: "page_is_valid (g_cur_dispatcher_pageno s)" using inv by (simp add: kom_inv_def mode_inv_def)
  show "holds_after (kom_inv C) (leave_secure_world e s)"
    using inv page_inv_saved [OF inv en]
    by (auto simp: leave_secure_world_eq [OF v] Let_def kom_inv_def mode_inv_def switch_csrs_deleg
        page_is_valid_def intro: switch_csrs_pmp)
  show "leave_secure_world e s = Return u s' \<Longrightarrow> \<not> enclave_mode s'"
    by (auto simp: leave_secure_world_eq [OF v] Let_def)
qed

lemma set_host_result_inv: "kom_inv C s \<Longrightarrow> kom_inv C (set_host_result r v s)"
  by (simp add: kom_inv_def mode_inv_def current_inv_def set_host_result_def)

lemma enclave_exit_inv:
  assumes "kom_inv C s" and "enclave_mode s"
  shows "holds_after (kom_inv C) (kom_svc_exit v s)"
    and "holds_after (kom_inv C) (kom_handle_trap c s)"
proof -
  have "kom_inv C (set_host_result r v s) \<and> enclave_mode (set_host_result r v s)" for r v
    using assms set_host_result_inv by (simp add: set_host_result_def)
  note this [THEN conjunct1] this [THEN conjunct2]
  note leave = leave_inv(1) [OF this]
  show "holds_after (kom_inv C) (kom_svc_exit v s)"
    and "holds_after (kom_inv C) (kom_handle_trap c s)"
    unfolding kom_svc_exit_def kom_handle_trap_def
    by (rule holds_after_obind [OF leave], simp)+
qed

text \<open>Writing words of a dispatcher page other than the translation register.\<close>

lemma disp_word_inv:
  assumes inv: "kom_inv C s" and host: "\<not> enclave_mode s"
    and d: "ptyped (g_pagedb s) d KOM_PAGE_DISPATCHER" and i: "i \<noteq> disp_csr SATP"
  shows "kom_inv C (set_word d i v s)"
  using d i
  by (intro kom_inv_hostI [OF inv host])
    (auto simp: word_change_def intro!: page_inv_words [OF kom_inv_page [OF inv]])

lemma run_dispatcher_inv:
  assumes inv: "kom_inv C s" and d: "ptyped (g_pagedb s) d KOM_PAGE_DISPATCHER"
    and final: "secure_pages s (powner (g_pagedb s) d) AS_STATE = KOM_ADDRSPACE_FINAL"
  shows "holds_after (kom_inv C) (run_dispatcher d s)"
proof -
  have "live (g_pagedb s) (secure_pages s) (powner (g_pagedb s) d)"
    using table_owner [OF inv d] final by (simp add: live_def)
  then have "disp_csrs s d SATP = enclave_satp C (secure_pages s) (powner (g_pagedb s) d)"
    using page_invD(7) [OF kom_inv_page [OF inv] d] by (simp add: disp_csrs_def)
  then show ?thesis
    using inv d final
    by (auto simp: run_dispatcher_def enter_secure_world_eq [OF ptyped_valid [OF d]] kom_inv_def
        mode_inv_def current_inv_def Let_def switch_csrs_deleg switch_csrs_SATP ptyped_valid
        intro: switch_csrs_pmp)
qed

lemma enter_inv:
  assumes inv: "kom_inv C s" and host: "\<not> enclave_mode s"
  shows "holds_after (kom_inv C) (kom_smc_enter d x y z s)"
proof (cases "ptyped (g_pagedb s) d KOM_PAGE_DISPATCHER")
  case d: True
  let ?s = "set_word d (DISP_REGS + pt_index A2) z (set_word d (DISP_REGS + pt_index A1) y
              (set_word d (DISP_REGS + pt_index A0) x s))"
  have as: "ptyped (g_pagedb s) (powner (g_pagedb s) d) KOM_PAGE_ADDRSPACE" using table_owner [OF inv d] by simp
  then have ne: "powner (g_pagedb s) d \<noteq> d" using d by (auto simp: ptyped_def)
  have s: "kom_inv C ?s"
    using d host by (auto intro!: disp_word_inv inv)
  have "secure_pages s (powner (g_pagedb s) d) AS_STATE = KOM_ADDRSPACE_FINAL \<Longrightarrow>
      holds_after (kom_inv C) (run_dispatcher d ?s)"
    using d ne by (intro run_dispatcher_inv [OF s]) simp_all
  then show ?thesis
    using d as inv
    by (simp add: kom_smc_enter_def page_is_typed_ptyped page_monvaddr_valid ptyped_valid Let_def)
qed (simp add: kom_smc_enter_def page_is_typed_ptyped inv)

lemma resume_inv:
  assumes inv: "kom_inv C s" and host: "\<not> enclave_mode s"
  shows "holds_after (kom_inv C) (kom_smc_resume d s)"
proof (cases "ptyped (g_pagedb s) d KOM_PAGE_DISPATCHER")
  case d: True
  have "page_is_valid (powner (g_pagedb s) d)" using table_owner [OF inv d] ptyped_valid by simp
  then show ?thesis
    using d inv run_dispatcher_inv [OF inv d]
    by (simp add: kom_smc_resume_def page_is_typed_ptyped page_monvaddr_valid ptyped_valid)
qed (simp add: kom_smc_resume_def page_is_typed_ptyped inv)

section \<open>Trap dispatch\<close>

lemma mode_inv_csrs:
  assumes "kom_inv C s" and "\<And>c. c \<in> set (MEDELEG # MIDELEG # pmp_csrs) \<Longrightarrow> csr_read f c = csr_read (csrs s) c"
    and "csr_read f MSTATUS AND SR_TVM = csr_read (csrs s) MSTATUS AND SR_TVM"
    and "enclave_mode s \<Longrightarrow> csr_read f SATP = csr_read (csrs s) SATP"
  shows "kom_inv C (s\<lparr>csrs := f\<rparr>)"
proof -
  have "pmp_inv C (enclave_mode s) f"
    using assms(1,2) by (intro pmp_inv_cong [of C "enclave_mode s" "csrs s" f])
      (simp_all add: kom_inv_def mode_inv_def)
  then show ?thesis
    using assms by (simp add: kom_inv_def mode_inv_def deleg_inv_def current_inv_def Let_def)
qed

lemma skip_ecall_inv:
  assumes "kom_inv C s"
  shows "kom_inv C (skip_ecall s)" and "enclave_mode (skip_ecall s) = enclave_mode s"
proof -
  show "kom_inv C (skip_ecall s)"
    unfolding skip_ecall_def
    by (rule mode_inv_csrs [OF assms]) (auto simp: csr_simps csr_base_def pmp_csrs_def)
qed (simp add: skip_ecall_def)

lemma set_a0_inv: "holds_after (kom_inv C) m \<Longrightarrow> holds_after (kom_inv C) (set_a0 m)"
  unfolding set_a0_def
  by (erule holds_after_obind) (simp add: kom_inv_def mode_inv_def current_inv_def)

lemma mcall_inv:
  assumes "kom_inv C s"
  shows "holds_after (kom_inv C) (map_outcome id id (\<lambda>i. s\<lparr>kio := i\<rparr>) (do_mcall v r i))"
  using assms do_mcall_not_Panic [of v r i]
  by (cases "do_mcall v r i") (simp_all add: kom_inv_def mode_inv_def current_inv_def)

lemma smc_call_inv:
  assumes inv: "kom_inv C s" and host: "\<not> enclave_mode s"
  shows "holds_after (kom_inv C) (smc_call C s)"
  unfolding smc_call_def Let_def
  by (intro holds_after_if mcall_inv [OF inv] init_addrspace_inv [OF inv host]
      init_dispatcher_inv [OF inv host] init_l2ptable_inv [OF inv host] init_l3ptable_inv [OF inv host]
      map_secure_inv [OF inv host] map_insecure_inv [OF inv host] remove_inv [OF inv host]
      finalise_inv [OF inv host] enter_inv [OF inv host] resume_inv [OF inv host] stop_inv [OF inv host])
    (simp_all add: kom_smc_query_def kom_smc_get_phys_pages_def inv)

text \<open>A trap taken from supervisor mode, as the hardware records it.\<close>

definition trap_ok :: "u64 \<Rightarrow> kom \<Rightarrow> bool" where
  "trap_ok cause s \<longleftrightarrow> (cause = EXC_ECALL_S \<longrightarrow> csr_read (csrs s) MSTATUS AND SR_MPP = SR_MPP_S)"

lemma do_trap_inv:
  assumes inv: "kom_inv C s" and ok: "trap_ok cause s"
  shows "holds_after (kom_inv C) (do_trap C cause s)"
proof -
  note sk = skip_ecall_inv [OF inv]
  have svc: "enclave_mode s \<Longrightarrow> holds_after (kom_inv C) (do_svc_calls s)"
    unfolding do_svc_calls_def Let_def
    by (intro set_a0_inv holds_after_if enclave_exit_inv(1) [OF sk(1)]) (simp_all add: sk)
  have smc: "\<not> enclave_mode s \<Longrightarrow> holds_after (kom_inv C) (do_smc_calls C s)"
    unfolding do_smc_calls_def by (intro set_a0_inv smc_call_inv [OF sk(1)]) (simp add: sk)
  have trap: "enclave_mode s \<Longrightarrow>
      holds_after (kom_inv C) (obind (kom_handle_trap cause s) (\<lambda>_ s. Return () s))"
    by (rule holds_after_obind [OF enclave_exit_inv(2) [OF inv]]) simp_all
  show ?thesis
    using ok svc smc trap inv by (simp add: do_trap_def do_trap_ecall_s_def trap_ok_def)
qed

end
