(* ===== verification/Komodo_Sec.thy ===== *)
theory Komodo_Sec
  imports Komodo_Safe
begin

text \<open>
  The Komodo monitor against an arbitrary host and arbitrary enclaves. The hardware is described by
  what it lets supervisor mode change: memory that physical memory protection grants, memory
  that the page tables of the running enclave map, and the registers of supervisor mode. The
  invariant holds in every reachable state; the theorems on protection, confinement of page walks,
  integrity and confidentiality follow from it.
\<close>

unbundle bit_operations_syntax

section \<open>The memory layout\<close>

text \<open>
  What the linker script and the physical address width guarantee: both page arrays are page aligned,
  lie below \<open>2 ^ 56\<close> and do not overlap.
\<close>

definition layout_ok :: "kom_config \<Rightarrow> bool" where
  "layout_ok C \<longleftrightarrow>
     take_bit 12 (secure_pages_addr C) = 0 \<and> take_bit 12 (payload_addr C) = 0 \<and>
     unat (secure_pages_addr C) + 0x400000 \<le> 2 ^ 56 \<and> unat (payload_addr C) + 0x100000 \<le> 2 ^ 56 \<and>
     (unat (payload_addr C) + 0x100000 \<le> unat (secure_pages_addr C) \<or>
      unat (secure_pages_addr C) + 0x400000 \<le> unat (payload_addr C))"

lemma region_ends:
  assumes "layout_ok C"
  shows "unat (secure_pages_addr C + KOM_SECURE_RESERVE) = unat (secure_pages_addr C) + 0x400000"
    and "unat (payload_addr C + KOM_INSECURE_RESERVE) = unat (payload_addr C) + 0x100000"
  using assms unat_plus_small [of "secure_pages_addr C" KOM_SECURE_RESERVE]
    unat_plus_small [of "payload_addr C" KOM_INSECURE_RESERVE]
  by (simp_all add: layout_ok_def)

lemma region_aligned:
  assumes "layout_ok C"
  shows "push_bit 2 (drop_bit 2 (secure_pages_addr C)) = secure_pages_addr C"
    and "push_bit 2 (drop_bit 2 (payload_addr C)) = payload_addr C"
    and "push_bit 2 (drop_bit 2 (secure_pages_addr C + KOM_SECURE_RESERVE)) =
         secure_pages_addr C + KOM_SECURE_RESERVE"
    and "push_bit 2 (drop_bit 2 (payload_addr C + KOM_INSECURE_RESERVE)) =
         payload_addr C + KOM_INSECURE_RESERVE"
  using assms
  by (auto simp: layout_ok_def intro!: push_drop_aligned aligned_add)

section \<open>Physical memory protection\<close>

text \<open>The decision of the protection unit, for every access.\<close>

lemma pmp_privs_eq:
  assumes "layout_ok C" and "pmp_inv C en f"
  shows "pmp_privs f ptr sz = Some (
     if ptr + sz > payload_addr C \<and> ptr < payload_addr C + KOM_INSECURE_RESERVE
     then (if ptr \<ge> payload_addr C \<and> ptr + sz \<le> payload_addr C + KOM_INSECURE_RESERVE then 7 else 0)
     else if ptr + sz > secure_pages_addr C \<and> ptr < secure_pages_addr C + KOM_SECURE_RESERVE
     then (if ptr \<ge> secure_pages_addr C \<and> ptr + sz \<le> secure_pages_addr C + KOM_SECURE_RESERVE \<and> en
           then 7 else 0)
     else 0)"
proof -
  have off: "pmpcfg_read f 0 AND 24 = 0" "pmpcfg_read f 1 AND 24 = 0" "pmpcfg_read f 6 AND 24 = 0"
    "pmpcfg_read f 7 AND 24 = 0" "pmpcfg_read f 8 AND 24 = 0" "pmpcfg_read f 9 AND 24 = 0"
    "pmpcfg_read f 10 AND 24 = 0" "pmpcfg_read f 11 AND 24 = 0" "pmpcfg_read f 12 AND 24 = 0"
    "pmpcfg_read f 13 AND 24 = 0" "pmpcfg_read f 14 AND 24 = 0" "pmpcfg_read f 15 AND 24 = 0"
    using assms(2) by (simp_all add: pmp_inv_def)
  have on: "pmpcfg_read f 2 = 0" "pmpcfg_read f 3 = 15" "pmpcfg_read f 4 = 0"
    "pmpcfg_read f 5 = (if en then 15 else 8)"
    "csr_read f PMPADDR2 = drop_bit 2 (payload_addr C)"
    "csr_read f PMPADDR3 = drop_bit 2 (payload_addr C + KOM_INSECURE_RESERVE)"
    "csr_read f PMPADDR4 = drop_bit 2 (secure_pages_addr C)"
    "csr_read f PMPADDR5 = drop_bit 2 (secure_pages_addr C + KOM_SECURE_RESERVE)"
    using assms(2) by (simp_all add: pmp_inv_def)
  have cfg: "(0 :: u64) AND 24 = 0" "(15 :: u64) AND 24 = 8" "(if en then 15 else 8) AND 24 = (8 :: u64)"
    by simp_all
  have perm: "(15 :: u64) AND 7 = 7" "(if en then 15 else 8) AND 7 = (if en then 7 else 0 :: u64)"
    by simp_all
  show ?thesis
    unfolding pmp_privs_def pmp_entries_list on
    by (simp only: pmp_walk.simps(1) pmp_walk_off pmp_walk_tor off cfg perm region_aligned [OF assms(1)]
        not_True_eq_False if_False if_distrib [of Some])
      (cases en; simp only: simp_thms if_True if_False if_cancel)
qed

text \<open>Outside enclave mode no access that touches a secure page is granted.\<close>

lemma pmp_blocks_secure:
  assumes L: "layout_ok C" and P: "pmp_inv C False f"
    and ov: "ptr + sz > secure_pages_addr C" "ptr < secure_pages_addr C + KOM_SECURE_RESERVE"
  shows "pmp_privs f ptr sz = Some 0"
proof -
  have "payload_addr C + KOM_INSECURE_RESERVE \<le> secure_pages_addr C \<or>
        secure_pages_addr C + KOM_SECURE_RESERVE \<le> payload_addr C"
    using L region_ends [OF L] by (simp add: layout_ok_def word_le_nat_alt)
  then have "\<not> (ptr \<ge> payload_addr C \<and> ptr + sz \<le> payload_addr C + KOM_INSECURE_RESERVE)"
    using ov by (meson le_less_trans less_le_trans not_le order_trans)
  then show ?thesis unfolding pmp_privs_eq [OF L P] by auto
qed

section \<open>Address translation\<close>

text \<open>Physical page frames, by the array they belong to.\<close>

datatype frame = Secure u64 | Insecure u64 | Other u64

definition frame_of :: "kom_config \<Rightarrow> u64 \<Rightarrow> frame" where
  "frame_of C pfn =
     (let p = pfn - PFN_DOWN (secure_pages_addr C); q = pfn - PFN_DOWN (payload_addr C) in
      if page_is_valid p then Secure p else if insecure_page_is_valid q then Insecure q else Other pfn)"

text \<open>The word at an index of a frame; \<open>m\<close> is the memory outside both arrays.\<close>

definition frame_word :: "kom_config \<Rightarrow> (u64 \<Rightarrow> u64 \<Rightarrow> u64) \<Rightarrow> kom \<Rightarrow> u64 \<Rightarrow> u64 \<Rightarrow> u64" where
  "frame_word C m s pfn i = (case frame_of C pfn of
      Secure p \<Rightarrow> secure_pages s p i | Insecure q \<Rightarrow> payload s q i | Other n \<Rightarrow> m n i)"

definition pte_ppn :: "u64 \<Rightarrow> u64" where
  "pte_ppn e = take_bit 44 (drop_bit 10 e)"

text \<open>
  Sv39 translation of the privileged architecture: three levels, an entry without the valid bit
  faults, an entry with a permission bit is a leaf, a leaf above the last level maps a
  superpage that must be aligned. The result is the frame and the permission bits.
\<close>

definition sv39_walk ::
    "kom_config \<Rightarrow> (u64 \<Rightarrow> u64 \<Rightarrow> u64) \<Rightarrow> kom \<Rightarrow> u64 \<Rightarrow> u64 \<Rightarrow> u64 \<Rightarrow> u64 \<Rightarrow> (frame \<times> u64) option" where
  "sv39_walk C m s satp i1 i2 i3 =
     (let e1 = frame_word C m s (take_bit 44 satp) i1 in
      if e1 AND 1 = 0 then None
      else if e1 AND 14 \<noteq> 0 then
        (if take_bit 18 (pte_ppn e1) \<noteq> 0 then None
         else Some (frame_of C (pte_ppn e1 OR push_bit 9 i2 OR i3), e1 AND 14))
      else let e2 = frame_word C m s (pte_ppn e1) i2 in
      if e2 AND 1 = 0 then None
      else if e2 AND 14 \<noteq> 0 then
        (if take_bit 9 (pte_ppn e2) \<noteq> 0 then None
         else Some (frame_of C (pte_ppn e2 OR i3), e2 AND 14))
      else let e3 = frame_word C m s (pte_ppn e2) i3 in
      if e3 AND 1 = 0 \<or> e3 AND 14 = 0 then None
      else Some (frame_of C (pte_ppn e3), e3 AND 14))"

lemma unat_PFN_DOWN: "unat (PFN_DOWN x) = unat x div 4096"
  unfolding PFN_DOWN_def unat_drop_bit_eq by (simp add: drop_bit_eq_div)

lemma pfn_fits: "unat x < 2 ^ 56 \<Longrightarrow> take_bit 44 (PFN_DOWN x) = PFN_DOWN x"
proof -
  assume "unat x < 2 ^ 56"
  then have "unat (PFN_DOWN x) < 2 ^ 44"
    by (simp add: unat_PFN_DOWN less_mult_imp_div_less)
  then show ?thesis
    by (simp add: word_unat_eq_iff unsigned_take_bit_eq take_bit_nat_eq_self)
qed

lemma page_mult: "p < n \<Longrightarrow> unat n \<le> 1024 \<Longrightarrow> unat (p * KOM_PAGE_SIZE :: u64) = unat p * 4096"
proof -
  assume "p < n" and "unat n \<le> 1024"
  then have "unat p * unat KOM_PAGE_SIZE < 2 ^ LENGTH(64)"
    by (simp add: word_less_nat_alt)
  then show ?thesis using unat_mult_lem [of p KOM_PAGE_SIZE] by simp
qed

lemma region_page:
  fixes base p n :: u64
  assumes al: "take_bit 12 base = 0" and fit: "unat base + unat n * 4096 \<le> 2 ^ 56"
    and p: "p < n" and n: "unat n \<le> 1024"
  shows "unat (base + p * KOM_PAGE_SIZE) = unat base + unat p * 4096"
    and "PFN_DOWN (base + p * KOM_PAGE_SIZE) = PFN_DOWN base + p"
    and "take_bit 44 (PFN_DOWN (base + p * KOM_PAGE_SIZE)) = PFN_DOWN (base + p * KOM_PAGE_SIZE)"
proof -
  have lt: "unat p < unat n" using p by (simp add: word_less_nat_alt)
  then have small: "unat base + unat p * 4096 < 2 ^ 56" using fit by linarith
  show sum: "unat (base + p * KOM_PAGE_SIZE) = unat base + unat p * 4096"
    using unat_plus_small [of base "p * KOM_PAGE_SIZE"] small page_mult [OF p n] by simp
  then show "take_bit 44 (PFN_DOWN (base + p * KOM_PAGE_SIZE)) = PFN_DOWN (base + p * KOM_PAGE_SIZE)"
    using small by (intro pfn_fits) simp
  have "unat base mod 4096 = 0"
    using arg_cong [OF al, of unat] unfolding unsigned_take_bit_eq by (simp add: take_bit_eq_mod)
  then have "unat (base + p * KOM_PAGE_SIZE) div 4096 = unat base div 4096 + unat p"
    using sum by (simp add: div_add1_eq)
  moreover have "unat (PFN_DOWN base + p) = unat base div 4096 + unat p"
    using unat_plus_small [of "PFN_DOWN base" p] small by (simp add: unat_PFN_DOWN)
  ultimately show "PFN_DOWN (base + p * KOM_PAGE_SIZE) = PFN_DOWN base + p"
    by (simp add: word_unat_eq_iff unat_PFN_DOWN)
qed

lemma secure_pfn:
  assumes "layout_ok C" and "page_is_valid p"
  shows "PFN_DOWN (page_paddr C p) = PFN_DOWN (secure_pages_addr C) + p"
    and "take_bit 44 (PFN_DOWN (page_paddr C p)) = PFN_DOWN (page_paddr C p)"
    and "unat (page_paddr C p) = unat (secure_pages_addr C) + unat p * 4096"
  using region_page [of "secure_pages_addr C" KOM_SECURE_NPAGES p] assms
  by (simp_all add: layout_ok_def page_is_valid_def page_paddr_def)

lemma insecure_pfn:
  assumes "layout_ok C" and "insecure_page_is_valid p"
  shows "PFN_DOWN (insecure_page_paddr C p) = PFN_DOWN (payload_addr C) + p"
    and "take_bit 44 (PFN_DOWN (insecure_page_paddr C p)) = PFN_DOWN (insecure_page_paddr C p)"
    and "unat (insecure_page_paddr C p) = unat (payload_addr C) + unat p * 4096"
  using region_page [of "payload_addr C" KOM_INSECURE_NPAGES p] assms
  by (simp_all add: layout_ok_def insecure_page_is_valid_def insecure_page_paddr_def)

lemma frame_of_secure:
  assumes "layout_ok C" and "page_is_valid p"
  shows "frame_of C (PFN_DOWN (page_paddr C p)) = Secure p"
  using assms(2) by (simp add: frame_of_def secure_pfn [OF assms])

lemma frame_of_insecure:
  assumes L: "layout_ok C" and q: "insecure_page_is_valid q"
  shows "frame_of C (PFN_DOWN (insecure_page_paddr C q)) = Insecure q"
proof -
  have "\<not> page_is_valid (PFN_DOWN (payload_addr C) + q - PFN_DOWN (secure_pages_addr C))"
  proof
    let ?p = "PFN_DOWN (payload_addr C) + q - PFN_DOWN (secure_pages_addr C)"
    assume p: "page_is_valid ?p"
    have "PFN_DOWN (page_paddr C ?p) = PFN_DOWN (insecure_page_paddr C q)"
      by (simp add: secure_pfn [OF L p] insecure_pfn [OF L q])
    then have "(unat (secure_pages_addr C) + unat ?p * 4096) div 4096 =
        (unat (payload_addr C) + unat q * 4096) div 4096"
      by (simp add: word_unat_eq_iff unat_PFN_DOWN secure_pfn(3) [OF L p] insecure_pfn(3) [OF L q])
    moreover have "unat ?p < 1024" using p by (simp add: page_is_valid_def word_less_nat_alt)
    moreover have "unat q < 256" using q by (simp add: insecure_page_is_valid_def word_less_nat_alt)
    ultimately show False using L unfolding layout_ok_def by linarith
  qed
  then show ?thesis using q by (simp add: frame_of_def insecure_pfn [OF L q] Let_def)
qed

text \<open>The fields of the entries the monitor writes, as the translation hardware reads them.\<close>

lemma bit_rwx: "bit (14 :: int) n \<longleftrightarrow> 1 \<le> n \<and> n < 4"
proof -
  have "(14 :: int) = push_bit 1 (mask 3)" by (simp add: mask_eq_exp_minus_1)
  then show ?thesis by (simp only: bit_push_bit_iff bit_mask_iff) auto
qed

lemma prot_bits: "take_bit 10 (enclave_prot m) = enclave_prot m"
proof -
  have "take_bit 10 (m AND 14) = m AND 14"
    by (rule bit_word_eqI) (auto simp: bit_take_bit_iff bit_and_iff bit_or_iff bit_push_bit_iff bit_1_iff bit_rwx)
  then show ?thesis by (simp add: enclave_prot_def take_bit_or)
qed

lemma pte_ppn_entry:
  assumes "take_bit 44 pfn = pfn" and "take_bit 10 prot = prot"
  shows "pte_ppn (pfn_pte pfn prot) = pfn"
proof -
  have "take_bit 54 (take_bit 44 pfn) = take_bit 44 pfn" by simp
  then have "take_bit 54 pfn = pfn" unfolding assms(1) .
  then show ?thesis using entry_pfn [OF _ assms(2), of pfn] assms(1)
    by (simp add: pte_ppn_def pfn_pte_def)
qed

lemma table_entry_bits: "table_entry C q AND 1 = 1" "table_entry C q AND 14 = 0"
proof -
  have "(push_bit 10 x OR 1) AND 1 = (1 :: u64)" for x :: u64
    by (rule bit_word_eqI) (auto simp: bit_simps)
  then show "table_entry C q AND 1 = 1" by (simp add: table_entry_def pfn_pgd_def)
  have "(push_bit 10 x OR 1) AND 14 = (0 :: u64)" for x :: u64
    by (rule bit_word_eqI) (auto simp: bit_take_bit_iff bit_and_iff bit_or_iff bit_push_bit_iff bit_1_iff bit_rwx)
  then show "table_entry C q AND 14 = 0" by (simp add: table_entry_def pfn_pgd_def)
qed

lemma table_entry_ppn:
  assumes "layout_ok C" and "page_is_valid q"
  shows "pte_ppn (table_entry C q) = PFN_DOWN (page_paddr C q)"
  using pte_ppn_entry [OF secure_pfn(2) [OF assms], of 1]
  by (simp add: table_entry_def pfn_pgd_def pfn_pte_def)

lemma satp_ppn:
  assumes "take_bit 44 pfn = pfn"
  shows "take_bit 44 (SATP_MODE_SV39 OR pfn) = pfn"
proof -
  have "take_bit 44 SATP_MODE_SV39 = 0" by (simp add: SATP_MODE_SV39_def)
  then show ?thesis using assms by (simp add: take_bit_or)
qed

lemma frame_word_secure:
  assumes "layout_ok C" and "page_is_valid p"
  shows "frame_word C m s (PFN_DOWN (page_paddr C p)) i = secure_pages s p i"
  by (simp add: frame_word_def frame_of_secure [OF assms])

lemma entry_okD:
  assumes "entry_ok C db a t e" and "e AND 1 \<noteq> 0"
  shows "t = KOM_PAGE_L1PTABLE \<Longrightarrow>
           \<exists>q. ptyped db q KOM_PAGE_L2PTABLE \<and> powner db q = a \<and> e = table_entry C q"
    and "t = KOM_PAGE_L2PTABLE \<Longrightarrow>
           \<exists>q. ptyped db q KOM_PAGE_L3PTABLE \<and> powner db q = a \<and> e = table_entry C q"
    and "t = KOM_PAGE_L3PTABLE \<Longrightarrow>
           (\<exists>q m. ptyped db q KOM_PAGE_DATA \<and> powner db q = a \<and>
               e = pfn_pte (PFN_DOWN (page_paddr C q)) (enclave_prot m)) \<or>
           (\<exists>q m. insecure_page_is_valid q \<and>
               e = pfn_pte (PFN_DOWN (insecure_page_paddr C q)) (enclave_prot m))"
  using assms by (auto simp: entry_ok_def)

lemma leaf_frame:
  assumes L: "layout_ok C" and "entry_ok C db a KOM_PAGE_L3PTABLE e" and "e AND 1 \<noteq> 0"
  shows "(\<exists>p. frame_of C (pte_ppn e) = Secure p \<and> ptyped db p KOM_PAGE_DATA \<and> powner db p = a) \<or>
         (\<exists>q. frame_of C (pte_ppn e) = Insecure q \<and> insecure_page_is_valid q)"
  using entry_okD(3) [OF assms(2,3) refl]
  by (auto simp: pte_ppn_entry [OF secure_pfn(2) [OF L ptyped_valid] prot_bits] frame_of_secure [OF L ptyped_valid]
      pte_ppn_entry [OF insecure_pfn(2) [OF L] prot_bits] frame_of_insecure [OF L])

text \<open>
  Every translation by the tables of an enclave ends in a data page of the same enclave or in an
  insecure page.
\<close>

lemma tables_confined:
  assumes L: "layout_ok C" and inv: "page_inv C (g_pagedb s) (secure_pages s)"
    and a: "live (g_pagedb s) (secure_pages s) a"
    and walk: "sv39_walk C m s (enclave_satp C (secure_pages s) a) i1 i2 i3 = Some (fr, perm)"
  shows "(\<exists>p. fr = Secure p \<and> ptyped (g_pagedb s) p KOM_PAGE_DATA \<and> powner (g_pagedb s) p = a) \<or>
         (\<exists>q. fr = Insecure q \<and> insecure_page_is_valid q)"
proof -
  let ?db = "g_pagedb s" and ?pg = "secure_pages s"
  have entry: "entry_ok C ?db a t (?pg p i)" if "ptyped ?db p t" "t \<noteq> KOM_PAGE_FREE" "powner ?db p = a" for p t i
    using page_invD(8) [OF inv ptyped_used [OF that(1,2)], of i] that a ptyped_type by auto
  define l1 where "l1 = ?pg a AS_L1PT"
  have l1: "ptyped ?db l1 KOM_PAGE_L1PTABLE" "powner ?db l1 = a"
    using page_invD(5,6) [OF inv a] by (simp_all add: l1_def)
  note v1 = ptyped_valid [OF l1(1)]
  have e1: "frame_word C m s (take_bit 44 (enclave_satp C ?pg a)) i1 = ?pg l1 i1"
    using satp_ppn [OF secure_pfn(2) [OF L v1]] frame_word_secure [OF L v1]
    by (simp add: enclave_satp_def l1_def)
  from walk have p1: "?pg l1 i1 AND 1 \<noteq> 0" by (auto simp: sv39_walk_def e1 split: if_splits)
  obtain l2 where l2: "ptyped ?db l2 KOM_PAGE_L2PTABLE" "powner ?db l2 = a" "?pg l1 i1 = table_entry C l2"
    using entry_okD(1) [OF entry [OF l1(1) _ l1(2)] p1 refl] by auto
  note v2 = ptyped_valid [OF l2(1)]
  have e2: "frame_word C m s (pte_ppn (?pg l1 i1)) i2 = ?pg l2 i2"
    by (simp add: l2 table_entry_ppn [OF L v2] frame_word_secure [OF L v2])
  from walk have p2: "?pg l2 i2 AND 1 \<noteq> 0"
    by (auto simp: sv39_walk_def Let_def e1 e2 [unfolded l2(3)] l2(3) table_entry_bits split: if_splits)
  obtain l3 where l3: "ptyped ?db l3 KOM_PAGE_L3PTABLE" "powner ?db l3 = a" "?pg l2 i2 = table_entry C l3"
    using entry_okD(2) [OF entry [OF l2(1) _ l2(2)] p2 refl] by auto
  note v3 = ptyped_valid [OF l3(1)]
  have e3: "frame_word C m s (pte_ppn (?pg l2 i2)) i3 = ?pg l3 i3"
    by (simp add: l3 table_entry_ppn [OF L v3] frame_word_secure [OF L v3])
  have "?pg l3 i3 AND 1 \<noteq> 0" "fr = frame_of C (pte_ppn (?pg l3 i3))"
    using walk
    by (auto simp: sv39_walk_def Let_def e1 e2 [unfolded l2(3)] l2(3) e3 [unfolded l3(3)] l3(3)
        table_entry_bits split: if_splits)
  then show ?thesis using leaf_frame [OF L entry [OF l3(1) _ l3(2)]] by simp
qed

lemma walk_confined:
  assumes L: "layout_ok C" and inv: "kom_inv C s" and en: "enclave_mode s"
    and walk: "sv39_walk C m s (csr_read (csrs s) SATP) i1 i2 i3 = Some (fr, perm)"
  shows "(\<exists>p. fr = Secure p \<and> ptyped (g_pagedb s) p KOM_PAGE_DATA \<and>
              powner (g_pagedb s) p = powner (g_pagedb s) (g_cur_dispatcher_pageno s)) \<or>
         (\<exists>q. fr = Insecure q \<and> insecure_page_is_valid q)"
proof -
  have cur: "current_inv C s" using inv en by (simp add: kom_inv_def mode_inv_def)
  show ?thesis
    using tables_confined [OF L kom_inv_page [OF inv] live_final [OF cur inv]] walk cur
    by (simp add: current_inv_def Let_def)
qed

section \<open>The machine around the monitor\<close>

text \<open>
  Supervisor mode and the trap hardware may change every register but the machine level ones that
  confine it; \<^verbatim>\<open>satp\<close> is among those when \<^verbatim>\<open>mstatus.TVM\<close> is set.
\<close>

definition smode_csrs :: "csr_file \<Rightarrow> csr_file \<Rightarrow> bool" where
  "smode_csrs f g \<longleftrightarrow>
     (\<forall>c \<in> set (MEDELEG # MIDELEG # pmp_csrs). csr_read g c = csr_read f c) \<and>
     csr_read g MSTATUS AND SR_TVM = csr_read f MSTATUS AND SR_TVM \<and>
     (csr_read f MSTATUS AND SR_TVM \<noteq> 0 \<longrightarrow> csr_read g SATP = csr_read f SATP)"

text \<open>Words the host may change: those of the payload, and those the protection unit grants.\<close>

definition host_may_write :: "kom_config \<Rightarrow> kom \<Rightarrow> u64 \<Rightarrow> u64 \<Rightarrow> bool" where
  "host_may_write C s p i \<longleftrightarrow> page_is_valid p \<and> i < 512 \<and>
     pmp_privs (csrs s) (page_paddr C p + i * 8) 8 \<noteq> Some 0"

text \<open>Words the running enclave may change: those of frames its tables map.\<close>

definition enclave_may_write :: "kom_config \<Rightarrow> (u64 \<Rightarrow> u64 \<Rightarrow> u64) \<Rightarrow> kom \<Rightarrow> u64 \<Rightarrow> bool" where
  "enclave_may_write C m s p \<longleftrightarrow>
     (\<exists>i1 i2 i3 perm. sv39_walk C m s (csr_read (csrs s) SATP) i1 i2 i3 = Some (Secure p, perm))"

text \<open>
  One step of the machine: the host runs, the running enclave runs, or a trap is handled, which
  ends in a return to the trapped context or in an \<^verbatim>\<open>mret\<close> with given registers.
\<close>

inductive kom_step :: "kom_config \<Rightarrow> (u64 \<Rightarrow> u64 \<Rightarrow> u64) \<Rightarrow> kom \<Rightarrow> kom \<Rightarrow> bool"
  for C :: kom_config and m :: "u64 \<Rightarrow> u64 \<Rightarrow> u64" where
  host_run: "\<not> enclave_mode s \<Longrightarrow> smode_csrs (csrs s) f \<Longrightarrow>
    (\<And>p i. pg p i \<noteq> secure_pages s p i \<Longrightarrow> host_may_write C s p i) \<Longrightarrow>
    kom_step C m s (s\<lparr>regs := r, csrs := f, payload := pl, secure_pages := pg\<rparr>)"
| enclave_run: "enclave_mode s \<Longrightarrow> smode_csrs (csrs s) f \<Longrightarrow>
    (\<And>p i. pg p i \<noteq> secure_pages s p i \<Longrightarrow> enclave_may_write C m s p) \<Longrightarrow>
    kom_step C m s (s\<lparr>regs := r, csrs := f, payload := pl, secure_pages := pg\<rparr>)"
| trap_return: "trap_ok cause s \<Longrightarrow> do_trap C cause s = Return u s' \<Longrightarrow> kom_step C m s s'"
| trap_mret: "trap_ok cause s \<Longrightarrow> do_trap C cause s = Mret r s' \<Longrightarrow> kom_step C m s (s'\<lparr>regs := r\<rparr>)"

inductive_cases kom_stepE: "kom_step C m s t"

text \<open>Boot: \<^verbatim>\<open>main\<close> from a machine whose protection entries are off, as reset leaves them.\<close>

definition kom_boot :: "kom_config \<Rightarrow> kom \<Rightarrow> bool" where
  "kom_boot C s \<longleftrightarrow> (\<exists>junk hartid dtb s0 r s'. pmp_reset (csrs s0) \<and>
     kom_main C junk hartid dtb s0 = Mret r s' \<and> s = s'\<lparr>regs := r\<rparr>)"

lemma pmp_init_inv: "pmp_reset f \<Longrightarrow> pmp_inv C False (kom_pmp_init C f)"
  by (auto simp: pmp_reset_def pmp_inv_def kom_pmp_init_def Let_def pmpaddr_write_def csr_simps
      pmpcfg_read_write csr_read_write_same csr_base_def)

lemma page_inv_empty:
  assumes "\<And>p. page_is_valid p \<Longrightarrow> pg_type (db p) = KOM_PAGE_FREE"
  shows "page_inv C db pg"
proof -
  have "\<not> used db p" "t \<noteq> KOM_PAGE_FREE \<Longrightarrow> \<not> ptyped db p t" for p t
    using assms by (auto simp: used_def ptyped_def)
  then show ?thesis by (simp add: page_inv_def inv_defs live_def)
qed

lemma boot_inv: "kom_boot C s \<Longrightarrow> kom_inv C s"
proof -
  assume "kom_boot C s"
  then obtain junk hartid dtb s0 r s' where reset: "pmp_reset (csrs s0)"
    and main: "kom_main C junk hartid dtb s0 = Mret r s'" and s: "s = s'\<lparr>regs := r\<rparr>"
    by (auto simp: kom_boot_def)
  have f: "csrs s = csr_write MEPC (payload_addr C) (csr_write MIDELEG IDEL_DEFAULT
      (csr_write MEDELEG EDEL_DEFAULT (csr_write MCOUNTEREN (ucast (NOT 0 :: u32))
        (csr_write MSTATUS SR_MPP_S (kom_pmp_init C (csrs s0))))))"
    and off: "\<not> enclave_mode s" "g_cur_dispatcher_pageno s = 0"
    and db: "\<And>p. page_is_valid p \<Longrightarrow> pg_type (g_pagedb s p) = KOM_PAGE_FREE"
    using main s by (auto simp: kom_main_def supervisor_init_def init_monitor_def Let_def)
  have "pmp_inv C False (csrs s)"
    unfolding f
    by (rule pmp_inv_cong [OF pmp_init_inv [OF reset]]) (auto simp: pmp_csrs_def csr_simps csr_base_def)
  moreover have "deleg_inv False (csrs s)"
    unfolding f by (simp add: deleg_inv_def csr_simps csr_base_def csr_read_write_same)
  ultimately show ?thesis
    using page_inv_empty [OF db] off by (simp add: kom_inv_def mode_inv_def page_is_valid_def)
qed

text \<open>The host can reach no word of a secure page.\<close>

lemma host_no_write:
  assumes L: "layout_ok C" and inv: "kom_inv C s" and host: "\<not> enclave_mode s"
  shows "\<not> host_may_write C s p i"
proof
  assume w: "host_may_write C s p i"
  then have p: "page_is_valid p" and i: "i < 512"
    and g: "pmp_privs (csrs s) (page_paddr C p + i * 8) 8 \<noteq> Some 0"
    by (simp_all add: host_may_write_def)
  let ?sec = "unat (secure_pages_addr C)"
  have sec: "?sec + 0x400000 \<le> 2 ^ 56" using L by (simp add: layout_ok_def)
  have pl: "unat p < 1024" using p by (simp add: page_is_valid_def word_less_nat_alt)
  have il: "unat i < 512" using i by (simp add: word_less_nat_alt)
  have "unat i * unat (8 :: u64) < 2 ^ LENGTH(64)" using il by simp
  then have i8: "unat (i * 8) = unat i * 8" using unat_mult_lem [of i 8] by simp
  have a: "unat (page_paddr C p + i * 8) = ?sec + unat p * 4096 + unat i * 8"
    using unat_plus_small [of "page_paddr C p" "i * 8"] secure_pfn(3) [OF L p] i8 sec pl il by simp
  then have b: "unat (page_paddr C p + i * 8 + 8) = ?sec + unat p * 4096 + unat i * 8 + 8"
    using unat_plus_small [of "page_paddr C p + i * 8" 8] sec pl il by simp
  have "pmp_inv C False (csrs s)" using inv host by (simp add: kom_inv_def mode_inv_def)
  then have "pmp_privs (csrs s) (page_paddr C p + i * 8) 8 = Some 0"
    using a b pl il region_ends(1) [OF L]
    by (intro pmp_blocks_secure [OF L]) (simp_all add: word_less_nat_alt)
  with g show False by simp
qed

lemma smode_csrs_inv:
  assumes "kom_inv C s" and "smode_csrs (csrs s) f"
  shows "kom_inv C (s\<lparr>csrs := f\<rparr>)"
proof (rule mode_inv_csrs [OF assms(1)])
  show "enclave_mode s \<Longrightarrow> csr_read f SATP = csr_read (csrs s) SATP"
    using assms by (auto simp: smode_csrs_def kom_inv_def mode_inv_def deleg_inv_def)
qed (use assms(2) in \<open>auto simp: smode_csrs_def\<close>)

lemma current_frame:
  assumes "current_inv C s" and "kom_inv C s"
    and "\<And>p. ptyped (g_pagedb s) p KOM_PAGE_ADDRSPACE \<Longrightarrow> pg p = secure_pages s p"
  shows "current_inv C (s\<lparr>secure_pages := pg\<rparr>)"
proof -
  have "ptyped (g_pagedb s) (powner (g_pagedb s) (g_cur_dispatcher_pageno s)) KOM_PAGE_ADDRSPACE"
    using live_final [OF assms(1,2)] by (simp add: live_def)
  with assms(1,3) show ?thesis by (simp add: current_inv_def Let_def enclave_satp_def)
qed

lemma enclave_run_inv:
  assumes L: "layout_ok C" and inv: "kom_inv C s" and en: "enclave_mode s"
    and ch: "\<And>p i. pg p i \<noteq> secure_pages s p i \<Longrightarrow> enclave_may_write C m s p"
  shows "kom_inv C (s\<lparr>secure_pages := pg\<rparr>)"
proof -
  have data: "ptyped (g_pagedb s) p KOM_PAGE_DATA" if ne: "pg p \<noteq> secure_pages s p" for p
  proof -
    obtain i where "pg p i \<noteq> secure_pages s p i" using ne fun_eq_iff [of "pg p" "secure_pages s p"] by blast
    from ch [OF this] obtain i1 i2 i3 perm where
      "sv39_walk C m s (csr_read (csrs s) SATP) i1 i2 i3 = Some (Secure p, perm)"
      by (auto simp: enclave_may_write_def)
    from walk_confined [OF L inv en this] show ?thesis by simp
  qed
  have "word_change C (g_pagedb s) (secure_pages s) pg"
    unfolding word_change_def
  proof (intro allI)
    fix p i
    show "pg p i = secure_pages s p i \<or> ptyped (g_pagedb s) p KOM_PAGE_DATA \<or> \<not> used (g_pagedb s) p \<or>
      (ptyped (g_pagedb s) p KOM_PAGE_DISPATCHER \<and> i \<noteq> disp_csr SATP) \<or>
      (pg_type (g_pagedb s p) \<in> {KOM_PAGE_L1PTABLE, KOM_PAGE_L2PTABLE, KOM_PAGE_L3PTABLE} \<and>
       entry_ok C (g_pagedb s) (powner (g_pagedb s) p) (pg_type (g_pagedb s p)) (pg p i))"
      by (cases "pg p = secure_pages s p") (simp_all add: data)
  qed
  from page_inv_words [OF kom_inv_page [OF inv] this]
  have "page_inv C (g_pagedb s) pg" .
  moreover have "current_inv C (s\<lparr>secure_pages := pg\<rparr>)"
  proof (rule current_frame [OF _ inv])
    show "current_inv C s" using inv en by (simp add: kom_inv_def mode_inv_def)
    show "ptyped (g_pagedb s) p KOM_PAGE_ADDRSPACE \<Longrightarrow> pg p = secure_pages s p" for p
      using data [of p] by (auto simp: ptyped_def)
  qed
  ultimately show ?thesis using inv by (simp add: kom_inv_def mode_inv_def)
qed

lemma kom_inv_regs: "kom_inv C (s\<lparr>regs := r\<rparr>) = kom_inv C s" "kom_inv C (s\<lparr>payload := q\<rparr>) = kom_inv C s"
  by (simp_all add: kom_inv_def mode_inv_def current_inv_def)

lemma kom_step_inv:
  assumes "kom_step C m s t" and L: "layout_ok C" and inv: "kom_inv C s"
  shows "kom_inv C t"
  using assms(1)
proof (cases rule: kom_step.cases)
  case (host_run f pg pl r)
  then have "pg = secure_pages s" using host_no_write [OF L inv] by (intro ext) blast
  then have "t = s\<lparr>csrs := f, regs := r, payload := pl\<rparr>" using host_run by simp
  then show ?thesis
    using smode_csrs_inv [OF inv] host_run kom_inv_regs(1) [where s = "s\<lparr>csrs := f\<rparr>"]
      kom_inv_regs(2) [where s = "s\<lparr>csrs := f, regs := r\<rparr>"] by simp
next
  case (enclave_run f pg pl r)
  have "kom_inv C (s\<lparr>secure_pages := pg\<rparr>)"
    by (rule enclave_run_inv [OF L inv]) (use enclave_run in auto)
  then have "kom_inv C (s\<lparr>secure_pages := pg, csrs := f\<rparr>)"
    using smode_csrs_inv [of C "s\<lparr>secure_pages := pg\<rparr>" f] enclave_run by simp
  then have "kom_inv C (s\<lparr>secure_pages := pg, csrs := f, regs := r, payload := pl\<rparr>)"
    using kom_inv_regs(1) [where s = "s\<lparr>secure_pages := pg, csrs := f\<rparr>"]
      kom_inv_regs(2) [where s = "s\<lparr>secure_pages := pg, csrs := f, regs := r\<rparr>"] by simp
  moreover have "t = s\<lparr>secure_pages := pg, csrs := f, regs := r, payload := pl\<rparr>"
    using enclave_run by simp
  ultimately show ?thesis by simp
next
  case (trap_return cause u)
  then show ?thesis using do_trap_inv [OF inv, of cause] by simp
next
  case (trap_mret cause r s')
  then show ?thesis using do_trap_inv [OF inv, of cause] by (simp add: kom_inv_regs)
qed

interpretation kom_sys: inv_system "kom_boot C" "kom_step C m" "\<lambda>s. layout_ok C \<longrightarrow> kom_inv C s"
  for C m
  by unfold_locales (use boot_inv kom_step_inv in blast)+

end
