(* ===== verification/Komodo_NI.thy ===== *)
theory Komodo_NI
  imports Komodo_Sec
begin

text \<open>
  Isolation by the Komodo monitor, as properties of its handlers: what a step of the machine leaves
  untouched of a finalised enclave (integrity), that the host learns nothing of the contents of
  enclaves beyond what they declassify on exit (confidentiality), and that both directions of the
  world switch restore the context they saved.
\<close>

unbundle bit_operations_syntax

section \<open>Integrity\<close>

text \<open>
  The pages a finalised enclave can rely on: its data pages and page tables. The address space
  page holds the state and count that the host calls change, and entering a dispatcher
  passes arguments in its registers.
\<close>

definition protected_page :: "kom \<Rightarrow> u64 \<Rightarrow> bool" where
  "protected_page s p \<longleftrightarrow> used (g_pagedb s) p \<and>
     pg_type (g_pagedb s p) \<notin> {KOM_PAGE_ADDRSPACE, KOM_PAGE_DISPATCHER} \<and>
     secure_pages s (powner (g_pagedb s) p) AS_STATE = KOM_ADDRSPACE_FINAL"

definition page_kept :: "kom \<Rightarrow> u64 \<Rightarrow> kom \<Rightarrow> bool" where
  "page_kept s p s' \<longleftrightarrow> secure_pages s' p = secure_pages s p \<and> g_pagedb s' p = g_pagedb s p"

lemma page_kept_refl [simp]: "page_kept s p s"
  by (simp add: page_kept_def)

lemma page_kept_other:
  "p \<noteq> q \<Longrightarrow> page_kept s p (set_word q i v s') = page_kept s p s'"
  "p \<noteq> q \<Longrightarrow> page_kept s p (copy_page q r s') = page_kept s p s'"
  "p \<noteq> q \<Longrightarrow> page_kept s p (zero_page q s') = page_kept s p s'"
  "p \<noteq> q \<Longrightarrow> page_kept s p (set_pagedb q t a s') = page_kept s p s'"
  by (simp_all add: page_kept_def zero_page_def set_pagedb_def)

lemma page_kept_alloc:
  "p \<noteq> q \<Longrightarrow> p \<noteq> a \<Longrightarrow> page_kept s p (alloc_state q a t s)"
  by (simp add: page_kept_def alloc_db_def alloc_pg_def)

text \<open>The calls of the host also leave the dispatcher of an interrupted enclave alone.\<close>

definition guarded_page :: "kom \<Rightarrow> u64 \<Rightarrow> bool" where
  "guarded_page s p \<longleftrightarrow> used (g_pagedb s) p \<and> pg_type (g_pagedb s p) \<noteq> KOM_PAGE_ADDRSPACE \<and>
     secure_pages s (powner (g_pagedb s) p) AS_STATE = KOM_ADDRSPACE_FINAL \<and>
     (pg_type (g_pagedb s p) = KOM_PAGE_DISPATCHER \<longrightarrow> secure_pages s p DISP_ENTERED \<noteq> 0)"

lemma protected_guarded: "protected_page s p \<Longrightarrow> guarded_page s p"
  by (simp add: protected_page_def guarded_page_def)

lemma guarded_ne:
  assumes "guarded_page s p"
  shows "ptyped (g_pagedb s) q t \<Longrightarrow> t \<in> {KOM_PAGE_FREE, KOM_PAGE_ADDRSPACE} \<Longrightarrow> p \<noteq> q"
    and "secure_pages s (powner (g_pagedb s) q) AS_STATE \<noteq> KOM_ADDRSPACE_FINAL \<Longrightarrow> p \<noteq> q"
    and "ptyped (g_pagedb s) q KOM_PAGE_DISPATCHER \<Longrightarrow> secure_pages s q DISP_ENTERED = 0 \<Longrightarrow> p \<noteq> q"
  using assms by (auto simp: guarded_page_def ptyped_def used_def)

text \<open>A call that allocates in the address space of a table touches nothing protected.\<close>

lemma alloc_call_keeps:
  assumes inv: "kom_inv C s" and P: "guarded_page s p" and l: "ptyped (g_pagedb s) l T" "T \<noteq> KOM_PAGE_FREE"
    and k: "\<And>s'. p \<noteq> q \<Longrightarrow> p \<noteq> l \<Longrightarrow> page_is_valid q \<Longrightarrow> page_kept s p s' \<Longrightarrow> holds_after (page_kept s p) (k s')"
  shows "holds_after (page_kept s p) (obind (allocate_page q (powner (g_pagedb s) l) t s)
           (\<lambda>err s. if err \<noteq> KOM_ERR_SUCCESS then Return err s else k s))"
proof (rule holds_after_allocate [where P = "page_kept s p", OF table_owner [OF inv l]])
  assume fr: "ptyped (g_pagedb s) q KOM_PAGE_FREE"
    and init: "secure_pages s (powner (g_pagedb s) l) AS_STATE = KOM_ADDRSPACE_INIT"
  have "p \<noteq> q" "p \<noteq> l" "p \<noteq> powner (g_pagedb s) l"
    using guarded_ne(1) [OF P fr] guarded_ne(2) [OF P, of l] init
      guarded_ne(1) [OF P table_owner [OF inv l]] by auto
  then show "holds_after (page_kept s p) (k (alloc_state q (powner (g_pagedb s) l) t s))"
    using ptyped_valid [OF fr] by (intro k page_kept_alloc) auto
qed simp

lemma table_calls_keep:
  assumes inv: "kom_inv C s" and P: "guarded_page s p"
  shows "holds_after (page_kept s p) (kom_smc_init_l2ptable C q l i s)"
    and "holds_after (page_kept s p) (kom_smc_init_l3ptable C q l i s)"
    and "holds_after (page_kept s p) (kom_smc_map_secure C q l i m c s)"
  unfolding kom_smc_init_l2ptable_def kom_smc_init_l3ptable_def kom_smc_map_secure_def
  by (auto simp: page_is_typed_ptyped page_monvaddr_valid ptyped_valid page_kept_other Let_def
      intro!: alloc_call_keeps [OF inv P])

lemma map_insecure_keeps:
  assumes inv: "kom_inv C s" and P: "guarded_page s p"
  shows "holds_after (page_kept s p) (kom_smc_map_insecure C l i m q s)"
proof -
  have "page_is_valid (powner (g_pagedb s) l)" if "ptyped (g_pagedb s) l KOM_PAGE_L3PTABLE"
    using table_owner [OF inv that] ptyped_valid by simp
  moreover have "secure_pages s (powner (g_pagedb s) l) AS_STATE = KOM_ADDRSPACE_INIT \<Longrightarrow> p \<noteq> l"
    using guarded_ne(2) [OF P, of l] by simp
  ultimately show ?thesis
    by (auto simp: kom_smc_map_insecure_def page_is_typed_ptyped page_monvaddr_valid ptyped_valid page_kept_other)
qed

lemma init_calls_keep:
  assumes inv: "kom_inv C s" and P: "guarded_page s p"
  shows "holds_after (page_kept s p) (kom_smc_init_addrspace a l s)"
    and "holds_after (page_kept s p) (kom_smc_init_dispatcher C q a e s)"
proof -
  show "holds_after (page_kept s p) (kom_smc_init_addrspace a l s)"
    using guarded_ne(1) [OF P, of _ KOM_PAGE_FREE]
    by (auto simp: kom_smc_init_addrspace_def page_is_free_ptyped page_monvaddr_valid page_kept_other Let_def)
  { assume as: "ptyped (g_pagedb s) a KOM_PAGE_ADDRSPACE"
    then have self: "powner (g_pagedb s) a = a" by (rule page_invD(2) [OF kom_inv_page [OF inv]])
    have l1: "secure_pages s a AS_STATE = KOM_ADDRSPACE_INIT \<Longrightarrow> page_is_valid (secure_pages s a AS_L1PT)"
      using page_invD(5) [OF kom_inv_page [OF inv], of a] as ptyped_valid by (auto simp: live_def)
    have ne: "p \<noteq> a" using guarded_ne(1) [OF P as] by simp
    have "holds_after (page_kept s p) (kom_smc_init_dispatcher C q a e s)"
      using as ne l1 guarded_ne(1) [OF P, of q KOM_PAGE_FREE]
      by (auto simp: kom_smc_init_dispatcher_def page_is_typed_ptyped allocate_page_eq [OF as]
          page_monvaddr_valid ptyped_valid page_kept_other page_kept_alloc Let_def alloc_pg_def) }
  then show "holds_after (page_kept s p) (kom_smc_init_dispatcher C q a e s)"
    by (auto simp: kom_smc_init_dispatcher_def page_is_typed_ptyped)
qed

lemma state_calls_keep:
  assumes inv: "kom_inv C s" and P: "guarded_page s p"
  shows "holds_after (page_kept s p) (kom_smc_finalise a s)"
    and "holds_after (page_kept s p) (kom_smc_stop a s)"
    and "holds_after (page_kept s p) (kom_smc_remove q s)"
proof -
  have "ptyped (g_pagedb s) a KOM_PAGE_ADDRSPACE \<Longrightarrow> p \<noteq> a"
    using guarded_ne(1) [OF P] by simp
  then show "holds_after (page_kept s p) (kom_smc_finalise a s)" "holds_after (page_kept s p) (kom_smc_stop a s)"
    by (auto simp: kom_smc_finalise_def kom_smc_stop_def page_is_typed_ptyped page_monvaddr_valid
        ptyped_valid page_kept_other)
  note D = page_invD [OF kom_inv_page [OF inv]]
  show "holds_after (page_kept s p) (kom_smc_remove q s)"
  proof (cases "used (g_pagedb s) q")
    case True
    let ?a = "powner (g_pagedb s) q"
    have as: "ptyped (g_pagedb s) ?a KOM_PAGE_ADDRSPACE" by (rule D(1) [OF True])
    have self: "pg_type (g_pagedb s q) = KOM_PAGE_ADDRSPACE \<Longrightarrow> ?a = q"
      using D(2) [of q] True by (simp add: ptyped_def used_def)
    have "p \<noteq> ?a" using guarded_ne(1) [OF P as] by simp
    moreover have "secure_pages s ?a AS_STATE = KOM_ADDRSPACE_STOPPED \<Longrightarrow> p \<noteq> q"
      using guarded_ne(2) [OF P, of q] by simp
    ultimately show ?thesis
      using True self ptyped_valid [OF as]
      by (auto simp: kom_smc_remove_def used_def page_monvaddr_valid free_page_def page_kept_other)
  qed (auto simp: kom_smc_remove_def used_def)
qed

lemma run_dispatcher_keeps:
  assumes "page_is_valid d" and "page_kept s0 p s"
  shows "holds_after (page_kept s0 p) (run_dispatcher d s)"
  using assms by (simp add: run_dispatcher_def enter_secure_world_eq page_kept_def)

lemma entry_calls_keep:
  assumes inv: "kom_inv C s" and P: "guarded_page s p"
  shows "holds_after (page_kept s p) (kom_smc_enter d x y z s)"
    and "holds_after (page_kept s p) (kom_smc_resume d s)"
proof -
  have d: "page_is_valid (powner (g_pagedb s) d)" "page_is_valid d"
    if "ptyped (g_pagedb s) d KOM_PAGE_DISPATCHER"
    using table_owner [OF inv that] ptyped_valid ptyped_valid [OF that] by auto
  show "holds_after (page_kept s p) (kom_smc_enter d x y z s)" "holds_after (page_kept s p) (kom_smc_resume d s)"
    using d guarded_ne(3) [OF P, of d]
    by (auto simp: kom_smc_enter_def kom_smc_resume_def page_is_typed_ptyped page_monvaddr_valid
        Let_def page_kept_other intro!: run_dispatcher_keeps)
qed

lemma page_kept_trans:
  assumes "holds_after (page_kept s1 p) m" and "page_kept s p s1"
  shows "holds_after (page_kept s p) m"
  using assms(1) by (rule holds_after_mono) (use assms(2) in \<open>auto simp: page_kept_def\<close>)

lemma mcall_keeps:
  "holds_after (page_kept s p) (map_outcome id id (\<lambda>i. s\<lparr>kio := i\<rparr>) (do_mcall v r i))"
  using do_mcall_not_Panic [of v r i]
  by (cases "do_mcall v r i") (simp_all add: page_kept_def)

lemma smc_call_keeps:
  assumes inv: "kom_inv C s" and P: "guarded_page s p"
  shows "holds_after (page_kept s p) (smc_call C s)"
  unfolding smc_call_def Let_def
  by (intro holds_after_if mcall_keeps init_calls_keep [OF inv P] table_calls_keep [OF inv P]
      map_insecure_keeps [OF inv P] state_calls_keep [OF inv P] entry_calls_keep [OF inv P])
    (simp_all add: kom_smc_query_def kom_smc_get_phys_pages_def)

lemma set_a0_keeps: "holds_after (page_kept s p) m \<Longrightarrow> holds_after (page_kept s p) (set_a0 m)"
  unfolding set_a0_def by (erule holds_after_obind) (simp add: page_kept_def)

lemma leave_keeps:
  assumes "page_is_valid (g_cur_dispatcher_pageno s)" and "p \<noteq> g_cur_dispatcher_pageno s"
  shows "holds_after (page_kept s p) (leave_secure_world e s)"
  using assms by (simp add: leave_secure_world_eq Let_def page_kept_def)

lemma exit_keeps:
  assumes "page_is_valid (g_cur_dispatcher_pageno s)" and "p \<noteq> g_cur_dispatcher_pageno s"
  shows "holds_after (page_kept s p) (kom_svc_exit v s)"
    and "holds_after (page_kept s p) (kom_handle_trap c s)"
proof -
  have "holds_after (page_kept s p) (leave_secure_world e (set_host_result r v s))" for e r v
    by (rule page_kept_trans [OF leave_keeps])
      (use assms in \<open>simp_all add: set_host_result_def page_kept_def\<close>)
  then show "holds_after (page_kept s p) (kom_svc_exit v s)" "holds_after (page_kept s p) (kom_handle_trap c s)"
    unfolding kom_svc_exit_def kom_handle_trap_def by (rule holds_after_obind; simp)+
qed

lemma do_trap_keeps:
  assumes inv: "kom_inv C s" and ok: "trap_ok cause s" and P: "guarded_page s p"
    and other: "enclave_mode s \<Longrightarrow> p \<noteq> g_cur_dispatcher_pageno s"
  shows "holds_after (page_kept s p) (do_trap C cause s)"
proof -
  let ?s = "skip_ecall s"
  have same: "g_pagedb ?s = g_pagedb s" "secure_pages ?s = secure_pages s"
    "g_cur_dispatcher_pageno ?s = g_cur_dispatcher_pageno s"
    by (simp_all add: skip_ecall_def)
  have k: "page_kept s p ?s" by (simp add: page_kept_def same)
  have P': "guarded_page ?s p" using P by (simp add: guarded_page_def same)
  have v: "page_is_valid (g_cur_dispatcher_pageno s)" using inv by (simp add: kom_inv_def mode_inv_def)
  have svc: "enclave_mode s \<Longrightarrow> holds_after (page_kept s p) (do_svc_calls s)"
    unfolding do_svc_calls_def Let_def
    using other v k
    by (intro set_a0_keeps holds_after_if page_kept_trans [OF exit_keeps(1) k]) (simp_all add: same)
  have smc: "holds_after (page_kept s p) (do_smc_calls C s)"
    unfolding do_smc_calls_def
    by (intro set_a0_keeps page_kept_trans [OF smc_call_keeps [OF skip_ecall_inv(1) [OF inv] P'] k])
  have trap: "enclave_mode s \<Longrightarrow>
      holds_after (page_kept s p) (obind (kom_handle_trap cause s) (\<lambda>_ s. Return () s))"
    by (rule holds_after_obind [OF exit_keeps(2) [OF v other]]) simp_all
  show ?thesis
    using ok svc smc trap by (simp add: do_trap_def do_trap_ecall_s_def trap_ok_def)
qed

text \<open>
  One step of the machine by anyone but the enclave itself keeps its protected pages, and one step by anyone but
  the interrupted thread itself keeps its dispatcher.
\<close>

lemma step_keeps_guarded:
  assumes step: "kom_step C m s t" and L: "layout_ok C" and inv: "kom_inv C s"
    and P: "guarded_page s p" and other: "enclave_mode s \<Longrightarrow> p \<noteq> g_cur_dispatcher_pageno s"
    and run: "enclave_mode s \<Longrightarrow> pg_type (g_pagedb s p) = KOM_PAGE_DATA \<Longrightarrow>
      powner (g_pagedb s) p \<noteq> powner (g_pagedb s) (g_cur_dispatcher_pageno s)"
  shows "page_kept s p t"
  using step
proof (cases rule: kom_step.cases)
  case (host_run f pg pl r)
  then have "pg = secure_pages s" using host_no_write [OF L inv] by (intro ext) blast
  with host_run show ?thesis by (simp add: page_kept_def)
next
  case (enclave_run f pg pl r)
  have "pg p i = secure_pages s p i" for i
  proof (rule ccontr)
    assume "pg p i \<noteq> secure_pages s p i"
    from enclave_run(4) [OF this] obtain i1 i2 i3 perm where
      "sv39_walk C m s (csr_read (csrs s) SATP) i1 i2 i3 = Some (Secure p, perm)"
      by (auto simp: enclave_may_write_def)
    from walk_confined [OF L inv _ this] run enclave_run show False by (auto simp: ptyped_def)
  qed
  with enclave_run show ?thesis by (simp add: page_kept_def fun_eq_iff)
next
  case (trap_return cause u)
  then show ?thesis using do_trap_keeps [OF inv _ P other, of cause] by simp
next
  case (trap_mret cause r s')
  then show ?thesis using do_trap_keeps [OF inv _ P other, of cause] by (simp add: page_kept_def)
qed

lemma step_keeps:
  assumes step: "kom_step C m s t" and L: "layout_ok C" and inv: "kom_inv C s"
    and P: "protected_page s p"
    and other: "enclave_mode s \<Longrightarrow>
      powner (g_pagedb s) p \<noteq> powner (g_pagedb s) (g_cur_dispatcher_pageno s)"
  shows "page_kept s p t"
  by (rule step_keeps_guarded [OF step L inv protected_guarded [OF P]]) (use other in auto)

section \<open>Saved contexts\<close>

lemma disp_regs_saved:
  "secure_pages s d = saved_context e rs f w \<Longrightarrow> disp_regs s d = rs"
  by (simp add: disp_regs_def saved_reg fun_eq_iff)

lemma disp_csrs_saved:
  "secure_pages s d = saved_context e rs f w \<Longrightarrow> c \<in> set komodo_csrs \<Longrightarrow> disp_csrs s d c = csr_read f c"
  by (simp add: disp_csrs_def saved_csr)

lemma or_and_disjoint: "m AND k = 0 \<Longrightarrow> (x OR m) AND k = (x AND k :: u64)"
  by (simp add: bit.conj_disj_distrib2)

lemma andnot_and_disjoint:
  assumes "m AND k = 0"
  shows "(x AND NOT m) AND k = (x AND k :: u64)"
proof (rule bit_word_eqI)
  fix n :: nat
  have "\<not> (bit m n \<and> bit k n)" using arg_cong [OF assms, of "\<lambda>w. bit w n"] by (simp add: bit_and_iff)
  moreover assume "n < LENGTH(64)"
  ultimately show "bit ((x AND NOT m) AND k) n = bit (x AND k) n"
    by (auto simp: bit_and_iff bit_not_iff)
qed

lemma switch_csrs_read:
  assumes "c \<in> set komodo_csrs" and "st c = csr_read g c"
  shows "csr_read (switch_csrs en st f) c = csr_read g c"
proof -
  have "csr_read (load_csrs komodo_csrs st f) c = csr_read g c"
    by (rule load_csrs_saved [where g = g]) (use assms in \<open>simp_all add: komodo_csrs_def csr_base_def\<close>)
  moreover have "csr_read (switch_csrs en st f) c = csr_read (load_csrs komodo_csrs st f) c"
  proof (cases "c = SSTATUS")
    case True
    have "SR_TVM AND sstatus_mask = 0" by (simp add: sstatus_mask_def)
    note or_and_disjoint [OF this] andnot_and_disjoint [OF this]
    then show ?thesis
      using True by (simp add: switch_csrs_def Let_def csr_set_def csr_clear_def csr_read_def csr_write_def
          pmpcfg_write_def)
  next
    case False
    with assms(1) show ?thesis
      by (auto simp: switch_csrs_def Let_def komodo_csrs_def csr_simps csr_base_def)
  qed
  ultimately show ?thesis by simp
qed

section \<open>What the host can observe\<close>

text \<open>
  Two states look alike to the host if they agree on the insecure pages, the page database, the
  page tables, the bookkeeping words of address spaces and dispatchers, the saved host
  context, and, outside enclave mode, on all registers. Data pages and the contexts
  saved in dispatchers may differ; inside an enclave so may the registers that the world
  switch restores.
\<close>

definition csr_equiv :: "csr_file \<Rightarrow> csr_file \<Rightarrow> bool" where
  "csr_equiv f g \<longleftrightarrow>
     (\<forall>c. c \<notin> csr_base ` set komodo_csrs \<longrightarrow> f c = g c) \<and>
     f MSTATUS AND NOT sstatus_mask = g MSTATUS AND NOT sstatus_mask \<and>
     f MIP AND NOT sip_mask = g MIP AND NOT sip_mask \<and>
     f MIE AND NOT sie_mask = g MIE AND NOT sie_mask"

definition page_equiv :: "kom_pagetype \<Rightarrow> (u64 \<Rightarrow> u64) \<Rightarrow> (u64 \<Rightarrow> u64) \<Rightarrow> bool" where
  "page_equiv t w w' \<longleftrightarrow>
     (t \<in> {KOM_PAGE_L1PTABLE, KOM_PAGE_L2PTABLE, KOM_PAGE_L3PTABLE} \<longrightarrow> w = w') \<and>
     (t = KOM_PAGE_ADDRSPACE \<longrightarrow>
        w AS_L1PT = w' AS_L1PT \<and> w AS_REFCOUNT = w' AS_REFCOUNT \<and> w AS_STATE = w' AS_STATE) \<and>
     (t = KOM_PAGE_DISPATCHER \<longrightarrow> w DISP_ENTERED = w' DISP_ENTERED)"

definition os_equiv :: "kom \<Rightarrow> kom \<Rightarrow> bool" where
  "os_equiv s t \<longleftrightarrow>
     payload s = payload t \<and> enclave_mode s = enclave_mode t \<and>
     g_cur_dispatcher_pageno s = g_cur_dispatcher_pageno t \<and> hstate s = hstate t \<and>
     kio s = kio t \<and> g_pagedb s = g_pagedb t \<and>
     (if enclave_mode s then csr_equiv (csrs s) (csrs t) else regs s = regs t \<and> csrs s = csrs t) \<and>
     (\<forall>p. page_equiv (pg_type (g_pagedb s p)) (secure_pages s p) (secure_pages t p))"

fun os_outcome :: "'a kom_outcome \<Rightarrow> 'a kom_outcome \<Rightarrow> bool" where
  "os_outcome (Return a s) (Return b t) = (a = b \<and> os_equiv s t)"
| "os_outcome (Mret r s) (Mret q t) = os_equiv (s\<lparr>regs := r\<rparr>) (t\<lparr>regs := q\<rparr>)"
| "os_outcome (Halt s) (Halt t) = os_equiv s t"
| "os_outcome Panic Panic = True"
| "os_outcome _ _ = False"

lemma os_outcome_obind:
  assumes "os_outcome x y" and "\<And>a s t. os_equiv s t \<Longrightarrow> os_outcome (f a s) (g a t)"
  shows "os_outcome (obind x f) (obind y g)"
  using assms by (cases x; cases y) auto

lemma os_equivD:
  assumes "os_equiv s t"
  shows "payload t = payload s" "enclave_mode t = enclave_mode s"
    "g_cur_dispatcher_pageno t = g_cur_dispatcher_pageno s" "hstate t = hstate s" "kio t = kio s"
    "g_pagedb t = g_pagedb s" "\<not> enclave_mode s \<Longrightarrow> regs t = regs s" "\<not> enclave_mode s \<Longrightarrow> csrs t = csrs s"
    "page_equiv (pg_type (g_pagedb s p)) (secure_pages s p) (secure_pages t p)"
  using assms by (auto simp: os_equiv_def)

lemma os_equiv_table:
  assumes "os_equiv s t" and "ptyped (g_pagedb s) l T"
    and "T \<in> {KOM_PAGE_L1PTABLE, KOM_PAGE_L2PTABLE, KOM_PAGE_L3PTABLE}"
  shows "secure_pages t l = secure_pages s l"
  using os_equivD(9) [OF assms(1), of l] assms(2,3) by (auto simp: ptyped_def page_equiv_def)

lemma os_equiv_addrspace:
  assumes "os_equiv s t" and "ptyped (g_pagedb s) a KOM_PAGE_ADDRSPACE"
  shows "secure_pages t a AS_L1PT = secure_pages s a AS_L1PT"
    and "secure_pages t a AS_REFCOUNT = secure_pages s a AS_REFCOUNT"
    and "secure_pages t a AS_STATE = secure_pages s a AS_STATE"
  using os_equivD(9) [OF assms(1), of a] assms(2) by (auto simp: ptyped_def page_equiv_def)

lemma os_equiv_entered:
  assumes "os_equiv s t" and "ptyped (g_pagedb s) d KOM_PAGE_DISPATCHER"
  shows "secure_pages t d DISP_ENTERED = secure_pages s d DISP_ENTERED"
  using os_equivD(9) [OF assms(1), of d] assms(2) by (auto simp: ptyped_def page_equiv_def)

text \<open>Effects of the handlers that two alike states go through alike.\<close>

lemma page_equiv_upd:
  "page_equiv t w w' \<Longrightarrow> page_equiv t (w(i := v)) (w'(i := v))" "page_equiv t w w"
  by (auto simp: page_equiv_def)

lemma os_equiv_pages:
  assumes "os_equiv s t"
    and "\<And>p. page_equiv (pg_type (db p)) (pg p) (pg' p)"
  shows "os_equiv (s\<lparr>g_pagedb := db, secure_pages := pg\<rparr>) (t\<lparr>g_pagedb := db, secure_pages := pg'\<rparr>)"
  using assms by (simp add: os_equiv_def)

lemma os_equiv_set_word:
  assumes "os_equiv s t"
  shows "os_equiv (set_word p i v s) (set_word p i v t)"
  using assms by (auto simp: os_equiv_def set_word_def page_equiv_upd)

lemma os_equiv_copy_page:
  assumes "os_equiv s t"
  shows "os_equiv (copy_page p q s) (copy_page p q t)"
  using assms by (auto simp: os_equiv_def copy_page_def page_equiv_upd)

lemma os_equiv_zero_page: "os_equiv s t \<Longrightarrow> os_equiv (zero_page p s) (zero_page p t)"
  by (auto simp: os_equiv_def zero_page_def page_equiv_upd)

lemma os_equiv_set_pagedb:
  assumes "os_equiv s t" and "page_equiv ty (secure_pages s p) (secure_pages t p)"
  shows "os_equiv (set_pagedb p ty a s) (set_pagedb p ty a t)"
  using assms by (auto simp: os_equiv_def set_pagedb_def)

lemma os_equiv_alloc:
  assumes E: "os_equiv s t" and as: "ptyped (g_pagedb s) a KOM_PAGE_ADDRSPACE" and "p \<noteq> a"
  shows "os_equiv (alloc_state p a ty s) (alloc_state p a ty t)"
  using E assms(3) os_equivD(9) [OF E] os_equiv_addrspace(2) [OF E as]
  by (auto simp: os_equiv_def alloc_state_def alloc_db_def alloc_pg_def page_equiv_upd)

lemma allocate_os:
  assumes E: "os_equiv s t" and as: "ptyped (g_pagedb s) a KOM_PAGE_ADDRSPACE"
    and k: "ptyped (g_pagedb s) p KOM_PAGE_FREE \<Longrightarrow> secure_pages s a AS_STATE = KOM_ADDRSPACE_INIT \<Longrightarrow>
      os_equiv (alloc_state p a ty s) (alloc_state p a ty t) \<Longrightarrow>
      os_outcome (f (alloc_state p a ty s)) (g (alloc_state p a ty t))"
  shows "os_outcome
    (obind (allocate_page p a ty s) (\<lambda>err s. if err \<noteq> KOM_ERR_SUCCESS then Return err s else f s))
    (obind (allocate_page p a ty t) (\<lambda>err s. if err \<noteq> KOM_ERR_SUCCESS then Return err s else g s))"
proof -
  have as': "ptyped (g_pagedb t) a KOM_PAGE_ADDRSPACE" using as by (simp add: os_equivD(6) [OF E])
  have "ptyped (g_pagedb s) p KOM_PAGE_FREE \<Longrightarrow> p \<noteq> a" using as by (auto simp: ptyped_def)
  note k = k [OF _ _ os_equiv_alloc [OF E as this]]
  show ?thesis
    unfolding allocate_page_eq [OF as] allocate_page_eq [OF as']
    using E os_equiv_addrspace(3) [OF E as] k
    by (simp add: os_equivD(6) [OF E])
qed

lemma init_addrspace_os:
  assumes E: "os_equiv s t"
  shows "os_outcome (kom_smc_init_addrspace a l s) (kom_smc_init_addrspace a l t)"
  using E
  by (auto simp: kom_smc_init_addrspace_def page_is_free_ptyped page_monvaddr_def Let_def os_equivD(6) [OF E]
      intro!: os_equiv_set_word os_equiv_set_pagedb os_equiv_zero_page)
    (simp_all add: set_pagedb_def zero_page_def page_equiv_upd)

lemma init_dispatcher_os:
  assumes E: "os_equiv s t" and inv: "kom_inv C s"
  shows "os_outcome (kom_smc_init_dispatcher C p a e s) (kom_smc_init_dispatcher C p a e t)"
proof (cases "ptyped (g_pagedb s) a KOM_PAGE_ADDRSPACE")
  case as: True
  have "p \<noteq> a" if "ptyped (g_pagedb s) p KOM_PAGE_FREE" using that as by (auto simp: ptyped_def)
  then show ?thesis
    using as os_equiv_addrspace(1) [OF E as]
    unfolding kom_smc_init_dispatcher_def page_is_typed_ptyped os_equivD(6) [OF E]
    by (auto simp: page_monvaddr_def Let_def alloc_pg_def ptyped_valid
        intro!: allocate_os [OF E as] os_equiv_set_word)
qed (use E in \<open>simp add: kom_smc_init_dispatcher_def page_is_typed_ptyped os_equivD(6) [OF E]\<close>)

lemma table_calls_os:
  assumes E: "os_equiv s t" and inv: "kom_inv C s"
  shows "os_outcome (kom_smc_init_l2ptable C p l i s) (kom_smc_init_l2ptable C p l i t)"
    and "os_outcome (kom_smc_init_l3ptable C p l i s) (kom_smc_init_l3ptable C p l i t)"
    and "os_outcome (kom_smc_map_secure C p l i m c s) (kom_smc_map_secure C p l i m c t)"
    and "os_outcome (kom_smc_map_insecure C l i m q s) (kom_smc_map_insecure C l i m q t)"
proof -
  have tab: "ptyped (g_pagedb s) l T \<Longrightarrow> T \<in> {KOM_PAGE_L1PTABLE, KOM_PAGE_L2PTABLE, KOM_PAGE_L3PTABLE} \<Longrightarrow>
      secure_pages t l = secure_pages s l" for T
    by (rule os_equiv_table [OF E])
  have own: "ptyped (g_pagedb s) l T \<Longrightarrow> T \<noteq> KOM_PAGE_FREE \<Longrightarrow>
      ptyped (g_pagedb s) (powner (g_pagedb s) l) KOM_PAGE_ADDRSPACE" for T
    by (rule table_owner [OF inv])
  have call: "os_outcome
      (obind (allocate_page p (powner (g_pagedb s) l) ty s) (\<lambda>err s. if err \<noteq> KOM_ERR_SUCCESS then Return err s else f s))
      (obind (allocate_page p (powner (g_pagedb s) l) ty t) (\<lambda>err s. if err \<noteq> KOM_ERR_SUCCESS then Return err s else f s))"
    if "ptyped (g_pagedb s) l T" "T \<noteq> KOM_PAGE_FREE" "\<And>s t. os_equiv s t \<Longrightarrow> os_outcome (f s) (f t)" for T ty f
    by (rule allocate_os [OF E own [OF that(1,2)]]) (rule that(3))
  show "os_outcome (kom_smc_init_l2ptable C p l i s) (kom_smc_init_l2ptable C p l i t)"
    using E tab [of KOM_PAGE_L1PTABLE]
    by (auto simp: kom_smc_init_l2ptable_def page_is_typed_ptyped page_monvaddr_def os_equivD(6) [OF E]
        intro!: call os_equiv_set_word)
  show "os_outcome (kom_smc_init_l3ptable C p l i s) (kom_smc_init_l3ptable C p l i t)"
    using E tab [of KOM_PAGE_L2PTABLE]
    by (auto simp: kom_smc_init_l3ptable_def page_is_typed_ptyped page_monvaddr_def os_equivD(6) [OF E]
        intro!: call os_equiv_set_word)
  show "os_outcome (kom_smc_map_secure C p l i m c s) (kom_smc_map_secure C p l i m c t)"
    using E tab [of KOM_PAGE_L3PTABLE]
    by (auto simp: kom_smc_map_secure_def page_is_typed_ptyped page_monvaddr_def os_equivD(6) [OF E] Let_def
        intro!: call os_equiv_set_word os_equiv_copy_page)
  show "os_outcome (kom_smc_map_insecure C l i m q s) (kom_smc_map_insecure C l i m q t)"
    using E tab [of KOM_PAGE_L3PTABLE] os_equiv_addrspace(3) [OF E own]
    by (auto simp: kom_smc_map_insecure_def page_is_typed_ptyped page_monvaddr_def os_equivD(6) [OF E]
        intro!: os_equiv_set_word)
qed

lemma free_page_os:
  assumes E: "os_equiv s t" and as: "ptyped (g_pagedb s) a KOM_PAGE_ADDRSPACE"
  shows "os_equiv (free_page a p s) (free_page a p t)"
  using os_equiv_addrspace(2) [OF E as]
  by (auto simp: free_page_def page_equiv_def intro!: os_equiv_set_pagedb os_equiv_set_word E)

lemma state_calls_os:
  assumes E: "os_equiv s t" and inv: "kom_inv C s"
  shows "os_outcome (kom_smc_finalise a s) (kom_smc_finalise a t)"
    and "os_outcome (kom_smc_stop a s) (kom_smc_stop a t)"
    and "os_outcome (kom_smc_remove p s) (kom_smc_remove p t)"
proof -
  note as = os_equiv_addrspace [OF E]
  show "os_outcome (kom_smc_finalise a s) (kom_smc_finalise a t)" "os_outcome (kom_smc_stop a s) (kom_smc_stop a t)"
    using E as(3) [of a]
    by (auto simp: kom_smc_finalise_def kom_smc_stop_def page_is_typed_ptyped page_monvaddr_def
        os_equivD(6) [OF E] intro!: os_equiv_set_word)
  show "os_outcome (kom_smc_remove p s) (kom_smc_remove p t)"
  proof (cases "used (g_pagedb s) p")
    case True
    let ?a = "powner (g_pagedb s) p"
    have own: "ptyped (g_pagedb s) ?a KOM_PAGE_ADDRSPACE" by (rule page_invD(1) [OF kom_inv_page [OF inv] True])
    have self: "ptyped (g_pagedb s) p KOM_PAGE_ADDRSPACE" if "pg_type (g_pagedb s p) = KOM_PAGE_ADDRSPACE"
      using True that by (simp add: ptyped_def used_def)
    show ?thesis
      using E True own as [OF own] as [OF self] free_page_os [OF E own] free_page_os [OF E self]
      by (auto simp: kom_smc_remove_def page_monvaddr_def used_def os_equivD(6) [OF E])
  qed (use E in \<open>auto simp: kom_smc_remove_def used_def os_equivD(6) [OF E]\<close>)
qed

text \<open>
  The registers of the host world are a function of the saved host context and of what alike states
  agree on; loading the context of an enclave keeps states alike.
\<close>

lemma load_csrs_equiv:
  assumes "csr_equiv f g"
  shows "load_csrs komodo_csrs st f = load_csrs komodo_csrs st g"
proof
  fix c
  show "load_csrs komodo_csrs st f c = load_csrs komodo_csrs st g c"
    using assms
    by (cases c) (simp_all add: csr_equiv_def komodo_csrs_def csr_base_def csr_write_def image_iff)
qed

lemma switch_csrs_equiv: "csr_equiv f g \<Longrightarrow> switch_csrs en st f = switch_csrs en st g"
  by (simp add: switch_csrs_def load_csrs_equiv)

lemma csr_equiv_refl [simp]: "csr_equiv f f"
  by (simp add: csr_equiv_def)

lemma masked_parts:
  "((x AND NOT m) OR (v AND m)) AND NOT m = (x AND NOT m :: u64)"
  "((((x AND NOT m) OR (v AND m)) OR b) AND NOT m) = ((x OR b) AND NOT m :: u64)"
  by (rule bit_word_eqI, auto simp: bit_simps)+

lemma load_csrs_alike: "csr_equiv (load_csrs komodo_csrs st f) (load_csrs komodo_csrs st' f)"
  by (auto simp: csr_equiv_def komodo_csrs_def csr_base_def csr_write_def image_iff masked_parts)

lemma csr_equiv_write:
  "csr_equiv f g \<Longrightarrow> c \<notin> {MSTATUS, MIP, MIE, SSTATUS, SIP, SIE} \<Longrightarrow> csr_equiv (csr_write c v f) (csr_write c w g)"
  if "c \<in> csr_base ` set komodo_csrs \<or> v = w"
  using that by (cases c) (auto simp: csr_equiv_def csr_write_def komodo_csrs_def csr_base_def)

lemma csr_equiv_TVM: "csr_equiv f g \<Longrightarrow> csr_equiv (csr_set MSTATUS SR_TVM f) (csr_set MSTATUS SR_TVM g)"
proof -
  assume E: "csr_equiv f g"
  have "(x OR b) AND NOT m = (x AND NOT m) OR (b AND NOT m)" for x b m :: u64
    by (rule bit.conj_disj_distrib2)
  with E show ?thesis
    by (auto simp: csr_equiv_def csr_set_def csr_write_def csr_read_def komodo_csrs_def csr_base_def image_iff)
qed

lemma csr_equiv_pmpcfg:
  assumes "csr_equiv f g"
  shows "csr_equiv (pmpcfg_write n v f) (pmpcfg_write n v g)"
proof -
  have "f PMPCFG0 = g PMPCFG0" "f PMPCFG2 = g PMPCFG2"
    using assms by (auto simp: csr_equiv_def komodo_csrs_def csr_base_def)
  then show ?thesis
    using assms by (auto simp: pmpcfg_write_def Let_def csr_set_def csr_clear_def csr_read_def
        intro!: csr_equiv_write) (simp_all add: csr_write_def)
qed

lemma switch_csrs_alike: "csr_equiv (switch_csrs True st f) (switch_csrs True st' f)"
  unfolding switch_csrs_def Let_def if_True
  by (intro csr_equiv_write csr_equiv_TVM csr_equiv_pmpcfg load_csrs_alike) simp_all

lemma run_dispatcher_os:
  assumes E: "os_equiv s t" and host: "\<not> enclave_mode s" and d: "page_is_valid d"
  shows "os_outcome (run_dispatcher d s) (run_dispatcher d t)"
  using E host os_equivD(7,8) [OF E host]
  by (auto simp: run_dispatcher_def enter_secure_world_eq [OF d] os_equiv_def switch_csrs_alike)

lemma entry_calls_os:
  assumes E: "os_equiv s t" and inv: "kom_inv C s" and host: "\<not> enclave_mode s"
  shows "os_outcome (kom_smc_enter d x y z s) (kom_smc_enter d x y z t)"
    and "os_outcome (kom_smc_resume d s) (kom_smc_resume d t)"
proof -
  have "os_outcome (kom_smc_enter d x y z s) (kom_smc_enter d x y z t) \<and>
        os_outcome (kom_smc_resume d s) (kom_smc_resume d t)"
  proof (cases "ptyped (g_pagedb s) d KOM_PAGE_DISPATCHER")
    case d: True
    have own: "ptyped (g_pagedb s) (powner (g_pagedb s) d) KOM_PAGE_ADDRSPACE" using table_owner [OF inv d] by simp
    show ?thesis
      using E d own host ptyped_valid [OF d] ptyped_valid [OF own] os_equiv_addrspace(3) [OF E own]
        os_equiv_entered [OF E d]
      by (auto simp: kom_smc_enter_def kom_smc_resume_def page_is_typed_ptyped page_monvaddr_valid
          os_equivD(6) [OF E] Let_def intro!: run_dispatcher_os os_equiv_set_word)
  qed (use E in \<open>simp add: kom_smc_enter_def kom_smc_resume_def page_is_typed_ptyped os_equivD(6) [OF E]\<close>)
  then show "os_outcome (kom_smc_enter d x y z s) (kom_smc_enter d x y z t)"
    and "os_outcome (kom_smc_resume d s) (kom_smc_resume d t)" by simp_all
qed

lemma leave_os:
  assumes E: "os_equiv s t" and en: "enclave_mode s" and inv: "kom_inv C s"
  shows "os_outcome
    (obind (leave_secure_world e (set_host_result r v s)) (\<lambda>_ s. Mret (host_regs (hstate s)) s))
    (obind (leave_secure_world e (set_host_result r v t)) (\<lambda>_ s. Mret (host_regs (hstate s)) s))"
proof -
  let ?d = "g_cur_dispatcher_pageno s"
  have d: "ptyped (g_pagedb s) ?d KOM_PAGE_DISPATCHER" and v: "page_is_valid ?d"
    using inv en by (auto simp: kom_inv_def mode_inv_def current_inv_def Let_def)
  have eq: "csr_equiv (csrs s) (csrs t)" using E en by (simp add: os_equiv_def)
  note D = os_equivD [OF E]
  have pg: "page_equiv (pg_type (g_pagedb s ?d)) (saved_context e (regs s) (csrs s) w)
      (saved_context e (regs t) (csrs t) w')" for w w'
    using d by (simp add: page_equiv_def saved_entered ptyped_def)
  show ?thesis
    using E v switch_csrs_equiv [OF eq]
    by (simp add: leave_secure_world_eq set_host_result_def Let_def D(1-6))
      (auto simp: os_equiv_def en D(1-6) pg)
qed

lemma exit_os:
  assumes "os_equiv s t" and "enclave_mode s" and "kom_inv C s"
  shows "os_outcome (kom_svc_exit v s) (kom_svc_exit v t)"
    and "os_outcome (kom_handle_trap c s) (kom_handle_trap c t)"
  unfolding kom_svc_exit_def kom_handle_trap_def by (rule leave_os [OF assms])+

lemma smc_call_os:
  assumes E: "os_equiv s t" and inv: "kom_inv C s" and host: "\<not> enclave_mode s"
  shows "os_outcome (smc_call C s) (smc_call C t)"
proof -
  have R: "regs t = regs s" "kio t = kio s" using os_equivD [OF E] host by simp_all
  have mc: "os_outcome (map_outcome id id (\<lambda>i. s\<lparr>kio := i\<rparr>) (do_mcall v r i))
      (map_outcome id id (\<lambda>i. t\<lparr>kio := i\<rparr>) (do_mcall v r i))" for v r i
    using E do_mcall_not_Mret [of v r i] by (cases "do_mcall v r i") (auto simp: os_equiv_def)
  have os_if: "(c \<Longrightarrow> os_outcome x x') \<Longrightarrow> (\<not> c \<Longrightarrow> os_outcome y y') \<Longrightarrow>
      os_outcome (if c then x else y) (if c then x' else y')" for c and x x' y y' :: "u64 kom_outcome"
    by simp
  show ?thesis
    unfolding smc_call_def Let_def R
    by (intro os_if mc init_addrspace_os [OF E] init_dispatcher_os [OF E inv] table_calls_os [OF E inv]
        state_calls_os [OF E inv] entry_calls_os [OF E inv host])
      (simp_all add: kom_smc_query_def kom_smc_get_phys_pages_def E)
qed

lemma os_equiv_skip_ecall:
  assumes E: "os_equiv s t"
  shows "os_equiv (skip_ecall s) (skip_ecall t)"
proof -
  have "csr_equiv f g \<Longrightarrow> csr_equiv (csr_write MEPC v f) (csr_write MEPC w g)" for f g v w
    by (rule csr_equiv_write) (simp_all add: komodo_csrs_def csr_base_def)
  then show ?thesis using E by (auto simp: os_equiv_def skip_ecall_def)
qed

lemma set_a0_os: "os_outcome x y \<Longrightarrow> os_outcome (set_a0 x) (set_a0 y)"
  unfolding set_a0_def by (erule os_outcome_obind) (auto simp: os_equiv_def)

text \<open>
  Handling a trap treats states that look alike to the host alike. What an enclave declassifies is the
  trap cause and, for a call, the call number and the exit value.
\<close>

lemma do_trap_os:
  assumes E: "os_equiv s t" and inv: "kom_inv C s" and ok: "trap_ok cause s" "trap_ok cause t"
    and declass: "enclave_mode s \<Longrightarrow> cause = EXC_ECALL_S \<Longrightarrow> regs t A7 = regs s A7 \<and> regs t A0 = regs s A0"
  shows "os_outcome (do_trap C cause s) (do_trap C cause t)"
proof -
  have E': "os_equiv (skip_ecall s) (skip_ecall t)" by (rule os_equiv_skip_ecall [OF E])
  note sk = skip_ecall_inv [OF inv]
  have R: "regs (skip_ecall u) = regs u" for u by (simp add: skip_ecall_def)
  have svc: "os_outcome (do_svc_calls s) (do_svc_calls t)" if "enclave_mode s" "cause = EXC_ECALL_S"
    unfolding do_svc_calls_def Let_def R
    using that declass [OF that] E' exit_os(1) [OF E' _ sk(1)] sk(2) by (intro set_a0_os) auto
  have smc: "\<not> enclave_mode s \<Longrightarrow> os_outcome (do_smc_calls C s) (do_smc_calls C t)"
    unfolding do_smc_calls_def by (intro set_a0_os smc_call_os [OF E' sk(1)]) (simp add: sk(2))
  have trap: "enclave_mode s \<Longrightarrow> os_outcome (obind (kom_handle_trap cause s) (\<lambda>_ s. Return () s))
      (obind (kom_handle_trap cause t) (\<lambda>_ s. Return () s))"
    by (rule os_outcome_obind [OF exit_os(2) [OF E _ inv]]) simp_all
  show ?thesis
    using svc smc trap ok E os_equivD(2) [OF E]
    by (simp add: do_trap_def do_trap_ecall_s_def trap_ok_def)
qed

end
