(* ===== verification/Komodo_Main.thy ===== *)
theory Komodo_Main
  imports Komodo_NI
begin

text \<open>
  The main theorems on the Komodo monitor, for every state the machine can reach, with a concrete
  execution that builds an enclave and enters it.
\<close>

unbundle bit_operations_syntax

section \<open>A concrete execution\<close>

definition demo_config :: kom_config where
  "demo_config = \<lparr>CONFIG_VERIFICATION = True, secure_pages_addr = 0x80400000, payload_addr = 0x80800000\<rparr>"

definition demo_reset :: kom where
  "demo_reset = \<lparr>g_pagedb = (\<lambda>_. \<lparr>pg_type = KOM_PAGE_INVALID, pg_addrspace_page = 0\<rparr>),
     secure_pages = (\<lambda>_ _. 0), payload = (\<lambda>p i. p + i),
     hstate = \<lparr>host_regs = (\<lambda>_. 0), host_csrs = (\<lambda>_. 0)\<rparr>, enclave_mode = False,
     g_cur_dispatcher_pageno = 0, regs = (\<lambda>_. 0), csrs = (\<lambda>_. 0),
     kio = \<lparr>tohost = 0, con_out = [], con_in = []\<rparr>\<rparr>"

definition demo_next :: "kom \<Rightarrow> 'a kom_outcome \<Rightarrow> kom" where
  "demo_next s m = (case m of Return _ s' \<Rightarrow> s' | Mret r s' \<Rightarrow> s'\<lparr>regs := r\<rparr> | _ \<Rightarrow> s)"

definition demo_boot :: kom where
  "demo_boot = demo_next demo_reset (kom_main demo_config (\<lambda>_. 0) 0 0 demo_reset)"

text \<open>The host loads the argument registers and makes a call.\<close>

definition demo_call :: "u64 \<Rightarrow> u64 \<Rightarrow> u64 \<Rightarrow> u64 \<Rightarrow> u64 \<Rightarrow> u64 \<Rightarrow> kom \<Rightarrow> kom" where
  "demo_call nr a0 a1 a2 a3 a4 s =
     (let s1 = s\<lparr>regs := (\<lambda>_. 0)(A7 := nr, A0 := a0, A1 := a1, A2 := a2, A3 := a3, A4 := a4)\<rparr> in
      if enclave_mode s1 \<or> \<not> trap_ok EXC_ECALL_S s1 then s
      else demo_next s (do_trap demo_config EXC_ECALL_S s1))"

definition demo_build :: kom where
  "demo_build = demo_call 16 5 4 0 6 0 (demo_call 15 4 3 0 0 0 (demo_call 14 3 1 0 0 0
     (demo_call 13 2 0 0x1000 0 0 (demo_call 12 0 1 0 0 0 demo_boot))))"

definition demo_final :: kom where
  "demo_final = demo_call 21 0 0 0 0 0 demo_build"

definition demo_enclave :: kom where
  "demo_enclave = demo_call 22 2 7 8 9 0 demo_final"

lemma demo_layout: "layout_ok demo_config"
  by (simp add: layout_ok_def demo_config_def)

lemma demo_boot_reach: "reach (kom_boot demo_config) (kom_step demo_config m) demo_boot"
proof (rule reach_init)
  have "pmp_reset (csrs demo_reset)"
    by (simp add: pmp_reset_def demo_reset_def pmpcfg_read_def csr_read_def Let_def)
  moreover obtain r s where "kom_main demo_config (\<lambda>_. 0) 0 0 demo_reset = Mret r s"
    by (simp add: kom_main_def supervisor_init_def Let_def)
  ultimately show "kom_boot demo_config demo_boot"
    unfolding kom_boot_def demo_boot_def demo_next_def by fastforce
qed

lemma demo_call_reach:
  assumes "reach (kom_boot demo_config) (kom_step demo_config m) s"
  shows "reach (kom_boot demo_config) (kom_step demo_config m) (demo_call nr a0 a1 a2 a3 a4 s)"
proof -
  let ?r = "(\<lambda>_. 0)(A7 := nr, A0 := a0, A1 := a1, A2 := a2, A3 := a3, A4 := a4)"
  let ?s = "s\<lparr>regs := ?r\<rparr>"
  show ?thesis
  proof (cases "enclave_mode ?s \<or> \<not> trap_ok EXC_ECALL_S ?s")
    case True
    then have "demo_call nr a0 a1 a2 a3 a4 s = s" by (auto simp: demo_call_def Let_def)
    with assms show ?thesis by simp
  next
    case False
    have "kom_step demo_config m s (s\<lparr>regs := ?r, csrs := csrs s, payload := payload s,
        secure_pages := secure_pages s\<rparr>)"
      by (rule host_run) (use False in \<open>auto simp: smode_csrs_def\<close>)
    then have "reach (kom_boot demo_config) (kom_step demo_config m) ?s"
      using reach_step [OF assms] by simp
    note step = reach_step [OF this]
    have "demo_call nr a0 a1 a2 a3 a4 s = demo_next s (do_trap demo_config EXC_ECALL_S ?s)"
      using False by (simp add: demo_call_def Let_def)
    with False assms show ?thesis
      by (cases "do_trap demo_config EXC_ECALL_S ?s")
        (auto simp: demo_next_def intro: step [OF trap_return] step [OF trap_mret])
  qed
qed

lemmas demo_reach = demo_boot_reach demo_call_reach

text \<open>The effect of a call that returns to the host.\<close>

lemma demo_call_returns:
  assumes "\<not> enclave_mode s" and "csr_read (csrs s) MSTATUS AND SR_MPP = SR_MPP_S"
    and "smc_call demo_config (skip_ecall (s\<lparr>regs := (\<lambda>_. 0)(A7 := nr, A0 := a0, A1 := a1, A2 := a2,
           A3 := a3, A4 := a4)\<rparr>)) = m"
  shows "demo_call nr a0 a1 a2 a3 a4 s = demo_next s (set_a0 m)"
  using assms by (simp add: demo_call_def Let_def trap_ok_def do_trap_def do_trap_ecall_s_def do_smc_calls_def)

definition demo_host :: "kom \<Rightarrow> pagedb \<Rightarrow> pages \<Rightarrow> bool" where
  "demo_host s db pg \<longleftrightarrow> \<not> enclave_mode s \<and> csr_read (csrs s) MSTATUS AND SR_MPP = SR_MPP_S \<and>
     g_pagedb s = db \<and> secure_pages s = pg"

lemma skip_ecall_fields [simp]:
  "g_pagedb (skip_ecall s) = g_pagedb s" "secure_pages (skip_ecall s) = secure_pages s"
  "regs (skip_ecall s) = regs s" "enclave_mode (skip_ecall s) = enclave_mode s"
  "payload (skip_ecall s) = payload s" "csr_read (csrs (skip_ecall s)) MSTATUS = csr_read (csrs s) MSTATUS"
  by (simp_all add: skip_ecall_def csr_simps csr_base_def)

lemma demo_host_return:
  assumes "demo_host s db pg"
    and "smc_call demo_config (skip_ecall (s\<lparr>regs := (\<lambda>_. 0)(A7 := nr, A0 := a0, A1 := a1, A2 := a2,
           A3 := a3, A4 := a4)\<rparr>)) = Return r s'"
    and "g_pagedb s' = db'" and "secure_pages s' = pg'" and "\<not> enclave_mode s'"
    and "csr_read (csrs s') MSTATUS = csr_read (csrs s) MSTATUS"
  shows "demo_host (demo_call nr a0 a1 a2 a3 a4 s) db' pg'"
proof -
  have "demo_call nr a0 a1 a2 a3 a4 s = demo_next s (set_a0 (Return r s'))"
    using assms(1) by (intro demo_call_returns [OF _ _ assms(2)]) (simp_all add: demo_host_def)
  with assms show ?thesis by (simp add: demo_host_def demo_next_def set_a0_def)
qed

definition demo_db :: pagedb where
  "demo_db = g_pagedb demo_boot"

lemma demo_boot_host: "demo_host demo_boot demo_db (\<lambda>_ _. 0)"
  by (simp add: demo_host_def demo_db_def demo_boot_def demo_next_def kom_main_def supervisor_init_def
      init_monitor_def Let_def demo_reset_def csr_simps csr_base_def csr_read_write_same fun_eq_iff)

lemma demo_db_free: "page_is_valid p \<Longrightarrow> pg_type (demo_db p) = KOM_PAGE_FREE"
  by (simp add: demo_db_def demo_boot_def demo_next_def kom_main_def supervisor_init_def
      init_monitor_def Let_def demo_reset_def)

lemma demo_valid: "page_is_valid 0" "page_is_valid 1" "page_is_valid 2" "page_is_valid 3" "page_is_valid 4"
  "page_is_valid 5" "insecure_page_is_valid 0"
  by (simp_all add: page_is_valid_def insecure_page_is_valid_def)

lemma smc_numbers:
  assumes "CONFIG_VERIFICATION C"
  shows "regs s A7 = 12 \<Longrightarrow> smc_call C s = kom_smc_init_addrspace (regs s A0) (regs s A1) s"
    and "regs s A7 = 13 \<Longrightarrow> smc_call C s = kom_smc_init_dispatcher C (regs s A0) (regs s A1) (regs s A2) s"
    and "regs s A7 = 14 \<Longrightarrow> smc_call C s = kom_smc_init_l2ptable C (regs s A0) (regs s A1) (regs s A2) s"
    and "regs s A7 = 15 \<Longrightarrow> smc_call C s = kom_smc_init_l3ptable C (regs s A0) (regs s A1) (regs s A2) s"
    and "regs s A7 = 16 \<Longrightarrow> smc_call C s =
           kom_smc_map_secure C (regs s A0) (regs s A1) (regs s A2) (regs s A3) (regs s A4) s"
    and "regs s A7 = 21 \<Longrightarrow> smc_call C s = kom_smc_finalise (regs s A0) s"
    and "regs s A7 = 22 \<Longrightarrow> smc_call C s = kom_smc_enter (regs s A0) (regs s A1) (regs s A2) (regs s A3) s"
  using assms by (simp_all add: smc_call_def Let_def)

lemma demo_verif [simp]: "CONFIG_VERIFICATION demo_config"
  by (simp add: demo_config_def)

lemma demo1:
  "demo_host (demo_call 12 0 1 0 0 0 demo_boot) (new_db 0 1 demo_db) (new_pg 0 1 (\<lambda>_ _. 0))"
  by (rule demo_host_return [OF demo_boot_host])
    (simp add: smc_numbers kom_smc_init_addrspace_def page_is_free_ptyped ptyped_def demo_valid
      demo_boot_host [unfolded demo_host_def] demo_db_free page_monvaddr_def Let_def,
     simp_all add: zero_page_def set_pagedb_def new_db_def new_pg_def fun_eq_iff
       demo_boot_host [unfolded demo_host_def])

text \<open>The page database and the pages after each of the remaining calls.\<close>

definition db2 :: pagedb where "db2 = alloc_db 2 0 KOM_PAGE_DISPATCHER (new_db 0 1 demo_db)"
definition db3 :: pagedb where "db3 = alloc_db 3 0 KOM_PAGE_L2PTABLE db2"
definition db4 :: pagedb where "db4 = alloc_db 4 0 KOM_PAGE_L3PTABLE db3"
definition db5 :: pagedb where "db5 = alloc_db 5 0 KOM_PAGE_DATA db4"

definition pg2 :: pages where
  "pg2 = (\<lambda>pg. pg(2 := (pg 2)(disp_csr MEPC := 0x1000,
     disp_csr SATP := SATP_MODE_SV39 OR PFN_DOWN (page_paddr demo_config 1), disp_csr SIE := IE_DEFAULT)))
     (alloc_pg 2 0 (\<lambda>_. 0) (new_pg 0 1 (\<lambda>_ _. 0)))"
definition pg3 :: pages where
  "pg3 = (\<lambda>pg. pg(1 := (pg 1)(0 := pfn_pgd (PFN_DOWN (page_paddr demo_config 3)) PAGE_TABLE)))
     (alloc_pg 3 0 (\<lambda>_. 0) pg2)"
definition pg4 :: pages where
  "pg4 = (\<lambda>pg. pg(3 := (pg 3)(0 := pfn_pmd (PFN_DOWN (page_paddr demo_config 4)) PAGE_TABLE)))
     (alloc_pg 4 0 (\<lambda>_. 0) pg3)"
definition pg5 :: "pages \<Rightarrow> pages" where
  "pg5 pl = (\<lambda>pg. pg(4 := (pg 4)(0 := pfn_pte (PFN_DOWN (page_paddr demo_config 5)) (enclave_prot 6)),
     5 := pl 0)) (alloc_pg 5 0 (\<lambda>_. 0) pg4)"

lemmas demo_dbs = db5_def db4_def db3_def db2_def alloc_db_def new_db_def
lemmas demo_pgs = pg5_def pg4_def pg3_def pg2_def alloc_pg_def new_pg_def

lemma demo2: "demo_host (demo_call 13 2 0 0x1000 0 0 (demo_call 12 0 1 0 0 0 demo_boot)) db2 pg2"
  by (rule demo_host_return [OF demo1])
    (simp add: smc_numbers kom_smc_init_dispatcher_def page_is_typed_ptyped allocate_page_eq ptyped_def demo_valid
      demo1 [unfolded demo_host_def] demo_db_free page_monvaddr_def Let_def new_db_def new_pg_def alloc_pg_def,
     simp_all add: alloc_state_def db2_def pg2_def alloc_pg_def demo1 [unfolded demo_host_def] set_word_def
       new_db_def new_pg_def)

lemma demo3:
  "demo_host (demo_call 14 3 1 0 0 0 (demo_call 13 2 0 0x1000 0 0 (demo_call 12 0 1 0 0 0 demo_boot))) db3 pg3"
  by (rule demo_host_return [OF demo2])
    (simp add: smc_numbers kom_smc_init_l2ptable_def page_is_typed_ptyped allocate_page_eq ptyped_def demo_valid
      demo2 [unfolded demo_host_def] demo_db_free page_monvaddr_def demo_dbs demo_pgs,
     simp_all add: alloc_state_def db3_def pg3_def demo2 [unfolded demo_host_def] set_word_def)

lemma demo4:
  "demo_host (demo_call 15 4 3 0 0 0 (demo_call 14 3 1 0 0 0 (demo_call 13 2 0 0x1000 0 0
     (demo_call 12 0 1 0 0 0 demo_boot)))) db4 pg4"
  by (rule demo_host_return [OF demo3])
    (simp add: smc_numbers kom_smc_init_l3ptable_def page_is_typed_ptyped allocate_page_eq ptyped_def demo_valid
      demo3 [unfolded demo_host_def] demo_db_free page_monvaddr_def demo_dbs demo_pgs,
     simp_all add: alloc_state_def db4_def pg4_def demo3 [unfolded demo_host_def] set_word_def)

lemma demo5: "\<exists>pl. demo_host demo_build db5 (pg5 pl)"
  unfolding demo_build_def
  by (rule exI, rule demo_host_return [OF demo4])
    (simp add: smc_numbers kom_smc_map_secure_def page_is_typed_ptyped allocate_page_eq ptyped_def demo_valid
      demo4 [unfolded demo_host_def] demo_db_free page_monvaddr_def demo_dbs demo_pgs Let_def,
     simp_all add: alloc_state_def db5_def pg5_def demo4 [unfolded demo_host_def] set_word_def copy_page_def)

definition pg6 :: "pages \<Rightarrow> pages" where
  "pg6 pl = (pg5 pl)(0 := (pg5 pl 0)(AS_STATE := KOM_ADDRSPACE_FINAL))"

lemma demo6: "\<exists>pl. demo_host demo_final db5 (pg6 pl)"
proof -
  obtain pl where h: "demo_host demo_build db5 (pg5 pl)" using demo5 ..
  have "demo_host demo_final db5 (pg6 pl)"
    unfolding demo_final_def
    by (rule demo_host_return [OF h])
      (simp add: smc_numbers kom_smc_finalise_def page_is_typed_ptyped ptyped_def demo_valid
        h [unfolded demo_host_def] page_monvaddr_def demo_dbs demo_pgs,
       simp_all add: pg6_def h [unfolded demo_host_def])
  then show ?thesis by blast
qed

lemma demo_final_facts:
  "\<not> enclave_mode demo_final" "ptyped (g_pagedb demo_final) 5 KOM_PAGE_DATA"
  "protected_page demo_final 5" "ptyped (g_pagedb demo_final) 0 KOM_PAGE_ADDRSPACE"
  "ptyped (g_pagedb demo_final) 2 KOM_PAGE_DISPATCHER"
  "csr_read (csrs demo_final) MSTATUS AND SR_MPP = SR_MPP_S"
proof -
  obtain pl where h: "demo_host demo_final db5 (pg6 pl)" using demo6 ..
  note h = h [unfolded demo_host_def]
  show "\<not> enclave_mode demo_final" "ptyped (g_pagedb demo_final) 5 KOM_PAGE_DATA"
    "protected_page demo_final 5" "ptyped (g_pagedb demo_final) 0 KOM_PAGE_ADDRSPACE"
    "ptyped (g_pagedb demo_final) 2 KOM_PAGE_DISPATCHER"
    "csr_read (csrs demo_final) MSTATUS AND SR_MPP = SR_MPP_S"
    using h by (simp_all add: ptyped_def demo_valid demo_dbs protected_page_def used_def pg6_def)
qed

lemma demo_enclave_eq:
  "\<exists>pl. enclave_mode demo_enclave \<and> g_pagedb demo_enclave = db5 \<and> g_cur_dispatcher_pageno demo_enclave = 2 \<and>
     secure_pages demo_enclave = (pg6 pl)(2 := (pg6 pl 2)(10 := 7, 11 := 8, 12 := 9)) \<and>
     csr_read (csrs demo_enclave) SATP = SATP_MODE_SV39 OR PFN_DOWN (page_paddr demo_config 1)"
proof -
  obtain pl where h: "demo_host demo_final db5 (pg6 pl)" using demo6 ..
  note h = h [unfolded demo_host_def]
  let ?s = "skip_ecall (demo_final\<lparr>regs := (\<lambda>_. 0)(A7 := 22, A0 := 2, A1 := 7, A2 := 8, A3 := 9, A4 := 0)\<rparr>)"
  let ?s3 = "set_word 2 12 9 (set_word 2 11 8 (set_word 2 10 7 ?s))"
  have "smc_call demo_config ?s = run_dispatcher 2 ?s3"
    using h by (simp add: smc_numbers kom_smc_enter_def page_is_typed_ptyped ptyped_def demo_valid
        page_monvaddr_def demo_dbs demo_pgs pg6_def Let_def disp_csr_def)
  then have "demo_enclave = demo_next demo_final (set_a0 (run_dispatcher 2 ?s3))"
    unfolding demo_enclave_def using h by (intro demo_call_returns) simp_all
  then have eq: "demo_enclave = ?s3\<lparr>
      hstate := \<lparr>host_regs = regs ?s3, host_csrs = save_csrs komodo_csrs (csrs ?s3) (host_csrs (hstate ?s3))\<rparr>,
      csrs := switch_csrs True (disp_csrs ?s3 2) (csrs ?s3), enclave_mode := True,
      g_cur_dispatcher_pageno := 2, regs := disp_regs ?s3 2\<rparr>"
    by (simp add: run_dispatcher_def enter_secure_world_eq [OF demo_valid(3)] demo_next_def set_a0_def disp_regs_def)
  have pages: "secure_pages ?s3 = (pg6 pl)(2 := (pg6 pl 2)(10 := 7, 11 := 8, 12 := 9))"
    using h by (simp add: fun_eq_iff)
  have "disp_csrs ?s3 2 SATP = SATP_MODE_SV39 OR PFN_DOWN (page_paddr demo_config 1)"
    unfolding disp_csrs_def pages by (simp add: pg6_def demo_pgs disp_csr_def)
  then have "csr_read (csrs demo_enclave) SATP = SATP_MODE_SV39 OR PFN_DOWN (page_paddr demo_config 1)"
    unfolding eq by (simp add: switch_csrs_SATP)
  moreover have "secure_pages demo_enclave = (pg6 pl)(2 := (pg6 pl 2)(10 := 7, 11 := 8, 12 := 9))"
    unfolding eq using pages by simp
  moreover have "enclave_mode demo_enclave" "g_pagedb demo_enclave = db5" "g_cur_dispatcher_pageno demo_enclave = 2"
    using h unfolding eq by simp_all
  ultimately show ?thesis by blast
qed

lemma demo_final_reach: "reach (kom_boot demo_config) (kom_step demo_config m) demo_final"
  unfolding demo_final_def demo_build_def by (intro demo_reach)

lemma demo_enclave_reach: "reach (kom_boot demo_config) (kom_step demo_config m) demo_enclave"
  unfolding demo_enclave_def by (intro demo_reach demo_final_reach)

lemma reach_kom_inv: "layout_ok C \<Longrightarrow> reach (kom_boot C) (kom_step C m) s \<Longrightarrow> kom_inv C s"
  using kom_sys.reach_inv by blast

section \<open>Theorems\<close>

text \<open>C5: in no state the machine can reach, whatever the host and the enclaves do, does handling a
  trap run into a \<^verbatim>\<open>BUG_ON\<close> or a \<^verbatim>\<open>die\<close>: every page number the monitor dereferences is valid.\<close>

theorem kom_never_panics:
  assumes "layout_ok C" and "reach (kom_boot C) (kom_step C m) s" and "trap_ok cause s"
  shows "do_trap C cause s \<noteq> Panic"
  using do_trap_inv [OF reach_kom_inv [OF assms(1,2)] assms(3)] by (rule holds_after_not_Panic)

theorem kom_never_panics_witness:
  "do_trap demo_config 2 demo_enclave \<noteq> Panic \<and> do_trap demo_config 9 demo_final \<noteq> Panic"
  using kom_never_panics [OF demo_layout demo_enclave_reach, of 2]
    kom_never_panics [OF demo_layout demo_final_reach, of 9] demo_final_facts
  by (simp add: trap_ok_def)

text \<open>C6: every reachable state satisfies the monitor's invariant: owners are address spaces, counts
  are exact, page tables of live enclaves lead only to pages of the same enclave, the
  protection and delegation registers match the world the machine is in.\<close>

theorem kom_inv_reachable:
  assumes "layout_ok C" and "reach (kom_boot C) (kom_step C m) s"
  shows "kom_inv C s"
  using reach_kom_inv [OF assms] .

theorem kom_inv_reachable_witness: "kom_inv demo_config demo_enclave"
  using kom_inv_reachable [OF demo_layout demo_enclave_reach] .

text \<open>C3: while an enclave runs, every translation the hardware can make with the current \<^verbatim>\<open>satp\<close> ends in a
  data page of that enclave or in an insecure page, never in a page of another enclave, in a
  page table or in memory of the monitor.\<close>

theorem kom_enclave_confined:
  assumes "layout_ok C" and "reach (kom_boot C) (kom_step C m) s" and "enclave_mode s"
    and "sv39_walk C m s (csr_read (csrs s) SATP) i1 i2 i3 = Some (fr, perm)"
  shows "(\<exists>p. fr = Secure p \<and> page_is_typed s p KOM_PAGE_DATA \<and>
            pg_addrspace_page (g_pagedb s p) = pg_addrspace_page (g_pagedb s (g_cur_dispatcher_pageno s))) \<or>
         (\<exists>q. fr = Insecure q \<and> insecure_page_is_valid q)"
  using walk_confined [OF assms(1) reach_kom_inv [OF assms(1,2)] assms(3,4)]
  by (simp add: page_is_typed_ptyped)

lemma demo_walk:
  "sv39_walk demo_config m demo_enclave (csr_read (csrs demo_enclave) SATP) 0 0 0 = Some (Secure 5, 6)"
proof -
  obtain pl where e: "secure_pages demo_enclave = (pg6 pl)(2 := (pg6 pl 2)(10 := 7, 11 := 8, 12 := 9))"
    "csr_read (csrs demo_enclave) SATP = SATP_MODE_SV39 OR PFN_DOWN (page_paddr demo_config 1)"
    using demo_enclave_eq by blast
  show ?thesis
    by (simp add: sv39_walk_def Let_def e frame_word_def frame_of_def pte_ppn_def pg6_def demo_pgs
        SATP_MODE_SV39_def PFN_DOWN_def page_paddr_def demo_config_def page_is_valid_def
        pfn_pgd_def pfn_pmd_def pfn_pte_def enclave_prot_def)
qed

theorem kom_enclave_confined_witness:
  "enclave_mode demo_enclave \<and> page_is_typed demo_enclave 5 KOM_PAGE_DATA \<and>
   pg_addrspace_page (g_pagedb demo_enclave 5) =
     pg_addrspace_page (g_pagedb demo_enclave (g_cur_dispatcher_pageno demo_enclave))"
  using kom_enclave_confined [OF demo_layout demo_enclave_reach _ demo_walk [of "\<lambda>_ _. 0"]] demo_enclave_eq
  by auto

text \<open>C4: while the host runs, physical memory protection refuses every access that overlaps the
  secure pages, whatever its address and size.\<close>

theorem kom_secure_pages_protected:
  assumes "layout_ok C" and "reach (kom_boot C) (kom_step C m) s" and "\<not> enclave_mode s"
    and "ptr + sz > secure_pages_addr C" and "ptr < secure_pages_addr C + KOM_SECURE_RESERVE"
  shows "pmp_privs (csrs s) ptr sz = Some 0"
proof -
  have "pmp_inv C False (csrs s)"
    using reach_kom_inv [OF assms(1,2)] assms(3) by (simp add: kom_inv_def mode_inv_def)
  then show ?thesis using pmp_blocks_secure [OF assms(1) _ assms(4,5)] by simp
qed

theorem kom_secure_pages_protected_witness: "pmp_privs (csrs demo_final) 0x80401000 8 = Some 0"
  using kom_secure_pages_protected [OF demo_layout demo_final_reach demo_final_facts(1), of "0x80401000" 8]
  by (simp add: demo_config_def)

text \<open>C2: no step of the machine taken by the host, by another enclave or by the monitor on their behalf
  changes a data page or page table of a finalised enclave, or its type or owner.\<close>

theorem kom_enclave_integrity:
  assumes "layout_ok C" and "reach (kom_boot C) (kom_step C m) s" and "kom_step C m s t"
    and "page_is_valid p" and "pg_type (g_pagedb s p) \<notin> {KOM_PAGE_FREE, KOM_PAGE_ADDRSPACE, KOM_PAGE_DISPATCHER}"
    and "secure_pages s (pg_addrspace_page (g_pagedb s p)) AS_STATE = KOM_ADDRSPACE_FINAL"
    and "enclave_mode s \<longrightarrow>
      pg_addrspace_page (g_pagedb s p) \<noteq> pg_addrspace_page (g_pagedb s (g_cur_dispatcher_pageno s))"
  shows "secure_pages t p = secure_pages s p \<and> g_pagedb t p = g_pagedb s p"
  using step_keeps [OF assms(3,1) reach_kom_inv [OF assms(1,2)], of p] assms(4-7)
  by (simp add: protected_page_def used_def page_kept_def)

theorem kom_enclave_integrity_witness:
  "secure_pages demo_enclave 5 = secure_pages demo_final 5 \<and> g_pagedb demo_enclave 5 = g_pagedb demo_final 5"
proof -
  let ?s = "demo_final\<lparr>regs := (\<lambda>_. 0)(A7 := 22, A0 := 2, A1 := 7, A2 := 8, A3 := 9, A4 := 0)\<rparr>"
  note F = demo_final_facts
  have run: "kom_step demo_config (\<lambda>_ _. 0) demo_final ?s"
    using host_run [of demo_final "csrs demo_final" "secure_pages demo_final" demo_config "\<lambda>_ _. 0"
        "payload demo_final" "regs ?s"] F(1) by (simp add: smode_csrs_def)
  have "demo_enclave = demo_next demo_final (do_trap demo_config 9 ?s)"
    using F(1,6) unfolding demo_enclave_def by (simp add: demo_call_def Let_def trap_ok_def)
  moreover have ok: "trap_ok 9 ?s" using F(6) by (simp add: trap_ok_def)
  have "demo_next demo_final (do_trap demo_config 9 ?s) = demo_final \<or>
      kom_step demo_config (\<lambda>_ _. 0) ?s (demo_next demo_final (do_trap demo_config 9 ?s))"
    by (cases "do_trap demo_config 9 ?s")
      (auto simp: demo_next_def dest: trap_return [OF ok] trap_mret [OF ok])
  moreover have "demo_enclave \<noteq> demo_final" using F(1) demo_enclave_eq by auto
  ultimately have step: "kom_step demo_config (\<lambda>_ _. 0) ?s demo_enclave" by simp
  show ?thesis
    using kom_enclave_integrity [OF demo_layout reach_step [OF demo_final_reach run] step, of 5] F(1,3)
    by (simp add: protected_page_def used_def)
qed

text \<open>C1: the host learns nothing about enclaves from the monitor. From two states that agree on what the
  host may know but differ in data pages, in saved enclave contexts and, while an enclave
  runs, in its registers, handling the same trap gives the same result and again two such
  states; a running enclave declassifies only the cause, the call number and the exit value.\<close>

theorem kom_host_noninterference:
  assumes "layout_ok C" and "reach (kom_boot C) (kom_step C m) s" and "os_equiv s t"
    and "trap_ok cause s" and "trap_ok cause t"
    and "enclave_mode s \<and> cause = EXC_ECALL_S \<longrightarrow> regs t A7 = regs s A7 \<and> regs t A0 = regs s A0"
  shows "os_outcome (do_trap C cause s) (do_trap C cause t)"
  using do_trap_os [OF assms(3) reach_kom_inv [OF assms(1,2)] assms(4,5)] assms(6) by blast

theorem kom_host_noninterference_witness:
  "os_outcome (do_trap demo_config 9 demo_final)
     (do_trap demo_config 9 (demo_final\<lparr>secure_pages := (secure_pages demo_final)(5 := (\<lambda>_. 42))\<rparr>))"
proof (rule kom_host_noninterference [OF demo_layout demo_final_reach])
  have "page_equiv KOM_PAGE_DATA w w'" for w w' by (simp add: page_equiv_def)
  then show "os_equiv demo_final (demo_final\<lparr>secure_pages := (secure_pages demo_final)(5 := (\<lambda>_. 42))\<rparr>)"
    using demo_final_facts(2) by (auto simp: os_equiv_def page_equiv_upd ptyped_def)
qed (use demo_final_facts(1,6) in \<open>simp_all add: trap_ok_def\<close>)

section \<open>Contexts across world switches\<close>

text \<open>An enclave runs: steps of the machine that stay in the secure world.\<close>

definition kom_enclave_runs :: "kom_config \<Rightarrow> (u64 \<Rightarrow> u64 \<Rightarrow> u64) \<Rightarrow> kom \<Rightarrow> kom \<Rightarrow> bool" where
  "kom_enclave_runs C m s t \<longleftrightarrow> reach (\<lambda>x. x = s) (\<lambda>x y. kom_step C m x y \<and> enclave_mode y) t"

text \<open>
  A dispatcher stays suspended: any steps of the host and of other enclaves and dispatchers, as long as the
  dispatcher itself is not run and its enclave is not stopped.
\<close>

definition stays_suspended :: "kom_config \<Rightarrow> (u64 \<Rightarrow> u64 \<Rightarrow> u64) \<Rightarrow> u64 \<Rightarrow> kom \<Rightarrow> kom \<Rightarrow> bool" where
  "stays_suspended C m d s t \<longleftrightarrow> reach (\<lambda>x. x = s)
     (\<lambda>x y. kom_step C m x y \<and> \<not> (enclave_mode y \<and> g_cur_dispatcher_pageno y = d) \<and>
        secure_pages y (pg_addrspace_page (g_pagedb y d)) AS_STATE = KOM_ADDRSPACE_FINAL) t"

text \<open>In the secure world only a return to the host touches the saved host state.\<close>

lemma enclave_trap_keeps:
  assumes v: "page_is_valid (g_cur_dispatcher_pageno s)" and ok: "trap_ok cause s" and en: "enclave_mode s"
  shows "holds_after (\<lambda>t. enclave_mode t \<longrightarrow> hstate t = hstate s \<and> g_cur_dispatcher_pageno t = g_cur_dispatcher_pageno s)
    (do_trap C cause s)"
proof -
  have c: "g_cur_dispatcher_pageno (skip_ecall s) = g_cur_dispatcher_pageno s" "hstate (skip_ecall s) = hstate s"
    by (simp_all add: skip_ecall_def)
  show ?thesis
    using v ok en
    by (simp add: do_trap_def do_trap_ecall_s_def trap_ok_def do_svc_calls_def kom_svc_exit_def kom_handle_trap_def
        leave_secure_world_eq set_host_result_def Let_def set_a0_def c)
qed

lemma enclave_step_keeps:
  assumes step: "kom_step C m s t" and v: "page_is_valid (g_cur_dispatcher_pageno s)" and en: "enclave_mode s" "enclave_mode t"
  shows "hstate t = hstate s \<and> g_cur_dispatcher_pageno t = g_cur_dispatcher_pageno s"
  using step
proof (cases rule: kom_step.cases)
  case (trap_return cause u)
  then show ?thesis using enclave_trap_keeps [OF v _ en(1), of cause C] en(2) by simp
next
  case (trap_mret cause r s')
  then show ?thesis using enclave_trap_keeps [OF v _ en(1), of cause C] en(2) by simp
qed simp_all

lemma kom_runs_keep:
  assumes run: "kom_enclave_runs C m s t" and L: "layout_ok C" and inv: "kom_inv C s" and en: "enclave_mode s"
  shows "kom_inv C t \<and> enclave_mode t \<and> hstate t = hstate s \<and> g_cur_dispatcher_pageno t = g_cur_dispatcher_pageno s"
  using run unfolding kom_enclave_runs_def
proof (induction rule: reach.induct)
  case (reach_step x y)
  then have x: "kom_inv C x" "enclave_mode x" "hstate x = hstate s" "g_cur_dispatcher_pageno x = g_cur_dispatcher_pageno s"
    and y: "kom_step C m x y" "enclave_mode y" by auto
  have "page_is_valid (g_cur_dispatcher_pageno x)" using x(1) by (simp add: kom_inv_def mode_inv_def)
  then show ?case using enclave_step_keeps [OF y(1) _ x(2) y(2)] kom_step_inv [OF y(1) L x(1)] x y by simp
qed (use inv en in simp)

lemma suspended_keep:
  assumes run: "stays_suspended C m d s t" and L: "layout_ok C" and inv: "kom_inv C s" and host: "\<not> enclave_mode s"
    and d: "ptyped (g_pagedb s) d KOM_PAGE_DISPATCHER" and en: "secure_pages s d DISP_ENTERED \<noteq> 0"
    and fin: "secure_pages s (powner (g_pagedb s) d) AS_STATE = KOM_ADDRSPACE_FINAL"
  shows "kom_inv C t \<and> page_kept s d t \<and> \<not> (enclave_mode t \<and> g_cur_dispatcher_pageno t = d) \<and>
    secure_pages t (powner (g_pagedb t) d) AS_STATE = KOM_ADDRSPACE_FINAL"
  using run unfolding stays_suspended_def
proof (induction rule: reach.induct)
  case (reach_step x y)
  then have x: "kom_inv C x" "page_kept s d x" "\<not> (enclave_mode x \<and> g_cur_dispatcher_pageno x = d)"
    "secure_pages x (powner (g_pagedb x) d) AS_STATE = KOM_ADDRSPACE_FINAL" and y: "kom_step C m x y" by auto
  have "guarded_page x d"
    using x(2,4) d en by (simp add: guarded_page_def page_kept_def used_def ptyped_def)
  then have "page_kept x d y"
    by (rule step_keeps_guarded [OF y L x(1)]) (use x(2,3) d in \<open>auto simp: page_kept_def ptyped_def\<close>)
  then show ?case using reach_step.hyps(2) kom_step_inv [OF y L x(1)] x(2) by (auto simp: page_kept_def)
qed (use inv host fin in simp)

lemma smc_trap:
  assumes "\<not> enclave_mode s" and "trap_ok EXC_ECALL_S s"
  shows "do_trap C EXC_ECALL_S s = set_a0 (smc_call C (skip_ecall s))"
  using assms by (simp add: do_trap_def do_trap_ecall_s_def trap_ok_def do_smc_calls_def)

lemma smc_dispatch:
  shows "regs s A7 = 22 \<Longrightarrow> smc_call C s = kom_smc_enter (regs s A0) (regs s A1) (regs s A2) (regs s A3) s"
    and "regs s A7 = 23 \<Longrightarrow> smc_call C s = kom_smc_resume (regs s A0) s"
  by (simp_all add: smc_call_def Let_def)

text \<open>C7: a thread of an enclave that a trap interrupts, and that the host resumes after any steps of the machine
  that neither run it nor stop its enclave, continues with exactly the general and supervisor registers it had.\<close>

theorem kom_resume_restores_context:
  assumes "layout_ok C" and "reach (kom_boot C) (kom_step C m) s" and "enclave_mode s"
    and "d = g_cur_dispatcher_pageno s" and "cause \<noteq> EXC_ECALL_S" and "do_trap C cause s = Mret r t"
    and "stays_suspended C m d (t\<lparr>regs := r\<rparr>) u" and "\<not> enclave_mode u"
    and "trap_ok EXC_ECALL_S u" and "regs u A7 = 23" and "regs u A0 = d"
  shows "\<exists>v. do_trap C EXC_ECALL_S u = Mret (regs s) v \<and> enclave_mode v \<and> g_cur_dispatcher_pageno v = d \<and>
    (\<forall>c \<in> set komodo_csrs. csr_read (csrs v) c = csr_read (csrs s) c)"
proof -
  have inv: "kom_inv C s" by (rule reach_kom_inv [OF assms(1,2)])
  have d: "ptyped (g_pagedb s) d KOM_PAGE_DISPATCHER"
    and fin: "secure_pages s (powner (g_pagedb s) d) AS_STATE = KOM_ADDRSPACE_FINAL"
    using inv assms(3,4) by (auto simp: kom_inv_def mode_inv_def current_inv_def Let_def)
  note v = ptyped_valid [OF d] and own = table_owner [OF inv d]
  have ne: "powner (g_pagedb s) d \<noteq> d" using own d by (auto simp: ptyped_def)
  have t: "secure_pages t = (secure_pages s)(d := saved_context True (regs s) (csrs s) (secure_pages s d))"
    "g_pagedb t = g_pagedb s" "\<not> enclave_mode t"
    using assms(3-6) v by (auto simp: do_trap_def kom_handle_trap_def leave_secure_world_eq set_host_result_def Let_def)
  have trap: "trap_ok cause s" using assms(5) by (simp add: trap_ok_def)
  have "kom_inv C (t\<lparr>regs := r\<rparr>)"
    using kom_step_inv [OF trap_mret [OF trap assms(6)] assms(1) inv] .
  then have U: "kom_inv C u" "page_kept (t\<lparr>regs := r\<rparr>) d u" "secure_pages u (powner (g_pagedb u) d) AS_STATE = KOM_ADDRSPACE_FINAL"
    using suspended_keep [OF assms(7,1)] t d ne fin by (auto simp: saved_entered)
  let ?u = "skip_ecall u"
  have pg: "secure_pages ?u d = saved_context True (regs s) (csrs s) (secure_pages s d)" and ud: "g_pagedb ?u d = g_pagedb s d"
    using U(2) t by (simp_all add: page_kept_def)
  have "kom_smc_resume d ?u = run_dispatcher d ?u"
    using U(3) d v ptyped_valid [OF own] ud pg
    by (simp add: kom_smc_resume_def page_is_typed_def ptyped_def page_monvaddr_valid saved_entered)
  then have "do_trap C EXC_ECALL_S u = set_a0 (run_dispatcher d ?u)"
    using smc_trap [OF assms(8,9), of C] assms(10,11) by (simp add: smc_dispatch)
  moreover have "csr_read (switch_csrs en (disp_csrs ?u d) f) c = csr_read (csrs s) c" if "c \<in> set komodo_csrs" for en f c
    by (rule switch_csrs_read [OF that]) (rule disp_csrs_saved [OF pg that])
  ultimately show ?thesis
    using disp_regs_saved [OF pg] by (simp add: run_dispatcher_def enter_secure_world_eq [OF v] disp_regs_def set_a0_def)
qed

lemma reach_one: "step s t \<Longrightarrow> reach (\<lambda>x. x = s) step t"
  by (rule reach_step, rule reach_init) simp_all

text \<open>The host loads its registers for a call; the hardware records the mode the call comes from.\<close>

definition demo_host_args :: "pt_regs \<Rightarrow> kom \<Rightarrow> kom" where
  "demo_host_args r s = s\<lparr>regs := r, csrs := csr_write MSTATUS SR_MPP_S (csrs s)\<rparr>"

lemma demo_host_args_step:
  assumes "\<not> enclave_mode s" and "csr_read (csrs s) MSTATUS AND SR_TVM = 0"
  shows "kom_step C m s (demo_host_args r s)"
  using host_run [of s "csr_write MSTATUS SR_MPP_S (csrs s)" "secure_pages s" C m "payload s" r] assms
  by (auto simp: demo_host_args_def smode_csrs_def csr_simps csr_base_def csr_read_write_same pmp_csrs_def)

lemma demo_host_args_simps [simp]:
  "regs (demo_host_args r s) = r" "enclave_mode (demo_host_args r s) = enclave_mode s"
  "g_pagedb (demo_host_args r s) = g_pagedb s" "secure_pages (demo_host_args r s) = secure_pages s"
  "trap_ok cause (demo_host_args r s)"
  by (simp_all add: demo_host_args_def trap_ok_def csr_read_write_same)

theorem kom_resume_restores_context_witness:
  "\<exists>r t v. do_trap demo_config 2 demo_enclave = Mret r t \<and>
     do_trap demo_config 9 (demo_host_args (r(A7 := 23, A0 := 2)) t) = Mret (regs demo_enclave) v \<and>
     csr_read (csrs v) MEPC = csr_read (csrs demo_enclave) MEPC"
proof -
  obtain pl where e: "enclave_mode demo_enclave" "g_pagedb demo_enclave = db5"
    "g_cur_dispatcher_pageno demo_enclave = 2"
    "secure_pages demo_enclave = (pg6 pl)(2 := (pg6 pl 2)(10 := 7, 11 := 8, 12 := 9))"
    using demo_enclave_eq by blast
  obtain r t where t: "do_trap demo_config 2 demo_enclave = Mret r t" "\<not> enclave_mode t"
    "secure_pages t 0 = secure_pages demo_enclave 0" "g_pagedb t = g_pagedb demo_enclave"
    using e demo_valid(3)
    by (simp add: do_trap_def kom_handle_trap_def leave_secure_world_eq set_host_result_def Let_def)
  have "kom_inv demo_config (t\<lparr>regs := r\<rparr>)"
    by (rule kom_step_inv [OF trap_mret [OF _ t(1)] demo_layout reach_kom_inv [OF demo_layout demo_enclave_reach]])
      (simp add: trap_ok_def)
  then have tvm: "csr_read (csrs t) MSTATUS AND SR_TVM = 0"
    using t(2) by (simp add: kom_inv_def mode_inv_def deleg_inv_def)
  let ?u = "demo_host_args (r(A7 := 23, A0 := 2)) (t\<lparr>regs := r\<rparr>)"
  have eq: "?u = demo_host_args (r(A7 := 23, A0 := 2)) t" by (simp add: demo_host_args_def)
  have "kom_step demo_config (\<lambda>_ _. 0) (t\<lparr>regs := r\<rparr>) ?u"
    using t(2) tvm by (intro demo_host_args_step) simp_all
  then have u: "stays_suspended demo_config (\<lambda>_ _. 0) 2 (t\<lparr>regs := r\<rparr>) ?u"
    unfolding stays_suspended_def
    by (intro reach_one) (use t e in \<open>simp add: demo_dbs pg6_def\<close>)
  obtain v where "do_trap demo_config EXC_ECALL_S ?u = Mret (regs demo_enclave) v"
    "\<forall>c \<in> set komodo_csrs. csr_read (csrs v) c = csr_read (csrs demo_enclave) c"
    using kom_resume_restores_context [OF demo_layout demo_enclave_reach e(1) e(3) [symmetric] _ t(1) u] t(2) by auto
  with t show ?thesis unfolding eq by (auto simp: komodo_csrs_def)
qed

lemma entry_saves_host:
  assumes "kom_inv C s" and "\<not> enclave_mode s" and "trap_ok EXC_ECALL_S s" and "regs s A7 = 22 \<or> regs s A7 = 23"
    and "do_trap C EXC_ECALL_S s = Mret r t"
  shows "enclave_mode t \<and> host_regs (hstate t) = regs s \<and>
    (\<forall>c \<in> set komodo_csrs. host_csrs (hstate t) c = csr_read (csrs (skip_ecall s)) c)"
proof -
  have "set_a0 (smc_call C (skip_ecall s)) = Mret r t" using smc_trap [OF assms(2,3)] assms(5) by simp
  then show ?thesis
    using assms(4)
    by (auto simp: smc_dispatch kom_smc_enter_def kom_smc_resume_def page_is_typed_def page_monvaddr_def Let_def
        run_dispatcher_def enter_secure_world_eq save_csrs_apply set_a0_def split: if_splits)
qed

text \<open>C8: a host that enters or resumes an enclave gets back, when the enclave has run for any time and then exits or
  is interrupted, the registers and the supervisor state it had at its call, with the result in \<^verbatim>\<open>a0\<close> and the exit
  value or cause in \<^verbatim>\<open>a1\<close>, and continues after the call.\<close>

theorem kom_host_context_restored:
  assumes "layout_ok C" and "reach (kom_boot C) (kom_step C m) s" and "\<not> enclave_mode s"
    and "trap_ok EXC_ECALL_S s" and "regs s A7 = 22 \<or> regs s A7 = 23" and "do_trap C EXC_ECALL_S s = Mret r t"
    and "kom_enclave_runs C m (t\<lparr>regs := r\<rparr>) u"
    and "trap_ok cause u" and "cause = EXC_ECALL_S \<longrightarrow> regs u A7 = 30"
  shows "\<exists>v. do_trap C cause u = Mret ((regs s)
        (A0 := if cause = EXC_ECALL_S then KOM_ERR_SUCCESS else if sint cause < 0 then KOM_ERR_INTERRUPTED else KOM_ERR_FAULT,
         A1 := if cause = EXC_ECALL_S then regs u A0 else cause)) v \<and>
    \<not> enclave_mode v \<and> csr_read (csrs v) MEPC = csr_read (csrs s) MEPC + 4 \<and>
    (\<forall>c \<in> set komodo_csrs - {MEPC}. csr_read (csrs v) c = csr_read (csrs s) c)"
proof -
  have inv: "kom_inv C s" by (rule reach_kom_inv [OF assms(1,2)])
  note T = entry_saves_host [OF inv assms(3-6)]
  have "kom_inv C (t\<lparr>regs := r\<rparr>)" using kom_step_inv [OF trap_mret [OF assms(4,6)] assms(1) inv] .
  then have U: "kom_inv C u" "enclave_mode u" "hstate u = hstate t"
    using kom_runs_keep [OF assms(7,1)] T by simp_all
  have d: "page_is_valid (g_cur_dispatcher_pageno u)" using U(1) by (simp add: kom_inv_def mode_inv_def)
  have c: "csr_read (switch_csrs False (host_csrs (hstate t)) f) c = csr_read (csrs (skip_ecall s)) c"
    if "c \<in> set komodo_csrs" for f c
    by (rule switch_csrs_read [OF that]) (use T that in blast)
  have M: "csr_read (csrs (skip_ecall s)) MEPC = csr_read (csrs s) MEPC + 4"
    "c \<in> set komodo_csrs - {MEPC} \<Longrightarrow> csr_read (csrs (skip_ecall s)) c = csr_read (csrs s) c" for c
    by (auto simp: skip_ecall_def csr_read_write_same csr_simps csr_base_def komodo_csrs_def)
  have sk: "g_cur_dispatcher_pageno (skip_ecall u) = g_cur_dispatcher_pageno u" "hstate (skip_ecall u) = hstate u"
    by (simp_all add: skip_ecall_def)
  have "\<exists>v f. do_trap C cause u = Mret ((regs s)
        (A0 := if cause = EXC_ECALL_S then KOM_ERR_SUCCESS else if sint cause < 0 then KOM_ERR_INTERRUPTED else KOM_ERR_FAULT,
         A1 := if cause = EXC_ECALL_S then regs u A0 else cause)) v \<and>
    \<not> enclave_mode v \<and> csrs v = switch_csrs False (host_csrs (hstate t)) f"
    using assms(8,9) U d T
    by (auto simp: do_trap_def do_trap_ecall_s_def trap_ok_def do_svc_calls_def kom_svc_exit_def kom_handle_trap_def
        leave_secure_world_eq set_host_result_def Let_def set_a0_def sk)
  moreover have "MEPC \<in> set komodo_csrs" by (simp add: komodo_csrs_def)
  ultimately show ?thesis using c M by (metis DiffD1)
qed

definition demo_calling :: kom where
  "demo_calling = demo_final\<lparr>regs := (\<lambda>_. 0)(A7 := 22, A0 := 2, A1 := 7, A2 := 8, A3 := 9, A4 := 0)\<rparr>"

definition demo_exiting :: kom where
  "demo_exiting = demo_enclave\<lparr>regs := (\<lambda>_. 0)(A7 := 30, A0 := 5), csrs := csr_write MSTATUS (SR_TVM OR SR_MPP_S) (csrs demo_enclave)\<rparr>"

lemma demo_entry: "\<exists>r t. do_trap demo_config EXC_ECALL_S demo_calling = Mret r t \<and> t\<lparr>regs := r\<rparr> = demo_enclave"
proof -
  have d: "demo_enclave = demo_next demo_final (do_trap demo_config EXC_ECALL_S demo_calling)"
    using demo_final_facts(1,6) unfolding demo_enclave_def demo_calling_def by (simp add: demo_call_def Let_def trap_ok_def)
  have n: "\<not> enclave_mode demo_final" "enclave_mode demo_enclave" using demo_final_facts(1) demo_enclave_eq by auto
  have c: "\<not> enclave_mode demo_calling" "trap_ok EXC_ECALL_S demo_calling" "regs demo_calling A7 = 22"
    using demo_final_facts(1,6) by (simp_all add: demo_calling_def trap_ok_def)
  have e: "enclave_mode (skip_ecall demo_calling) = enclave_mode demo_calling" by simp
  show ?thesis
  proof (cases "do_trap demo_config EXC_ECALL_S demo_calling")
    case (Return x t)
    then have "\<not> enclave_mode t"
      using smc_trap [OF c(1,2), of demo_config] c e
      by (auto simp: smc_dispatch kom_smc_enter_def page_monvaddr_def Let_def run_dispatcher_def enter_secure_world_eq
          page_is_typed_def set_a0_def split: if_splits)
    then show ?thesis using d n Return by (simp add: demo_next_def)
  qed (use d n in \<open>simp_all add: demo_next_def\<close>)
qed

theorem kom_host_context_restored_witness:
  "\<exists>v. do_trap demo_config 9 demo_exiting = Mret ((regs demo_calling)(A0 := 0, A1 := 5)) v \<and>
     csr_read (csrs v) MEPC = csr_read (csrs demo_calling) MEPC + 4"
proof -
  have c: "\<not> enclave_mode demo_calling" "trap_ok EXC_ECALL_S demo_calling" "regs demo_calling A7 = 22"
    using demo_final_facts(1,6) by (simp_all add: demo_calling_def trap_ok_def)
  have reach: "reach (kom_boot demo_config) (kom_step demo_config (\<lambda>_ _. 0)) demo_calling"
    unfolding demo_calling_def
    by (rule reach_step [OF demo_final_reach])
      (use host_run [of demo_final "csrs demo_final" "secure_pages demo_final" demo_config "\<lambda>_ _. 0" "payload demo_final"] demo_final_facts(1)
       in \<open>simp add: smode_csrs_def\<close>)
  obtain r t where t: "do_trap demo_config EXC_ECALL_S demo_calling = Mret r t" "t\<lparr>regs := r\<rparr> = demo_enclave"
    using demo_entry by blast
  have en: "enclave_mode demo_enclave" using demo_enclave_eq by blast
  have tvm: "csr_read (csrs demo_enclave) MSTATUS AND SR_TVM = SR_TVM"
    using reach_kom_inv [OF demo_layout demo_enclave_reach] en by (simp add: kom_inv_def mode_inv_def deleg_inv_def)
  have "kom_step demo_config (\<lambda>_ _. 0) demo_enclave demo_exiting"
    using enclave_run [of demo_enclave "csr_write MSTATUS (SR_TVM OR SR_MPP_S) (csrs demo_enclave)" "secure_pages demo_enclave"
        demo_config "\<lambda>_ _. 0" "payload demo_enclave" "(\<lambda>_. 0)(A7 := 30, A0 := 5)"] en tvm
    by (auto simp: demo_exiting_def smode_csrs_def csr_simps csr_base_def csr_read_write_same pmp_csrs_def)
  then have u: "kom_enclave_runs demo_config (\<lambda>_ _. 0) (t\<lparr>regs := r\<rparr>) demo_exiting"
    unfolding kom_enclave_runs_def t(2)
    by (intro reach_one) (use en in \<open>simp add: demo_exiting_def\<close>)
  have x: "trap_ok EXC_ECALL_S demo_exiting" "regs demo_exiting A7 = 30" "regs demo_exiting A0 = 5"
    by (simp_all add: demo_exiting_def trap_ok_def csr_read_write_same)
  show ?thesis
    using kom_host_context_restored [OF demo_layout reach c(1,2) disjI1 [OF c(3)] t(1) u x(1)] x(2,3) by auto
qed

text \<open>C9: the reference count of an address space is the number of pages it owns, itself included.\<close>

theorem kom_refcount_exact:
  assumes "layout_ok C" and "reach (kom_boot C) (kom_step C m) s" and "page_is_typed s a KOM_PAGE_ADDRSPACE"
  shows "unat (secure_pages s a AS_REFCOUNT) =
    card {p. page_is_valid p \<and> pg_type (g_pagedb s p) \<noteq> KOM_PAGE_FREE \<and> pg_addrspace_page (g_pagedb s p) = a}"
proof -
  have "secure_pages s a AS_REFCOUNT = of_nat (card (owned (g_pagedb s) a))"
    using page_invD(3) [OF kom_inv_page [OF reach_kom_inv [OF assms(1,2)]]] assms(3)
    by (simp add: page_is_typed_ptyped)
  moreover have "take_bit 64 (card (owned (g_pagedb s) a)) = card (owned (g_pagedb s) a)"
    using card_owned_le [of "g_pagedb s" a] by (intro take_bit_nat_eq_self) simp
  ultimately show ?thesis by (simp add: unsigned_of_nat owned_def used_def)
qed

theorem kom_refcount_exact_witness:
  "unat (secure_pages demo_final 0 AS_REFCOUNT) =
    card {p. page_is_valid p \<and> pg_type (g_pagedb demo_final p) \<noteq> KOM_PAGE_FREE \<and>
             pg_addrspace_page (g_pagedb demo_final p) = 0}"
  using kom_refcount_exact [OF demo_layout demo_final_reach] demo_final_facts(4)
  by (simp add: page_is_typed_ptyped)

text \<open>The owner recorded for a page that is not free is always an address space page, so the
  check that \<^verbatim>\<open>allocate_page\<close> has disabled with \<^verbatim>\<open>#if 0\<close> can never fail.\<close>

theorem kom_owner_is_addrspace:
  assumes "layout_ok C" and "reach (kom_boot C) (kom_step C m) s"
    and "page_is_typed s p t" and "t \<noteq> KOM_PAGE_FREE"
  shows "page_is_typed s (pg_addrspace_page (g_pagedb s p)) KOM_PAGE_ADDRSPACE"
  using table_owner [OF reach_kom_inv [OF assms(1,2)]] assms(3,4) by (simp add: page_is_typed_ptyped)

theorem kom_owner_is_addrspace_witness:
  "page_is_typed demo_final (pg_addrspace_page (g_pagedb demo_final 5)) KOM_PAGE_ADDRSPACE"
  using kom_owner_is_addrspace [OF demo_layout demo_final_reach, of 5 KOM_PAGE_DATA] demo_final_facts(2)
  by (simp add: page_is_typed_ptyped)

end
