(* ===== verification/Kernel_Traps.thy ===== *)
theory Kernel_Traps
  imports Riscv_Arch
begin

text \<open>
  The generic trap dispatch of \<^verbatim>\<open>kernel/traps.c\<close>, shared by the monitors that do not bring their own, and the
  bounds clamp of \<^verbatim>\<open>io/nospec.h\<close> with its specification.
\<close>

unbundle bit_operations_syntax

section \<open>Trap dispatch\<close>

text \<open>The handlers of \<^verbatim>\<open>kernel/traps.c\<close>; every one that a monitor does not override dies.\<close>

datatype trap_handler =
    do_interrupt
  | do_trap_unknown
  | do_trap_insn_misaligned
  | do_trap_insn_fault
  | do_trap_insn_illegal
  | do_trap_break
  | do_trap_load_misaligned
  | do_trap_load_fault
  | do_trap_store_misaligned
  | do_trap_store_fault
  | do_trap_ecall_u_handler
  | do_trap_ecall_s_handler
  | do_trap_ecall_m_handler

definition trap_dispatch :: "u64 \<Rightarrow> trap_handler" where
  "trap_dispatch cause =
     (if cause = 1 then do_trap_insn_fault
      else if cause = 2 then do_trap_insn_illegal
      else if cause = 3 then do_trap_break
      else if cause = 4 then do_trap_load_misaligned
      else if cause = 5 then do_trap_load_fault
      else if cause = 6 then do_trap_store_misaligned
      else if cause = 7 then do_trap_store_fault
      else if cause = 8 then do_trap_ecall_u_handler
      else if cause = 9 then do_trap_ecall_s_handler
      else if cause = 11 then do_trap_ecall_m_handler
      else if cause = 12 then do_trap_insn_fault
      else if cause = 13 then do_trap_load_fault
      else if cause = 15 then do_trap_store_fault
      else if cause AND push_bit 63 1 \<noteq> 0 then do_interrupt
      else do_trap_unknown)"

text \<open>
  A monitor overrides the weak handlers it needs: \<open>h\<close> gives its own code, and \<open>None\<close> the default
  \<^verbatim>\<open>do_trap_error\<close>, which dies.
\<close>

definition generic_do_trap ::
    "(trap_handler \<Rightarrow> ('s \<Rightarrow> (unit, pt_regs, 's) outcome) option) \<Rightarrow> u64 \<Rightarrow> 's \<Rightarrow> (unit, pt_regs, 's) outcome" where
  "generic_do_trap h cause s = (case h (trap_dispatch cause) of None \<Rightarrow> Panic | Some f \<Rightarrow> f s)"

section \<open>Speculation barrier\<close>

definition array_index_mask_nospec :: "u64 \<Rightarrow> u64 \<Rightarrow> u64" where
  "array_index_mask_nospec index sz = signed_drop_bit 63 (NOT (index OR (sz - 1 - index)))"

definition array_index_nospec :: "u64 \<Rightarrow> u64 \<Rightarrow> u64" where
  "array_index_nospec index sz = index AND array_index_mask_nospec index sz"

text \<open>The sign bit of a word, and the mask it is turned into.\<close>

lemma signed_drop_63: "signed_drop_bit 63 (x :: u64) = (if bit x 63 then - 1 else 0)"
  by (rule bit_word_eqI) (auto simp: bit_signed_drop_bit_iff bit_minus_1_iff not_le)

lemma bit_63_iff: "bit (x :: u64) 63 \<longleftrightarrow> 2 ^ 63 \<le> unat x"
proof -
  have "bit (unat x) 63 \<longleftrightarrow> bit x 63" by (simp add: bit_unsigned_iff)
  then have "bit x 63 \<longleftrightarrow> odd (unat x div 2 ^ 63)" using bit_iff_odd [of "unat x" 63] by simp
  moreover have "unat x < 2 ^ LENGTH(64)" by (rule unsigned_less)
  then have "unat x div 2 ^ 63 < 2" by (simp add: less_mult_imp_div_less)
  ultimately show ?thesis
    using div_greater_zero_iff [of "unat x" "2 ^ 63"] by (auto simp: less_2_cases_iff)
qed

lemma unat_uminus:
  assumes "0 < unat (w :: u64)"
  shows "unat (- w) = 2 ^ 64 - unat w"
proof -
  have "unat w < 2 ^ LENGTH(64)" by (rule unsigned_less)
  then have lt: "unat w \<le> 2 ^ 64" by simp
  have "(of_nat (2 ^ 64 - unat w) :: u64) = of_nat (2 ^ 64) - of_nat (unat w)"
    using lt by (rule of_nat_diff)
  also have "\<dots> = - w" by simp
  finally have "unat (- w) = unat (of_nat (2 ^ 64 - unat w) :: u64)" by simp
  also have "\<dots> = 2 ^ 64 - unat w"
    using assms by (simp add: unsigned_of_nat take_bit_nat_eq_self)
  finally show ?thesis .
qed

text \<open>For arrays of at most \<open>2 ^ 63\<close> elements the clamp keeps indices in range and maps all others to zero.\<close>

lemma array_index_nospec_eq:
  assumes "0 < sz" and "unat sz \<le> 2 ^ 63"
  shows "array_index_nospec index sz = (if index < sz then index else 0)"
proof (cases "index < sz")
  case True
  have pred: "unat (sz - 1) = unat sz - 1" using assms(1) by (intro unat_minus_one) auto
  from True have lt: "unat index < unat sz" by (simp add: word_less_nat_alt)
  then have "index \<le> sz - 1" by (simp add: word_le_nat_alt pred)
  then have "unat (sz - 1 - index) = unat sz - 1 - unat index" by (simp add: unat_sub pred)
  then have "\<not> bit (sz - 1 - index) 63" "\<not> bit index 63"
    using lt assms(2) by (auto simp: bit_63_iff)
  then have "bit (NOT (index OR (sz - 1 - index))) 63"
    by (simp add: bit_not_iff bit_or_iff bit_and_iff)
  with True show ?thesis
    by (simp add: array_index_nospec_def array_index_mask_nospec_def signed_drop_63)
next
  case False
  have "bit index 63 \<or> bit (sz - 1 - index) 63"
  proof (cases "unat index < 2 ^ 63")
    case small: True
    have pred: "unat (sz - 1) = unat sz - 1" using assms(1) by (intro unat_minus_one) auto
    have "unat (index - (sz - 1)) = unat index - (unat sz - 1)"
      using False by (subst unat_sub) (simp_all add: word_le_nat_alt word_less_nat_alt pred)
    moreover have "0 < unat sz" using assms(1) by (simp add: word_less_nat_alt)
    moreover have "unat sz \<le> unat index" using False by (simp add: word_le_nat_alt not_less)
    ultimately have d: "0 < unat (index - (sz - 1))" "unat (index - (sz - 1)) < 2 ^ 63"
      using small by linarith+
    have "sz - 1 - index = - (index - (sz - 1))" by simp
    then have "unat (sz - 1 - index) = 2 ^ 64 - unat (index - (sz - 1))"
      using unat_uminus [OF d(1)] by simp
    moreover have "(2 :: nat) ^ 64 = 2 * 2 ^ 63" by simp
    ultimately have "bit (sz - 1 - index) 63" unfolding bit_63_iff using d(2) by linarith
    then show ?thesis ..
  qed (simp add: bit_63_iff)
  then have "\<not> bit (NOT (index OR (sz - 1 - index))) 63"
    by (auto simp: bit_not_iff bit_or_iff bit_and_iff)
  with False show ?thesis
    by (simp add: array_index_nospec_def array_index_mask_nospec_def signed_drop_63)
qed

end
