(* ===== verification/Certikos.thy ===== *)
theory Certikos
  imports Kernel_Traps
begin

text \<open>
  The CertiKOS monitor (\<^verbatim>\<open>monitors/certikos\<close>): the process table, memory quotas, the four system calls,
  the context switch and boot. Memory is bytes, because the monitor clears it with \<^verbatim>\<open>memset\<close>. An access outside an
  array is undefined in C; the model panics there, so that absence of panics includes memory
  safety.
\<close>

unbundle bit_operations_syntax

section \<open>Data\<close>

abbreviation (input) NR_PROCS :: u64 where "NR_PROCS \<equiv> 64"
abbreviation (input) NR_CHILDREN :: u64 where "NR_CHILDREN \<equiv> 4"
abbreviation (input) NR_PAGES :: u64 where "NR_PAGES \<equiv> 256"
abbreviation (input) SZ_4K :: u64 where "SZ_4K \<equiv> 4096"
abbreviation (input) PROC_STATE_FREE :: u64 where "PROC_STATE_FREE \<equiv> 0"
abbreviation (input) PROC_STATE_RUN :: u64 where "PROC_STATE_RUN \<equiv> 1"
abbreviation (input) PID_IDLE :: u64 where "PID_IDLE \<equiv> 1"
abbreviation (input) ELF_FILE_IDLE :: u64 where "ELF_FILE_IDLE \<equiv> 0"

text \<open>\<open>saved\<close> holds the eleven saved supervisor registers of \<^verbatim>\<open>struct proc\<close> by name.\<close>

record proc =
  pstate :: u64
  powner :: u64
  pnext :: u64
  lower :: u64
  upper :: u64
  saved :: "csr \<Rightarrow> u64"
  cpu :: pt_regs

record cert =
  procs :: "u64 \<Rightarrow> proc"
  pages :: "u64 \<Rightarrow> u64 \<Rightarrow> u8"
  current_pid :: u64
  regs :: pt_regs
  csrs :: csr_file
  cio :: mio

text \<open>The build configuration and the addresses of \<^verbatim>\<open>pages\<close>, \<^verbatim>\<open>_payload_start\<close> and \<^verbatim>\<open>_payload_end\<close>.\<close>

record cert_config =
  CONFIG_VERIFICATION :: bool
  pages_addr :: u64
  payload_start :: u64
  payload_end :: u64

type_synonym 'a cert_outcome = "('a, pt_regs, cert) outcome"

definition certikos_csrs :: "csr list" where
  "certikos_csrs = [SATP, SCAUSE, SCOUNTEREN, SEPC, SSCRATCH, SSTATUS, STVEC, STVAL, MEPC, SIE, SIP]"

section \<open>Processes\<close>

definition set_proc :: "u64 \<Rightarrow> (proc \<Rightarrow> proc) \<Rightarrow> cert \<Rightarrow> cert" where
  "set_proc pid f s = s\<lparr>procs := (procs s)(pid := f (procs s pid))\<rparr>"

text \<open>One iteration of the loop of \<^verbatim>\<open>proc_init\<close>.\<close>

definition init_proc :: "u64 \<Rightarrow> proc \<Rightarrow> proc" where
  "init_proc i p = p\<lparr>pstate := PROC_STATE_FREE,
     powner := (if i \<ge> NR_CHILDREN then i div NR_CHILDREN else PID_IDLE),
     pnext := 0, lower := 0, upper := 0,
     saved := (saved p)(SATP := 0, SCAUSE := 0, SCOUNTEREN := 0, SEPC := 0, SSCRATCH := 0,
       SSTATUS := 0, STVEC := 0, STVAL := 0, SIP := 0, SIE := 0)\<rparr>"

definition proc_init :: "cert \<Rightarrow> cert" where
  "proc_init s =
     (fold (\<lambda>i. set_proc (of_nat i) (init_proc (of_nat i))) [0..<64] s)\<lparr>current_pid := PID_IDLE\<rparr>"

definition is_pid_valid :: "u64 \<Rightarrow> bool" where
  "is_pid_valid pid = (pid > 0 \<and> pid < NR_PROCS)"

text \<open>\<^verbatim>\<open>&procs[pid]\<close>, read through: undefined outside the array.\<close>

definition proc_get :: "u64 \<Rightarrow> cert \<Rightarrow> (proc \<Rightarrow> 'a cert_outcome) \<Rightarrow> 'a cert_outcome" where
  "proc_get pid s k = (if pid < NR_PROCS then k (procs s pid) else Panic)"

definition proc_current :: "cert \<Rightarrow> (proc \<Rightarrow> 'a cert_outcome) \<Rightarrow> 'a cert_outcome" where
  "proc_current s k = proc_get (current_pid s) s k"

definition is_proc_free :: "proc \<Rightarrow> bool" where
  "is_proc_free p = (pstate p = PROC_STATE_FREE)"

definition is_pid_owned_by_current :: "cert \<Rightarrow> proc \<Rightarrow> bool" where
  "is_pid_owned_by_current s p = (powner p = current_pid s)"

definition page_addr :: "cert_config \<Rightarrow> u64 \<Rightarrow> u64" where
  "page_addr C i = pages_addr C + i * SZ_4K"

text \<open>\<^verbatim>\<open>memset(&pages[lower], 0, (upper - lower) * SZ_4K)\<close>: undefined outside the array.\<close>

definition clear_pages :: "u64 \<Rightarrow> u64 \<Rightarrow> cert \<Rightarrow> unit cert_outcome" where
  "clear_pages l u s =
     (if l \<le> u \<and> u \<le> NR_PAGES
      then Return () (s\<lparr>pages := (\<lambda>i. if l \<le> i \<and> i < u then (\<lambda>_. 0) else pages s i)\<rparr>)
      else Panic)"

definition proc_new :: "cert_config \<Rightarrow> u64 \<Rightarrow> u64 \<Rightarrow> u64 \<Rightarrow> u64 \<Rightarrow> u64 \<Rightarrow> cert \<Rightarrow> unit cert_outcome" where
  "proc_new C pid nxt fileid l u s =
     (if pid \<ge> NR_PROCS then Panic
      else if pstate (procs s pid) \<noteq> PROC_STATE_FREE then Panic
      else
        let s1 = set_proc pid (\<lambda>p. p\<lparr>pstate := PROC_STATE_RUN, pnext := nxt, lower := l, upper := u,
                   saved := (saved p)(MEPC := payload_start C),
                   cpu := (\<lambda>_. 0)(A0 := fileid, A1 := pages_addr C + l * SZ_4K)\<rparr>) s
        in clear_pages l u s1)"

definition proc_save_csrs :: "csr_file \<Rightarrow> proc \<Rightarrow> proc" where
  "proc_save_csrs f p = p\<lparr>saved := save_csrs certikos_csrs f (saved p)\<rparr>"

definition proc_restore_csrs :: "proc \<Rightarrow> csr_file \<Rightarrow> csr_file" where
  "proc_restore_csrs p f = load_csrs certikos_csrs (saved p) f"

definition pmp_switch :: "cert_config \<Rightarrow> proc \<Rightarrow> csr_file \<Rightarrow> csr_file" where
  "pmp_switch C p f =
     pmpaddr_write PMPADDR1 (page_addr C (upper p)) (pmpaddr_write PMPADDR0 (page_addr C (lower p)) f)"

definition proc_switch :: "cert_config \<Rightarrow> u64 \<Rightarrow> cert \<Rightarrow> 'a cert_outcome" where
  "proc_switch C pid s =
     (if pid \<ge> NR_PROCS then Panic
      else
        let p = procs s pid;
            f = pmp_switch C p (csrs s);
            f = proc_restore_csrs p f
        in Mret (cpu p) (s\<lparr>csrs := f\<rparr>))"

section \<open>System calls\<close>

definition sys_get_quota :: "cert \<Rightarrow> u64 cert_outcome" where
  "sys_get_quota s = proc_current s (\<lambda>p. Return (upper p - lower p) s)"

definition sys_spawn :: "cert_config \<Rightarrow> u64 \<Rightarrow> u64 \<Rightarrow> u64 \<Rightarrow> cert \<Rightarrow> u64 cert_outcome" where
  "sys_spawn C fileid quota pid s =
     proc_current s (\<lambda>p.
       if upper p - lower p < quota then Return (- EINVAL) s
       else if \<not> is_pid_valid pid then Return (- EINVAL) s
       else
         let pid = array_index_nospec pid NR_PROCS in
         proc_get pid s (\<lambda>child.
           if \<not> is_pid_owned_by_current s child then Return (- EINVAL) s
           else if \<not> is_proc_free child then Return (- EINVAL) s
           else
             let u = upper p;
                 cur = current_pid s;
                 s1 = set_proc cur (\<lambda>p. p\<lparr>upper := upper p - quota\<rparr>) s
             in obind (proc_new C pid (pnext (procs s1 cur)) fileid (upper (procs s1 cur)) u s1)
               (\<lambda>_ s2.
                 let s3 = set_proc cur (\<lambda>p. p\<lparr>pnext := pid\<rparr>) s2;
                     f = pmp_switch C (procs s3 cur) (csrs s3)
                 in Return 0 (s3\<lparr>csrs := f\<rparr>))))"

definition do_yield :: "cert \<Rightarrow> u64 cert_outcome" where
  "do_yield s = proc_current s (\<lambda>p. Return 0 (s\<lparr>current_pid := pnext p\<rparr>))"

definition sys_yield :: "cert_config \<Rightarrow> cert \<Rightarrow> u64 cert_outcome" where
  "sys_yield C s =
     proc_current s (\<lambda>p.
       let s1 = set_proc (current_pid s) (\<lambda>p. p\<lparr>cpu := copy_pt_regs (cpu p) (regs s)\<rparr>) s;
           s2 = set_proc (current_pid s) (proc_save_csrs (csrs s1)) s1
       in obind (do_yield s2) (\<lambda>_ s3. proc_switch C (current_pid s3) s3))"

definition sys_getpid :: "cert \<Rightarrow> u64 cert_outcome" where
  "sys_getpid s = Return (current_pid s) s"

definition syscall :: "cert_config \<Rightarrow> cert \<Rightarrow> u64 cert_outcome" where
  "syscall C s =
     (let nr = regs s A7 in
      if \<not> CONFIG_VERIFICATION C \<and> nr \<le> SBI_LAST
      then map_outcome id id (\<lambda>i. s\<lparr>cio := i\<rparr>) (do_mcall (CONFIG_VERIFICATION C) (regs s) (cio s))
      else if nr = 10 then sys_get_quota s
      else if nr = 11 then sys_spawn C (regs s A0) (regs s A1) (regs s A2) s
      else if nr = 12 then sys_yield C s
      else if nr = 13 then sys_getpid s
      else Return (- ENOSYS) s)"

definition do_trap_ecall_s :: "cert_config \<Rightarrow> cert \<Rightarrow> unit cert_outcome" where
  "do_trap_ecall_s C s =
     obind (syscall C (s\<lparr>csrs := csr_write MEPC (csr_read (csrs s) MEPC + 4) (csrs s)\<rparr>))
       (\<lambda>r s. Return () (s\<lparr>regs := (regs s)(A0 := r)\<rparr>))"

definition do_trap :: "cert_config \<Rightarrow> u64 \<Rightarrow> cert \<Rightarrow> unit cert_outcome" where
  "do_trap C cause s = generic_do_trap
     (\<lambda>h. if h = do_trap_ecall_s_handler then Some (do_trap_ecall_s C) else None) cause s"

section \<open>Boot\<close>

definition user_init :: "cert_config \<Rightarrow> cert \<Rightarrow> unit cert_outcome" where
  "user_init C s =
     obind (proc_new C PID_IDLE PID_IDLE ELF_FILE_IDLE 0 NR_PAGES s) (\<lambda>_ s.
       let f = csrs s;
           f = csr_clear MSTATUS SR_MPP f;
           f = csr_set MSTATUS SR_MPP_S f;
           f = csr_clear MSTATUS SR_SXL f;
           f = csr_set MSTATUS SR_SXL_64 f;
           f = csr_clear MSTATUS SR_UXL f;
           f = csr_set MSTATUS SR_UXL_64 f;
           f = csr_write MCOUNTEREN 0 f;
           f = csr_write MEDELEG EDEL_DEFAULT f;
           f = csr_write MIDELEG 0 f;
           f = csr_write SATP SATP_MODE_BARE f;
           f = pmpcfg_write 0 PMPCFG_A_OFF f;
           f = pmpcfg_write 1 (PMPCFG_A_TOR OR PMPCFG_R OR PMPCFG_W OR PMPCFG_X) f;
           f = pmpcfg_write 2 PMPCFG_A_OFF f;
           f = pmpcfg_write 3 (PMPCFG_A_TOR OR PMPCFG_R OR PMPCFG_X) f;
           f = pmpaddr_write PMPADDR2 (payload_start C) f;
           f = pmpaddr_write PMPADDR3 (payload_end C) f
       in proc_switch C PID_IDLE (s\<lparr>csrs := f\<rparr>))"

definition cert_main :: "cert_config \<Rightarrow> cert \<Rightarrow> unit cert_outcome" where
  "cert_main C s = user_init C (proc_init s)"

end
