(* ===== verification/Certikos_Inv.thy ===== *)
theory Certikos_Inv
  imports Certikos
begin

text \<open>
  The invariant of the CertiKOS monitor: the process table is well formed, memory ranges are disjoint
  and within bounds, the running processes form one ring through their \<^verbatim>\<open>next\<close> fields, and the protection
  registers grant exactly the range of the current process. Every system call keeps it.
\<close>

unbundle bit_operations_syntax

section \<open>The scheduling ring\<close>

text \<open>Following \<open>nx\<close> from \<open>x\<close> visits the given list and then \<open>z\<close>.\<close>

fun chain :: "('a \<Rightarrow> 'a) \<Rightarrow> 'a \<Rightarrow> 'a list \<Rightarrow> 'a \<Rightarrow> bool" where
  "chain nx x [] z \<longleftrightarrow> nx x = z"
| "chain nx x (y # ys) z \<longleftrightarrow> nx x = y \<and> chain nx y ys z"

lemma chain_append: "chain nx x (xs @ y # ys) z \<longleftrightarrow> chain nx x xs y \<and> chain nx y ys z"
  by (induction xs arbitrary: x) auto

lemma chain_cong: "(\<And>y. y \<in> set (x # xs) \<Longrightarrow> nx y = nx' y) \<Longrightarrow> chain nx x xs z \<longleftrightarrow> chain nx' x xs z"
  by (induction xs arbitrary: x) auto

lemma chain_rotate: "chain nx x (y # ys) x \<Longrightarrow> chain nx y (ys @ [x]) y"
  by (simp add: chain_append)

lemma chain_insert:
  assumes "chain nx x xs x" and "distinct (x # xs)" and "n \<noteq> x" and "n \<notin> set xs"
  shows "chain (nx(n := nx x, x := n)) x (n # xs) x"
proof (cases xs)
  case Nil
  with assms show ?thesis by simp
next
  case (Cons y ys)
  have "chain nx y ys x \<longleftrightarrow> chain (nx(n := nx x, x := n)) y ys x"
    by (rule chain_cong) (use assms Cons in auto)
  with assms Cons show ?thesis by auto
qed

lemma chain_funpow:
  "chain nx x xs z \<Longrightarrow> k \<le> length xs \<Longrightarrow> (nx ^^ k) x = (x # xs) ! k"
proof (induction k arbitrary: x xs)
  case (Suc k)
  then obtain y ys where "xs = y # ys" by (cases xs) auto
  with Suc show ?case by (auto simp: funpow_swap1)
qed simp

section \<open>The invariant\<close>

abbreviation running :: "(u64 \<Rightarrow> proc) \<Rightarrow> u64 \<Rightarrow> bool" where
  "running ps p \<equiv> is_pid_valid p \<and> pstate (ps p) = PROC_STATE_RUN"

definition prange :: "proc \<Rightarrow> u64 set" where
  "prange p = {i. lower p \<le> i \<and> i < upper p}"

definition proc_ok :: "(u64 \<Rightarrow> proc) \<Rightarrow> u64 \<Rightarrow> bool" where
  "proc_ok ps p \<longleftrightarrow>
     pstate (ps p) \<le> PROC_STATE_RUN \<and> is_pid_valid (powner (ps p)) \<and>
     lower (ps p) \<le> upper (ps p) \<and> upper (ps p) \<le> NR_PAGES \<and>
     (pstate (ps p) = PROC_STATE_FREE \<longrightarrow> lower (ps p) = 0 \<and> upper (ps p) = 0)"

definition ring_ok :: "(u64 \<Rightarrow> proc) \<Rightarrow> u64 \<Rightarrow> bool" where
  "ring_ok ps cur \<longleftrightarrow> (\<exists>xs. chain (\<lambda>p. pnext (ps p)) cur xs cur \<and> distinct (cur # xs) \<and>
     set (cur # xs) = {p. running ps p})"

definition disjoint_ok :: "(u64 \<Rightarrow> proc) \<Rightarrow> bool" where
  "disjoint_ok ps \<longleftrightarrow> (\<forall>p q. is_pid_valid p \<and> is_pid_valid q \<and> p \<noteq> q \<longrightarrow> prange (ps p) \<inter> prange (ps q) = {})"

text \<open>The pages of all processes together are all pages: quota is neither created nor lost.\<close>

definition cover_ok :: "(u64 \<Rightarrow> proc) \<Rightarrow> bool" where
  "cover_ok ps \<longleftrightarrow> (\<Union>p \<in> {p. is_pid_valid p}. prange (ps p)) = {i. i < NR_PAGES}"

definition table_ok :: "(u64 \<Rightarrow> proc) \<Rightarrow> u64 \<Rightarrow> bool" where
  "table_ok ps cur \<longleftrightarrow> (\<forall>p. is_pid_valid p \<longrightarrow> proc_ok ps p) \<and> ring_ok ps cur \<and> disjoint_ok ps \<and> cover_ok ps"

definition cert_pmp :: "cert_config \<Rightarrow> proc \<Rightarrow> csr_file \<Rightarrow> bool" where
  "cert_pmp C p f \<longleftrightarrow>
     pmpcfg_read f 0 = PMPCFG_A_OFF \<and> pmpcfg_read f 1 = 15 \<and>
     pmpcfg_read f 2 = PMPCFG_A_OFF \<and> pmpcfg_read f 3 = 13 \<and>
     (\<forall>n < 16. 4 \<le> n \<longrightarrow> pmpcfg_read f n AND 24 = PMPCFG_A_OFF) \<and>
     csr_read f PMPADDR0 = drop_bit 2 (page_addr C (lower p)) \<and>
     csr_read f PMPADDR1 = drop_bit 2 (page_addr C (upper p)) \<and>
     csr_read f PMPADDR2 = drop_bit 2 (payload_start C) \<and>
     csr_read f PMPADDR3 = drop_bit 2 (payload_end C)"

definition cert_inv :: "cert_config \<Rightarrow> cert \<Rightarrow> bool" where
  "cert_inv C s \<longleftrightarrow> table_ok (procs s) (current_pid s) \<and> cert_pmp C (procs s (current_pid s)) (csrs s)"

lemma ring_current: "ring_ok ps cur \<Longrightarrow> running ps cur"
  by (auto simp: ring_ok_def)

lemma ring_next:
  assumes "ring_ok ps cur"
  shows "ring_ok ps (pnext (ps cur))"
proof -
  obtain xs where xs: "chain (\<lambda>p. pnext (ps p)) cur xs cur" "distinct (cur # xs)"
    "set (cur # xs) = {p. running ps p}"
    using assms by (auto simp: ring_ok_def)
  show ?thesis
  proof (cases xs)
    case Nil
    with xs assms show ?thesis by simp
  next
    case (Cons y ys)
    then have "pnext (ps cur) = y" using xs(1) by simp
    moreover have "chain (\<lambda>p. pnext (ps p)) y (ys @ [cur]) y"
      using xs(1) Cons by (intro chain_rotate) simp
    moreover have "set (y # ys @ [cur]) = {p. running ps p}" using xs(3) Cons by auto
    ultimately show ?thesis
      using xs(2) Cons unfolding ring_ok_def by (intro exI [of _ "ys @ [cur]"]) auto
  qed
qed

lemma table_okD:
  assumes "table_ok ps cur"
  shows "is_pid_valid p \<Longrightarrow> proc_ok ps p" and "running ps cur"
    and "is_pid_valid p \<Longrightarrow> is_pid_valid q \<Longrightarrow> p \<noteq> q \<Longrightarrow> prange (ps p) \<inter> prange (ps q) = {}"
  using assms ring_current by (auto simp: table_ok_def disjoint_ok_def)

text \<open>The table matters only through the fields the scheduler and the quota use.\<close>

lemma table_ok_cong:
  assumes "table_ok ps cur"
    and "\<And>p. pstate (ps' p) = pstate (ps p) \<and> powner (ps' p) = powner (ps p) \<and> pnext (ps' p) = pnext (ps p) \<and>
           lower (ps' p) = lower (ps p) \<and> upper (ps' p) = upper (ps p)"
  shows "table_ok ps' cur"
  using assms
  by (simp add: table_ok_def proc_ok_def ring_ok_def disjoint_ok_def cover_ok_def prange_def)

section \<open>Spawning\<close>

text \<open>The table after a successful \<^verbatim>\<open>sys_spawn\<close>.\<close>

definition spawned :: "cert_config \<Rightarrow> u64 \<Rightarrow> u64 \<Rightarrow> u64 \<Rightarrow> u64 \<Rightarrow> (u64 \<Rightarrow> proc) \<Rightarrow> (u64 \<Rightarrow> proc)" where
  "spawned C cur fileid quota pid ps =
     (let mid = upper (ps cur) - quota in
      ps(pid := (ps pid)\<lparr>pstate := PROC_STATE_RUN, pnext := pnext (ps cur), lower := mid,
           upper := upper (ps cur), saved := (saved (ps pid))(MEPC := payload_start C),
           cpu := (\<lambda>_. 0)(A0 := fileid, A1 := pages_addr C + mid * SZ_4K)\<rparr>,
         cur := (ps cur)\<lparr>upper := mid, pnext := pid\<rparr>))"

lemma split_range:
  assumes "lower p \<le> upper p" and "quota \<le> upper p - lower p"
  shows "lower p \<le> upper p - quota" and "upper p - quota \<le> upper p"
proof -
  have q: "unat quota \<le> unat (upper p) - unat (lower p)"
    using assms by (simp add: word_le_nat_alt unat_sub)
  have "quota \<le> upper p" using q by (simp add: word_le_nat_alt)
  then have "unat (upper p - quota) = unat (upper p) - unat quota" by (rule unat_sub)
  with q assms(1) show "lower p \<le> upper p - quota" "upper p - quota \<le> upper p"
    by (simp_all add: word_le_nat_alt)
qed

lemma spawned_ranges:
  assumes "lower (ps cur) \<le> upper (ps cur)" and "quota \<le> upper (ps cur) - lower (ps cur)" and "pid \<noteq> cur"
  shows "prange (spawned C cur fileid quota pid ps pid) \<union> prange (spawned C cur fileid quota pid ps cur) =
         prange (ps cur)"
    and "prange (spawned C cur fileid quota pid ps pid) \<inter> prange (spawned C cur fileid quota pid ps cur) = {}"
    and "p \<noteq> pid \<Longrightarrow> p \<noteq> cur \<Longrightarrow> prange (spawned C cur fileid quota pid ps p) = prange (ps p)"
  using split_range [OF assms(1,2)] assms(3)
  by (auto simp: prange_def spawned_def Let_def)

lemma ring_spawned:
  assumes ring: "ring_ok ps cur" and pid: "is_pid_valid pid" "pstate (ps pid) = PROC_STATE_FREE"
  shows "ring_ok (spawned C cur fileid quota pid ps) cur"
proof -
  let ?ps = "spawned C cur fileid quota pid ps"
  have cur: "running ps cur" using ring_current [OF ring] .
  then have ne: "pid \<noteq> cur" using pid(2) by auto
  obtain xs where xs: "chain (\<lambda>p. pnext (ps p)) cur xs cur" "distinct (cur # xs)"
    "set (cur # xs) = {p. running ps p}"
    using ring by (auto simp: ring_ok_def)
  have np: "pid \<notin> set (cur # xs)" using xs(3) pid(2) by auto
  have nx: "(\<lambda>p. pnext (?ps p)) = (\<lambda>p. pnext (ps p))(pid := pnext (ps cur), cur := pid)"
    using ne by (auto simp: spawned_def Let_def)
  have "chain (\<lambda>p. pnext (?ps p)) cur (pid # xs) cur"
    unfolding nx using np xs chain_insert [of "\<lambda>p. pnext (ps p)" cur xs pid] by simp
  moreover have "set (cur # pid # xs) = insert pid {p. running ps p}" using xs(3) by auto
  moreover have "\<dots> = {p. running ?ps p}"
    using pid cur ne by (auto simp: spawned_def Let_def)
  ultimately show ?thesis
    using xs(2) np unfolding ring_ok_def by (intro exI [of _ "pid # xs"]) auto
qed

lemma memory_spawned:
  assumes tab: "table_ok ps cur" and pid: "is_pid_valid pid" "pstate (ps pid) = PROC_STATE_FREE"
    and q: "quota \<le> upper (ps cur) - lower (ps cur)"
  shows "disjoint_ok (spawned C cur fileid quota pid ps)" and "cover_ok (spawned C cur fileid quota pid ps)"
proof -
  let ?ps = "spawned C cur fileid quota pid ps"
  have cur: "is_pid_valid cur" "pstate (ps cur) = 1" using table_okD(2) [OF tab] by simp_all
  then have ne: "pid \<noteq> cur" using pid(2) by auto
  have ok: "proc_ok ps cur" "proc_ok ps pid" using table_okD(1) [OF tab] cur pid by auto
  then have empty: "prange (ps pid) = {}" using pid(2) by (simp add: proc_ok_def prange_def)
  have le: "lower (ps cur) \<le> upper (ps cur)" using ok(1) by (simp add: proc_ok_def)
  note R = spawned_ranges [where ps = ps and cur = cur and C = C and fileid = fileid, OF le q ne]
  show "disjoint_ok ?ps"
    unfolding disjoint_ok_def
  proof (intro allI impI)
    fix a b assume ab: "is_pid_valid a \<and> is_pid_valid b \<and> a \<noteq> b"
    let ?f = "\<lambda>p. if p = pid then cur else p"
    have sub: "prange (?ps p) \<subseteq> prange (ps (?f p))" for p
      using R(1) R(3) [of p] by (cases "p = pid"; cases "p = cur") auto
    show "prange (?ps a) \<inter> prange (?ps b) = {}"
    proof (cases "?f a = ?f b")
      case True
      then have "a = pid \<and> b = cur \<or> a = cur \<and> b = pid" using ab by (auto split: if_splits)
      with R(2) show ?thesis by auto
    next
      case False
      then have "prange (ps (?f a)) \<inter> prange (ps (?f b)) = {}"
        using table_okD(3) [OF tab, of "?f a" "?f b"] ab cur by simp
      then show ?thesis using sub [of a] sub [of b] by blast
    qed
  qed
  have "(\<Union>p \<in> {p. is_pid_valid p}. prange (?ps p)) =
      prange (?ps pid) \<union> prange (?ps cur) \<union> (\<Union>p \<in> {p. is_pid_valid p} - {pid, cur}. prange (?ps p))"
    using pid cur by blast
  also have "\<dots> = prange (ps pid) \<union> prange (ps cur) \<union> (\<Union>p \<in> {p. is_pid_valid p} - {pid, cur}. prange (ps p))"
    using R(1) R(3) empty by auto
  also have "\<dots> = (\<Union>p \<in> {p. is_pid_valid p}. prange (ps p))" using pid cur by blast
  finally show "cover_ok ?ps" using tab by (simp add: table_ok_def cover_ok_def)
qed

lemma spawned_ok:
  assumes tab: "table_ok ps cur" and pid: "is_pid_valid pid" "pstate (ps pid) = PROC_STATE_FREE"
    and q: "quota \<le> upper (ps cur) - lower (ps cur)"
  shows "table_ok (spawned C cur fileid quota pid ps) cur"
proof -
  have cur: "is_pid_valid cur" "pstate (ps cur) = 1" using table_okD(2) [OF tab] by simp_all
  then have ne: "pid \<noteq> cur" using pid(2) by auto
  have ok: "proc_ok ps cur" "proc_ok ps pid" using table_okD(1) [OF tab] cur pid by auto
  have "lower (ps cur) \<le> upper (ps cur) - quota" "upper (ps cur) - quota \<le> upper (ps cur)"
    using split_range [OF _ q] ok(1) by (auto simp: proc_ok_def)
  then have "proc_ok (spawned C cur fileid quota pid ps) p" if "is_pid_valid p" for p
    using table_okD(1) [OF tab that] ok ne cur pid by (auto simp: proc_ok_def spawned_def Let_def)
  then show ?thesis
    using ring_spawned [where ps = ps, OF _ pid] memory_spawned [OF assms] tab by (simp add: table_ok_def)
qed

section \<open>System calls\<close>

definition cleared :: "u64 \<Rightarrow> u64 \<Rightarrow> (u64 \<Rightarrow> u64 \<Rightarrow> u8) \<Rightarrow> (u64 \<Rightarrow> u64 \<Rightarrow> u8)" where
  "cleared l u pg = (\<lambda>i. if l \<le> i \<and> i < u then (\<lambda>_. 0) else pg i)"

definition spawn_state :: "cert_config \<Rightarrow> u64 \<Rightarrow> u64 \<Rightarrow> u64 \<Rightarrow> cert \<Rightarrow> cert" where
  "spawn_state C fileid quota pid s =
     (let cur = current_pid s; ps = spawned C cur fileid quota pid (procs s) in
      s\<lparr>procs := ps, pages := cleared (lower (ps pid)) (upper (ps pid)) (pages s),
        csrs := pmp_switch C (ps cur) (csrs s)\<rparr>)"

definition spawn_ok :: "u64 \<Rightarrow> u64 \<Rightarrow> cert \<Rightarrow> bool" where
  "spawn_ok quota pid s \<longleftrightarrow>
     quota \<le> upper (procs s (current_pid s)) - lower (procs s (current_pid s)) \<and>
     is_pid_valid pid \<and> powner (procs s pid) = current_pid s \<and> pstate (procs s pid) = PROC_STATE_FREE"

lemma valid_nospec: "is_pid_valid pid \<Longrightarrow> array_index_nospec pid NR_PROCS = pid"
  by (simp add: array_index_nospec_eq is_pid_valid_def)

lemma current_valid: "table_ok (procs s) (current_pid s) \<Longrightarrow> current_pid s < NR_PROCS"
  using table_okD(2) by (auto simp: is_pid_valid_def)

lemma sys_spawn_eq:
  assumes tab: "table_ok (procs s) (current_pid s)"
  shows "sys_spawn C fileid quota pid s =
    (if spawn_ok quota pid s then Return 0 (spawn_state C fileid quota pid s) else Return (- EINVAL) s)"
proof (cases "spawn_ok quota pid s")
  case True
  let ?cur = "current_pid s"
  have pid: "is_pid_valid pid" "pstate (procs s pid) = 0" "powner (procs s pid) = ?cur"
    and q: "quota \<le> upper (procs s ?cur) - lower (procs s ?cur)"
    using True by (simp_all add: spawn_ok_def)
  have ok: "proc_ok (procs s) ?cur" using table_okD [OF tab] by simp
  have ne: "pid \<noteq> ?cur" using table_okD(2) [OF tab] pid(2) by auto
  have b: "upper (procs s ?cur) - quota \<le> upper (procs s ?cur)" "upper (procs s ?cur) \<le> 256"
    using split_range(2) [OF _ q] ok by (simp_all add: proc_ok_def)
  have lt: "pid < 64" "?cur < 64" using pid(1) current_valid [OF tab] by (simp_all add: is_pid_valid_def)
  show ?thesis
    using True pid q ne b lt
    by (auto simp: sys_spawn_def proc_current_def proc_get_def valid_nospec Let_def is_pid_owned_by_current_def
        is_proc_free_def proc_new_def set_proc_def clear_pages_def spawn_state_def spawned_def cleared_def not_less
        fun_eq_iff intro!: cert.equality)
next
  case False
  have "is_pid_valid pid \<Longrightarrow> pid < 64" by (simp add: is_pid_valid_def)
  with False show ?thesis
    using current_valid [OF tab]
    by (auto simp: sys_spawn_def proc_current_def proc_get_def valid_nospec Let_def is_pid_owned_by_current_def
        is_proc_free_def spawn_ok_def not_less)
qed

text \<open>The saved state after the first half of \<^verbatim>\<open>sys_yield\<close>.\<close>

definition yielded :: "cert \<Rightarrow> u64 \<Rightarrow> proc" where
  "yielded s = (procs s)(current_pid s := (procs s (current_pid s))\<lparr>cpu := regs s,
     saved := save_csrs certikos_csrs (csrs s) (saved (procs s (current_pid s)))\<rparr>)"

lemma sys_yield_eq:
  assumes tab: "table_ok (procs s) (current_pid s)"
  shows "sys_yield C s =
    (let ps = yielded s; nxt = pnext (procs s (current_pid s)) in
     Mret (cpu (ps nxt)) (s\<lparr>procs := ps, current_pid := nxt,
       csrs := proc_restore_csrs (ps nxt) (pmp_switch C (ps nxt) (csrs s))\<rparr>))"
proof -
  have "running (procs s) (pnext (procs s (current_pid s)))"
    using tab ring_next ring_current unfolding table_ok_def by blast
  then have "pnext (procs s (current_pid s)) < 64" by (simp add: is_pid_valid_def)
  then show ?thesis
    using current_valid [OF tab]
    by (simp add: sys_yield_def proc_current_def proc_get_def do_yield_def set_proc_def yielded_def
        proc_save_csrs_def proc_switch_def Let_def not_le)
qed

section \<open>Preservation\<close>

definition cert_pmp_csrs :: "csr list" where
  "cert_pmp_csrs = [PMPCFG0, PMPCFG2, PMPADDR0, PMPADDR1, PMPADDR2, PMPADDR3]"

lemma cert_pmp_cong:
  assumes "cert_pmp C p g" and "\<And>c. c \<in> set cert_pmp_csrs \<Longrightarrow> csr_read f c = csr_read g c"
  shows "cert_pmp C p f"
proof -
  have "pmpcfg_read f n = pmpcfg_read g n" for n
    using assms(2) by (intro pmpcfg_read_cong) (simp_all add: cert_pmp_csrs_def)
  then show ?thesis using assms by (simp add: cert_pmp_def cert_pmp_csrs_def)
qed

lemma cert_pmp_switch:
  assumes "cert_pmp C p f"
  shows "cert_pmp C q (pmp_switch C q f)"
proof -
  have "pmpcfg_read (pmp_switch C q f) n = pmpcfg_read f n" for n
    by (rule pmpcfg_read_cong) (simp_all add: pmp_switch_def csr_simps csr_base_def)
  then show ?thesis
    using assms
    by (simp add: cert_pmp_def pmp_switch_def csr_simps csr_base_def)
      (simp add: pmpaddr_write_def csr_simps csr_base_def csr_read_write_same)
qed

lemma load_certikos_other:
  assumes "c \<in> set cert_pmp_csrs"
  shows "csr_read (load_csrs certikos_csrs st f) c = csr_read f c"
  using assms by (intro load_csrs_other) (auto simp: certikos_csrs_def csr_base_def cert_pmp_csrs_def)

lemma restore_pmp: "cert_pmp C p f \<Longrightarrow> cert_pmp C p (proc_restore_csrs q f)"
  by (erule cert_pmp_cong) (simp add: proc_restore_csrs_def load_certikos_other)

lemma spawn_inv:
  assumes "cert_inv C s"
  shows "holds_after (cert_inv C) (sys_spawn C fileid quota pid s)"
proof -
  have tab: "table_ok (procs s) (current_pid s)" using assms by (simp add: cert_inv_def)
  have "cert_inv C (spawn_state C fileid quota pid s)" if "spawn_ok quota pid s"
    using assms that spawned_ok [OF tab, of pid quota C fileid] cert_pmp_switch
    by (auto simp: cert_inv_def spawn_state_def spawn_ok_def Let_def)
  then show ?thesis using assms by (simp add: sys_spawn_eq [OF tab])
qed

lemma yielded_ok: "table_ok (procs s) cur \<Longrightarrow> table_ok (yielded s) cur"
  by (erule table_ok_cong) (simp add: yielded_def)

lemma table_next: "table_ok ps cur \<Longrightarrow> table_ok ps (pnext (ps cur))"
  using ring_next by (simp add: table_ok_def)

lemma yield_inv:
  assumes "cert_inv C s"
  shows "holds_after (cert_inv C) (sys_yield C s)"
proof -
  have tab: "table_ok (procs s) (current_pid s)" using assms by (simp add: cert_inv_def)
  have "table_ok (yielded s) (pnext (procs s (current_pid s)))"
    by (rule yielded_ok) (rule table_next [OF tab])
  then show ?thesis
    using assms
    by (auto simp: sys_yield_eq [OF tab] Let_def cert_inv_def intro!: restore_pmp cert_pmp_switch)
qed

lemma cert_mcall_inv:
  assumes "cert_inv C s"
  shows "holds_after (cert_inv C) (map_outcome id id (\<lambda>i. s\<lparr>cio := i\<rparr>) (do_mcall v r i))"
  using assms do_mcall_not_Panic [of v r i]
  by (cases "do_mcall v r i") (simp_all add: cert_inv_def)

lemma syscall_inv:
  assumes inv: "cert_inv C s"
  shows "holds_after (cert_inv C) (syscall C s)"
proof -
  have "current_pid s < 64" using inv current_valid [of s] by (simp add: cert_inv_def)
  then show ?thesis
    unfolding syscall_def Let_def
    by (intro holds_after_if cert_mcall_inv [OF inv] spawn_inv [OF inv] yield_inv [OF inv])
      (simp_all add: sys_get_quota_def proc_current_def proc_get_def sys_getpid_def inv)
qed

lemma cert_inv_csrs:
  assumes "cert_inv C s" and "\<And>c. c \<in> set cert_pmp_csrs \<Longrightarrow> csr_read f c = csr_read (csrs s) c"
  shows "cert_inv C (s\<lparr>csrs := f\<rparr>)"
  using assms cert_pmp_cong [of C "procs s (current_pid s)" "csrs s" f] by (simp add: cert_inv_def)

lemma ecall_inv:
  assumes inv: "cert_inv C s"
  shows "holds_after (cert_inv C) (do_trap_ecall_s C s)"
  unfolding do_trap_ecall_s_def
proof (rule holds_after_obind)
  show "holds_after (cert_inv C) (syscall C (s\<lparr>csrs := csr_write MEPC (csr_read (csrs s) MEPC + 4) (csrs s)\<rparr>))"
    by (rule syscall_inv, rule cert_inv_csrs [OF inv])
      (auto simp: cert_pmp_csrs_def csr_simps csr_base_def)
qed (simp add: cert_inv_def)

end
