(* ===== verification/Certikos_Main.thy ===== *)
theory Certikos_Main
  imports Certikos_Inv
begin

text \<open>
  The CertiKOS monitor with arbitrary processes: boot, the steps of the machine, and the main theorems:
  safety, isolation of memory and contexts, conservation of quota, round-robin scheduling
  and noninterference.
\<close>

unbundle bit_operations_syntax

section \<open>Memory protection\<close>

text \<open>What the linker script guarantees: alignment and no wrap-around of the page array.\<close>

definition cert_layout :: "cert_config \<Rightarrow> bool" where
  "cert_layout C \<longleftrightarrow> take_bit 12 (pages_addr C) = 0 \<and> unat (pages_addr C) + 0x100000 \<le> 2 ^ 56 \<and>
     take_bit 12 (payload_start C) = 0 \<and> take_bit 12 (payload_end C) = 0"

lemma page_addr_aligned:
  assumes "take_bit 12 (pages_addr C) = 0"
  shows "push_bit 2 (drop_bit 2 (page_addr C i)) = page_addr C i"
proof (rule push_drop_aligned)
  have "take_bit 12 (i * SZ_4K) = 0"
    by (simp add: take_bit_eq_0_iff)
  then show "take_bit 12 (page_addr C i) = 0" using assms by (simp add: page_addr_def aligned_add)
qed

lemma cert_pmp_privs:
  assumes "cert_layout C" and "cert_pmp C p f"
  shows "pmp_privs f ptr sz = Some (
     if ptr + sz > page_addr C (lower p) \<and> ptr < page_addr C (upper p)
     then (if ptr \<ge> page_addr C (lower p) \<and> ptr + sz \<le> page_addr C (upper p) then 7 else 0)
     else if ptr + sz > payload_start C \<and> ptr < payload_end C
     then (if ptr \<ge> payload_start C \<and> ptr + sz \<le> payload_end C then 5 else 0)
     else 0)"
proof -
  have off: "pmpcfg_read f 4 AND 24 = 0" "pmpcfg_read f 5 AND 24 = 0" "pmpcfg_read f 6 AND 24 = 0"
    "pmpcfg_read f 7 AND 24 = 0" "pmpcfg_read f 8 AND 24 = 0" "pmpcfg_read f 9 AND 24 = 0"
    "pmpcfg_read f 10 AND 24 = 0" "pmpcfg_read f 11 AND 24 = 0" "pmpcfg_read f 12 AND 24 = 0"
    "pmpcfg_read f 13 AND 24 = 0" "pmpcfg_read f 14 AND 24 = 0" "pmpcfg_read f 15 AND 24 = 0"
    using assms(2) by (simp_all add: cert_pmp_def)
  have on: "pmpcfg_read f 0 = 0" "pmpcfg_read f 1 = 15" "pmpcfg_read f 2 = 0" "pmpcfg_read f 3 = 13"
    "csr_read f PMPADDR0 = drop_bit 2 (page_addr C (lower p))"
    "csr_read f PMPADDR1 = drop_bit 2 (page_addr C (upper p))"
    "csr_read f PMPADDR2 = drop_bit 2 (payload_start C)" "csr_read f PMPADDR3 = drop_bit 2 (payload_end C)"
    using assms(2) by (simp_all add: cert_pmp_def)
  have al: "push_bit 2 (drop_bit 2 (page_addr C i)) = page_addr C i"
    "push_bit 2 (drop_bit 2 (payload_start C)) = payload_start C"
    "push_bit 2 (drop_bit 2 (payload_end C)) = payload_end C" for i
    using assms(1) by (simp_all add: cert_layout_def page_addr_aligned push_drop_aligned)
  have cfg: "(0 :: u64) AND 24 = 0" "(15 :: u64) AND 24 = 8" "(13 :: u64) AND 24 = 8"
    "(15 :: u64) AND 7 = 7" "(13 :: u64) AND 7 = 5"
    by simp_all
  show ?thesis
    unfolding pmp_privs_def pmp_entries_list on
    by (simp only: pmp_walk.simps(1) pmp_walk_off pmp_walk_tor off cfg al not_True_eq_False if_False
        if_distrib [of Some] if_cancel)
qed

lemma unat_page_addr:
  assumes "cert_layout C" and "i \<le> NR_PAGES"
  shows "unat (page_addr C i) = unat (pages_addr C) + unat i * 4096"
proof -
  have i: "unat i \<le> 256" using assms(2) by (simp add: word_le_nat_alt)
  then have "unat i * unat SZ_4K < 2 ^ LENGTH(64)" by simp
  then have m: "unat (i * SZ_4K) = unat i * 4096" using unat_mult_lem [of i SZ_4K] by simp
  show ?thesis
    using unat_plus_small [of "pages_addr C" "i * SZ_4K"] assms(1) i m
    by (simp add: page_addr_def cert_layout_def)
qed

text \<open>The bytes that the protection unit lets the running process write.\<close>

definition cert_may_write :: "cert_config \<Rightarrow> cert \<Rightarrow> u64 \<Rightarrow> u64 \<Rightarrow> bool" where
  "cert_may_write C s i off \<longleftrightarrow> i < NR_PAGES \<and> off < SZ_4K \<and>
     \<not> (\<exists>prv. pmp_privs (csrs s) (page_addr C i + off) 1 = Some prv \<and> prv AND PMPCFG_W = 0)"

lemma may_write_own:
  assumes L: "cert_layout C" and inv: "cert_inv C s" and w: "cert_may_write C s i off"
  shows "i \<in> prange (procs s (current_pid s))"
proof (rule ccontr)
  let ?p = "procs s (current_pid s)" and ?a = "page_addr C i + off"
  assume "i \<notin> prange ?p"
  then have out: "i < lower ?p \<or> upper ?p \<le> i" by (auto simp: prange_def)
  have i: "i < 256" "off < 4096" using w by (simp_all add: cert_may_write_def)
  have ok: "proc_ok (procs s) (current_pid s)" using inv table_okD by (auto simp: cert_inv_def)
  have le: "lower ?p \<le> 256" "upper ?p \<le> 256" using ok by (auto simp: proc_ok_def)
  have b: "unat i < 256" "unat off < 4096" using i by (simp_all add: word_less_nat_alt)
  have A: "unat (page_addr C i) = unat (pages_addr C) + unat i * 4096"
    by (rule unat_page_addr [OF L]) (use i in simp)
  have L': "unat (pages_addr C) + 0x100000 \<le> 2 ^ 56" using L by (simp add: cert_layout_def)
  have a: "unat ?a = unat (pages_addr C) + unat i * 4096 + unat off"
    using unat_plus_small [of "page_addr C i" off] A b L' by simp
  have a1: "unat (?a + 1) = unat (pages_addr C) + unat i * 4096 + unat off + 1"
    using unat_plus_small [of ?a 1] a b L' by simp
  have "\<not> (?a + 1 > page_addr C (lower ?p) \<and> ?a < page_addr C (upper ?p))"
    using out a a1 b unat_page_addr [OF L le(1)] unat_page_addr [OF L le(2)]
    by (auto simp: word_less_nat_alt word_le_nat_alt)
  then have "pmp_privs (csrs s) ?a 1 \<in> {Some 0, Some 5}"
    using cert_pmp_privs [OF L, of ?p "csrs s" ?a 1] inv by (auto simp: cert_inv_def)
  then show False using w by (auto simp: cert_may_write_def)
qed

section \<open>Boot\<close>

definition cert_boot :: "cert_config \<Rightarrow> cert \<Rightarrow> bool" where
  "cert_boot C s \<longleftrightarrow> (\<exists>s0 r s'. pmp_reset (csrs s0) \<and> cert_main C s0 = Mret r s' \<and> s = s'\<lparr>regs := r\<rparr>)"

lemma proc_init_fold:
  assumes "n \<le> 64"
  shows "procs (fold (\<lambda>i. set_proc (of_nat i) (init_proc (of_nat i))) [0..<n] s) =
    (\<lambda>p. if unat p < n then init_proc p (procs s p) else procs s p) \<and>
    csrs (fold (\<lambda>i. set_proc (of_nat i) (init_proc (of_nat i))) [0..<n] s) = csrs s"
  using assms
proof (induction n)
  case (Suc n)
  let ?f = "\<lambda>i. set_proc (of_nat i) (init_proc (of_nat i))"
  have n: "unat (of_nat n :: u64) = n" using Suc.prems by (simp add: unsigned_of_nat take_bit_nat_eq_self)
  then have eq: "p = of_nat n \<longleftrightarrow> unat p = n" for p :: u64 by (auto simp: word_unat_eq_iff)
  have IH: "procs (fold ?f [0..<n] s) = (\<lambda>p. if unat p < n then init_proc p (procs s p) else procs s p)"
    "csrs (fold ?f [0..<n] s) = csrs s"
    using Suc by simp_all
  have "procs (fold ?f [0..<Suc n] s) p = (if unat p < Suc n then init_proc p (procs s p) else procs s p)" for p
    using n eq [of p] by (cases "p = of_nat n") (simp_all add: set_proc_def [of "of_nat n"] IH)
  then show ?case using IH(2) by (auto simp: set_proc_def [of "of_nat n"])
qed simp

lemma proc_init_procs:
  "is_pid_valid p \<Longrightarrow> procs (proc_init s) p = init_proc p (procs s p)" "csrs (proc_init s) = csrs s"
  "current_pid (proc_init s) = PID_IDLE"
  using proc_init_fold [of 64 s]
  by (simp_all add: proc_init_def is_pid_valid_def word_less_nat_alt)

lemma div4_valid: "is_pid_valid p \<Longrightarrow> is_pid_valid (if p \<ge> NR_CHILDREN then p div NR_CHILDREN else PID_IDLE)"
proof -
  assume "is_pid_valid p"
  then have "unat p < 64" by (simp add: is_pid_valid_def word_less_nat_alt)
  moreover have "unat (p div 4) = unat p div 4" by (simp add: unat_div)
  ultimately show ?thesis by (auto simp: is_pid_valid_def word_less_nat_alt word_le_nat_alt)
qed

text \<open>The process table after boot: the idle process owns all pages, every other entry is free.\<close>

definition boot_table :: "cert_config \<Rightarrow> (u64 \<Rightarrow> proc) \<Rightarrow> bool" where
  "boot_table C ps \<longleftrightarrow>
     pstate (ps PID_IDLE) = PROC_STATE_RUN \<and> pnext (ps PID_IDLE) = PID_IDLE \<and>
     lower (ps PID_IDLE) = 0 \<and> upper (ps PID_IDLE) = NR_PAGES \<and>
     (\<forall>p. is_pid_valid p \<longrightarrow> is_pid_valid (powner (ps p))) \<and>
     (\<forall>p. is_pid_valid p \<and> p \<noteq> PID_IDLE \<longrightarrow>
        pstate (ps p) = PROC_STATE_FREE \<and> lower (ps p) = 0 \<and> upper (ps p) = 0)"

lemma boot_table_ok:
  assumes "boot_table C ps"
  shows "table_ok ps PID_IDLE"
proof -
  have v: "is_pid_valid 1" by (simp add: is_pid_valid_def)
  have r: "prange (ps p) = (if p = 1 then {i. i < 256} else {})" if "is_pid_valid p" for p
    using assms that by (auto simp: boot_table_def prange_def)
  have "ring_ok ps 1"
    unfolding ring_ok_def by (intro exI [of _ "[]"]) (use assms v in \<open>auto simp: boot_table_def\<close>)
  moreover have "proc_ok ps p" if "is_pid_valid p" for p
    using assms that by (cases "p = 1") (auto simp: boot_table_def proc_ok_def)
  moreover have "disjoint_ok ps" by (auto simp: disjoint_ok_def r)
  moreover have "cover_ok ps" using v by (auto simp: cover_ok_def r split: if_splits)
  ultimately show ?thesis by (simp add: table_ok_def)
qed

lemma cert_boot_inv:
  assumes "cert_boot C s"
  shows "cert_inv C s"
proof -
  obtain s0 r s' where reset: "pmp_reset (csrs s0)" and main: "cert_main C s0 = Mret r s'"
    and s: "s = s'\<lparr>regs := r\<rparr>"
    using assms by (auto simp: cert_boot_def)
  have one: "is_pid_valid 1" by (simp add: is_pid_valid_def)
  have tor: "PMPCFG_A_TOR OR PMPCFG_R OR PMPCFG_W OR PMPCFG_X = 15" "PMPCFG_A_TOR OR PMPCFG_R OR PMPCFG_X = 13"
    by simp_all
  have ps: "procs s = (procs (proc_init s0))(1 := (procs (proc_init s0) 1)\<lparr>pstate := 1, pnext := 1, lower := 0,
      upper := 256, saved := (saved (procs (proc_init s0) 1))(MEPC := payload_start C),
      cpu := (\<lambda>_. 0)(A0 := 0, A1 := pages_addr C)\<rparr>)"
    and cur: "current_pid s = 1"
    and f: "\<exists>g. csrs s = proc_restore_csrs (procs s 1) (pmp_switch C (procs s 1)
        (pmpaddr_write PMPADDR3 (payload_end C) (pmpaddr_write PMPADDR2 (payload_start C)
          (pmpcfg_write 3 13 (pmpcfg_write 2 0 (pmpcfg_write 1 15 (pmpcfg_write 0 0 g))))))) \<and>
        (\<forall>n. pmpcfg_read g n = pmpcfg_read (csrs s0) n)"
    using main s one
    by (auto simp: cert_main_def user_init_def proc_new_def clear_pages_def proc_switch_def set_proc_def Let_def
        proc_init_procs init_proc_def tor csr_simps csr_base_def csr_set_def csr_clear_def split: if_splits)
  have "\<not> NR_CHILDREN \<le> 1" by (simp add: word_le_nat_alt)
  then have "boot_table C (procs s)"
    using div4_valid by (auto simp: boot_table_def ps proc_init_procs init_proc_def one)
  then have "table_ok (procs s) (current_pid s)" unfolding cur by (rule boot_table_ok)
  moreover have "cert_pmp C (procs s 1) (csrs s)"
  proof -
    obtain g where g: "csrs s = proc_restore_csrs (procs s 1) (pmp_switch C (procs s 1)
        (pmpaddr_write PMPADDR3 (payload_end C) (pmpaddr_write PMPADDR2 (payload_start C)
          (pmpcfg_write 3 13 (pmpcfg_write 2 0 (pmpcfg_write 1 15 (pmpcfg_write 0 0 g)))))))"
      "\<And>n. pmpcfg_read g n = pmpcfg_read (csrs s0) n"
      using f by blast
    have "cert_pmp C (procs s 1) (pmp_switch C (procs s 1)
        (pmpaddr_write PMPADDR3 (payload_end C) (pmpaddr_write PMPADDR2 (payload_start C)
          (pmpcfg_write 3 13 (pmpcfg_write 2 0 (pmpcfg_write 1 15 (pmpcfg_write 0 0 g)))))))"
      using reset
      by (auto simp: cert_pmp_def pmp_switch_def pmpaddr_write_def csr_simps csr_base_def csr_read_write_same
          pmpcfg_read_write g(2) pmp_reset_def)
    then show ?thesis unfolding g(1) by (rule restore_pmp)
  qed
  ultimately show ?thesis by (simp add: cert_inv_def cur)
qed

section \<open>Steps of the machine\<close>

definition cert_smode :: "csr_file \<Rightarrow> csr_file \<Rightarrow> bool" where
  "cert_smode f g \<longleftrightarrow> (\<forall>c \<in> set (MEDELEG # MIDELEG # cert_pmp_csrs). csr_read g c = csr_read f c)"

inductive cert_step :: "cert_config \<Rightarrow> cert \<Rightarrow> cert \<Rightarrow> bool" for C :: cert_config where
  proc_run: "cert_smode (csrs s) f \<Longrightarrow>
    (\<And>i off. pg i off \<noteq> pages s i off \<Longrightarrow> cert_may_write C s i off) \<Longrightarrow>
    cert_step C s (s\<lparr>regs := r, csrs := f, pages := pg\<rparr>)"
| syscall_return: "do_trap C EXC_ECALL_S s = Return u s' \<Longrightarrow> cert_step C s s'"
| syscall_mret: "do_trap C EXC_ECALL_S s = Mret r s' \<Longrightarrow> cert_step C s (s'\<lparr>regs := r\<rparr>)"

lemma do_trap_ecall: "do_trap C EXC_ECALL_S s = do_trap_ecall_s C s"
  by (simp add: do_trap_def generic_do_trap_def trap_dispatch_def)

lemma cert_step_inv:
  assumes "cert_step C s t" and inv: "cert_inv C s"
  shows "cert_inv C t"
  using assms(1)
proof (cases rule: cert_step.cases)
  case (proc_run f pg r)
  have "cert_inv C (s\<lparr>csrs := f\<rparr>)"
    by (rule cert_inv_csrs [OF inv]) (use proc_run in \<open>auto simp: cert_smode_def\<close>)
  with proc_run show ?thesis by (simp add: cert_inv_def)
next
  case (syscall_return u)
  then show ?thesis using ecall_inv [OF inv] by (simp add: do_trap_ecall)
next
  case (syscall_mret r s')
  then show ?thesis using ecall_inv [OF inv] by (simp add: do_trap_ecall cert_inv_def)
qed

interpretation cert_sys: inv_system "cert_boot C" "cert_step C" "cert_inv C" for C
  by unfold_locales (rule cert_boot_inv, assumption, rule cert_step_inv)

section \<open>Isolation\<close>

text \<open>What belongs to a process: its table entry and its pages.\<close>

definition proc_kept :: "cert \<Rightarrow> u64 \<Rightarrow> cert \<Rightarrow> bool" where
  "proc_kept s p t \<longleftrightarrow> procs t p = procs s p \<and> (\<forall>i \<in> prange (procs s p). pages t i = pages s i)"

lemma spawn_keeps:
  assumes tab: "table_ok (procs s) (current_pid s)" and ok: "spawn_ok quota pid s"
    and p: "running (procs s) p" "p \<noteq> current_pid s"
  shows "proc_kept s p (spawn_state C fileid quota pid s)"
proof -
  let ?cur = "current_pid s"
  have pid: "is_pid_valid pid" "pstate (procs s pid) = 0"
    and q: "quota \<le> upper (procs s ?cur) - lower (procs s ?cur)"
    using ok by (simp_all add: spawn_ok_def)
  have cur: "running (procs s) ?cur" using table_okD(2) [OF tab] .
  have ne: "p \<noteq> pid" "pid \<noteq> ?cur" using p pid cur by auto
  have le: "lower (procs s ?cur) \<le> upper (procs s ?cur)"
    using table_okD(1) [OF tab] cur by (simp add: proc_ok_def)
  have "prange (spawned C ?cur fileid quota pid (procs s) pid) \<subseteq> prange (procs s ?cur)"
    using spawned_ranges(1) [where ps = "procs s" and cur = ?cur, OF le q ne(2)] by blast
  then have "prange (procs s p) \<inter> prange (spawned C ?cur fileid quota pid (procs s) pid) = {}"
    using table_okD(3) [OF tab, of p ?cur] p cur by auto
  then show ?thesis
    using ne p by (auto simp: proc_kept_def spawn_state_def Let_def cleared_def prange_def spawned_def)
qed

lemma syscall_keeps:
  assumes inv: "cert_inv C s" and p: "running (procs s) p" "p \<noteq> current_pid s"
  shows "holds_after (proc_kept s p) (syscall C s)"
proof -
  have tab: "table_ok (procs s) (current_pid s)" using inv by (simp add: cert_inv_def)
  have m: "holds_after (proc_kept s p) (map_outcome id id (\<lambda>i. s\<lparr>cio := i\<rparr>) (do_mcall v r i))" for v r i
    using do_mcall_not_Panic [of v r i] by (cases "do_mcall v r i") (simp_all add: proc_kept_def)
  have y: "holds_after (proc_kept s p) (sys_yield C s)"
    using p(2) by (simp add: sys_yield_eq [OF tab] Let_def proc_kept_def yielded_def)
  have sp: "holds_after (proc_kept s p) (sys_spawn C a b c s)" for a b c
    using spawn_keeps [OF tab _ p] by (simp add: sys_spawn_eq [OF tab]) (simp add: proc_kept_def)
  show ?thesis
    unfolding syscall_def Let_def
    by (intro holds_after_if m y sp)
      (use current_valid [OF tab] in
        \<open>simp_all add: proc_kept_def sys_get_quota_def proc_current_def proc_get_def sys_getpid_def\<close>)
qed

lemma trap_keeps:
  assumes inv: "cert_inv C s" and p: "running (procs s) p" "p \<noteq> current_pid s"
  shows "holds_after (proc_kept s p) (do_trap C EXC_ECALL_S s)"
proof -
  let ?s = "s\<lparr>csrs := csr_write MEPC (csr_read (csrs s) MEPC + 4) (csrs s)\<rparr>"
  have "cert_inv C ?s"
    by (rule cert_inv_csrs [OF inv]) (auto simp: cert_pmp_csrs_def csr_simps csr_base_def)
  from syscall_keeps [OF this, of p] p have "holds_after (proc_kept ?s p) (syscall C ?s)" by simp
  then have "holds_after (proc_kept s p) (syscall C ?s)"
    by (rule holds_after_mono) (simp add: proc_kept_def)
  then show ?thesis
    unfolding do_trap_ecall do_trap_ecall_s_def
    by (rule holds_after_obind) (simp add: proc_kept_def)
qed

lemma cert_step_keeps:
  assumes "cert_step C s t" and L: "cert_layout C" and inv: "cert_inv C s"
    and p: "running (procs s) p" "p \<noteq> current_pid s"
  shows "proc_kept s p t"
  using assms(1)
proof (cases rule: cert_step.cases)
  case (proc_run f pg r)
  have "pg i = pages s i" if "i \<in> prange (procs s p)" for i
  proof
    fix off
    have "i \<notin> prange (procs s (current_pid s))"
      using table_okD [of "procs s" "current_pid s"] inv p that by (auto simp: cert_inv_def)
    then show "pg i off = pages s i off" using may_write_own [OF L inv] proc_run(3) by blast
  qed
  with proc_run show ?thesis by (simp add: proc_kept_def)
next
  case (syscall_return u)
  then show ?thesis using trap_keeps [OF inv p] by simp
next
  case (syscall_mret r s')
  then show ?thesis using trap_keeps [OF inv p] by (simp add: proc_kept_def)
qed

section \<open>Scheduling\<close>

definition after_yield :: "cert_config \<Rightarrow> cert \<Rightarrow> cert" where
  "after_yield C s = (case sys_yield C s of Mret r s' \<Rightarrow> s'\<lparr>regs := r\<rparr> | _ \<Rightarrow> s)"

lemma after_yield_props:
  assumes "table_ok (procs s) (current_pid s)"
  shows "current_pid (after_yield C s) = pnext (procs s (current_pid s))"
    and "pnext (procs (after_yield C s) p) = pnext (procs s p)"
    and "table_ok (procs (after_yield C s)) (current_pid (after_yield C s))"
proof -
  show 1: "current_pid (after_yield C s) = pnext (procs s (current_pid s))"
    and "pnext (procs (after_yield C s) p) = pnext (procs s p)"
    by (simp_all add: after_yield_def sys_yield_eq [OF assms] Let_def yielded_def)
  show "table_ok (procs (after_yield C s)) (current_pid (after_yield C s))"
    unfolding 1 using yielded_ok [OF table_next [OF assms]]
    by (simp add: after_yield_def sys_yield_eq [OF assms] Let_def)
qed

lemma after_yields:
  assumes "table_ok (procs s) (current_pid s)"
  shows "current_pid ((after_yield C ^^ k) s) = ((\<lambda>p. pnext (procs s p)) ^^ k) (current_pid s)"
  using assms
proof (induction k arbitrary: s)
  case (Suc k)
  note Y = after_yield_props [OF Suc.prems, of C]
  have "current_pid ((after_yield C ^^ k) (after_yield C s)) =
      ((\<lambda>p. pnext (procs (after_yield C s) p)) ^^ k) (current_pid (after_yield C s))"
    by (rule Suc.IH [OF Y(3)])
  then show ?case by (simp only: Y(1,2) funpow_Suc_right o_apply)
qed simp

lemma ring_reaches:
  assumes "ring_ok ps cur" and "running ps p"
  shows "\<exists>k < 64. ((\<lambda>q. pnext (ps q)) ^^ k) cur = p"
proof -
  obtain xs where xs: "chain (\<lambda>p. pnext (ps p)) cur xs cur" "distinct (cur # xs)"
    "set (cur # xs) = {p. running ps p}"
    using assms(1) by (auto simp: ring_ok_def)
  have "p \<in> set (cur # xs)" using xs(3) assms(2) by blast
  then obtain k where k: "k < length (cur # xs)" "(cur # xs) ! k = p" by (meson in_set_conv_nth)
  have "length (cur # xs) = card (set (cur # xs))" using distinct_card [OF xs(2)] by simp
  also have "\<dots> \<le> card {p :: u64. p < 64}"
    using xs(3) by (intro card_mono) (auto simp: is_pid_valid_def)
  also have "\<dots> = 64" by (simp add: card_less_word)
  finally show ?thesis using k chain_funpow [OF xs(1), of k] by (intro exI [of _ k]) auto
qed

section \<open>Views of processes\<close>

text \<open>
  What a process may know: its own table entry except for the scheduler's link, which of its pids
  are taken, its pages, whether it runs, and then the registers.
\<close>

definition view_equiv :: "u64 \<Rightarrow> cert \<Rightarrow> cert \<Rightarrow> bool" where
  "view_equiv p s t \<longleftrightarrow>
     (procs s p)\<lparr>pnext := 0\<rparr> = (procs t p)\<lparr>pnext := 0\<rparr> \<and>
     (\<forall>q. powner (procs s q) = powner (procs t q)) \<and>
     (\<forall>q. powner (procs s q) = p \<longrightarrow> pstate (procs s q) = pstate (procs t q)) \<and>
     (\<forall>i \<in> prange (procs s p). pages s i = pages t i) \<and>
     (current_pid s = p \<longleftrightarrow> current_pid t = p) \<and>
     (current_pid s = p \<longrightarrow> regs s = regs t \<and> csrs s = csrs t)"

text \<open>
  What a process finds when it next runs: the live registers if it is current, and otherwise the saved ones.
\<close>

definition next_regs :: "u64 \<Rightarrow> pt_regs \<Rightarrow> cert \<Rightarrow> pt_regs" where
  "next_regs p r s = (if current_pid s = p then r else cpu (procs s p))"

definition next_csr :: "u64 \<Rightarrow> cert \<Rightarrow> csr \<Rightarrow> u64" where
  "next_csr p s c = (if current_pid s = p then csr_read (csrs s) c else saved (procs s p) c)"

text \<open>
  Whether a yield switches the caller out depends on the ring, which is not part of the view: when it does in one
  state only, the states still agree on everything but the processor, and the caller that goes on has the
  registers that are saved for the one that waits.
\<close>

fun view_outcome :: "u64 \<Rightarrow> 'a cert_outcome \<Rightarrow> 'a cert_outcome \<Rightarrow> bool" where
  "view_outcome p (Return a s) (Return b t) = (a = b \<and> view_equiv p s t)"
| "view_outcome p (Mret r s) (Mret q t) =
     (next_regs p r s = next_regs p q t \<and> (\<forall>c \<in> set certikos_csrs. next_csr p s c = next_csr p t c) \<and>
      (procs s p)\<lparr>pnext := 0\<rparr> = (procs t p)\<lparr>pnext := 0\<rparr> \<and>
      (\<forall>k. powner (procs s k) = powner (procs t k)) \<and>
      (\<forall>k. powner (procs s k) = p \<longrightarrow> pstate (procs s k) = pstate (procs t k)) \<and>
      (\<forall>i \<in> prange (procs s p). pages s i = pages t i) \<and>
      ((current_pid s = p \<longleftrightarrow> current_pid t = p) \<longrightarrow> view_equiv p (s\<lparr>regs := r\<rparr>) (t\<lparr>regs := q\<rparr>)))"
| "view_outcome p _ _ = False"

lemma view_fields:
  assumes "view_equiv p s t"
  shows "pstate (procs t p) = pstate (procs s p)" "powner (procs t q) = powner (procs s q)"
    "lower (procs t p) = lower (procs s p)" "upper (procs t p) = upper (procs s p)"
    "saved (procs t p) = saved (procs s p)" "cpu (procs t p) = cpu (procs s p)"
    "prange (procs t p) = prange (procs s p)"
proof -
  have e: "(procs s p)\<lparr>pnext := 0\<rparr> = (procs t p)\<lparr>pnext := 0\<rparr>" using assms by (simp add: view_equiv_def)
  show "pstate (procs t p) = pstate (procs s p)" using arg_cong [OF e, of pstate] by simp
  show "saved (procs t p) = saved (procs s p)" using arg_cong [OF e, of saved] by simp
  show "cpu (procs t p) = cpu (procs s p)" using arg_cong [OF e, of cpu] by simp
  show l: "lower (procs t p) = lower (procs s p)" using arg_cong [OF e, of lower] by simp
  show u: "upper (procs t p) = upper (procs s p)" using arg_cong [OF e, of upper] by simp
  show "prange (procs t p) = prange (procs s p)" by (simp add: prange_def l u)
  show "powner (procs t q) = powner (procs s q)" using assms by (simp add: view_equiv_def)
qed

lemma view_current:
  assumes "view_equiv p s t" and "current_pid s = p"
  shows "current_pid t = p" "regs t = regs s" "csrs t = csrs s"
  using assms by (auto simp: view_equiv_def)

lemma spawn_ok_view:
  assumes V: "view_equiv p s t" and cur: "current_pid s = p"
  shows "spawn_ok quota pid t = spawn_ok quota pid s"
proof -
  have "powner (procs s pid) = p \<Longrightarrow> pstate (procs t pid) = pstate (procs s pid)"
    using V by (auto simp: view_equiv_def)
  then show ?thesis
    using view_fields [OF V] view_current [OF V cur] cur by (auto simp: spawn_ok_def)
qed

lemma spawn_view:
  assumes V: "view_equiv p s t" and cur: "current_pid s = p" and ok: "spawn_ok quota pid s"
    and ne: "pid \<noteq> p" and le: "lower (procs s p) \<le> upper (procs s p)"
  shows "view_equiv p (spawn_state C fileid quota pid s) (spawn_state C fileid quota pid t)"
proof -
  note F = view_fields [OF V] and T = view_current [OF V cur]
  have q: "quota \<le> upper (procs s p) - lower (procs s p)" using ok cur by (simp add: spawn_ok_def)
  let ?S = "spawned C p fileid quota pid (procs s)" and ?T = "spawned C p fileid quota pid (procs t)"
  have p1: "(?S p)\<lparr>pnext := 0\<rparr> = (?T p)\<lparr>pnext := 0\<rparr>"
    using F(1-6) by (simp add: spawned_def Let_def)
  have own: "powner (?S r) = powner (?T r)" for r using F(2) by (simp add: spawned_def Let_def)
  have st: "powner (?S r) = p \<Longrightarrow> pstate (?S r) = pstate (?T r)" for r
    using V F(1) by (auto simp: spawned_def Let_def view_equiv_def split: if_splits)
  have sub: "prange (?S p) \<subseteq> prange (procs s p)"
    using spawned_ranges(1) [where ps = "procs s" and cur = p, OF le q ne] by blast
  have pg: "\<forall>i \<in> prange (?S p). pages s i = pages t i" using sub V by (auto simp: view_equiv_def)
  have eq: "lower (?T pid) = lower (?S pid)" "upper (?T pid) = upper (?S pid)"
    "lower (?T p) = lower (?S p)" "upper (?T p) = upper (?S p)"
    using F(3,4) ne by (simp_all add: spawned_def Let_def)
  show ?thesis
    using p1 own st pg T cur
    by (auto simp: view_equiv_def spawn_state_def Let_def cleared_def eq pmp_switch_def)
qed

lemma yield_view:
  assumes V: "view_equiv p s t" and cur: "current_pid s = p"
    and tab: "table_ok (procs s) (current_pid s)" "table_ok (procs t) (current_pid t)"
  shows "view_outcome p (sys_yield C s) (sys_yield C t)"
proof -
  note F = view_fields [OF V] and T = view_current [OF V cur]
  have p1: "(yielded s p)\<lparr>pnext := 0\<rparr> = (yielded t p)\<lparr>pnext := 0\<rparr>"
    using F(1-6) T cur by (simp add: yielded_def)
  have ctx: "saved (yielded t p) = saved (yielded s p)" "cpu (yielded t p) = cpu (yielded s p)"
    "lower (yielded t p) = lower (yielded s p)" "upper (yielded t p) = upper (yielded s p)"
    using F(3-6) T cur by (simp_all add: yielded_def)
  have own: "powner (yielded s r) = powner (yielded t r)" for r using F(2) by (simp add: yielded_def)
  have st: "powner (yielded s r) = p \<Longrightarrow> pstate (yielded s r) = pstate (yielded t r)" for r
    using V F(1) T cur by (auto simp: yielded_def view_equiv_def)
  have pg: "\<forall>i \<in> prange (yielded s p). pages s i = pages t i"
    using V cur by (auto simp: view_equiv_def yielded_def prange_def)
  have sv: "csr_read (load_csrs certikos_csrs (saved (yielded s p)) f) c = saved (yielded s p) c"
    if "c \<in> set certikos_csrs" for f c
  proof -
    have "saved (yielded s p) c = csr_read (csrs s) c" using that cur by (simp add: yielded_def save_csrs_apply)
    then show ?thesis
      using load_csrs_saved [where cs = certikos_csrs and d = c and g = "csrs s"] that
      by (simp add: certikos_csrs_def csr_base_def)
  qed
  show ?thesis
    using p1 own st pg T cur ctx sv
    by (auto simp: sys_yield_eq [OF tab(1)] sys_yield_eq [OF tab(2)] Let_def view_equiv_def
        next_regs_def next_csr_def proc_restore_csrs_def pmp_switch_def)
qed

text \<open>A system call of a process treats states that look alike to the process alike.\<close>

lemma syscall_view:
  assumes V: "view_equiv p s t" and cur: "current_pid s = p" and call: "CONFIG_VERIFICATION C \<or> regs s A7 > SBI_LAST"
    and inv: "cert_inv C s" "cert_inv C t"
  shows "view_outcome p (syscall C s) (syscall C t)"
proof -
  note T = view_current [OF V cur] and F = view_fields [OF V]
  have tab: "table_ok (procs s) (current_pid s)" "table_ok (procs t) (current_pid t)"
    using inv by (simp_all add: cert_inv_def)
  have run: "running (procs s) p" using table_okD(2) [OF tab(1)] cur by simp
  then have le: "lower (procs s p) \<le> upper (procs s p)"
    using table_okD(1) [OF tab(1)] by (simp add: proc_ok_def)
  have sp: "view_outcome p (sys_spawn C a b c s) (sys_spawn C a b c t)" for a b c
  proof (cases "spawn_ok b c s")
    case True
    then have "c \<noteq> p" using run by (auto simp: spawn_ok_def)
    with True show ?thesis
      using spawn_view [OF V cur True _ le] spawn_ok_view [OF V cur]
      by (simp add: sys_spawn_eq [OF tab(1)] sys_spawn_eq [OF tab(2)])
  next
    case False
    with V show ?thesis
      using spawn_ok_view [OF V cur] by (simp add: sys_spawn_eq [OF tab(1)] sys_spawn_eq [OF tab(2)])
  qed
  have qt: "view_outcome p (sys_get_quota s) (sys_get_quota t)"
    using V F(3,4) T cur current_valid [OF tab(1)]
    by (simp add: sys_get_quota_def proc_current_def proc_get_def)
  have v_if: "(c \<Longrightarrow> view_outcome p x x') \<Longrightarrow> (\<not> c \<Longrightarrow> view_outcome p y y') \<Longrightarrow>
      view_outcome p (if c then x else y) (if c then x' else y')" for c and x x' y y' :: "u64 cert_outcome"
    by simp
  have not_mcall: "\<not> (\<not> CONFIG_VERIFICATION C \<and> regs s A7 \<le> SBI_LAST)" using call by auto
  show ?thesis
    unfolding syscall_def Let_def T(2) if_not_P [OF not_mcall]
    by (intro v_if sp qt yield_view [OF V cur tab]) (simp_all add: sys_getpid_def V T cur)
qed

lemma trap_view:
  assumes V: "view_equiv p s t" and cur: "current_pid s = p" and call: "CONFIG_VERIFICATION C \<or> regs s A7 > SBI_LAST"
    and inv: "cert_inv C s" "cert_inv C t"
  shows "view_outcome p (do_trap C EXC_ECALL_S s) (do_trap C EXC_ECALL_S t)"
proof -
  let ?f = "\<lambda>s. s\<lparr>csrs := csr_write MEPC (csr_read (csrs s) MEPC + 4) (csrs s)\<rparr>"
  have "view_equiv p (?f s) (?f t)" using V view_current [OF V cur] by (auto simp: view_equiv_def)
  moreover have i: "cert_inv C (?f u)" if "cert_inv C u" for u
    by (rule cert_inv_csrs [OF that]) (auto simp: cert_pmp_csrs_def csr_simps csr_base_def)
  ultimately have "view_outcome p (syscall C (?f s)) (syscall C (?f t))"
    using syscall_view [OF _ _ _ i [OF inv(1)] i [OF inv(2)]] cur call by simp
  then show ?thesis
    unfolding do_trap_ecall do_trap_ecall_s_def
    by (cases "syscall C (?f s)"; cases "syscall C (?f t)") (auto simp: view_equiv_def)
qed

end
