(* ===== verification/Certikos_Props.thy ===== *)
theory Certikos_Props
  imports Certikos_Main
begin

text \<open>
  The properties of the CertiKOS monitor, over all reachable states of the machine, and a concrete
  execution that boots the monitor and spawns a process, on which each of them is instantiated.
\<close>

unbundle bit_operations_syntax

section \<open>A concrete execution\<close>

definition cdemo_config :: cert_config where
  "cdemo_config = \<lparr>CONFIG_VERIFICATION = True, pages_addr = 0x80400000, payload_start = 0x80800000,
     payload_end = 0x80900000\<rparr>"

definition cdemo_reset :: cert where
  "cdemo_reset = \<lparr>procs = (\<lambda>_. \<lparr>pstate = 0, powner = 0, pnext = 0, lower = 0, upper = 0, saved = (\<lambda>_. 0),
     cpu = (\<lambda>_. 0)\<rparr>), pages = (\<lambda>i off. ucast i), current_pid = 0, regs = (\<lambda>_. 0), csrs = (\<lambda>_. 0),
     cio = \<lparr>tohost = 0, con_out = [], con_in = []\<rparr>\<rparr>"

definition cdemo_next :: "cert \<Rightarrow> 'a cert_outcome \<Rightarrow> cert" where
  "cdemo_next s m = (case m of Return _ s' \<Rightarrow> s' | Mret r s' \<Rightarrow> s'\<lparr>regs := r\<rparr> | _ \<Rightarrow> s)"

definition cdemo_boot :: cert where
  "cdemo_boot = cdemo_next cdemo_reset (cert_main cdemo_config cdemo_reset)"

text \<open>The process loads the argument registers, then makes a call.\<close>

definition cdemo_args :: "u64 \<Rightarrow> u64 \<Rightarrow> u64 \<Rightarrow> u64 \<Rightarrow> cert \<Rightarrow> cert" where
  "cdemo_args nr a0 a1 a2 s = s\<lparr>regs := (\<lambda>_. 0)(A7 := nr, A0 := a0, A1 := a1, A2 := a2)\<rparr>"

definition cdemo_call :: "cert \<Rightarrow> cert" where
  "cdemo_call s = cdemo_next s (do_trap cdemo_config EXC_ECALL_S s)"

text \<open>Process 1 asks for process 4 with ten pages, then prepares to yield.\<close>

definition cdemo_ask :: cert where
  "cdemo_ask = cdemo_args 11 0 10 4 cdemo_boot"

definition cdemo_two :: cert where
  "cdemo_two = cdemo_args 12 0 0 0 (cdemo_call cdemo_ask)"

definition cdemo_other :: cert where
  "cdemo_other = cdemo_args 12 0 0 0 (cdemo_call cdemo_two)"

abbreviation cdemo_reachable :: "cert \<Rightarrow> bool" where
  "cdemo_reachable \<equiv> reach (cert_boot cdemo_config) (cert_step cdemo_config)"

lemma cdemo_layout: "cert_layout cdemo_config"
  by (simp add: cert_layout_def cdemo_config_def)

lemma cdemo_verif: "cert_config.CONFIG_VERIFICATION cdemo_config"
  by (simp add: cdemo_config_def)

lemma not_64_le_1: "\<not> (64 :: u64) \<le> 1"
  by (simp add: word_le_nat_alt)

lemma cdemo_main_mret: "\<exists>r s. cert_main cdemo_config cdemo_reset = Mret r s"
  by (simp add: cert_main_def user_init_def proc_new_def proc_init_procs init_proc_def is_pid_valid_def
      clear_pages_def proc_switch_def Let_def set_proc_def not_64_le_1)

lemma cdemo_boot_reach: "cdemo_reachable cdemo_boot"
proof (rule reach_init)
  have "pmp_reset (csrs cdemo_reset)"
    by (simp add: pmp_reset_def cdemo_reset_def pmpcfg_read_def csr_read_def Let_def)
  then show "cert_boot cdemo_config cdemo_boot"
    using cdemo_main_mret by (auto simp: cert_boot_def cdemo_boot_def cdemo_next_def)
qed

lemma cdemo_args_step: "cert_step cdemo_config s (cdemo_args nr a0 a1 a2 s)"
  using proc_run [where C = cdemo_config and s = s and f = "csrs s" and pg = "pages s"]
  by (simp add: cdemo_args_def cert_smode_def)

lemma cdemo_args_reach: "cdemo_reachable s \<Longrightarrow> cdemo_reachable (cdemo_args nr a0 a1 a2 s)"
  by (erule reach_step) (rule cdemo_args_step)

lemma cdemo_call_reach: "cdemo_reachable s \<Longrightarrow> cdemo_reachable (cdemo_call s)"
  by (cases "do_trap cdemo_config EXC_ECALL_S s")
    (auto simp: cdemo_call_def cdemo_next_def intro: reach_step syscall_return syscall_mret)

lemma cdemo_reach: "cdemo_reachable cdemo_ask" "cdemo_reachable cdemo_two" "cdemo_reachable cdemo_other"
  unfolding cdemo_ask_def cdemo_two_def cdemo_other_def
  by (intro cdemo_args_reach cdemo_call_reach cdemo_boot_reach)+

lemma cdemo_boot_facts:
  "current_pid cdemo_boot = 1" "pnext (procs cdemo_boot 1) = 1" "pstate (procs cdemo_boot 1) = 1"
  "lower (procs cdemo_boot 1) = 0" "upper (procs cdemo_boot 1) = 256"
  "pstate (procs cdemo_boot 4) = 0" "powner (procs cdemo_boot 4) = 1"
  by (simp_all add: cdemo_boot_def cdemo_next_def cert_main_def user_init_def proc_new_def proc_init_procs
      init_proc_def is_pid_valid_def clear_pages_def proc_switch_def Let_def set_proc_def not_64_le_1)

text \<open>What the trap handler does with the two calls that change the process table.\<close>

definition after_ecall :: "cert \<Rightarrow> cert" where
  "after_ecall s = s\<lparr>csrs := csr_write MEPC (csr_read (csrs s) MEPC + 4) (csrs s)\<rparr>"

lemma after_ecall_sel [simp]:
  "procs (after_ecall s) = procs s" "pages (after_ecall s) = pages s" "regs (after_ecall s) = regs s"
  "current_pid (after_ecall s) = current_pid s" "cio (after_ecall s) = cio s"
  by (simp_all add: after_ecall_def)

lemma trap_spawn:
  assumes tab: "table_ok (procs s) (current_pid s)" and nr: "regs s A7 = 11"
  shows "do_trap C EXC_ECALL_S s =
    (if spawn_ok (regs s A1) (regs s A2) s
     then Return () ((spawn_state C (regs s A0) (regs s A1) (regs s A2) (after_ecall s))\<lparr>regs := (regs s)(A0 := 0)\<rparr>)
     else Return () ((after_ecall s)\<lparr>regs := (regs s)(A0 := - EINVAL)\<rparr>))"
proof -
  have "spawn_ok q p (after_ecall s) = spawn_ok q p s" for q p by (simp add: spawn_ok_def)
  moreover have "syscall C (after_ecall s) = sys_spawn C (regs s A0) (regs s A1) (regs s A2) (after_ecall s)"
    using nr by (simp add: syscall_def Let_def)
  moreover have "table_ok (procs (after_ecall s)) (current_pid (after_ecall s))" using tab by simp
  ultimately show ?thesis
    by (simp add: do_trap_ecall do_trap_ecall_s_def after_ecall_def [symmetric] sys_spawn_eq)
      (simp add: spawn_state_def Let_def)
qed

lemma trap_yield:
  assumes tab: "table_ok (procs s) (current_pid s)" and nr: "regs s A7 = 12"
  shows "do_trap C EXC_ECALL_S s =
    (let ps = yielded (after_ecall s); nxt = pnext (procs s (current_pid s)) in
     Mret (cpu (ps nxt)) (s\<lparr>procs := ps, current_pid := nxt,
       csrs := proc_restore_csrs (ps nxt) (pmp_switch C (ps nxt) (csrs (after_ecall s)))\<rparr>))"
proof -
  have "syscall C (after_ecall s) = sys_yield C (after_ecall s)" using nr by (simp add: syscall_def Let_def)
  moreover have "table_ok (procs (after_ecall s)) (current_pid (after_ecall s))" using tab by simp
  ultimately show ?thesis
    by (simp add: do_trap_ecall do_trap_ecall_s_def after_ecall_def [symmetric] sys_yield_eq Let_def)
qed

lemma reach_table: "reach (cert_boot C) (cert_step C) s \<Longrightarrow> table_ok (procs s) (current_pid s)"
  using cert_sys.reach_inv by (simp add: cert_inv_def)

lemma cdemo_args_sel [simp]:
  "procs (cdemo_args nr a0 a1 a2 s) = procs s" "pages (cdemo_args nr a0 a1 a2 s) = pages s"
  "current_pid (cdemo_args nr a0 a1 a2 s) = current_pid s" "csrs (cdemo_args nr a0 a1 a2 s) = csrs s"
  by (simp_all add: cdemo_args_def)

lemma cdemo_ask_facts: "current_pid cdemo_ask = 1" "spawn_ok 10 4 cdemo_ask"
  by (simp_all add: cdemo_ask_def cdemo_boot_facts spawn_ok_def is_pid_valid_def)

lemma cdemo_two_facts:
  "current_pid cdemo_two = 1" "regs cdemo_two A7 = 12" "running (procs cdemo_two) 1" "running (procs cdemo_two) 4"
  "pnext (procs cdemo_two 1) = 4" "pnext (procs cdemo_two 4) = 1" "prange (procs cdemo_two 4) = {i. 246 \<le> i \<and> i < 256}"
proof -
  have r: "regs cdemo_ask A7 = 11" "regs cdemo_ask A1 = 10" "regs cdemo_ask A2 = 4"
    by (simp_all add: cdemo_ask_def cdemo_args_def)
  have "procs cdemo_two = spawned cdemo_config 1 (regs cdemo_ask A0) 10 4 (procs cdemo_boot)"
    "current_pid cdemo_two = 1"
    unfolding cdemo_two_def cdemo_call_def trap_spawn [OF reach_table [OF cdemo_reach(1)] r(1)] r(2,3)
    using cdemo_ask_facts
    by (simp_all add: cdemo_next_def spawn_state_def Let_def) (simp_all add: cdemo_ask_def cdemo_boot_facts)
  then show "current_pid cdemo_two = 1" "running (procs cdemo_two) 1" "running (procs cdemo_two) 4"
    "pnext (procs cdemo_two 1) = 4" "pnext (procs cdemo_two 4) = 1"
    "prange (procs cdemo_two 4) = {i. 246 \<le> i \<and> i < 256}"
    by (simp_all add: spawned_def Let_def cdemo_boot_facts is_pid_valid_def prange_def)
  show "regs cdemo_two A7 = 12" by (simp add: cdemo_two_def cdemo_args_def)
qed

lemma cdemo_other_facts:
  "current_pid cdemo_other = 4" "running (procs cdemo_other) 1" "running (procs cdemo_other) 4"
  "pnext (procs cdemo_other 4) = 1" "regs cdemo_other A7 = 12"
proof -
  have "procs cdemo_other = yielded (after_ecall cdemo_two)" "current_pid cdemo_other = 4"
    unfolding cdemo_other_def cdemo_call_def
      trap_yield [OF reach_table [OF cdemo_reach(2)] cdemo_two_facts(2)]
    by (simp_all add: cdemo_next_def Let_def cdemo_two_facts)
  then show "current_pid cdemo_other = 4" "running (procs cdemo_other) 1" "running (procs cdemo_other) 4"
    "pnext (procs cdemo_other 4) = 1"
    using cdemo_two_facts by (simp_all add: yielded_def)
  show "regs cdemo_other A7 = 12" by (simp add: cdemo_other_def cdemo_args_def)
qed

section \<open>Properties\<close>

text \<open>C17: no system call of a reachable state panics or accesses memory outside the process table and
  the page array.\<close>

theorem cert_never_panics:
  assumes "reach (cert_boot C) (cert_step C) s"
  shows "do_trap C EXC_ECALL_S s \<noteq> Panic"
  unfolding do_trap_ecall
  using ecall_inv [OF cert_sys.reach_inv [OF assms]] by (rule holds_after_not_Panic)

theorem cert_never_panics_witness: "do_trap cdemo_config 9 cdemo_ask \<noteq> Panic"
  by (rule cert_never_panics [OF cdemo_reach(1)])

text \<open>In every reachable state the running processes form one ring through the current one, the
  page ranges are disjoint and cover all pages, and the protection unit grants exactly the range of
  the current process.\<close>

theorem cert_inv_reachable:
  assumes "reach (cert_boot C) (cert_step C) s"
  shows "cert_inv C s"
  by (rule cert_sys.reach_inv [OF assms])

theorem cert_inv_reachable_witness: "cert_inv cdemo_config cdemo_other"
  by (rule cert_inv_reachable [OF cdemo_reach(3)])

text \<open>C12: isolation: no step of the machine changes the table entry or the pages of a running process
  that is not the current one.\<close>

theorem cert_isolation:
  assumes "cert_layout C" and "reach (cert_boot C) (cert_step C) s" and "cert_step C s t"
    and "running (procs s) p" and "p \<noteq> current_pid s"
  shows "procs t p = procs s p \<and> (\<forall>i. lower (procs s p) \<le> i \<and> i < upper (procs s p) \<longrightarrow> pages t i = pages s i)"
  using cert_step_keeps [OF assms(3,1) cert_sys.reach_inv [OF assms(2)] assms(4,5)]
  by (simp add: proc_kept_def prange_def)

theorem cert_isolation_witness:
  "procs (cdemo_args 12 0 0 0 cdemo_two) 4 = procs cdemo_two 4 \<and> pages (cdemo_args 12 0 0 0 cdemo_two) 250 = pages cdemo_two 250"
proof -
  have r: "lower (procs cdemo_two 4) \<le> 250 \<and> 250 < upper (procs cdemo_two 4)"
  proof -
    have "250 \<in> prange (procs cdemo_two 4)" unfolding cdemo_two_facts(7) by simp
    then show ?thesis by (simp add: prange_def)
  qed
  have ne: "4 \<noteq> current_pid cdemo_two" by (simp add: cdemo_two_facts)
  note I = cert_isolation [OF cdemo_layout cdemo_reach(2) cdemo_args_step [of cdemo_two 12 0 0 0] cdemo_two_facts(4) ne]
  show ?thesis using conjunct1 [OF I] mp [OF spec [OF conjunct2 [OF I]] r] by blast
qed

text \<open>C14: the scheduler is fair: from every reachable state, every running process becomes the current
  one after fewer than 64 yields.\<close>

theorem cert_round_robin:
  assumes "reach (cert_boot C) (cert_step C) s" and "running (procs s) p"
  shows "\<exists>k < 64. current_pid ((after_yield C ^^ k) s) = p"
proof -
  note tab = reach_table [OF assms(1)]
  have "ring_ok (procs s) (current_pid s)" using tab by (simp add: table_ok_def)
  from ring_reaches [where ps = "procs s", OF this assms(2)] show ?thesis by (simp add: after_yields [OF tab])
qed

theorem cert_round_robin_witness: "\<exists>k < 64. current_pid ((after_yield cdemo_config ^^ k) cdemo_two) = 4"
  by (rule cert_round_robin [OF cdemo_reach(2) cdemo_two_facts(4)])

lemma card_prange:
  assumes "lower p \<le> upper p"
  shows "card (prange p) = unat (upper p) - unat (lower p)"
proof -
  have eq: "prange p = {i. i < upper p} - {i. i < lower p}" by (auto simp: prange_def)
  have "{i. i < lower p} \<subseteq> {i. i < upper p}"
  proof
    fix i assume "i \<in> {i. i < lower p}"
    then show "i \<in> {i. i < upper p}" using less_le_trans [OF _ assms, of i] by simp
  qed
  then show ?thesis unfolding eq by (simp only: card_Diff_subset finite card_less_word)
qed

text \<open>C16: quota is conserved: the quotas of all processes always add up to the 256 pages.\<close>

theorem cert_quota_conserved:
  assumes "reach (cert_boot C) (cert_step C) s"
  shows "(\<Sum>p \<in> {p. is_pid_valid p}. unat (upper (procs s p) - lower (procs s p))) = 256"
proof -
  note tab = reach_table [OF assms]
  have le: "lower (procs s p) \<le> upper (procs s p)" if "is_pid_valid p" for p
    using table_okD(1) [OF tab that] by (simp add: proc_ok_def)
  have "(\<Sum>p \<in> {p. is_pid_valid p}. unat (upper (procs s p) - lower (procs s p))) =
      (\<Sum>p \<in> {p. is_pid_valid p}. card (prange (procs s p)))"
    by (rule sum.cong) (simp_all add: card_prange le unat_sub)
  also have "\<dots> = card (\<Union>p \<in> {p. is_pid_valid p}. prange (procs s p))"
    using tab by (intro card_UN_disjoint [symmetric]) (auto simp: table_ok_def disjoint_ok_def)
  also have "\<dots> = card {i :: u64. i < 256}" using tab by (simp add: table_ok_def cover_ok_def)
  finally show ?thesis by (simp add: card_less_word)
qed

theorem cert_quota_conserved_witness:
  "(\<Sum>p \<in> {p. is_pid_valid p}. unat (upper (procs cdemo_two p) - lower (procs cdemo_two p))) = 256"
  by (rule cert_quota_conserved [OF cdemo_reach(2)])

text \<open>C15: a spawn call succeeds exactly when the quota suffices and the child is a free pid of the
  caller; then the child gets the top pages of the caller, cleared, and follows it in the ring;
  otherwise the call returns an error and changes nothing.\<close>

theorem cert_spawn_correct:
  assumes "reach (cert_boot C) (cert_step C) s" and "regs s A7 = 11"
  shows "do_trap C EXC_ECALL_S s =
    (if spawn_ok (regs s A1) (regs s A2) s
     then Return () ((spawn_state C (regs s A0) (regs s A1) (regs s A2) (after_ecall s))\<lparr>regs := (regs s)(A0 := 0)\<rparr>)
     else Return () ((after_ecall s)\<lparr>regs := (regs s)(A0 := - EINVAL)\<rparr>))"
  by (rule trap_spawn [OF reach_table [OF assms(1)] assms(2)])

theorem cert_spawn_correct_witness:
  "do_trap cdemo_config 9 cdemo_ask =
     Return () ((spawn_state cdemo_config 0 10 4 (after_ecall cdemo_ask))\<lparr>regs := (regs cdemo_ask)(A0 := 0)\<rparr>)"
proof -
  have r: "regs cdemo_ask A7 = 11" "regs cdemo_ask A0 = 0" "regs cdemo_ask A1 = 10" "regs cdemo_ask A2 = 4"
    by (simp_all add: cdemo_ask_def cdemo_args_def)
  show ?thesis using cert_spawn_correct [OF cdemo_reach(1) r(1)] r cdemo_ask_facts(2) by simp
qed

section \<open>Context switches\<close>

text \<open>The machine runs other processes until \<open>p\<close> is scheduled.\<close>

definition others_run :: "cert_config \<Rightarrow> u64 \<Rightarrow> cert \<Rightarrow> cert \<Rightarrow> bool" where
  "others_run C p s t \<longleftrightarrow> reach (\<lambda>x. x = s) (\<lambda>x y. cert_step C x y \<and> current_pid x \<noteq> p) t"

text \<open>The context of a process, as the switch to it loads it.\<close>

definition context_loaded :: "proc \<Rightarrow> cert \<Rightarrow> bool" where
  "context_loaded p t \<longleftrightarrow> regs t = cpu p \<and>
     (\<forall>c \<in> set certikos_csrs. \<forall>g. saved p c = csr_read g c \<longrightarrow> csr_read (csrs t) c = csr_read g c)"

lemma certikos_csrs_distinct: "distinct (map csr_base certikos_csrs)"
  by (simp add: certikos_csrs_def csr_base_def)

lemma restore_loads:
  "c \<in> set certikos_csrs \<Longrightarrow> saved p c = csr_read g c \<Longrightarrow> csr_read (proc_restore_csrs p f) c = csr_read g c"
  unfolding proc_restore_csrs_def by (rule load_csrs_saved [OF certikos_csrs_distinct])

lemma syscall_current:
  assumes tab: "table_ok (procs s) (current_pid s)" and nr: "regs s A7 \<noteq> 12"
  shows "holds_after (\<lambda>t. current_pid t = current_pid s) (syscall C s)"
    and "syscall C s \<noteq> Mret r s'"
proof -
  have m: "holds_after (\<lambda>t. current_pid t = current_pid s) (map_outcome id id (\<lambda>i. s\<lparr>cio := i\<rparr>) (do_mcall v q i))"
    "map_outcome id id (\<lambda>i. s\<lparr>cio := i\<rparr>) (do_mcall v q i) \<noteq> Mret r s'" for v q i
    using do_mcall_not_Panic [of v q i] do_mcall_not_Mret [of v q] by (cases "do_mcall v q i"; simp)+
  show "holds_after (\<lambda>t. current_pid t = current_pid s) (syscall C s)"
    unfolding syscall_def Let_def
    by (intro holds_after_if m)
      (use nr current_valid [OF tab] in \<open>simp_all add: sys_get_quota_def proc_current_def proc_get_def sys_getpid_def
        sys_spawn_eq [OF tab] spawn_state_def Let_def\<close>)
  show "syscall C s \<noteq> Mret r s'"
    using nr current_valid [OF tab] m(2)
    by (simp add: syscall_def Let_def sys_get_quota_def proc_current_def proc_get_def sys_getpid_def
        sys_spawn_eq [OF tab])
qed

lemma trap_current:
  assumes tab: "table_ok (procs s) (current_pid s)" and nr: "regs s A7 \<noteq> 12"
  shows "holds_after (\<lambda>t. current_pid t = current_pid s) (do_trap C EXC_ECALL_S s)"
proof -
  have "holds_after (\<lambda>t. current_pid t = current_pid s) (syscall C (after_ecall s))"
    using syscall_current(1) [of "after_ecall s" C] tab nr by simp
  then show ?thesis
    unfolding do_trap_ecall do_trap_ecall_s_def after_ecall_def [symmetric]
    by (rule holds_after_obind) simp
qed

text \<open>A step that makes another process the current one is a yield to it.\<close>

lemma step_switches:
  assumes st: "cert_step C s t" and inv: "cert_inv C s" and sw: "current_pid s \<noteq> p" "current_pid t = p"
  shows "context_loaded (procs s p) t"
proof -
  have tab: "table_ok (procs s) (current_pid s)" using inv by (simp add: cert_inv_def)
  from st show ?thesis
  proof (cases rule: cert_step.cases)
    case (proc_run f pg r)
    with sw show ?thesis by simp
  next
    case (syscall_return u)
    have "regs s A7 = 12" using trap_current [OF tab, of C] syscall_return sw by auto
    with syscall_return show ?thesis by (simp add: trap_yield [OF tab] Let_def)
  next
    case (syscall_mret r s')
    have y: "regs s A7 = 12" using trap_current [OF tab, of C] syscall_mret sw by auto
    have p: "pnext (procs s (current_pid s)) = p" "yielded (after_ecall s) p = procs s p"
      using syscall_mret sw by (auto simp: trap_yield [OF tab y] Let_def yielded_def)
    then show ?thesis
      using syscall_mret by (auto simp: trap_yield [OF tab y] Let_def context_loaded_def intro: restore_loads)
  qed
qed

lemma others_run_keep:
  assumes run: "others_run C p s t" and L: "cert_layout C" and inv: "cert_inv C s" and p: "running (procs s) p"
    and ne: "current_pid s \<noteq> p"
  shows "cert_inv C t \<and> proc_kept s p t \<and> (current_pid t = p \<longrightarrow> context_loaded (procs s p) t)"
  using run unfolding others_run_def
proof (induction rule: reach.induct)
  case (reach_init t)
  then show ?case using inv ne by (simp add: proc_kept_def)
next
  case (reach_step t u)
  then have t: "cert_inv C t" "proc_kept s p t" "current_pid t \<noteq> p" and st: "cert_step C t u" by auto
  have pt: "procs t p = procs s p" using t(2) by (simp add: proc_kept_def)
  then have "running (procs t) p" using p by simp
  then have "proc_kept t p u" using cert_step_keeps [OF st L t(1)] t(3) by metis
  then have "proc_kept s p u" using t(2) by (simp add: proc_kept_def)
  then show ?case using cert_step_inv [OF st t(1)] step_switches [OF st t(1) t(3)] pt by simp
qed

lemma others_run_stay: "others_run C p s t \<Longrightarrow> current_pid s = p \<Longrightarrow> t = s"
  unfolding others_run_def by (induction rule: reach.induct) auto

lemma yield_saves:
  "cpu (yielded (after_ecall s) (current_pid s)) = regs s"
  "c \<in> set certikos_csrs \<Longrightarrow> saved (yielded (after_ecall s) (current_pid s)) c = csr_read (csrs (after_ecall s)) c"
  "prange (yielded (after_ecall s) q) = prange (procs s q)"
  by (simp_all add: yielded_def save_csrs_apply prange_def)

lemma yield_then_run:
  assumes L: "cert_layout C" and inv: "cert_inv C s" and y: "regs s A7 = 12"
    and trap: "do_trap C EXC_ECALL_S s = Mret r s'"
    and run: "others_run C (current_pid s) (s'\<lparr>regs := r\<rparr>) t" and ret: "current_pid t = current_pid s"
  shows "context_loaded (yielded (after_ecall s) (current_pid s)) t \<and>
    (\<forall>i \<in> prange (procs s (current_pid s)). pages t i = pages s i)"
proof -
  let ?p = "current_pid s" and ?t = "s'\<lparr>regs := r\<rparr>"
  have tab: "table_ok (procs s) ?p" using inv by (simp add: cert_inv_def)
  note Y = trap [unfolded trap_yield [OF tab y] Let_def]
  have t: "procs ?t = yielded (after_ecall s)" "pages ?t = pages s" "current_pid ?t = pnext (procs s ?p)"
    using Y by auto
  show ?thesis
  proof (cases "pnext (procs s ?p) = ?p")
    case True
    then have "t = ?t" using others_run_stay [OF run] t(3) by simp
    with True Y show ?thesis by (auto simp: context_loaded_def intro: restore_loads)
  next
    case False
    have "cert_inv C ?t" by (rule cert_step_inv [OF syscall_mret [OF trap] inv])
    moreover have "running (procs ?t) ?p" using table_okD(2) [OF tab] unfolding t(1) by (simp add: yielded_def)
    moreover have "current_pid ?t \<noteq> ?p" using False t(3) by simp
    ultimately have "proc_kept ?t ?p t \<and> context_loaded (procs ?t ?p) t"
      using others_run_keep [OF run L] ret by blast
    then show ?thesis unfolding t(1) by (simp add: proc_kept_def t yield_saves)
  qed
qed

text \<open>C13: a process that yields continues later exactly where it stopped: when it is next scheduled, its
  registers, its supervisor state and its pages are as it left them, and it resumes after the call.\<close>

theorem cert_context_restored:
  assumes "cert_layout C" and "reach (cert_boot C) (cert_step C) s" and "regs s A7 = 12"
    and "do_trap C EXC_ECALL_S s = Mret r s'"
    and "others_run C (current_pid s) (s'\<lparr>regs := r\<rparr>) t" and "current_pid t = current_pid s"
  shows "regs t = regs s \<and> csr_read (csrs t) MEPC = csr_read (csrs s) MEPC + 4 \<and>
    (\<forall>c \<in> set certikos_csrs - {MEPC}. csr_read (csrs t) c = csr_read (csrs s) c) \<and>
    (\<forall>i \<in> prange (procs s (current_pid s)). pages t i = pages s i)"
proof -
  note Y = yield_then_run [OF assms(1) cert_sys.reach_inv [OF assms(2)] assms(3-6)]
  have c: "csr_read (csrs t) c = csr_read (csrs (after_ecall s)) c" if "c \<in> set certikos_csrs" for c
    using Y that yield_saves(2) [OF that, of s] by (auto simp: context_loaded_def)
  have "MEPC \<in> set certikos_csrs" by (simp add: certikos_csrs_def)
  then have "csr_read (csrs t) MEPC = csr_read (csrs s) MEPC + 4"
    using c by (simp add: after_ecall_def csr_read_write_same csr_base_def)
  moreover have "csr_read (csrs t) c = csr_read (csrs s) c" if "c \<in> set certikos_csrs - {MEPC}" for c
    using c [of c] that by (auto simp: after_ecall_def certikos_csrs_def csr_simps csr_base_def)
  ultimately show ?thesis using Y by (simp add: context_loaded_def yield_saves)
qed

theorem cert_context_restored_witness:
  "\<exists>r s'. do_trap cdemo_config 9 cdemo_two = Mret r s' \<and> regs (cdemo_call cdemo_other) = regs cdemo_two \<and>
     csr_read (csrs (cdemo_call cdemo_other)) MEPC = csr_read (csrs cdemo_two) MEPC + 4"
proof -
  obtain r s' where m: "do_trap cdemo_config 9 cdemo_two = Mret r s'"
    using trap_yield [OF reach_table [OF cdemo_reach(2)] cdemo_two_facts(2)] by (simp add: Let_def)
  obtain r' s'' where m': "do_trap cdemo_config 9 cdemo_other = Mret r' s''" and c1: "current_pid s'' = 1"
    using trap_yield [OF reach_table [OF cdemo_reach(3)] cdemo_other_facts(5)] cdemo_other_facts
    by (simp add: Let_def)
  have o: "cdemo_other = cdemo_args 12 0 0 0 (s'\<lparr>regs := r\<rparr>)"
    by (simp add: cdemo_other_def cdemo_call_def cdemo_next_def m)
  have e: "cdemo_call cdemo_other = s''\<lparr>regs := r'\<rparr>" by (simp add: cdemo_call_def cdemo_next_def m')
  have c4: "current_pid (s'\<lparr>regs := r\<rparr>) \<noteq> 1" using cdemo_other_facts(1) unfolding o by simp
  have "others_run cdemo_config 1 (s'\<lparr>regs := r\<rparr>) (cdemo_call cdemo_other)"
    unfolding others_run_def e
  proof (rule reach_step, rule reach_step, rule reach_init)
    show "cert_step cdemo_config (s'\<lparr>regs := r\<rparr>) cdemo_other \<and> current_pid (s'\<lparr>regs := r\<rparr>) \<noteq> 1"
      using c4 cdemo_args_step unfolding o by blast
    show "cert_step cdemo_config cdemo_other (s''\<lparr>regs := r'\<rparr>) \<and> current_pid cdemo_other \<noteq> 1"
      using syscall_mret [OF m'] cdemo_other_facts(1) by simp
  qed simp
  then have "others_run cdemo_config (current_pid cdemo_two) (s'\<lparr>regs := r\<rparr>) (cdemo_call cdemo_other)"
    by (simp add: cdemo_two_facts)
  from cert_context_restored [OF cdemo_layout cdemo_reach(2) cdemo_two_facts(2) m this] show ?thesis
    using m e c1 by (simp add: cdemo_two_facts)
qed

section \<open>Noninterference\<close>

text \<open>A call changes no owner, and only the states of pids that the caller owns.\<close>

definition owners_kept :: "cert \<Rightarrow> cert \<Rightarrow> bool" where
  "owners_kept s t \<longleftrightarrow> (\<forall>q. powner (procs t q) = powner (procs s q) \<and>
     (powner (procs s q) \<noteq> current_pid s \<longrightarrow> pstate (procs t q) = pstate (procs s q)))"

lemma trap_owners:
  assumes tab: "table_ok (procs s) (current_pid s)"
  shows "holds_after (owners_kept s) (do_trap C EXC_ECALL_S s)"
proof -
  let ?s = "after_ecall s"
  have tab': "table_ok (procs ?s) (current_pid ?s)" using tab by simp
  have m: "holds_after (owners_kept s) (map_outcome id id (\<lambda>i. ?s\<lparr>cio := i\<rparr>) (do_mcall v q i))" for v q i
    using do_mcall_not_Panic [of v q i] by (cases "do_mcall v q i"; simp add: owners_kept_def)
  have y: "holds_after (owners_kept s) (sys_yield C ?s)"
    by (simp add: sys_yield_eq [OF tab'] Let_def owners_kept_def yielded_def)
  have sp: "holds_after (owners_kept s) (sys_spawn C a b c ?s)" for a b c
    by (simp add: sys_spawn_eq [OF tab'] owners_kept_def spawn_state_def Let_def spawned_def spawn_ok_def)
  have "holds_after (owners_kept s) (syscall C ?s)"
    unfolding syscall_def Let_def
    by (intro holds_after_if m y sp)
      (use current_valid [OF tab] in
        \<open>simp_all add: owners_kept_def sys_get_quota_def proc_current_def proc_get_def sys_getpid_def\<close>)
  then show ?thesis
    unfolding do_trap_ecall do_trap_ecall_s_def after_ecall_def [symmetric]
    by (rule holds_after_obind) (simp add: owners_kept_def)
qed

lemma step_owners:
  assumes st: "cert_step C s t" and tab: "table_ok (procs s) (current_pid s)"
  shows "owners_kept s t"
  using st
proof (cases rule: cert_step.cases)
  case (proc_run f pg r)
  then show ?thesis by (simp add: owners_kept_def)
next
  case (syscall_return u)
  then show ?thesis using trap_owners [OF tab, of C] by simp
next
  case (syscall_mret r s')
  then show ?thesis using trap_owners [OF tab, of C] by (simp add: owners_kept_def)
qed

text \<open>Two executions in which process 4 yields with different registers.\<close>

definition cdemo_alt :: cert where
  "cdemo_alt = cdemo_args 12 1 2 3 (cdemo_call cdemo_two)"

lemma cdemo_views:
  shows "view_equiv 1 (cdemo_args 10 0 0 0 (cdemo_call cdemo_other)) (cdemo_args 10 0 0 0 (cdemo_call cdemo_alt))"
    and "current_pid (cdemo_call cdemo_other) = 1"
    and "cdemo_reachable (cdemo_args 10 0 0 0 (cdemo_call cdemo_other))"
    and "cdemo_reachable (cdemo_args 10 0 0 0 (cdemo_call cdemo_alt))"
    and "cpu (procs (cdemo_call cdemo_other) 4) A0 \<noteq> cpu (procs (cdemo_call cdemo_alt) 4) A0"
proof -
  have ra: "cdemo_reachable cdemo_alt"
    unfolding cdemo_alt_def by (intro cdemo_args_reach cdemo_call_reach cdemo_reach)
  have y: "regs cdemo_alt A7 = 12" by (simp add: cdemo_alt_def cdemo_args_def)
  have eq: "procs cdemo_alt = procs cdemo_other" "current_pid cdemo_alt = current_pid cdemo_other"
    "csrs cdemo_alt = csrs cdemo_other" "pages cdemo_alt = pages cdemo_other"
    by (simp_all add: cdemo_alt_def cdemo_other_def)
  note Y = cdemo_call_def cdemo_next_def Let_def yielded_def cdemo_other_facts eq
    trap_yield [OF reach_table [OF cdemo_reach(3)] cdemo_other_facts(5)] trap_yield [OF reach_table [OF ra] y]
  show "current_pid (cdemo_call cdemo_other) = 1" by (simp add: Y)
  show "view_equiv 1 (cdemo_args 10 0 0 0 (cdemo_call cdemo_other)) (cdemo_args 10 0 0 0 (cdemo_call cdemo_alt))"
    by (simp add: view_equiv_def Y) (simp add: cdemo_args_def after_ecall_def Y)
  show "cdemo_reachable (cdemo_args 10 0 0 0 (cdemo_call cdemo_other))"
    "cdemo_reachable (cdemo_args 10 0 0 0 (cdemo_call cdemo_alt))"
    by (intro cdemo_args_reach cdemo_call_reach cdemo_reach ra)+
  show "cpu (procs (cdemo_call cdemo_other) 4) A0 \<noteq> cpu (procs (cdemo_call cdemo_alt) 4) A0"
    by (simp add: Y) (simp add: cdemo_alt_def cdemo_other_def cdemo_args_def)
qed

text \<open>C10: what a process sees of a system call of CertiKOS depends only on its own view. In two reachable states
  that look alike to the current process, a call, other than the firmware calls that a build without
  \<^verbatim>\<open>CONFIG_VERIFICATION\<close> passes on, returns the same result and leaves states that look alike to it. After a yield,
  both states hold the same registers, entry and pages for the process; the processor looks alike too unless the
  process goes on in one state and waits in the other.\<close>

theorem cert_noninterference:
  assumes "cert_config.CONFIG_VERIFICATION C \<or> regs s A7 > SBI_LAST"
    and "reach (cert_boot C) (cert_step C) s" and "reach (cert_boot C) (cert_step C) t"
    and "view_equiv p s t" and "current_pid s = p"
  shows "view_outcome p (do_trap C EXC_ECALL_S s) (do_trap C EXC_ECALL_S t)"
  by (rule trap_view [OF assms(4,5,1) cert_sys.reach_inv [OF assms(2)] cert_sys.reach_inv [OF assms(3)]])

theorem cert_noninterference_witness:
  "view_outcome 1 (do_trap cdemo_config 9 (cdemo_args 10 0 0 0 (cdemo_call cdemo_other)))
     (do_trap cdemo_config 9 (cdemo_args 10 0 0 0 (cdemo_call cdemo_alt))) \<and>
   cpu (procs (cdemo_call cdemo_other) 4) A0 \<noteq> cpu (procs (cdemo_call cdemo_alt) 4) A0"
  using cert_noninterference [OF disjI1 [OF cdemo_verif] cdemo_views(3,4,1)] cdemo_views(2,5) by simp

text \<open>C11: what other processes do is invisible: a step of the machine that neither starts nor ends in a
  running process leaves the view of that process unchanged.\<close>

theorem cert_local_respect:
  assumes "cert_layout C" and "reach (cert_boot C) (cert_step C) s" and "cert_step C s t"
    and "running (procs s) p" and "current_pid s \<noteq> p" and "current_pid t \<noteq> p"
  shows "view_equiv p s t"
proof -
  note inv = cert_sys.reach_inv [OF assms(2)]
  have "p \<noteq> current_pid s" using assms(5) by simp
  from cert_step_keeps [OF assms(3,1) inv assms(4) this] have "proc_kept s p t" .
  moreover have "owners_kept s t" by (rule step_owners [OF assms(3) reach_table [OF assms(2)]])
  ultimately show ?thesis using assms(5,6) by (auto simp: view_equiv_def proc_kept_def owners_kept_def)
qed

theorem cert_local_respect_witness:
  "view_equiv 4 cdemo_two (cdemo_args 13 0 0 0 cdemo_two)"
  by (rule cert_local_respect [OF cdemo_layout cdemo_reach(2) cdemo_args_step cdemo_two_facts(4)])
    (simp_all add: cdemo_two_facts)

end
