(* ===== verification/Keystone.thy ===== *)
theory Keystone
  imports Kernel_Traps
begin

text \<open>
  The Keystone monitor (\<^verbatim>\<open>monitors/keystone\<close>): enclaves as regions of the payload that physical memory
  protection hides from the host, the calls that create, run and destroy them, and boot. \<^verbatim>\<open>BUG()\<close>
  and accesses outside the enclave table are panics.
\<close>

unbundle bit_operations_syntax

section \<open>Data\<close>

abbreviation (input) NR_PMP_ENTRIES :: u64 where "NR_PMP_ENTRIES \<equiv> 8"
abbreviation (input) NR_ENCLAVES :: u64 where "NR_ENCLAVES \<equiv> 3"
abbreviation (input) MAX_PAYLOAD_SIZE :: u64 where "MAX_PAYLOAD_SIZE \<equiv> 0x40000000"

datatype enclave_status = ENCLAVE_FREE | ENCLAVE_FRESH | ENCLAVE_RUNNING | ENCLAVE_IDLE

text \<open>\<open>st_csrs\<close> holds the registers of \<^verbatim>\<open>csrs.h\<close> by name.\<close>

record cpu_state =
  st_csrs :: "csr \<Rightarrow> u64"
  st_regs :: pt_regs

record enclave =
  status :: enclave_status
  entry :: u64
  secure_lower :: u64
  secure_upper :: u64
  shared_lower :: u64
  shared_upper :: u64
  encl_state :: cpu_state

text \<open>The payload is addressed by offset, as the enclave calls address it.\<close>

record keystone =
  enclaves :: "u64 \<Rightarrow> enclave"
  enclave_mode :: bool
  current_enclave :: u64
  host_state :: cpu_state
  payload :: "u64 \<Rightarrow> u8"
  regs :: pt_regs
  csrs :: csr_file
  kio :: mio

record keystone_config =
  CONFIG_VERIFICATION :: bool
  CONFIG_VERIFICATION_LLVM :: bool
  payload_start :: u64

type_synonym 'a keystone_outcome = "('a, pt_regs, keystone) outcome"

definition keystone_csrs :: "csr list" where
  "keystone_csrs = [MEPC, MCOUNTEREN, MCYCLE, MINSTRET, SATP, STVEC, SCOUNTEREN, STVAL, SIP, SCAUSE, SEPC, SSTATUS]"

section \<open>Protection registers\<close>

definition offset_to_phys :: "keystone_config \<Rightarrow> u64 \<Rightarrow> u64" where
  "offset_to_phys C offset = payload_start C + offset"

text \<open>\<open>None\<close> is \<^verbatim>\<open>BUG()\<close>.\<close>

definition pmpaddr_write_nr :: "u64 \<Rightarrow> u64 \<Rightarrow> csr_file \<Rightarrow> csr_file option" where
  "pmpaddr_write_nr nr addr f =
     (if nr < NR_PMP_ENTRIES then Some (pmpaddr_write (pmp_addr_regs ! unat nr) addr f) else None)"

definition eid_to_pmp_lower :: "u64 \<Rightarrow> u64 option" where
  "eid_to_pmp_lower eid =
     (if eid = 0 then Some 0 else if eid = 1 then Some 2 else if eid = 2 then Some 4 else None)"

definition eid_to_pmp_upper :: "u64 \<Rightarrow> u64 option" where
  "eid_to_pmp_upper eid = map_option (\<lambda>n. n + 1) (eid_to_pmp_lower eid)"

definition write_pmp_pair :: "u64 \<Rightarrow> u64 \<Rightarrow> u64 \<Rightarrow> csr_file \<Rightarrow> csr_file option" where
  "write_pmp_pair i lo hi f =
     Option.bind (eid_to_pmp_lower i) (\<lambda>n.
     Option.bind (pmpaddr_write_nr n lo f) (\<lambda>f.
     Option.bind (eid_to_pmp_upper i) (\<lambda>m. pmpaddr_write_nr m hi f)))"

definition free_pmp_region :: "u64 \<Rightarrow> csr_file \<Rightarrow> csr_file option" where
  "free_pmp_region i f = write_pmp_pair i 0 0 f"

definition chmod_pmp_region :: "u64 \<Rightarrow> u64 \<Rightarrow> csr_file \<Rightarrow> csr_file option" where
  "chmod_pmp_region i perm f =
     Option.bind (eid_to_pmp_upper i) (\<lambda>n. Some (pmpcfg_write (unat n) (PMPCFG_A_TOR OR perm) f))"

definition remap_pmp_region :: "keystone_config \<Rightarrow> u64 \<Rightarrow> u64 \<Rightarrow> u64 \<Rightarrow> csr_file \<Rightarrow> csr_file option" where
  "remap_pmp_region C i lo hi f = write_pmp_pair i (offset_to_phys C lo) (offset_to_phys C hi) f"

definition remap_os_region :: "keystone_config \<Rightarrow> csr_file \<Rightarrow> csr_file option" where
  "remap_os_region C f =
     Option.bind (pmpaddr_write_nr (NR_PMP_ENTRIES - 2) (offset_to_phys C 0) f) (\<lambda>f.
     Option.bind (pmpaddr_write_nr (NR_PMP_ENTRIES - 1) (offset_to_phys C MAX_PAYLOAD_SIZE) f) (\<lambda>f.
     Some (pmpcfg_write 7 (PMPCFG_A_TOR OR PMPCFG_R OR PMPCFG_W OR PMPCFG_X) f)))"

definition remap_shared_region :: "keystone_config \<Rightarrow> u64 \<Rightarrow> u64 \<Rightarrow> csr_file \<Rightarrow> csr_file option" where
  "remap_shared_region C lo hi f =
     Option.bind (pmpaddr_write_nr (NR_PMP_ENTRIES - 2) (offset_to_phys C lo) f) (\<lambda>f.
     Option.bind (pmpaddr_write_nr (NR_PMP_ENTRIES - 1) (offset_to_phys C hi) f) (\<lambda>f.
     Some (pmpcfg_write 7 (PMPCFG_A_TOR OR PMPCFG_R OR PMPCFG_W) f)))"

definition is_region_valid :: "u64 \<Rightarrow> u64 \<Rightarrow> bool" where
  "is_region_valid lo hi = (lo mod 4 = 0 \<and> hi mod 4 = 0 \<and> lo < hi \<and> hi \<le> MAX_PAYLOAD_SIZE)"

section \<open>Processor state\<close>

definition save_cpu_state :: "pt_regs \<Rightarrow> csr_file \<Rightarrow> cpu_state \<Rightarrow> cpu_state" where
  "save_cpu_state r f st = st\<lparr>st_csrs := save_csrs keystone_csrs f (st_csrs st), st_regs := copy_pt_regs (st_regs st) r\<rparr>"

definition restore_cpu_state :: "cpu_state \<Rightarrow> keystone \<Rightarrow> keystone" where
  "restore_cpu_state st s =
     s\<lparr>csrs := load_csrs keystone_csrs (st_csrs st) (csrs s), regs := copy_pt_regs (regs s) (st_regs st)\<rparr>"

definition set_enclave :: "u64 \<Rightarrow> (enclave \<Rightarrow> enclave) \<Rightarrow> keystone \<Rightarrow> keystone" where
  "set_enclave eid f s = s\<lparr>enclaves := (enclaves s)(eid := f (enclaves s eid))\<rparr>"

definition save_host_state :: "keystone \<Rightarrow> keystone" where
  "save_host_state s = s\<lparr>host_state := save_cpu_state (regs s) (csrs s) (host_state s)\<rparr>"

definition restore_host_state :: "keystone \<Rightarrow> keystone" where
  "restore_host_state s = restore_cpu_state (host_state s) s"

definition save_encl_state :: "u64 \<Rightarrow> keystone \<Rightarrow> keystone" where
  "save_encl_state eid s = set_enclave eid (\<lambda>e. e\<lparr>encl_state := save_cpu_state (regs s) (csrs s) (encl_state e)\<rparr>) s"

definition restore_encl_state :: "u64 \<Rightarrow> keystone \<Rightarrow> keystone" where
  "restore_encl_state eid s = restore_cpu_state (encl_state (enclaves s eid)) s"

text \<open>\<^verbatim>\<open>memset(offset_to_virt(lo), 0, sz)\<close>: undefined outside the payload.\<close>

definition clear_payload :: "u64 \<Rightarrow> u64 \<Rightarrow> keystone \<Rightarrow> unit keystone_outcome" where
  "clear_payload lo sz s =
     (if lo \<le> MAX_PAYLOAD_SIZE \<and> sz \<le> MAX_PAYLOAD_SIZE - lo
      then Return () (s\<lparr>payload := (\<lambda>a. if a - lo < sz then 0 else payload s a)\<rparr>)
      else Panic)"

text \<open>Changes of the protection registers that may run into \<^verbatim>\<open>BUG()\<close>.\<close>

definition with_csrs :: "(csr_file \<Rightarrow> csr_file option) \<Rightarrow> keystone \<Rightarrow> u64 keystone_outcome" where
  "with_csrs g s = (case g (csrs s) of None \<Rightarrow> Panic | Some f \<Rightarrow> Return 0 (s\<lparr>csrs := f\<rparr>))"

abbreviation hardware :: "keystone_config \<Rightarrow> bool" where
  "hardware C \<equiv> \<not> CONFIG_VERIFICATION_LLVM C \<and> \<not> CONFIG_VERIFICATION C"

section \<open>Calls\<close>

definition eid_is_valid :: "u64 \<Rightarrow> bool" where
  "eid_is_valid eid = (eid < NR_ENCLAVES)"

definition is_region_overlap :: "keystone \<Rightarrow> u64 \<Rightarrow> u64 \<Rightarrow> bool" where
  "is_region_overlap s lo hi =
     list_ex (\<lambda>i. secure_upper (enclaves s i) > lo \<and> hi > secure_lower (enclaves s i)) [0, 1, 2]"

definition sys_create_enclave ::
    "keystone_config \<Rightarrow> u64 \<Rightarrow> u64 \<Rightarrow> u64 \<Rightarrow> u64 \<Rightarrow> u64 \<Rightarrow> u64 \<Rightarrow> keystone \<Rightarrow> u64 keystone_outcome" where
  "sys_create_enclave C eid ent lo hi slo shi s =
     (if enclave_mode s then Return (- EINVAL) s
      else if \<not> eid_is_valid eid then Return (- EINVAL) s
      else if status (enclaves s eid) \<noteq> ENCLAVE_FREE then Return (- EINVAL) s
      else if \<not> is_region_valid lo hi then Return (- EINVAL) s
      else if \<not> is_region_valid slo shi then Return (- EINVAL) s
      else if is_region_overlap s lo hi then Return (- EINVAL) s
      else
        let s1 = set_enclave eid (\<lambda>e. e\<lparr>secure_lower := lo, secure_upper := hi, shared_lower := slo,
                   shared_upper := shi, entry := ent, status := ENCLAVE_FRESH\<rparr>) s
        in if hardware C
           then with_csrs (\<lambda>f. Option.bind (chmod_pmp_region eid 0 f) (remap_pmp_region C eid lo hi)) s1
           else Return 0 s1)"

definition sys_destroy_enclave :: "keystone_config \<Rightarrow> u64 \<Rightarrow> keystone \<Rightarrow> u64 keystone_outcome" where
  "sys_destroy_enclave C eid s =
     (if enclave_mode s then Return (- EINVAL) s
      else if \<not> eid_is_valid eid then Return (- EINVAL) s
      else if status (enclaves s eid) \<noteq> ENCLAVE_IDLE \<and> status (enclaves s eid) \<noteq> ENCLAVE_FRESH
      then Return (- EINVAL) s
      else
        let lo = secure_lower (enclaves s eid);
            sz = secure_upper (enclaves s eid) - lo
        in obind (clear_payload lo sz s) (\<lambda>_ s1.
             let s2 = set_enclave eid (\<lambda>e. e\<lparr>status := ENCLAVE_FREE, secure_lower := 0, secure_upper := 0\<rparr>) s1
             in if hardware C then with_csrs (free_pmp_region eid) s2 else Return 0 s2))"

definition sys_exit_enclave :: "keystone_config \<Rightarrow> keystone \<Rightarrow> u64 keystone_outcome" where
  "sys_exit_enclave C s =
     (let eid = current_enclave s in
      if \<not> enclave_mode s then Return (- EINVAL) s
      else if eid \<ge> NR_ENCLAVES then Panic
      else
        let s1 = set_enclave eid (\<lambda>e. e\<lparr>status := ENCLAVE_IDLE\<rparr>) (s\<lparr>enclave_mode := False, current_enclave := - 1\<rparr>)
        in if hardware C
           then with_csrs (\<lambda>f. Option.bind (chmod_pmp_region eid 0 f) (remap_os_region C))
                  (restore_host_state (save_encl_state eid s1))
           else Return 0 s1)"

definition sys_resume_enclave :: "keystone_config \<Rightarrow> u64 \<Rightarrow> keystone \<Rightarrow> u64 keystone_outcome" where
  "sys_resume_enclave C eid s =
     (if enclave_mode s then Return (- EINVAL) s
      else if \<not> eid_is_valid eid then Return (- EINVAL) s
      else if status (enclaves s eid) \<noteq> ENCLAVE_IDLE then Return (- EINVAL) s
      else
        let s1 = set_enclave eid (\<lambda>e. e\<lparr>status := ENCLAVE_RUNNING\<rparr>) (s\<lparr>enclave_mode := True, current_enclave := eid\<rparr>)
        in if hardware C
           then with_csrs (\<lambda>f. Option.bind (chmod_pmp_region eid (PMPCFG_R OR PMPCFG_W OR PMPCFG_X) f)
                    (remap_shared_region C (shared_lower (enclaves s1 eid)) (shared_upper (enclaves s1 eid))))
                  (restore_encl_state eid (save_host_state s1))
           else Return 0 s1)"

definition sys_run_enclave :: "keystone_config \<Rightarrow> u64 \<Rightarrow> keystone \<Rightarrow> u64 keystone_outcome" where
  "sys_run_enclave C eid s =
     (if enclave_mode s then Return (- EINVAL) s
      else if \<not> eid_is_valid eid then Return (- EINVAL) s
      else if status (enclaves s eid) \<noteq> ENCLAVE_IDLE \<and> status (enclaves s eid) \<noteq> ENCLAVE_FRESH
      then Return (- EINVAL) s
      else sys_resume_enclave C eid
        (set_enclave eid (\<lambda>e. e\<lparr>encl_state := (encl_state e)\<lparr>st_csrs := (st_csrs (encl_state e))(MEPC := entry e),
           st_regs := (\<lambda>_. 0)\<rparr>, status := ENCLAVE_IDLE\<rparr>) s))"

section \<open>Traps\<close>

definition syscall :: "keystone_config \<Rightarrow> keystone \<Rightarrow> u64 keystone_outcome" where
  "syscall C s =
     (let nr = regs s A7; a0 = regs s A0 in
      if nr \<le> SBI_LAST
      then map_outcome id id (\<lambda>i. s\<lparr>kio := i\<rparr>) (do_mcall (CONFIG_VERIFICATION C) (regs s) (kio s))
      else if nr = 9 then sys_create_enclave C a0 (regs s A1) (regs s A2) (regs s A3) (regs s A4) (regs s A5) s
      else if nr = 10 then sys_destroy_enclave C a0 s
      else if nr = 11 then sys_run_enclave C a0 s
      else if nr = 12 then sys_exit_enclave C s
      else if nr = 13 then sys_resume_enclave C a0 s
      else Return (- ENOSYS) s)"

definition do_trap_ecall_s :: "keystone_config \<Rightarrow> keystone \<Rightarrow> unit keystone_outcome" where
  "do_trap_ecall_s C s =
     (let nr = regs s A7 in
      obind (syscall C s) (\<lambda>r s1.
        let s2 = s1\<lparr>regs := (regs s1)(A0 := r)\<rparr> in
        Return () (if nr \<noteq> 11 then s2\<lparr>csrs := csr_write MEPC (csr_read (csrs s2) MEPC + 4) (csrs s2)\<rparr> else s2)))"

definition do_trap :: "keystone_config \<Rightarrow> u64 \<Rightarrow> keystone \<Rightarrow> unit keystone_outcome" where
  "do_trap C cause s = generic_do_trap
     (\<lambda>h. if h = do_trap_ecall_s_handler then Some (do_trap_ecall_s C) else None) cause s"

section \<open>Boot\<close>

definition zero_state :: cpu_state where
  "zero_state = \<lparr>st_csrs = (\<lambda>_. 0), st_regs = (\<lambda>_. 0)\<rparr>"

definition init_enclave :: "keystone \<Rightarrow> keystone" where
  "init_enclave s = s\<lparr>enclave_mode := False, enclaves := (\<lambda>eid. if eid_is_valid eid
     then \<lparr>status = ENCLAVE_FREE, entry = 0, secure_lower = 0, secure_upper = 0, shared_lower = 0, shared_upper = 0,
            encl_state = zero_state\<rparr>
     else enclaves s eid)\<rparr>"

definition keystone_pmp_init :: "keystone_config \<Rightarrow> keystone \<Rightarrow> u64 keystone_outcome" where
  "keystone_pmp_init C s = (if CONFIG_VERIFICATION C then Return 0 s else with_csrs (remap_os_region C) s)"

text \<open>\<open>r0\<close> is the uninitialised stack variable of the verification build.\<close>

definition supervisor_init :: "keystone_config \<Rightarrow> pt_regs \<Rightarrow> u64 \<Rightarrow> u64 \<Rightarrow> keystone \<Rightarrow> unit keystone_outcome" where
  "supervisor_init C r0 hartid dtb s =
     (let r = (if CONFIG_VERIFICATION C then r0 else (\<lambda>_. 0))(A0 := hartid, A1 := dtb);
          f = csrs s;
          f = csr_clear MSTATUS SR_MPP f;
          f = csr_set MSTATUS SR_MPP_S f;
          f = csr_clear MSTATUS SR_SXL f;
          f = csr_set MSTATUS SR_SXL_64 f;
          f = csr_clear MSTATUS SR_UXL f;
          f = csr_set MSTATUS SR_UXL_64 f;
          f = csr_write MCOUNTEREN 0xFFFFFFFF f;
          f = csr_write MEDELEG EDEL_DEFAULT f;
          f = csr_write MIDELEG IDEL_DEFAULT f;
          f = csr_write MEPC (payload_start C) f
      in Mret r (s\<lparr>csrs := f\<rparr>))"

definition keystone_main :: "keystone_config \<Rightarrow> pt_regs \<Rightarrow> u64 \<Rightarrow> u64 \<Rightarrow> keystone \<Rightarrow> unit keystone_outcome" where
  "keystone_main C r0 hartid dtb s =
     obind (keystone_pmp_init C (init_enclave s)) (\<lambda>_ s. supervisor_init C r0 hartid dtb s)"

end
