(* ===== verification/Keystone_Inv.thy ===== *)
theory Keystone_Inv
  imports Keystone
begin

text \<open>
  The invariant of the Keystone monitor: the enclave table (valid, pairwise disjoint regions, one
  running enclave exactly in enclave mode) and the protection registers that mirror it, and its
  preservation by every call.
\<close>

unbundle bit_operations_syntax

section \<open>Pairs of protection entries\<close>

text \<open>
  Every pair of entries describes one region: the even entry is off and carries the lower bound,
  the odd one carries the upper bound and the permissions.
\<close>

type_synonym seg = "u64 \<times> u64 \<times> u64 \<times> u64"

definition seg :: "csr_file \<Rightarrow> nat \<Rightarrow> seg" where
  "seg f i = (pmpcfg_read f (2 * i), pmpcfg_read f (2 * i + 1),
     csr_read f (pmp_addr_regs ! (2 * i)), csr_read f (pmp_addr_regs ! (2 * i + 1)))"

definition seg_csrs :: "csr list" where
  "seg_csrs = PMPCFG0 # PMPCFG2 # pmp_addr_regs"

definition pair_write :: "nat \<Rightarrow> u64 \<Rightarrow> u64 \<Rightarrow> csr_file \<Rightarrow> csr_file" where
  "pair_write i lo hi f = pmpaddr_write (pmp_addr_regs ! (2 * i + 1)) hi (pmpaddr_write (pmp_addr_regs ! (2 * i)) lo f)"

lemma less4_cases: "(i :: nat) < 4 \<Longrightarrow> i = 0 \<or> i = 1 \<or> i = 2 \<or> i = 3"
  by arith

lemma seg_pair_write:
  assumes "i < 4" and "j < 4"
  shows "seg (pair_write i lo hi f) j =
    (if i = j then (pmpcfg_read f (2 * j), pmpcfg_read f (2 * j + 1), drop_bit 2 lo, drop_bit 2 hi) else seg f j)"
proof -
  have c: "pmpcfg_read (pair_write i lo hi f) n = pmpcfg_read f n" for n
    using less4_cases [OF assms(1)]
    by (intro pmpcfg_read_cong) (auto simp: pair_write_def pmp_addr_regs_def csr_simps csr_base_def)
  show ?thesis
    using less4_cases [OF assms(1)] less4_cases [OF assms(2)]
    by (elim disjE) (simp_all add: seg_def c, simp_all add: pair_write_def pmp_addr_regs_def
        csr_simps csr_base_def pmpaddr_write_def csr_read_write_same)
qed

lemma seg_cfg_write:
  assumes "v AND 0xff = v" and "i < 4" and "j < 4"
  shows "seg (pmpcfg_write (2 * i + 1) v f) j =
    (if i = j then (pmpcfg_read f (2 * j), v, csr_read f (pmp_addr_regs ! (2 * j)), csr_read f (pmp_addr_regs ! (2 * j + 1)))
     else seg f j)"
  using less4_cases [OF assms(2)] less4_cases [OF assms(3)] assms(1)
  by (elim disjE) (simp_all add: seg_def pmpcfg_read_write pmp_addr_regs_def csr_simps)

lemma seg_cong:
  assumes "\<And>c. c \<in> set seg_csrs \<Longrightarrow> csr_read f c = csr_read g c" and "i < 4"
  shows "seg f i = seg g i"
proof -
  have "pmpcfg_read f n = pmpcfg_read g n" for n
    using assms(1) by (intro pmpcfg_read_cong) (simp_all add: seg_csrs_def)
  moreover have "csr_read f (pmp_addr_regs ! n) = csr_read g (pmp_addr_regs ! n)" if "n < 16" for n
  proof (rule assms(1))
    have "length pmp_addr_regs = 16" by (simp add: pmp_addr_regs_def)
    then show "pmp_addr_regs ! n \<in> set seg_csrs" using that nth_mem [of n pmp_addr_regs] by (simp add: seg_csrs_def)
  qed
  ultimately show ?thesis using assms(2) by (simp add: seg_def)
qed

section \<open>The invariant\<close>

definition encl_ok :: "enclave \<Rightarrow> bool" where
  "encl_ok e \<longleftrightarrow> (if status e = ENCLAVE_FREE then secure_lower e = 0 \<and> secure_upper e = 0
     else is_region_valid (secure_lower e) (secure_upper e) \<and> is_region_valid (shared_lower e) (shared_upper e))"

definition encl_apart :: "enclave \<Rightarrow> enclave \<Rightarrow> bool" where
  "encl_apart e e' \<longleftrightarrow> secure_upper e \<le> secure_lower e' \<or> secure_upper e' \<le> secure_lower e"

definition ktable_ok :: "keystone \<Rightarrow> bool" where
  "ktable_ok s \<longleftrightarrow>
     (\<forall>i. eid_is_valid i \<longrightarrow> encl_ok (enclaves s i)) \<and>
     (\<forall>i j. eid_is_valid i \<and> eid_is_valid j \<and> i \<noteq> j \<longrightarrow> encl_apart (enclaves s i) (enclaves s j)) \<and>
     (\<forall>i. eid_is_valid i \<longrightarrow> status (enclaves s i) = ENCLAVE_RUNNING \<longleftrightarrow> enclave_mode s \<and> current_enclave s = i) \<and>
     (enclave_mode s \<longrightarrow> eid_is_valid (current_enclave s))"

definition seg_ok :: "keystone_config \<Rightarrow> enclave \<Rightarrow> seg \<Rightarrow> bool" where
  "seg_ok C e sg \<longleftrightarrow> (case sg of (c0, c1, lo, hi) \<Rightarrow> c0 AND 24 = 0 \<and>
     (if status e = ENCLAVE_FREE then c1 AND 24 = 0 \<or> (c1 = 8 \<and> lo = 0 \<and> hi = 0)
      else c1 = (if status e = ENCLAVE_RUNNING then 15 else 8) \<and>
        lo = drop_bit 2 (offset_to_phys C (secure_lower e)) \<and> hi = drop_bit 2 (offset_to_phys C (secure_upper e))))"

definition os_region :: "keystone \<Rightarrow> u64 \<times> u64 \<times> u64" where
  "os_region s = (if enclave_mode s
     then (11, shared_lower (enclaves s (current_enclave s)), shared_upper (enclaves s (current_enclave s)))
     else (15, 0, MAX_PAYLOAD_SIZE))"

definition os_seg_ok :: "keystone_config \<Rightarrow> keystone \<Rightarrow> seg \<Rightarrow> bool" where
  "os_seg_ok C s sg \<longleftrightarrow> (case os_region s of (perm, l, h) \<Rightarrow> case sg of (c0, c1, lo, hi) \<Rightarrow> c0 AND 24 = 0 \<and>
     c1 = perm \<and> lo = drop_bit 2 (offset_to_phys C l) \<and> hi = drop_bit 2 (offset_to_phys C h))"

definition kpmp_ok :: "keystone_config \<Rightarrow> keystone \<Rightarrow> bool" where
  "kpmp_ok C s \<longleftrightarrow>
     (\<forall>i. eid_is_valid i \<longrightarrow> seg_ok C (enclaves s i) (seg (csrs s) (unat i))) \<and>
     os_seg_ok C s (seg (csrs s) 3) \<and>
     (\<forall>n < 16. 8 \<le> n \<longrightarrow> pmpcfg_read (csrs s) n AND 24 = PMPCFG_A_OFF)"

definition keystone_inv :: "keystone_config \<Rightarrow> keystone \<Rightarrow> bool" where
  "keystone_inv C s \<longleftrightarrow> ktable_ok s \<and> (hardware C \<longrightarrow> kpmp_ok C s)"

lemma eid_cases: "eid_is_valid i \<longleftrightarrow> i = 0 \<or> i = 1 \<or> i = 2"
proof
  assume "eid_is_valid i"
  then have "unat i < 3" by (simp add: eid_is_valid_def word_less_nat_alt)
  then have "unat i = 0 \<or> unat i = 1 \<or> unat i = 2" by arith
  then show "i = 0 \<or> i = 1 \<or> i = 2" by (auto simp: word_unat_eq_iff)
qed (auto simp: eid_is_valid_def)

lemma eid_unat: "eid_is_valid i \<Longrightarrow> unat i < 3"
  by (simp add: eid_is_valid_def word_less_nat_alt)

section \<open>The register operations\<close>

lemma chmod_eq:
  "eid_is_valid eid \<Longrightarrow> chmod_pmp_region eid p f = Some (pmpcfg_write (Suc (2 * unat eid)) (8 OR p) f)"
  by (auto simp: eid_cases chmod_pmp_region_def eid_to_pmp_upper_def eid_to_pmp_lower_def)

lemma write_pair_eq: "eid_is_valid eid \<Longrightarrow> write_pmp_pair eid lo hi f = Some (pair_write (unat eid) lo hi f)"
  by (auto simp: eid_cases write_pmp_pair_def eid_to_pmp_upper_def eid_to_pmp_lower_def pmpaddr_write_nr_def
      pair_write_def)

lemma remap_os_eq:
  "remap_os_region C f = Some (pmpcfg_write 7 15 (pair_write 3 (offset_to_phys C 0) (offset_to_phys C 0x40000000) f))"
  by (simp add: remap_os_region_def pmpaddr_write_nr_def pair_write_def)

lemma remap_shared_eq:
  "remap_shared_region C lo hi f = Some (pmpcfg_write 7 11 (pair_write 3 (offset_to_phys C lo) (offset_to_phys C hi) f))"
  by (simp add: remap_shared_region_def pmpaddr_write_nr_def pair_write_def)

lemma seg_perm_write:
  assumes "v AND 0xff = v" and "i < 4" and "j < 4"
  shows "seg (pmpcfg_write (Suc (2 * i)) v f) j = (if i = j then (fst (seg f j), v, snd (snd (seg f j))) else seg f j)"
  using seg_cfg_write [OF assms, of f] by (simp add: seg_def)

lemma seg_perm_write7:
  assumes "v AND 0xff = v" and "j < 4"
  shows "seg (pmpcfg_write 7 v f) j = (if 3 = j then (fst (seg f j), v, snd (snd (seg f j))) else seg f j)"
  using seg_perm_write [OF assms(1) _ assms(2), of 3 f] by simp

lemma seg_bounds_write:
  assumes "i < 4" and "j < 4"
  shows "seg (pair_write i l h f) j =
    (if i = j then (fst (seg f j), fst (snd (seg f j)), drop_bit 2 l, drop_bit 2 h) else seg f j)"
  using seg_pair_write [OF assms, of l h f] by (simp add: seg_def)

lemma high_cfg_perm: "v AND 0xff = v \<Longrightarrow> i < 4 \<Longrightarrow> 8 \<le> n \<Longrightarrow> n < 16 \<Longrightarrow>
    pmpcfg_read (pmpcfg_write (Suc (2 * i)) v f) n = pmpcfg_read f n"
  by (subst pmpcfg_read_write) simp_all

lemma high_cfg_perm7: "v AND 0xff = v \<Longrightarrow> 8 \<le> n \<Longrightarrow> n < 16 \<Longrightarrow> pmpcfg_read (pmpcfg_write 7 v f) n = pmpcfg_read f n"
  by (subst pmpcfg_read_write) simp_all

lemma high_cfg_pair: "i < 4 \<Longrightarrow> pmpcfg_read (pair_write i l h f) n = pmpcfg_read f n"
  by (drule less4_cases) (intro pmpcfg_read_cong; auto simp: pair_write_def pmp_addr_regs_def csr_simps csr_base_def)

lemma load_keystone_other:
  "c \<in> set seg_csrs \<Longrightarrow> csr_read (load_csrs keystone_csrs st f) c = csr_read f c"
  by (intro load_csrs_other) (auto simp: keystone_csrs_def csr_base_def seg_csrs_def pmp_addr_regs_def)

lemma load_keystone_seg: "i < 4 \<Longrightarrow> seg (load_csrs keystone_csrs st f) i = seg f i"
  by (rule seg_cong) (rule load_keystone_other)

lemma load_keystone_cfg: "pmpcfg_read (load_csrs keystone_csrs st f) n = pmpcfg_read f n"
  by (intro pmpcfg_read_cong load_keystone_other) (simp_all add: seg_csrs_def)

lemmas seg_simps = seg_perm_write seg_perm_write7 seg_bounds_write high_cfg_perm high_cfg_perm7 high_cfg_pair
  load_keystone_seg load_keystone_cfg

section \<open>Preservation\<close>

lemma ktable_okD:
  assumes "ktable_ok s"
  shows "eid_is_valid i \<Longrightarrow> encl_ok (enclaves s i)"
    and "eid_is_valid i \<Longrightarrow> eid_is_valid j \<Longrightarrow> i \<noteq> j \<Longrightarrow> encl_apart (enclaves s i) (enclaves s j)"
    and "eid_is_valid i \<Longrightarrow> status (enclaves s i) = ENCLAVE_RUNNING \<longleftrightarrow> enclave_mode s \<and> current_enclave s = i"
    and "enclave_mode s \<Longrightarrow> eid_is_valid (current_enclave s)"
  using assms by (auto simp: ktable_ok_def)

lemma unat_valid_eq: "eid_is_valid i \<Longrightarrow> eid_is_valid j \<Longrightarrow> unat i = unat j \<longleftrightarrow> i = j"
  by (simp add: word_unat_eq_iff)

lemma no_overlapD:
  assumes "\<not> is_region_overlap s lo hi" and "eid_is_valid i"
  shows "secure_upper (enclaves s i) \<le> lo \<or> hi \<le> secure_lower (enclaves s i)"
  using assms by (auto simp: is_region_overlap_def eid_cases not_less)

lemma kpmp_okD:
  assumes "kpmp_ok C s"
  shows "eid_is_valid i \<Longrightarrow> seg_ok C (enclaves s i) (seg (csrs s) (unat i))" and "os_seg_ok C s (seg (csrs s) 3)"
    and "n < 16 \<Longrightarrow> 8 \<le> n \<Longrightarrow> pmpcfg_read (csrs s) n AND 24 = 0"
  using assms by (auto simp: kpmp_ok_def)

lemma seg_ok_off: "seg_ok C e sg \<Longrightarrow> fst sg AND 24 = 0" "os_seg_ok C s sg \<Longrightarrow> fst sg AND 24 = 0"
  by (auto simp: seg_ok_def os_seg_ok_def split: prod.splits)

text \<open>Changing one enclave, its pair of registers and the last pair.\<close>

lemma kpmp_ok_update:
  assumes K: "kpmp_ok C s" and eid: "eid_is_valid eid"
    and oth: "\<And>i. i \<noteq> eid \<Longrightarrow> enclaves t i = enclaves s i"
    and segs: "\<And>i. eid_is_valid i \<Longrightarrow> i \<noteq> eid \<Longrightarrow> seg (csrs t) (unat i) = seg (csrs s) (unat i)"
    and own: "seg_ok C (enclaves t eid) (seg (csrs t) (unat eid))"
    and os: "os_seg_ok C t (seg (csrs t) 3)"
    and high: "\<And>n. n < 16 \<Longrightarrow> 8 \<le> n \<Longrightarrow> pmpcfg_read (csrs t) n = pmpcfg_read (csrs s) n"
  shows "kpmp_ok C t"
proof -
  have "seg_ok C (enclaves t i) (seg (csrs t) (unat i))" if "eid_is_valid i" for i
    using own oth [of i] segs [OF that] kpmp_okD(1) [OF K that] by (cases "i = eid") simp_all
  then show ?thesis using os high kpmp_okD(3) [OF K] by (simp add: kpmp_ok_def)
qed

lemma unat_valid: "eid_is_valid i \<Longrightarrow> unat i < 4" "eid_is_valid i \<Longrightarrow> unat i \<noteq> 3" "eid_is_valid i \<Longrightarrow> 3 \<noteq> unat i"
  using eid_unat [of i] by auto

lemma ktable_ok_cong [simp]:
  "ktable_ok (s\<lparr>csrs := f\<rparr>) = ktable_ok s" "ktable_ok (s\<lparr>regs := r\<rparr>) = ktable_ok s"
  "ktable_ok (s\<lparr>kio := io\<rparr>) = ktable_ok s" "ktable_ok (s\<lparr>payload := pl\<rparr>) = ktable_ok s"
  by (simp_all add: ktable_ok_def)

lemma kpmp_ok_cong [simp]:
  "kpmp_ok C (s\<lparr>regs := r\<rparr>) = kpmp_ok C s"
  "kpmp_ok C (s\<lparr>kio := io\<rparr>) = kpmp_ok C s" "kpmp_ok C (s\<lparr>payload := pl\<rparr>) = kpmp_ok C s"
  by (simp_all add: kpmp_ok_def os_seg_ok_def os_region_def)

lemma set_enclave_sel [simp]:
  "enclaves (set_enclave eid f s) = (enclaves s)(eid := f (enclaves s eid))"
  "enclave_mode (set_enclave eid f s) = enclave_mode s" "current_enclave (set_enclave eid f s) = current_enclave s"
  "csrs (set_enclave eid f s) = csrs s" "regs (set_enclave eid f s) = regs s" "payload (set_enclave eid f s) = payload s"
  "host_state (set_enclave eid f s) = host_state s"
  by (simp_all add: set_enclave_def)

lemma region_size:
  assumes "is_region_valid lo hi"
  shows "lo \<le> MAX_PAYLOAD_SIZE" and "hi - lo \<le> MAX_PAYLOAD_SIZE - lo" and "a - lo < hi - lo \<longleftrightarrow> lo \<le> a \<and> a < hi"
proof -
  have r: "lo < hi" "hi \<le> 0x40000000" using assms by (simp_all add: is_region_valid_def)
  then show le: "lo \<le> MAX_PAYLOAD_SIZE" by simp
  show "hi - lo \<le> MAX_PAYLOAD_SIZE - lo"
    using r le by (simp add: word_le_nat_alt word_less_nat_alt unat_sub)
  show "a - lo < hi - lo \<longleftrightarrow> lo \<le> a \<and> a < hi"
  proof (cases "lo \<le> a")
    case True
    then show ?thesis using r by (simp add: word_le_nat_alt word_less_nat_alt unat_sub) arith
  next
    case False
    have h: "unat hi \<le> 0x40000000" using r by (simp add: word_le_nat_alt)
    have "unat (a - lo) = 2 ^ 64 - (unat lo - unat a)"
    proof -
      have e: "unat (lo - a) = unat lo - unat a" and "0 < unat lo - unat a"
        using False by (simp_all add: unat_sub word_le_nat_alt not_le)
      then have "unat (- (lo - a)) = 2 ^ 64 - unat (lo - a)" by (intro unat_uminus) simp
      then show ?thesis unfolding e by (simp only: minus_diff_eq)
    qed
    then show ?thesis using False r h by (simp add: word_le_nat_alt word_less_nat_alt unat_sub)
  qed
qed

section \<open>The calls as one guarded update each\<close>

definition create_ok :: "u64 \<Rightarrow> u64 \<Rightarrow> u64 \<Rightarrow> u64 \<Rightarrow> u64 \<Rightarrow> keystone \<Rightarrow> bool" where
  "create_ok eid lo hi slo shi s \<longleftrightarrow> \<not> enclave_mode s \<and> eid_is_valid eid \<and> status (enclaves s eid) = ENCLAVE_FREE \<and>
     is_region_valid lo hi \<and> is_region_valid slo shi \<and> \<not> is_region_overlap s lo hi"

definition created :: "keystone_config \<Rightarrow> u64 \<Rightarrow> u64 \<Rightarrow> u64 \<Rightarrow> u64 \<Rightarrow> u64 \<Rightarrow> u64 \<Rightarrow> keystone \<Rightarrow> keystone" where
  "created C eid ent lo hi slo shi s =
     set_enclave eid (\<lambda>e. e\<lparr>secure_lower := lo, secure_upper := hi, shared_lower := slo, shared_upper := shi,
       entry := ent, status := ENCLAVE_FRESH\<rparr>)
     (if hardware C
      then s\<lparr>csrs := pair_write (unat eid) (offset_to_phys C lo) (offset_to_phys C hi)
             (pmpcfg_write (Suc (2 * unat eid)) 8 (csrs s))\<rparr>
      else s)"

lemma create_eq:
  "sys_create_enclave C eid ent lo hi slo shi s =
     (if create_ok eid lo hi slo shi s then Return 0 (created C eid ent lo hi slo shi s) else Return (- EINVAL) s)"
  by (simp add: sys_create_enclave_def create_ok_def created_def with_csrs_def chmod_eq remap_pmp_region_def
      write_pair_eq Let_def) (simp add: set_enclave_def)

definition destroy_ok :: "u64 \<Rightarrow> keystone \<Rightarrow> bool" where
  "destroy_ok eid s \<longleftrightarrow> \<not> enclave_mode s \<and> eid_is_valid eid \<and> status (enclaves s eid) \<in> {ENCLAVE_IDLE, ENCLAVE_FRESH}"

definition destroyed :: "keystone_config \<Rightarrow> u64 \<Rightarrow> keystone \<Rightarrow> keystone" where
  "destroyed C eid s =
     (let e = enclaves s eid in
      set_enclave eid (\<lambda>e. e\<lparr>status := ENCLAVE_FREE, secure_lower := 0, secure_upper := 0\<rparr>)
      (s\<lparr>payload := (\<lambda>a. if secure_lower e \<le> a \<and> a < secure_upper e then 0 else payload s a),
        csrs := (if hardware C then pair_write (unat eid) 0 0 (csrs s) else csrs s)\<rparr>))"

lemma destroy_eq:
  assumes "ktable_ok s"
  shows "sys_destroy_enclave C eid s = (if destroy_ok eid s then Return 0 (destroyed C eid s) else Return (- EINVAL) s)"
proof (cases "destroy_ok eid s")
  case True
  then have v: "is_region_valid (secure_lower (enclaves s eid)) (secure_upper (enclaves s eid))"
    using ktable_okD(1) [OF assms, of eid] by (auto simp: destroy_ok_def encl_ok_def)
  have "clear_payload (secure_lower (enclaves s eid)) (secure_upper (enclaves s eid) - secure_lower (enclaves s eid)) s =
    Return () (s\<lparr>payload := (\<lambda>a. if secure_lower (enclaves s eid) \<le> a \<and> a < secure_upper (enclaves s eid)
      then 0 else payload s a)\<rparr>)"
    unfolding clear_payload_def region_size(3) [OF v] using region_size(1,2) [OF v] by simp
  with True show ?thesis
    by (auto simp: sys_destroy_enclave_def destroy_ok_def destroyed_def Let_def with_csrs_def free_pmp_region_def
        write_pair_eq set_enclave_def)
next
  case False
  then show ?thesis by (auto simp: sys_destroy_enclave_def destroy_ok_def)
qed

definition resume_ok :: "u64 \<Rightarrow> keystone \<Rightarrow> bool" where
  "resume_ok eid s \<longleftrightarrow> \<not> enclave_mode s \<and> eid_is_valid eid \<and> status (enclaves s eid) = ENCLAVE_IDLE"

definition resumed :: "keystone_config \<Rightarrow> u64 \<Rightarrow> keystone \<Rightarrow> keystone" where
  "resumed C eid s =
     (let e = enclaves s eid; s1 = s\<lparr>enclave_mode := True, current_enclave := eid,
        enclaves := (enclaves s)(eid := e\<lparr>status := ENCLAVE_RUNNING\<rparr>)\<rparr> in
      if hardware C
      then s1\<lparr>host_state := save_cpu_state (regs s) (csrs s) (host_state s), regs := st_regs (encl_state e),
        csrs := pmpcfg_write 7 11 (pair_write 3 (offset_to_phys C (shared_lower e)) (offset_to_phys C (shared_upper e))
          (pmpcfg_write (Suc (2 * unat eid)) 15 (load_csrs keystone_csrs (st_csrs (encl_state e)) (csrs s))))\<rparr>
      else s1)"

lemma resume_eq:
  "sys_resume_enclave C eid s = (if resume_ok eid s then Return 0 (resumed C eid s) else Return (- EINVAL) s)"
  by (simp add: sys_resume_enclave_def resume_ok_def resumed_def with_csrs_def chmod_eq remap_shared_eq Let_def
      restore_encl_state_def save_host_state_def restore_cpu_state_def) (simp add: set_enclave_def)

definition run_ok :: "u64 \<Rightarrow> keystone \<Rightarrow> bool" where
  "run_ok eid s \<longleftrightarrow> \<not> enclave_mode s \<and> eid_is_valid eid \<and> status (enclaves s eid) \<in> {ENCLAVE_IDLE, ENCLAVE_FRESH}"

definition reset_enclave :: "u64 \<Rightarrow> keystone \<Rightarrow> keystone" where
  "reset_enclave eid s = set_enclave eid (\<lambda>e. e\<lparr>encl_state := (encl_state e)\<lparr>st_csrs := (st_csrs (encl_state e))(MEPC := entry e),
     st_regs := (\<lambda>_. 0)\<rparr>, status := ENCLAVE_IDLE\<rparr>) s"

lemma run_eq:
  "sys_run_enclave C eid s = (if run_ok eid s then Return 0 (resumed C eid (reset_enclave eid s)) else Return (- EINVAL) s)"
proof -
  have "run_ok eid s \<Longrightarrow> resume_ok eid (reset_enclave eid s)" by (simp add: run_ok_def resume_ok_def reset_enclave_def)
  then show ?thesis by (auto simp: sys_run_enclave_def run_ok_def resume_eq reset_enclave_def [symmetric])
qed

definition exited :: "keystone_config \<Rightarrow> keystone \<Rightarrow> keystone" where
  "exited C s =
     (let eid = current_enclave s; e = enclaves s eid; s1 = s\<lparr>enclave_mode := False, current_enclave := - 1\<rparr> in
      if hardware C
      then s1\<lparr>enclaves := (enclaves s)(eid := e\<lparr>status := ENCLAVE_IDLE,
          encl_state := save_cpu_state (regs s) (csrs s) (encl_state e)\<rparr>),
        regs := st_regs (host_state s),
        csrs := pmpcfg_write 7 15 (pair_write 3 (offset_to_phys C 0) (offset_to_phys C MAX_PAYLOAD_SIZE)
          (pmpcfg_write (Suc (2 * unat eid)) 8 (load_csrs keystone_csrs (st_csrs (host_state s)) (csrs s))))\<rparr>
      else s1\<lparr>enclaves := (enclaves s)(eid := e\<lparr>status := ENCLAVE_IDLE\<rparr>)\<rparr>)"

lemma exit_eq:
  assumes "ktable_ok s"
  shows "sys_exit_enclave C s = (if enclave_mode s then Return 0 (exited C s) else Return (- EINVAL) s)"
proof -
  have "enclave_mode s \<Longrightarrow> eid_is_valid (current_enclave s)" using ktable_okD(4) [OF assms] .
  moreover have "eid_is_valid i \<Longrightarrow> \<not> 3 \<le> i" for i by (simp add: eid_is_valid_def)
  ultimately show ?thesis
    by (simp add: sys_exit_enclave_def exited_def with_csrs_def chmod_eq remap_os_eq Let_def
        restore_host_state_def save_encl_state_def restore_cpu_state_def) (simp add: set_enclave_def)
qed

section \<open>Preservation of the invariant\<close>

lemma create_inv:
  assumes inv: "keystone_inv C s" and ok: "create_ok eid lo hi slo shi s"
  shows "keystone_inv C (created C eid ent lo hi slo shi s)"
proof -
  have g: "\<not> enclave_mode s" "eid_is_valid eid" "is_region_valid lo hi" "is_region_valid slo shi"
    "\<not> is_region_overlap s lo hi"
    using ok by (simp_all add: create_ok_def)
  have tab: "ktable_ok s" using inv by (simp add: keystone_inv_def)
  have "ktable_ok (created C eid ent lo hi slo shi s)"
    using g tab no_overlapD [OF g(5)]
    by (auto simp: created_def ktable_ok_def encl_ok_def encl_apart_def)
  moreover have "kpmp_ok C (created C eid ent lo hi slo shi s)" if hw: "hardware C"
  proof -
    have K: "kpmp_ok C s" using inv hw by (simp add: keystone_inv_def)
    show ?thesis
    proof (rule kpmp_ok_update [OF K g(2)])
    qed (use seg_ok_off(1) [OF kpmp_okD(1) [OF K g(2)]] kpmp_okD(2) [OF K] g hw in
        \<open>simp_all add: created_def seg_simps unat_valid unat_valid_eq seg_ok_def os_seg_ok_def os_region_def\<close>)
  qed
  ultimately show ?thesis by (simp add: keystone_inv_def)
qed

lemma destroy_inv:
  assumes inv: "keystone_inv C s" and ok: "destroy_ok eid s"
  shows "keystone_inv C (destroyed C eid s)"
proof -
  have g: "\<not> enclave_mode s" "eid_is_valid eid" "status (enclaves s eid) \<in> {ENCLAVE_IDLE, ENCLAVE_FRESH}"
    using ok by (simp_all add: destroy_ok_def)
  have tab: "ktable_ok s" using inv by (simp add: keystone_inv_def)
  have "ktable_ok (destroyed C eid s)"
    using g tab by (auto simp: destroyed_def Let_def ktable_ok_def encl_ok_def encl_apart_def)
  moreover have "kpmp_ok C (destroyed C eid s)" if hw: "hardware C"
  proof -
    have K: "kpmp_ok C s" using inv hw by (simp add: keystone_inv_def)
    note e = kpmp_okD(1) [OF K g(2)]
    have c1: "fst (snd (seg (csrs s) (unat eid))) = 8" using e g(3) by (auto simp: seg_ok_def split: prod.splits)
    show ?thesis
    proof (rule kpmp_ok_update [OF K g(2)])
    qed (use seg_ok_off(1) [OF e] c1 kpmp_okD(2) [OF K] g hw in
        \<open>simp_all add: destroyed_def Let_def seg_simps unat_valid unat_valid_eq seg_ok_def os_seg_ok_def os_region_def\<close>)
  qed
  ultimately show ?thesis by (simp add: keystone_inv_def)
qed

lemma keystone_resume_inv:
  assumes inv: "keystone_inv C s" and ok: "resume_ok eid s"
  shows "keystone_inv C (resumed C eid s)"
proof -
  have g: "\<not> enclave_mode s" "eid_is_valid eid" "status (enclaves s eid) = ENCLAVE_IDLE"
    using ok by (simp_all add: resume_ok_def)
  have tab: "ktable_ok s" using inv by (simp add: keystone_inv_def)
  have "ktable_ok (resumed C eid s)"
    using g tab by (auto simp: resumed_def Let_def ktable_ok_def encl_ok_def encl_apart_def)
  moreover have "kpmp_ok C (resumed C eid s)" if hw: "hardware C"
  proof -
    have K: "kpmp_ok C s" using inv hw by (simp add: keystone_inv_def)
    note e = kpmp_okD(1) [OF K g(2)]
    have b: "snd (snd (seg (csrs s) (unat eid))) = (drop_bit 2 (offset_to_phys C (secure_lower (enclaves s eid))),
        drop_bit 2 (offset_to_phys C (secure_upper (enclaves s eid))))"
      using e g(3) by (auto simp: seg_ok_def split: prod.splits)
    show ?thesis
    proof (rule kpmp_ok_update [OF K g(2)])
    qed (use seg_ok_off(1) [OF e] seg_ok_off(2) [OF kpmp_okD(2) [OF K]] b g hw in
        \<open>simp_all add: resumed_def Let_def seg_simps unat_valid unat_valid_eq seg_ok_def os_seg_ok_def os_region_def\<close>)
  qed
  ultimately show ?thesis by (simp add: keystone_inv_def)
qed

lemma exit_inv:
  assumes inv: "keystone_inv C s" and en: "enclave_mode s"
  shows "keystone_inv C (exited C s)"
proof -
  have tab: "ktable_ok s" using inv by (simp add: keystone_inv_def)
  have v: "eid_is_valid (current_enclave s)" using ktable_okD(4) [OF tab en] .
  have r: "status (enclaves s (current_enclave s)) = ENCLAVE_RUNNING" using ktable_okD(3) [OF tab v] en by simp
  have "ktable_ok (exited C s)"
    using en v r tab by (auto simp: exited_def Let_def ktable_ok_def encl_ok_def encl_apart_def)
  moreover have "kpmp_ok C (exited C s)" if hw: "hardware C"
  proof -
    have K: "kpmp_ok C s" using inv hw by (simp add: keystone_inv_def)
    note e = kpmp_okD(1) [OF K v]
    have b: "snd (snd (seg (csrs s) (unat (current_enclave s)))) =
        (drop_bit 2 (offset_to_phys C (secure_lower (enclaves s (current_enclave s)))),
         drop_bit 2 (offset_to_phys C (secure_upper (enclaves s (current_enclave s)))))"
      using e r by (auto simp: seg_ok_def split: prod.splits)
    show ?thesis
    proof (rule kpmp_ok_update [OF K v])
    qed (use seg_ok_off(1) [OF e] seg_ok_off(2) [OF kpmp_okD(2) [OF K]] b v hw in
        \<open>simp_all add: exited_def Let_def seg_simps unat_valid unat_valid_eq seg_ok_def os_seg_ok_def os_region_def\<close>)
  qed
  ultimately show ?thesis by (simp add: keystone_inv_def)
qed

lemma reset_inv: "keystone_inv C s \<Longrightarrow> run_ok eid s \<Longrightarrow> keystone_inv C (reset_enclave eid s)"
  by (auto simp: keystone_inv_def ktable_ok_def kpmp_ok_def run_ok_def reset_enclave_def encl_ok_def encl_apart_def
      seg_ok_def os_seg_ok_def os_region_def split: prod.splits)

lemma run_inv: "keystone_inv C s \<Longrightarrow> run_ok eid s \<Longrightarrow> keystone_inv C (resumed C eid (reset_enclave eid s))"
  by (rule keystone_resume_inv [OF reset_inv]) (simp_all add: run_ok_def resume_ok_def reset_enclave_def)

lemma keystone_inv_regs: "keystone_inv C (s\<lparr>regs := r\<rparr>) = keystone_inv C s"
  by (simp add: keystone_inv_def)

lemma keystone_inv_csrs:
  assumes "keystone_inv C s" and "\<And>c. c \<in> set seg_csrs \<Longrightarrow> csr_read f c = csr_read (csrs s) c"
  shows "keystone_inv C (s\<lparr>csrs := f\<rparr>)"
proof -
  have "seg f i = seg (csrs s) i" if "i < 4" for i using seg_cong [OF assms(2) that] .
  moreover have "pmpcfg_read f n = pmpcfg_read (csrs s) n" for n
    using assms(2) by (intro pmpcfg_read_cong) (simp_all add: seg_csrs_def)
  ultimately show ?thesis
    using assms(1) unat_valid(1)
    by (auto simp: keystone_inv_def kpmp_ok_def os_seg_ok_def os_region_def)
qed

lemma keystone_syscall_inv:
  assumes inv: "keystone_inv C s"
  shows "holds_after (keystone_inv C) (syscall C s)"
proof -
  have tab: "ktable_ok s" using inv by (simp add: keystone_inv_def)
  have m: "holds_after (keystone_inv C) (map_outcome id id (\<lambda>i. s\<lparr>kio := i\<rparr>) (do_mcall v r i))" for v r i
    using inv do_mcall_not_Panic [of v r i] by (cases "do_mcall v r i") (simp_all add: keystone_inv_def)
  show ?thesis
    unfolding syscall_def Let_def create_eq destroy_eq [OF tab] run_eq exit_eq [OF tab] resume_eq
    by (intro holds_after_if m)
      (simp_all add: inv create_inv destroy_inv run_inv exit_inv keystone_resume_inv)
qed

lemma keystone_ecall_inv:
  assumes inv: "keystone_inv C s"
  shows "holds_after (keystone_inv C) (do_trap_ecall_s C s)"
  unfolding do_trap_ecall_s_def Let_def
proof (rule holds_after_obind [OF keystone_syscall_inv [OF inv]])
  fix a t assume t: "keystone_inv C t"
  let ?t = "t\<lparr>regs := (regs t)(A0 := a)\<rparr>"
  have i: "keystone_inv C ?t" using t by (simp add: keystone_inv_regs)
  have "keystone_inv C (?t\<lparr>csrs := csr_write MEPC (csr_read (csrs ?t) MEPC + 4) (csrs ?t)\<rparr>)"
    by (rule keystone_inv_csrs [OF i]) (auto simp: seg_csrs_def pmp_addr_regs_def csr_simps csr_base_def)
  with i show "holds_after (keystone_inv C) (Return () (if regs s A7 \<noteq> 11
      then ?t\<lparr>csrs := csr_write MEPC (csr_read (csrs ?t) MEPC + 4) (csrs ?t)\<rparr> else ?t))"
    by simp
qed

end
