(* ===== verification/Keystone_Main.thy ===== *)
theory Keystone_Main
  imports Keystone_Inv
begin

text \<open>
  The Keystone monitor with an arbitrary host and arbitrary enclaves: what the protection unit allows,
  boot and the steps of the machine, and the theorems.
\<close>

unbundle bit_operations_syntax

section \<open>Memory protection\<close>

definition keystone_layout :: "keystone_config \<Rightarrow> bool" where
  "keystone_layout C \<longleftrightarrow> hardware C \<and> take_bit 12 (payload_start C) = 0 \<and> unat (payload_start C) + 0x40000000 \<le> 2 ^ 56"

text \<open>The access check over pairs of entries: the even entries only carry lower bounds.\<close>

fun seg_walk :: "bool \<Rightarrow> seg list \<Rightarrow> u64 \<Rightarrow> u64 \<Rightarrow> u64 option" where
  "seg_walk any [] ptr sz = Some (if \<not> any then 7 else 0)"
| "seg_walk any ((c0, c1, lo, hi) # ss) ptr sz =
     (if c1 AND 24 = 0 then seg_walk any ss ptr sz
      else if c1 AND 24 = 8 then
        (if ptr + sz > push_bit 2 lo \<and> ptr < push_bit 2 hi
         then (if ptr \<ge> push_bit 2 lo \<and> ptr + sz \<le> push_bit 2 hi then Some (c1 AND 7) else Some 0)
         else seg_walk True ss ptr sz)
      else None)"

lemma pmp_walk_pair:
  "c0 AND 24 = 0 \<Longrightarrow> pmp_walk prev any ((c0, lo) # (c1, hi) # es) ptr sz =
     (if c1 AND 24 = 0 then pmp_walk (push_bit 2 hi) any es ptr sz
      else if c1 AND 24 = 8 then
        (if ptr + sz > push_bit 2 lo \<and> ptr < push_bit 2 hi
         then (if ptr \<ge> push_bit 2 lo \<and> ptr + sz \<le> push_bit 2 hi then Some (c1 AND 7) else Some 0)
         else pmp_walk (push_bit 2 hi) True es ptr sz)
      else None)"
  by (simp add: Let_def)

lemma pmp_walk_pairs:
  assumes "\<forall>s \<in> set ss. fst s AND 24 = 0" and "\<And>p b. pmp_walk p b es ptr sz = Some (if \<not> b then 7 else 0)"
  shows "pmp_walk prev any (concat (map (\<lambda>(c0, c1, lo, hi). [(c0, lo), (c1, hi)]) ss) @ es) ptr sz = seg_walk any ss ptr sz"
  using assms(1)
proof (induction ss arbitrary: prev any)
  case Nil
  then show ?case by (simp add: assms(2))
next
  case (Cons s ss)
  obtain c0 c1 lo hi where s: "s = (c0, c1, lo, hi)" by (cases s)
  have c0: "c0 AND 24 = 0" and ss: "\<forall>s \<in> set ss. fst s AND 24 = 0" using Cons.prems by (simp_all add: s)
  let ?es = "concat (map (\<lambda>(c0, c1, lo, hi). [(c0, lo), (c1, hi)]) ss) @ es"
  have l: "concat (map (\<lambda>(c0, c1, lo, hi). [(c0, lo), (c1, hi)]) ((c0, c1, lo, hi) # ss)) @ es =
      (c0, lo) # (c1, hi) # ?es"
    by simp
  show ?case unfolding s l pmp_walk_pair [OF c0] Cons.IH [OF ss] seg_walk.simps(2) ..
qed

lemma pmp_walk_offs: "\<forall>(c, a) \<in> set es. c AND 24 = 0 \<Longrightarrow> pmp_walk p b es ptr sz = Some (if \<not> b then 7 else 0)"
  by (induction es arbitrary: p) auto

lemma pmp_privs_segs:
  assumes "\<And>i. i < 4 \<Longrightarrow> fst (seg f i) AND 24 = 0" and "\<And>n. n < 16 \<Longrightarrow> 8 \<le> n \<Longrightarrow> pmpcfg_read f n AND 24 = 0"
  shows "pmp_privs f ptr sz = seg_walk False [seg f 0, seg f 1, seg f 2, seg f 3] ptr sz"
proof -
  let ?es = "[(pmpcfg_read f 8, csr_read f PMPADDR8), (pmpcfg_read f 9, csr_read f PMPADDR9),
     (pmpcfg_read f 10, csr_read f PMPADDR10), (pmpcfg_read f 11, csr_read f PMPADDR11),
     (pmpcfg_read f 12, csr_read f PMPADDR12), (pmpcfg_read f 13, csr_read f PMPADDR13),
     (pmpcfg_read f 14, csr_read f PMPADDR14), (pmpcfg_read f 15, csr_read f PMPADDR15)]"
  let ?ss = "[seg f 0, seg f 1, seg f 2, seg f 3]"
  have "pmp_entries f = concat (map (\<lambda>(c0, c1, lo, hi). [(c0, lo), (c1, hi)]) ?ss) @ ?es"
    by (simp add: pmp_entries_list seg_def pmp_addr_regs_def)
  moreover have "pmp_walk p b ?es ptr sz = Some (if \<not> b then 7 else 0)" for p b
    by (rule pmp_walk_offs) (simp add: assms(2))
  moreover have "\<forall>s \<in> set ?ss. fst s AND 24 = 0" using assms(1) by simp
  ultimately show ?thesis unfolding pmp_privs_def by (simp only: pmp_walk_pairs)
qed

text \<open>Addresses: offsets up to the payload size are translated without wrap-around.\<close>

lemma unat_phys:
  assumes "keystone_layout C" and "a \<le> MAX_PAYLOAD_SIZE"
  shows "unat (offset_to_phys C a) = unat (payload_start C) + unat a"
proof -
  have "unat a \<le> 0x40000000" using assms(2) by (simp add: word_le_nat_alt)
  then show ?thesis
    using assms(1) unat_plus_small [of "payload_start C" a] by (simp add: offset_to_phys_def keystone_layout_def)
qed

lemma phys_mono:
  assumes "keystone_layout C" and "a \<le> MAX_PAYLOAD_SIZE" and "b \<le> MAX_PAYLOAD_SIZE"
  shows "offset_to_phys C a \<le> offset_to_phys C b \<longleftrightarrow> a \<le> b"
  using unat_phys [OF assms(1,2)] unat_phys [OF assms(1,3)] by (simp add: word_le_nat_alt)

lemma push_drop_aligned2:
  assumes "take_bit 2 x = 0"
  shows "push_bit 2 (drop_bit 2 (x :: u64)) = x"
proof (rule bit_word_eqI)
  fix n :: nat
  assume n: "n < LENGTH(64)"
  have "n < 2 \<Longrightarrow> \<not> bit x n" using arg_cong [OF assms, of "\<lambda>w. bit w n"] by (simp add: bit_simps)
  moreover have "2 \<le> n \<Longrightarrow> Suc (Suc (n - 2)) = n" by arith
  ultimately show "bit (push_bit 2 (drop_bit 2 x)) n = bit x n"
    using n by (cases "n < 2") (auto simp: bit_simps)
qed

lemma phys_aligned:
  assumes "keystone_layout C" and "a mod 4 = 0"
  shows "push_bit 2 (drop_bit 2 (offset_to_phys C a)) = offset_to_phys C a"
proof (rule push_drop_aligned2)
  have "take_bit 2 (take_bit 12 (payload_start C)) = 0" using assms(1) by (simp add: keystone_layout_def)
  then have p: "take_bit 2 (payload_start C) = 0" by (simp add: take_bit_take_bit)
  have "take_bit 2 a = 0" using assms(2) by (simp add: take_bit_eq_mod)
  then show "take_bit 2 (offset_to_phys C a) = 0"
    using p by (simp add: offset_to_phys_def take_bit_eq_0_iff)
qed

text \<open>One pair of entries: it decides accesses that touch its region and passes on the others.\<close>

definition touches :: "keystone_config \<Rightarrow> u64 \<Rightarrow> u64 \<Rightarrow> u64 \<Rightarrow> u64 \<Rightarrow> bool" where
  "touches C lo hi ptr sz \<longleftrightarrow> ptr + sz > offset_to_phys C lo \<and> ptr < offset_to_phys C hi"

definition inside :: "keystone_config \<Rightarrow> u64 \<Rightarrow> u64 \<Rightarrow> u64 \<Rightarrow> u64 \<Rightarrow> bool" where
  "inside C lo hi ptr sz \<longleftrightarrow> ptr \<ge> offset_to_phys C lo \<and> ptr + sz \<le> offset_to_phys C hi"

definition encl_touches :: "keystone_config \<Rightarrow> enclave \<Rightarrow> u64 \<Rightarrow> u64 \<Rightarrow> bool" where
  "encl_touches C e ptr sz \<longleftrightarrow> status e \<noteq> ENCLAVE_FREE \<and> touches C (secure_lower e) (secure_upper e) ptr sz"

definition encl_perm :: "enclave \<Rightarrow> u64" where
  "encl_perm e = (if status e = ENCLAVE_RUNNING then 7 else 0)"

lemma seg_walk_encl:
  assumes L: "keystone_layout C" and ok: "encl_ok e" and sg: "seg_ok C e sg"
  shows "\<exists>b. seg_walk any (sg # ss) ptr sz = (if encl_touches C e ptr sz
    then Some (if inside C (secure_lower e) (secure_upper e) ptr sz then encl_perm e else 0)
    else seg_walk b ss ptr sz) \<and> (any \<longrightarrow> b)"
proof -
  obtain c0 c1 lo hi where s: "sg = (c0, c1, lo, hi)" by (cases sg)
  show ?thesis
  proof (cases "status e = ENCLAVE_FREE")
    case True
    then have t: "\<not> encl_touches C e ptr sz" by (simp add: encl_touches_def)
    from True sg have "c1 AND 24 = 0 \<or> (c1 = 8 \<and> lo = 0 \<and> hi = 0)" by (simp add: seg_ok_def s)
    then show ?thesis
    proof
      assume "c1 AND 24 = 0"
      with t show ?thesis by (intro exI [of _ any]) (simp add: s)
    next
      assume "c1 = 8 \<and> lo = 0 \<and> hi = 0"
      with t show ?thesis by (intro exI [of _ True]) (simp add: s)
    qed
  next
    case False
    then have v: "is_region_valid (secure_lower e) (secure_upper e)" using ok by (simp add: encl_ok_def)
    have a: "push_bit 2 lo = offset_to_phys C (secure_lower e)" "push_bit 2 hi = offset_to_phys C (secure_upper e)"
      using False sg v phys_aligned [OF L] by (simp_all add: seg_ok_def s is_region_valid_def)
    have c: "c1 = (if status e = ENCLAVE_RUNNING then 15 else 8)" using False sg by (simp add: seg_ok_def s)
    have "c1 AND 24 = 8" "c1 AND 7 = encl_perm e" by (simp_all add: c encl_perm_def)
    with a False show ?thesis
      by (intro exI [of _ True]) (simp add: s encl_touches_def touches_def inside_def)
  qed
qed

definition encl_rule :: "keystone_config \<Rightarrow> u64 \<Rightarrow> u64 \<Rightarrow> enclave \<Rightarrow> u64 \<Rightarrow> u64" where
  "encl_rule C ptr sz e d = (if encl_touches C e ptr sz
     then (if inside C (secure_lower e) (secure_upper e) ptr sz then encl_perm e else 0) else d)"

definition os_rule :: "keystone_config \<Rightarrow> u64 \<Rightarrow> u64 \<Rightarrow> keystone \<Rightarrow> u64" where
  "os_rule C ptr sz s = (case os_region s of (cfg, lo, hi) \<Rightarrow>
     if touches C lo hi ptr sz \<and> inside C lo hi ptr sz then cfg AND 7 else 0)"

lemma seg_walk_os:
  assumes L: "keystone_layout C" and tab: "ktable_ok s" and sg: "os_seg_ok C s sg"
  shows "seg_walk b [sg] ptr sz = Some (os_rule C ptr sz s)"
proof -
  obtain c0 c1 lo hi where s: "sg = (c0, c1, lo, hi)" by (cases sg)
  obtain cfg l h where o: "os_region s = (cfg, l, h)" by (cases "os_region s")
  have al: "l mod 4 = 0 \<and> h mod 4 = 0 \<and> cfg AND 24 = 8"
  proof (cases "enclave_mode s")
    case True
    then have v: "eid_is_valid (current_enclave s)" using ktable_okD(4) [OF tab] by simp
    then have "status (enclaves s (current_enclave s)) = ENCLAVE_RUNNING" using True ktable_okD(3) [OF tab v] by simp
    then show ?thesis using True o ktable_okD(1) [OF tab v] by (auto simp: os_region_def encl_ok_def is_region_valid_def)
  next
    case False
    then show ?thesis using o by (auto simp: os_region_def)
  qed
  have e: "push_bit 2 lo = offset_to_phys C l" "push_bit 2 hi = offset_to_phys C h" "c1 = cfg"
    using sg al phys_aligned [OF L] by (simp_all add: os_seg_ok_def s o)
  show ?thesis using al by (simp add: s e os_rule_def o touches_def inside_def)
qed

text \<open>What the protection unit grants: the first enclave that an access touches decides.\<close>

lemma keystone_privs:
  assumes L: "keystone_layout C" and inv: "keystone_inv C s"
  shows "pmp_privs (csrs s) ptr sz = Some (encl_rule C ptr sz (enclaves s 0) (encl_rule C ptr sz (enclaves s 1)
    (encl_rule C ptr sz (enclaves s 2) (os_rule C ptr sz s))))"
proof -
  have tab: "ktable_ok s" and K: "kpmp_ok C s" using inv L by (simp_all add: keystone_inv_def keystone_layout_def)
  have v: "eid_is_valid 0" "eid_is_valid 1" "eid_is_valid 2" by (simp_all add: eid_is_valid_def)
  note sg = kpmp_okD(1) [OF K v(1)] kpmp_okD(1) [OF K v(2)] kpmp_okD(1) [OF K v(3)]
  note ok = ktable_okD(1) [OF tab v(1)] ktable_okD(1) [OF tab v(2)] ktable_okD(1) [OF tab v(3)]
  have f0: "fst (seg (csrs s) i) AND 24 = 0" if "i < 4" for i
    using less4_cases [OF that] seg_ok_off(1) [OF sg(1)] seg_ok_off(1) [OF sg(2)] seg_ok_off(1) [OF sg(3)]
      seg_ok_off(2) [OF kpmp_okD(2) [OF K]] by auto
  have "pmp_privs (csrs s) ptr sz = seg_walk False [seg (csrs s) 0, seg (csrs s) 1, seg (csrs s) 2, seg (csrs s) 3] ptr sz"
    by (intro pmp_privs_segs f0 kpmp_okD(3) [OF K])
  moreover have w: "seg_walk any (seg (csrs s) (unat i) # ss) ptr sz = Some (encl_rule C ptr sz (enclaves s i) d)"
    if "eid_is_valid i" and "\<And>b. seg_walk b ss ptr sz = Some d" for any i ss d
    using seg_walk_encl [OF L ktable_okD(1) [OF tab that(1)] kpmp_okD(1) [OF K that(1)], of any ss ptr sz] that(2)
    by (auto simp: encl_rule_def)
  ultimately show ?thesis
    using w [OF v(1) w [OF v(2) w [OF v(3) seg_walk_os [OF L tab kpmp_okD(2) [OF K]]]]] by simp
qed

text \<open>An access that touches an enclave that is not running is refused.\<close>

lemma others_denied:
  assumes L: "keystone_layout C" and inv: "keystone_inv C s"
    and i: "eid_is_valid i" "status (enclaves s i) \<noteq> ENCLAVE_RUNNING" "encl_touches C (enclaves s i) ptr sz"
  shows "pmp_privs (csrs s) ptr sz = Some 0"
proof -
  have tab: "ktable_ok s" using inv by (simp add: keystone_inv_def)
  have z: "encl_rule C ptr sz (enclaves s i) d = 0" for d using i by (simp add: encl_rule_def encl_perm_def)
  have "encl_rule C ptr sz (enclaves s j) 0 = 0" if j: "eid_is_valid j" for j
  proof (cases "j = i \<or> status (enclaves s j) \<noteq> ENCLAVE_RUNNING")
    case True
    then show ?thesis using z by (auto simp: encl_rule_def encl_perm_def)
  next
    case False
    then have ap: "encl_apart (enclaves s i) (enclaves s j)" using ktable_okD(2) [OF tab i(1) j] by auto
    have vi: "is_region_valid (secure_lower (enclaves s i)) (secure_upper (enclaves s i))"
      using ktable_okD(1) [OF tab i(1)] i(3) by (auto simp: encl_ok_def encl_touches_def)
    have vj: "is_region_valid (secure_lower (enclaves s j)) (secure_upper (enclaves s j))"
      using ktable_okD(1) [OF tab j] False by (auto simp: encl_ok_def)
    have b: "secure_lower (enclaves s i) \<le> MAX_PAYLOAD_SIZE" "secure_upper (enclaves s i) \<le> MAX_PAYLOAD_SIZE"
      "secure_lower (enclaves s j) \<le> MAX_PAYLOAD_SIZE" "secure_upper (enclaves s j) \<le> MAX_PAYLOAD_SIZE"
      using vi vj by (auto simp: is_region_valid_def)
    have "\<not> inside C (secure_lower (enclaves s j)) (secure_upper (enclaves s j)) ptr sz"
      using ap i(3) phys_mono [OF L b(2,3)] phys_mono [OF L b(4,1)]
      by (auto simp: encl_apart_def inside_def encl_touches_def touches_def)
    then show ?thesis by (simp add: encl_rule_def)
  qed
  then have r: "encl_rule C ptr sz (enclaves s 0) 0 = 0" "encl_rule C ptr sz (enclaves s 1) 0 = 0"
    "encl_rule C ptr sz (enclaves s 2) 0 = 0" by (simp_all add: eid_is_valid_def)
  show ?thesis
    unfolding keystone_privs [OF L inv] using i(1) unfolding eid_cases using z r by auto
qed

section \<open>The machine\<close>

definition keystone_boot :: "keystone_config \<Rightarrow> keystone \<Rightarrow> bool" where
  "keystone_boot C s \<longleftrightarrow> (\<exists>s0 r0 hartid dtb r s'. pmp_reset (csrs s0) \<and>
     keystone_main C r0 hartid dtb s0 = Mret r s' \<and> s = s'\<lparr>regs := r\<rparr>)"

definition keystone_may_write :: "keystone_config \<Rightarrow> keystone \<Rightarrow> u64 \<Rightarrow> bool" where
  "keystone_may_write C s a \<longleftrightarrow> a < MAX_PAYLOAD_SIZE \<and>
     \<not> (\<exists>prv. pmp_privs (csrs s) (offset_to_phys C a) 1 = Some prv \<and> prv AND PMPCFG_W = 0)"

definition keystone_smode :: "csr_file \<Rightarrow> csr_file \<Rightarrow> bool" where
  "keystone_smode f g \<longleftrightarrow> (\<forall>c \<in> set (MEDELEG # MIDELEG # seg_csrs). csr_read g c = csr_read f c)"

text \<open>
  A step of the host or of the running enclave changes its registers, the supervisor registers
  and the memory it may write; or the monitor handles a call.
\<close>

inductive keystone_step :: "keystone_config \<Rightarrow> keystone \<Rightarrow> keystone \<Rightarrow> bool" for C :: keystone_config where
  smode_run: "keystone_smode (csrs s) f \<Longrightarrow> (\<And>a. pl a \<noteq> payload s a \<Longrightarrow> keystone_may_write C s a) \<Longrightarrow>
    keystone_step C s (s\<lparr>regs := r, csrs := f, payload := pl\<rparr>)"
| call: "do_trap C EXC_ECALL_S s = Return u s' \<Longrightarrow> keystone_step C s s'"

lemma keystone_do_trap_ecall: "do_trap C EXC_ECALL_S s = do_trap_ecall_s C s"
  by (simp add: do_trap_def generic_do_trap_def trap_dispatch_def)

lemma boot_seg:
  assumes "pmp_reset f"
  shows "i < 4 \<Longrightarrow> fst (seg f i) AND 24 = 0" and "i < 4 \<Longrightarrow> fst (snd (seg f i)) AND 24 = 0"
  using assms by (simp_all add: seg_def pmp_reset_def)

lemma seg_ok_free:
  "status e = ENCLAVE_FREE \<Longrightarrow> fst sg AND 24 = 0 \<Longrightarrow> fst (snd sg) AND 24 = 0 \<Longrightarrow> seg_ok C e sg"
  by (cases sg) (simp add: seg_ok_def)

lemma supervisor_init_inv:
  assumes "keystone_inv C s" and "supervisor_init C r0 h d s = Mret r t"
  shows "keystone_inv C (t\<lparr>regs := r\<rparr>)"
proof -
  obtain f where t: "t = s\<lparr>csrs := f\<rparr>" and f: "\<And>c. c \<in> set seg_csrs \<Longrightarrow> csr_read f c = csr_read (csrs s) c"
  proof
    show "t = s\<lparr>csrs := csrs t\<rparr>" using assms(2) by (auto simp: supervisor_init_def Let_def)
    show "csr_read (csrs t) c = csr_read (csrs s) c" if "c \<in> set seg_csrs" for c
      using assms(2) that
      by (auto simp: supervisor_init_def Let_def seg_csrs_def pmp_addr_regs_def csr_simps csr_base_def)
  qed
  show ?thesis using keystone_inv_csrs [OF assms(1) f] by (simp add: t keystone_inv_regs)
qed

lemma keystone_boot_inv:
  assumes "keystone_boot C s"
  shows "keystone_inv C s"
proof -
  obtain s0 r0 h d r s' where reset: "pmp_reset (csrs s0)" and main: "keystone_main C r0 h d s0 = Mret r s'"
    and s: "s = s'\<lparr>regs := r\<rparr>"
    using assms by (auto simp: keystone_boot_def)
  let ?s = "if CONFIG_VERIFICATION C then init_enclave s0 else (init_enclave s0)\<lparr>csrs :=
    pmpcfg_write 7 15 (pair_write 3 (offset_to_phys C 0) (offset_to_phys C MAX_PAYLOAD_SIZE) (csrs s0))\<rparr>"
  have sup: "supervisor_init C r0 h d ?s = Mret r s'"
    using main by (cases "CONFIG_VERIFICATION C")
      (simp_all add: keystone_main_def keystone_pmp_init_def with_csrs_def remap_os_eq init_enclave_def)
  have "ktable_ok ?s" by (simp add: ktable_ok_def init_enclave_def encl_ok_def encl_apart_def)
  moreover have "kpmp_ok C ?s" if "hardware C"
    using that reset
    by (auto simp: kpmp_ok_def init_enclave_def seg_simps os_seg_ok_def os_region_def pmp_reset_def unat_valid
        boot_seg [OF reset] intro!: seg_ok_free)
  ultimately have "keystone_inv C ?s" by (simp add: keystone_inv_def)
  from supervisor_init_inv [OF this sup] show ?thesis by (simp add: s)
qed

lemma keystone_step_inv:
  assumes "keystone_step C s t" and inv: "keystone_inv C s"
  shows "keystone_inv C t"
  using assms(1)
proof (cases rule: keystone_step.cases)
  case (smode_run f pl r)
  have "keystone_inv C (s\<lparr>regs := r\<rparr>)" using inv by (simp add: keystone_inv_regs)
  then have "keystone_inv C (s\<lparr>regs := r\<rparr>\<lparr>csrs := f\<rparr>)"
    by (rule keystone_inv_csrs) (use smode_run in \<open>auto simp: keystone_smode_def\<close>)
  with smode_run show ?thesis by (simp add: keystone_inv_def)
next
  case (call u)
  then show ?thesis using keystone_ecall_inv [OF inv] by (simp add: keystone_do_trap_ecall)
qed

interpretation keystone_sys: inv_system "keystone_boot C" "keystone_step C" "keystone_inv C" for C
  by unfold_locales (rule keystone_boot_inv, assumption, rule keystone_step_inv)

section \<open>What a step does to enclave memory\<close>

definition region :: "enclave \<Rightarrow> u64 set" where
  "region e = {a. secure_lower e \<le> a \<and> a < secure_upper e}"

definition same_bounds :: "enclave \<Rightarrow> enclave \<Rightarrow> bool" where
  "same_bounds e e' \<longleftrightarrow> secure_lower e' = secure_lower e \<and> secure_upper e' = secure_upper e \<and>
     shared_lower e' = shared_lower e \<and> shared_upper e' = shared_upper e \<and> entry e' = entry e"

text \<open>An existing enclave keeps its memory and its region, or it is destroyed and its memory cleared.\<close>

definition call_effect :: "keystone \<Rightarrow> keystone \<Rightarrow> bool" where
  "call_effect s t \<longleftrightarrow> (\<forall>i. eid_is_valid i \<and> status (enclaves s i) \<noteq> ENCLAVE_FREE \<longrightarrow>
     (if status (enclaves t i) = ENCLAVE_FREE then \<forall>a \<in> region (enclaves s i). payload t a = 0
      else same_bounds (enclaves s i) (enclaves t i) \<and> (\<forall>a \<in> region (enclaves s i). payload t a = payload s a)))"

lemma apart_region:
  assumes "encl_apart e e'" and "a \<in> region e"
  shows "a \<notin> region e'"
proof
  assume "a \<in> region e'"
  then show False using assms by (auto simp: encl_apart_def region_def)
qed

lemma destroyed_effect:
  assumes tab: "ktable_ok s" and ok: "destroy_ok eid s"
  shows "call_effect s (destroyed C eid s)"
proof -
  have "\<not> (secure_lower (enclaves s eid) \<le> a \<and> a < secure_upper (enclaves s eid))"
    if "eid_is_valid i" "i \<noteq> eid" "a \<in> region (enclaves s i)" for i a
    using apart_region [OF ktable_okD(2) [OF tab that(1) _ that(2)] that(3)] ok by (auto simp: destroy_ok_def region_def)
  then show ?thesis
    by (auto simp: call_effect_def destroyed_def Let_def same_bounds_def region_def)
qed

lemma syscall_effect:
  assumes tab: "ktable_ok s"
  shows "holds_after (call_effect s) (syscall C s)"
proof -
  have refl: "call_effect s s" by (simp add: call_effect_def same_bounds_def)
  have m: "holds_after (call_effect s) (map_outcome id id (\<lambda>i. s\<lparr>kio := i\<rparr>) (do_mcall v r i))" for v r i
    using do_mcall_not_Panic [of v r i] by (cases "do_mcall v r i") (simp_all add: call_effect_def same_bounds_def)
  have c: "create_ok eid lo hi slo shi s \<Longrightarrow> call_effect s (created C eid ent lo hi slo shi s)" for eid ent lo hi slo shi
    by (auto simp: call_effect_def created_def create_ok_def same_bounds_def)
  have r: "resume_ok eid s \<Longrightarrow> call_effect s (resumed C eid s)" for eid
    by (auto simp: call_effect_def resumed_def Let_def resume_ok_def same_bounds_def)
  have ru: "run_ok eid s \<Longrightarrow> call_effect s (resumed C eid (reset_enclave eid s))" for eid
    by (auto simp: call_effect_def resumed_def reset_enclave_def Let_def run_ok_def same_bounds_def)
  have e: "call_effect s (exited C s)"
    by (auto simp: call_effect_def exited_def Let_def same_bounds_def)
  show ?thesis
    unfolding syscall_def Let_def create_eq destroy_eq [OF tab] run_eq exit_eq [OF tab] resume_eq
    by (intro holds_after_if m) (simp_all add: refl c r ru e destroyed_effect [OF tab])
qed

lemma trap_effect:
  assumes "ktable_ok s"
  shows "holds_after (call_effect s) (do_trap C EXC_ECALL_S s)"
  unfolding keystone_do_trap_ecall do_trap_ecall_s_def Let_def
  by (rule holds_after_obind [OF syscall_effect [OF assms]]) (simp add: call_effect_def)

lemma run_keeps:
  assumes L: "keystone_layout C" and inv: "keystone_inv C s"
    and i: "eid_is_valid i" "status (enclaves s i) \<noteq> ENCLAVE_FREE" "status (enclaves s i) \<noteq> ENCLAVE_RUNNING"
    and a: "a \<in> region (enclaves s i)"
  shows "\<not> keystone_may_write C s a"
proof
  assume w: "keystone_may_write C s a"
  let ?e = "enclaves s i"
  have v: "is_region_valid (secure_lower ?e) (secure_upper ?e)"
    using inv ktable_okD(1) [of s i] i by (auto simp: keystone_inv_def encl_ok_def)
  have b: "secure_lower ?e \<le> a" "a < secure_upper ?e" "secure_upper ?e \<le> MAX_PAYLOAD_SIZE"
    using a v by (auto simp: region_def is_region_valid_def)
  have le: "a \<le> MAX_PAYLOAD_SIZE" "secure_lower ?e \<le> MAX_PAYLOAD_SIZE" using b by auto
  note p = unat_phys [OF L le(1)] unat_phys [OF L le(2)] unat_phys [OF L b(3)]
  have "unat (offset_to_phys C a + 1) = unat (offset_to_phys C a) + 1"
    using unat_plus_small [of "offset_to_phys C a" 1] p(1) p(3) L b(2,3)
    by (simp add: keystone_layout_def word_less_nat_alt word_le_nat_alt)
  then have "encl_touches C ?e (offset_to_phys C a) 1"
    using p b i(2) by (simp add: encl_touches_def touches_def word_less_nat_alt word_le_nat_alt)
  from others_denied [OF L inv i(1,3) this] w show False by (simp add: keystone_may_write_def)
qed

lemma step_effect:
  assumes st: "keystone_step C s t" and L: "keystone_layout C" and inv: "keystone_inv C s"
    and i: "eid_is_valid i" "status (enclaves s i) \<noteq> ENCLAVE_FREE" "status (enclaves s i) \<noteq> ENCLAVE_RUNNING"
  shows "if status (enclaves t i) = ENCLAVE_FREE then \<forall>a \<in> region (enclaves s i). payload t a = 0
      else same_bounds (enclaves s i) (enclaves t i) \<and> (\<forall>a \<in> region (enclaves s i). payload t a = payload s a)"
  using st
proof (cases rule: keystone_step.cases)
  case (smode_run f pl r)
  have "pl a = payload s a" if "a \<in> region (enclaves s i)" for a
    using run_keeps [OF L inv i that] smode_run(3) by blast
  with smode_run i show ?thesis by (simp add: same_bounds_def)
next
  case (call u)
  have "ktable_ok s" using inv by (simp add: keystone_inv_def)
  from trap_effect [OF this, of C] have "call_effect s t" using call by simp
  with i show ?thesis by (simp add: call_effect_def)
qed

end
