(* ===== verification/Keystone_Props.thy ===== *)
theory Keystone_Props
  imports Keystone_Main
begin

text \<open>
  The properties of the Keystone monitor over all reachable states, instantiated on an execution
  that boots, creates an enclave, runs it, leaves it and destroys it.
\<close>

unbundle bit_operations_syntax

section \<open>A concrete execution\<close>

definition kdemo_config :: keystone_config where
  "kdemo_config = \<lparr>CONFIG_VERIFICATION = False, CONFIG_VERIFICATION_LLVM = False, payload_start = 0x80800000\<rparr>"

definition kdemo_reset :: keystone where
  "kdemo_reset = \<lparr>enclaves = (\<lambda>_. \<lparr>status = ENCLAVE_FREE, entry = 0, secure_lower = 0, secure_upper = 0, shared_lower = 0,
       shared_upper = 0, encl_state = zero_state\<rparr>), enclave_mode = False, current_enclave = 0, host_state = zero_state,
     payload = (\<lambda>a. ucast a), regs = (\<lambda>_. 0), csrs = (\<lambda>_. 0), kio = \<lparr>tohost = 0, con_out = [], con_in = []\<rparr>\<rparr>"

definition kdemo_boot :: keystone where
  "kdemo_boot = (case keystone_main kdemo_config (\<lambda>_. 0) 0 0 kdemo_reset of Mret r s' \<Rightarrow> s'\<lparr>regs := r\<rparr> | _ \<Rightarrow> kdemo_reset)"

text \<open>The caller loads the argument registers, then makes a call.\<close>

definition kdemo_args :: "u64 \<Rightarrow> u64 \<Rightarrow> u64 \<Rightarrow> u64 \<Rightarrow> u64 \<Rightarrow> u64 \<Rightarrow> u64 \<Rightarrow> keystone \<Rightarrow> keystone" where
  "kdemo_args nr a0 a1 a2 a3 a4 a5 s =
     s\<lparr>regs := (\<lambda>_. 0)(A7 := nr, A0 := a0, A1 := a1, A2 := a2, A3 := a3, A4 := a4, A5 := a5)\<rparr>"

definition kdemo_call :: "keystone \<Rightarrow> keystone" where
  "kdemo_call s = (case do_trap kdemo_config EXC_ECALL_S s of Return _ s' \<Rightarrow> s' | _ \<Rightarrow> s)"

definition kdemo_ask :: keystone where
  "kdemo_ask = kdemo_args 9 0 0x80801000 0x1000 0x2000 0x3000 0x4000 kdemo_boot"

definition kdemo_fresh :: keystone where
  "kdemo_fresh = kdemo_args 11 0 0 0 0 0 0 (kdemo_call kdemo_ask)"

definition kdemo_running :: keystone where
  "kdemo_running = kdemo_args 12 0 0 0 0 0 0 (kdemo_call kdemo_fresh)"

definition kdemo_idle :: keystone where
  "kdemo_idle = kdemo_args 13 0 0 0 0 0 0 (kdemo_call kdemo_running)"

abbreviation kdemo_reachable :: "keystone \<Rightarrow> bool" where
  "kdemo_reachable \<equiv> reach (keystone_boot kdemo_config) (keystone_step kdemo_config)"

lemma kdemo_layout: "keystone_layout kdemo_config"
  by (simp add: keystone_layout_def kdemo_config_def)

lemma kdemo_boot_reach: "kdemo_reachable kdemo_boot"
proof (rule reach_init)
  have "pmp_reset (csrs kdemo_reset)"
    by (simp add: pmp_reset_def kdemo_reset_def pmpcfg_read_def csr_read_def Let_def)
  moreover have "\<exists>r s. keystone_main kdemo_config (\<lambda>_. 0) 0 0 kdemo_reset = Mret r s"
    by (simp add: keystone_main_def keystone_pmp_init_def with_csrs_def remap_os_eq supervisor_init_def Let_def
        kdemo_config_def)
  ultimately show "keystone_boot kdemo_config kdemo_boot"
    unfolding keystone_boot_def kdemo_boot_def by fastforce
qed

lemma kdemo_args_step: "keystone_step kdemo_config s (kdemo_args nr a0 a1 a2 a3 a4 a5 s)"
  using smode_run [where C = kdemo_config and s = s and f = "csrs s" and pl = "payload s"]
  by (simp add: kdemo_args_def keystone_smode_def)

lemma kdemo_args_reach: "kdemo_reachable s \<Longrightarrow> kdemo_reachable (kdemo_args nr a0 a1 a2 a3 a4 a5 s)"
  by (erule reach_step) (rule kdemo_args_step)

lemma kdemo_call_reach: "kdemo_reachable s \<Longrightarrow> kdemo_reachable (kdemo_call s)"
  by (cases "do_trap kdemo_config EXC_ECALL_S s") (auto simp: kdemo_call_def intro: reach_step call)

lemma kdemo_reach:
  "kdemo_reachable kdemo_ask" "kdemo_reachable kdemo_fresh" "kdemo_reachable kdemo_running" "kdemo_reachable kdemo_idle"
  unfolding kdemo_ask_def kdemo_fresh_def kdemo_running_def kdemo_idle_def
  by (intro kdemo_args_reach kdemo_call_reach kdemo_boot_reach)+

text \<open>How a trap ends when the call returned: the result in \<^verbatim>\<open>a0\<close>, and except after a run call the next instruction.\<close>

definition leave_trap :: "u64 \<Rightarrow> u64 \<Rightarrow> keystone \<Rightarrow> keystone" where
  "leave_trap nr r s =
     (let t = s\<lparr>regs := (regs s)(A0 := r)\<rparr> in
      if nr \<noteq> 11 then t\<lparr>csrs := csr_write MEPC (csr_read (csrs t) MEPC + 4) (csrs t)\<rparr> else t)"

lemma leave_trap_sel [simp]:
  "enclaves (leave_trap nr r s) = enclaves s" "enclave_mode (leave_trap nr r s) = enclave_mode s"
  "current_enclave (leave_trap nr r s) = current_enclave s" "payload (leave_trap nr r s) = payload s"
  "regs (leave_trap nr r s) = (regs s)(A0 := r)" "host_state (leave_trap nr r s) = host_state s"
  "c \<noteq> MEPC \<Longrightarrow> csr_read (csrs (leave_trap nr r s)) c = csr_read (csrs s) c"
  "csr_read (csrs (leave_trap nr r s)) MEPC = csr_read (csrs s) MEPC + (if nr \<noteq> 11 then 4 else 0)"
  by (simp_all add: leave_trap_def Let_def csr_simps csr_base_def csr_read_write_same split: csr.splits)

lemma trap_returns:
  "syscall C s = Return r t \<Longrightarrow> do_trap C EXC_ECALL_S s = Return () (leave_trap (regs s A7) r t)"
  by (simp add: keystone_do_trap_ecall do_trap_ecall_s_def leave_trap_def Let_def)

lemma calls:
  assumes "ktable_ok s"
  shows "regs s A7 = 9 \<Longrightarrow> syscall C s = (if create_ok (regs s A0) (regs s A2) (regs s A3) (regs s A4) (regs s A5) s
      then Return 0 (created C (regs s A0) (regs s A1) (regs s A2) (regs s A3) (regs s A4) (regs s A5) s)
      else Return (- EINVAL) s)"
    and "regs s A7 = 10 \<Longrightarrow> syscall C s = (if destroy_ok (regs s A0) s then Return 0 (destroyed C (regs s A0) s)
      else Return (- EINVAL) s)"
    and "regs s A7 = 11 \<Longrightarrow> syscall C s = (if run_ok (regs s A0) s
      then Return 0 (resumed C (regs s A0) (reset_enclave (regs s A0) s)) else Return (- EINVAL) s)"
    and "regs s A7 = 12 \<Longrightarrow> syscall C s = (if enclave_mode s then Return 0 (exited C s) else Return (- EINVAL) s)"
    and "regs s A7 = 13 \<Longrightarrow> syscall C s = (if resume_ok (regs s A0) s then Return 0 (resumed C (regs s A0) s)
      else Return (- EINVAL) s)"
  by (simp_all add: syscall_def Let_def create_eq destroy_eq [OF assms] run_eq exit_eq [OF assms] resume_eq)

lemma reach_ktable: "reach (keystone_boot C) (keystone_step C) s \<Longrightarrow> ktable_ok s"
  using keystone_sys.reach_inv by (simp add: keystone_inv_def)

lemma kdemo_call_eq: "syscall kdemo_config s = Return r t \<Longrightarrow> kdemo_call s = leave_trap (regs s A7) r t"
  by (simp add: kdemo_call_def trap_returns)

lemma kdemo_args_sel [simp]:
  "enclaves (kdemo_args nr a0 a1 a2 a3 a4 a5 s) = enclaves s" "enclave_mode (kdemo_args nr a0 a1 a2 a3 a4 a5 s) = enclave_mode s"
  "current_enclave (kdemo_args nr a0 a1 a2 a3 a4 a5 s) = current_enclave s" "payload (kdemo_args nr a0 a1 a2 a3 a4 a5 s) = payload s"
  "csrs (kdemo_args nr a0 a1 a2 a3 a4 a5 s) = csrs s" "regs (kdemo_args nr a0 a1 a2 a3 a4 a5 s) A7 = nr"
  "regs (kdemo_args nr a0 a1 a2 a3 a4 a5 s) A0 = a0"
  by (simp_all add: kdemo_args_def)

lemma kdemo_boot_facts: "\<not> enclave_mode kdemo_boot" "eid_is_valid i \<Longrightarrow> status (enclaves kdemo_boot i) = ENCLAVE_FREE"
  "eid_is_valid i \<Longrightarrow> secure_lower (enclaves kdemo_boot i) = 0" "eid_is_valid i \<Longrightarrow> secure_upper (enclaves kdemo_boot i) = 0"
  by (simp_all add: kdemo_boot_def keystone_main_def keystone_pmp_init_def with_csrs_def remap_os_eq supervisor_init_def
      Let_def kdemo_config_def init_enclave_def)

lemma resumed_sel [simp]:
  "enclave_mode (resumed C eid s)" "current_enclave (resumed C eid s) = eid" "payload (resumed C eid s) = payload s"
  "enclaves (resumed C eid s) = (enclaves s)(eid := (enclaves s eid)\<lparr>status := ENCLAVE_RUNNING\<rparr>)"
  by (simp_all add: resumed_def Let_def)

lemma exited_sel [simp]:
  "\<not> enclave_mode (exited C s)" "payload (exited C s) = payload s" "host_state (exited C s) = host_state s"
  "i \<noteq> current_enclave s \<Longrightarrow> enclaves (exited C s) i = enclaves s i"
  "status (enclaves (exited C s) (current_enclave s)) = ENCLAVE_IDLE"
  "secure_lower (enclaves (exited C s) i) = secure_lower (enclaves s i)"
  "secure_upper (enclaves (exited C s) i) = secure_upper (enclaves s i)"
  by (simp_all add: exited_def Let_def)

lemma kdemo_valid: "eid_is_valid 0" "eid_is_valid 1" "eid_is_valid 2"
  by (simp_all add: eid_is_valid_def)

lemma kdemo_ask_regs: "regs kdemo_ask A7 = 9" "regs kdemo_ask A0 = 0" "regs kdemo_ask A1 = 0x80801000"
  "regs kdemo_ask A2 = 0x1000" "regs kdemo_ask A3 = 0x2000" "regs kdemo_ask A4 = 0x3000" "regs kdemo_ask A5 = 0x4000"
  by (simp_all add: kdemo_ask_def kdemo_args_def)

lemma kdemo_create_ok: "create_ok 0 0x1000 0x2000 0x3000 0x4000 kdemo_ask"
  by (simp add: create_ok_def kdemo_ask_def is_region_valid_def is_region_overlap_def kdemo_boot_facts kdemo_valid)

lemma kdemo_created:
  "kdemo_fresh = kdemo_args 11 0 0 0 0 0 0 (leave_trap 9 0 (created kdemo_config 0 0x80801000 0x1000 0x2000 0x3000 0x4000 kdemo_ask))"
proof -
  have "syscall kdemo_config kdemo_ask = Return 0 (created kdemo_config 0 0x80801000 0x1000 0x2000 0x3000 0x4000 kdemo_ask)"
    using calls(1) [OF reach_ktable [OF kdemo_reach(1)] kdemo_ask_regs(1), of kdemo_config] kdemo_create_ok
    by (simp add: kdemo_ask_regs)
  from kdemo_call_eq [OF this] show ?thesis by (simp add: kdemo_fresh_def kdemo_ask_regs)
qed

lemma kdemo_fresh_facts:
  "\<not> enclave_mode kdemo_fresh" "status (enclaves kdemo_fresh 0) = ENCLAVE_FRESH" "regs kdemo_fresh A7 = 11" "regs kdemo_fresh A0 = 0"
  "secure_lower (enclaves kdemo_fresh 0) = 0x1000" "secure_upper (enclaves kdemo_fresh 0) = 0x2000"
  "shared_lower (enclaves kdemo_fresh 0) = 0x3000" "shared_upper (enclaves kdemo_fresh 0) = 0x4000"
  using kdemo_create_ok by (simp_all add: kdemo_created created_def create_ok_def)

lemma kdemo_run: "syscall kdemo_config kdemo_fresh = Return 0 (resumed kdemo_config 0 (reset_enclave 0 kdemo_fresh))"
  using calls(3) [OF reach_ktable [OF kdemo_reach(2)] kdemo_fresh_facts(3), of kdemo_config] kdemo_fresh_facts
  by (simp add: run_ok_def kdemo_valid)

lemma kdemo_resumed:
  "kdemo_running = kdemo_args 12 0 0 0 0 0 0 (leave_trap 11 0 (resumed kdemo_config 0 (reset_enclave 0 kdemo_fresh)))"
  using kdemo_call_eq [OF kdemo_run] by (simp add: kdemo_running_def kdemo_fresh_facts)

lemma kdemo_running_facts:
  "enclave_mode kdemo_running" "current_enclave kdemo_running = 0" "status (enclaves kdemo_running 0) = ENCLAVE_RUNNING"
  "regs kdemo_running A7 = 12"
  "secure_lower (enclaves kdemo_running 0) = 0x1000" "secure_upper (enclaves kdemo_running 0) = 0x2000"
  "shared_lower (enclaves kdemo_running 0) = 0x3000" "shared_upper (enclaves kdemo_running 0) = 0x4000"
  by (simp_all add: kdemo_resumed kdemo_fresh_facts reset_enclave_def)

lemma kdemo_exit: "syscall kdemo_config kdemo_running = Return 0 (exited kdemo_config kdemo_running)"
  using calls(4) [OF reach_ktable [OF kdemo_reach(3)] kdemo_running_facts(4), of kdemo_config] kdemo_running_facts by simp

lemma kdemo_exited: "kdemo_idle = kdemo_args 13 0 0 0 0 0 0 (leave_trap 12 0 (exited kdemo_config kdemo_running))"
  using kdemo_call_eq [OF kdemo_exit] by (simp add: kdemo_idle_def kdemo_running_facts)

lemma kdemo_idle_facts:
  "\<not> enclave_mode kdemo_idle" "status (enclaves kdemo_idle 0) = ENCLAVE_IDLE" "regs kdemo_idle A7 = 13" "regs kdemo_idle A0 = 0"
  "secure_lower (enclaves kdemo_idle 0) = 0x1000" "secure_upper (enclaves kdemo_idle 0) = 0x2000"
  using exited_sel(5) [of kdemo_config kdemo_running]
  by (simp_all add: kdemo_exited kdemo_running_facts)

section \<open>Protection\<close>

text \<open>C24: no call in a reachable state runs into a \<^verbatim>\<open>BUG()\<close> or leaves the enclave table or the payload.\<close>

theorem keystone_never_panics:
  assumes "reach (keystone_boot C) (keystone_step C) s"
  shows "do_trap C EXC_ECALL_S s \<noteq> Panic"
  unfolding keystone_do_trap_ecall
  using keystone_ecall_inv [OF keystone_sys.reach_inv [OF assms]] by (rule holds_after_not_Panic)

theorem keystone_never_panics_witness: "do_trap kdemo_config 9 kdemo_running \<noteq> Panic"
  by (rule keystone_never_panics [OF kdemo_reach(3)])

text \<open>In every reachable state the regions of existing enclaves are valid and pairwise disjoint, exactly
  the current enclave is running and only in enclave mode, and the protection registers
  mirror the enclave table.\<close>

theorem keystone_inv_reachable:
  assumes "reach (keystone_boot C) (keystone_step C) s"
  shows "keystone_inv C s"
  by (rule keystone_sys.reach_inv [OF assms])

theorem keystone_inv_reachable_witness: "keystone_inv kdemo_config kdemo_idle"
  by (rule keystone_inv_reachable [OF kdemo_reach(4)])

text \<open>C18: no access of the host or of another enclave that touches the region of an enclave that is
  not running is granted anything, whatever its address and size.\<close>

theorem keystone_region_protected:
  assumes "keystone_layout C" and "reach (keystone_boot C) (keystone_step C) s"
    and "eid_is_valid i" and "status (enclaves s i) \<noteq> ENCLAVE_FREE" and "status (enclaves s i) \<noteq> ENCLAVE_RUNNING"
    and "ptr + sz > offset_to_phys C (secure_lower (enclaves s i))" and "ptr < offset_to_phys C (secure_upper (enclaves s i))"
  shows "pmp_privs (csrs s) ptr sz = Some 0"
  using others_denied [OF assms(1) keystone_sys.reach_inv [OF assms(2)] assms(3,5)] assms(4,6,7)
  by (simp add: encl_touches_def touches_def)

theorem keystone_region_protected_witness: "pmp_privs (csrs kdemo_idle) 0x80801ffc 4 = Some 0"
  using keystone_region_protected [OF kdemo_layout kdemo_reach(4) kdemo_valid(1), of "0x80801ffc" 4] kdemo_idle_facts
  by (simp add: offset_to_phys_def kdemo_config_def)

lemma apart_excludes:
  assumes L: "keystone_layout C" and ap: "encl_apart e e'" and ok: "encl_ok e" "encl_ok e'"
    and st: "status e \<noteq> ENCLAVE_FREE" and ins: "inside C (secure_lower e) (secure_upper e) ptr sz"
  shows "\<not> encl_touches C e' ptr sz"
proof
  assume t: "encl_touches C e' ptr sz"
  have b: "secure_lower e \<le> MAX_PAYLOAD_SIZE" "secure_upper e \<le> MAX_PAYLOAD_SIZE"
    "secure_lower e' \<le> MAX_PAYLOAD_SIZE" "secure_upper e' \<le> MAX_PAYLOAD_SIZE"
    using ok st t by (auto simp: encl_ok_def is_region_valid_def encl_touches_def)
  show False
    using ap t ins phys_mono [OF L b(2,3)] phys_mono [OF L b(4,1)]
    by (auto simp: encl_apart_def inside_def encl_touches_def touches_def)
qed

lemma own_access:
  assumes L: "keystone_layout C" and inv: "keystone_inv C s" and en: "enclave_mode s"
  shows "encl_touches C (enclaves s (current_enclave s)) ptr sz \<Longrightarrow>
      inside C (secure_lower (enclaves s (current_enclave s))) (secure_upper (enclaves s (current_enclave s))) ptr sz \<Longrightarrow>
      pmp_privs (csrs s) ptr sz = Some 7"
    and "pmp_privs (csrs s) ptr sz = Some p \<Longrightarrow> p \<noteq> 0 \<Longrightarrow>
      inside C (secure_lower (enclaves s (current_enclave s))) (secure_upper (enclaves s (current_enclave s))) ptr sz \<or>
      inside C (shared_lower (enclaves s (current_enclave s))) (shared_upper (enclaves s (current_enclave s))) ptr sz"
proof -
  let ?c = "current_enclave s"
  have tab: "ktable_ok s" using inv by (simp add: keystone_inv_def)
  have v: "eid_is_valid ?c" using ktable_okD(4) [OF tab en] .
  have run: "status (enclaves s ?c) = ENCLAVE_RUNNING" using ktable_okD(3) [OF tab v] en by simp
  show "pmp_privs (csrs s) ptr sz = Some 7"
    if t: "encl_touches C (enclaves s ?c) ptr sz" and i: "inside C (secure_lower (enclaves s ?c)) (secure_upper (enclaves s ?c)) ptr sz"
  proof -
    have own: "encl_rule C ptr sz (enclaves s ?c) d = 7" for d using t i run by (simp add: encl_rule_def encl_perm_def)
    have oth: "encl_rule C ptr sz (enclaves s j) d = d" if "eid_is_valid j" "j \<noteq> ?c" for j d
      using apart_excludes [OF L ktable_okD(2) [OF tab v that(1)] ktable_okD(1) [OF tab v] ktable_okD(1) [OF tab that(1)] _ i]
        that(2) run by (simp add: encl_rule_def)
    show ?thesis
      unfolding keystone_privs [OF L inv] using v unfolding eid_cases
      using own oth [OF kdemo_valid(1)] oth [OF kdemo_valid(2)] oth [OF kdemo_valid(3)] by auto
  qed
  have nz: "encl_rule C ptr sz (enclaves s j) d \<noteq> 0 \<Longrightarrow> (j = ?c \<and>
      inside C (secure_lower (enclaves s ?c)) (secure_upper (enclaves s ?c)) ptr sz) \<or> d \<noteq> 0"
    if "eid_is_valid j" for j d
    using ktable_okD(3) [OF tab that] by (auto simp: encl_rule_def encl_perm_def split: if_splits)
  have os: "os_rule C ptr sz s \<noteq> 0 \<Longrightarrow> inside C (shared_lower (enclaves s ?c)) (shared_upper (enclaves s ?c)) ptr sz"
    using en by (auto simp: os_rule_def os_region_def split: if_splits)
  show "inside C (secure_lower (enclaves s ?c)) (secure_upper (enclaves s ?c)) ptr sz \<or>
      inside C (shared_lower (enclaves s ?c)) (shared_upper (enclaves s ?c)) ptr sz"
    if "pmp_privs (csrs s) ptr sz = Some p" "p \<noteq> 0"
    using that nz [OF kdemo_valid(1)] nz [OF kdemo_valid(2)] nz [OF kdemo_valid(3)] os
    unfolding keystone_privs [OF L inv] by blast
qed

text \<open>C19: a running enclave has full access to its own region, and every access it is granted at all
  lies in its own region or in the region it shares with the host.\<close>

theorem keystone_enclave_confined:
  assumes "keystone_layout C" and "reach (keystone_boot C) (keystone_step C) s" and "enclave_mode s"
    and "e = enclaves s (current_enclave s)"
  shows "(ptr + sz > offset_to_phys C (secure_lower e) \<and> ptr < offset_to_phys C (secure_upper e) \<and>
      inside C (secure_lower e) (secure_upper e) ptr sz \<longrightarrow> pmp_privs (csrs s) ptr sz = Some 7) \<and>
    (\<forall>p. pmp_privs (csrs s) ptr sz = Some p \<and> p \<noteq> 0 \<longrightarrow>
      inside C (secure_lower e) (secure_upper e) ptr sz \<or> inside C (shared_lower e) (shared_upper e) ptr sz)"
proof -
  note inv = keystone_sys.reach_inv [OF assms(2)]
  have tab: "ktable_ok s" using inv by (simp add: keystone_inv_def)
  have "status e \<noteq> ENCLAVE_FREE"
    using ktable_okD(3) [OF tab ktable_okD(4) [OF tab assms(3)]] assms(3,4) by simp
  then show ?thesis
    using own_access [OF assms(1) inv assms(3), of ptr sz] by (auto simp: assms(4) encl_touches_def touches_def)
qed

theorem keystone_enclave_confined_witness:
  "pmp_privs (csrs kdemo_running) 0x80801ff8 8 = Some 7 \<and>
   \<not> (\<exists>p. pmp_privs (csrs kdemo_running) 0x80802000 8 = Some p \<and> p \<noteq> 0)"
proof -
  have i: "inside kdemo_config 0x1000 0x2000 0x80801ff8 8" "\<not> inside kdemo_config 0x1000 0x2000 0x80802000 8"
    "\<not> inside kdemo_config 0x3000 0x4000 0x80802000 8"
    by (simp_all add: inside_def offset_to_phys_def kdemo_config_def)
  note K = keystone_enclave_confined [OF kdemo_layout kdemo_reach(3) kdemo_running_facts(1) refl]
  show ?thesis
    using K [of "0x80801ff8" 8] K [of "0x80802000" 8] i
    by (simp add: kdemo_running_facts offset_to_phys_def kdemo_config_def)
qed

text \<open>C20: no step of the host, of another enclave or of the monitor changes the memory of an enclave that
  is not running, its region or its entry point, as long as it is not destroyed.\<close>

theorem keystone_enclave_integrity:
  assumes "keystone_layout C" and "reach (keystone_boot C) (keystone_step C) s" and "keystone_step C s t"
    and "eid_is_valid i" and "status (enclaves s i) \<noteq> ENCLAVE_FREE" and "status (enclaves s i) \<noteq> ENCLAVE_RUNNING"
    and "status (enclaves t i) \<noteq> ENCLAVE_FREE"
  shows "same_bounds (enclaves s i) (enclaves t i) \<and>
    (\<forall>a. secure_lower (enclaves s i) \<le> a \<and> a < secure_upper (enclaves s i) \<longrightarrow> payload t a = payload s a)"
  using step_effect [OF assms(3,1) keystone_sys.reach_inv [OF assms(2)] assms(4-6)] assms(7) by (simp add: region_def)

theorem keystone_enclave_integrity_witness:
  "payload (kdemo_args 13 0 0 0 0 0 0 kdemo_idle) 0x1234 = payload kdemo_idle 0x1234"
  using keystone_enclave_integrity [OF kdemo_layout kdemo_reach(4) kdemo_args_step [of kdemo_idle 13 0 0 0 0 0 0] kdemo_valid(1)]
    kdemo_idle_facts by simp

text \<open>C21: an enclave cannot be destroyed without its memory being cleared: whenever a step ends an enclave,
  every byte of its region is zero afterwards, before the host can access it.\<close>

theorem keystone_destroy_scrubs:
  assumes "keystone_layout C" and "reach (keystone_boot C) (keystone_step C) s" and "keystone_step C s t"
    and "eid_is_valid i" and "status (enclaves s i) \<noteq> ENCLAVE_FREE" and "status (enclaves s i) \<noteq> ENCLAVE_RUNNING"
    and "status (enclaves t i) = ENCLAVE_FREE"
  shows "\<forall>a. secure_lower (enclaves s i) \<le> a \<and> a < secure_upper (enclaves s i) \<longrightarrow> payload t a = 0"
  using step_effect [OF assms(3,1) keystone_sys.reach_inv [OF assms(2)] assms(4-6)] assms(7) by (simp add: region_def)

definition kdemo_dying :: keystone where
  "kdemo_dying = kdemo_args 10 0 0 0 0 0 0 kdemo_idle"

lemma kdemo_dying_reach: "kdemo_reachable kdemo_dying"
  unfolding kdemo_dying_def by (intro kdemo_args_reach kdemo_reach)

lemma kdemo_destroy: "do_trap kdemo_config 9 kdemo_dying = Return () (leave_trap 10 0 (destroyed kdemo_config 0 kdemo_dying))"
proof -
  have r: "regs kdemo_dying A7 = 10" by (simp add: kdemo_dying_def)
  have "syscall kdemo_config kdemo_dying = Return 0 (destroyed kdemo_config 0 kdemo_dying)"
    using calls(2) [OF reach_ktable [OF kdemo_dying_reach] r, of kdemo_config] kdemo_idle_facts
    by (simp add: kdemo_dying_def destroy_ok_def kdemo_valid)
  from trap_returns [OF this] show ?thesis by (simp add: r)
qed

theorem keystone_destroy_scrubs_witness: "payload (leave_trap 10 0 (destroyed kdemo_config 0 kdemo_dying)) 0x1234 = 0"
proof -
  have f: "status (enclaves (leave_trap 10 0 (destroyed kdemo_config 0 kdemo_dying)) 0) = ENCLAVE_FREE"
    by (simp add: destroyed_def Let_def)
  show ?thesis
    using keystone_destroy_scrubs [OF kdemo_layout kdemo_dying_reach call [OF kdemo_destroy] kdemo_valid(1) _ _ f]
      kdemo_idle_facts by (simp add: kdemo_dying_def)
qed

section \<open>Contexts\<close>

lemma keystone_csrs_distinct: "distinct (map csr_base keystone_csrs)"
  by (simp add: keystone_csrs_def csr_base_def)

text \<open>The protection registers written around a context switch do not touch the context.\<close>

lemma seg_writes_keep:
  assumes "c \<in> set keystone_csrs"
  shows "csr_read (pmpcfg_write 7 v (pair_write 3 l h (pmpcfg_write n w f))) c = csr_read f c"
  using assms
  by (auto simp: keystone_csrs_def pair_write_def pmp_addr_regs_def csr_simps csr_base_def)

lemma switch_loads:
  assumes "c \<in> set keystone_csrs" and "st c = csr_read g c"
  shows "csr_read (pmpcfg_write 7 v (pair_write 3 l h (pmpcfg_write n w (load_csrs keystone_csrs st f)))) c = csr_read g c"
  using load_csrs_saved [where st = st and g = g, OF keystone_csrs_distinct assms] seg_writes_keep [OF assms(1)] by simp

lemma saved_regs:
  "st_regs (save_cpu_state r f st) = r" "c \<in> set keystone_csrs \<Longrightarrow> st_csrs (save_cpu_state r f st) c = csr_read f c"
  by (simp_all add: save_cpu_state_def save_csrs_apply)













section \<open>Defects\<close>

text \<open>C25: a run call that fails never returns to the host: the handler leaves the return address on the call
  instruction, and the call it repeats fails again and changes nothing more.\<close>

theorem keystone_failed_run_loops:
  assumes "regs s A7 = 11" and "\<not> run_ok (regs s A0) s"
  shows "\<exists>t. do_trap C EXC_ECALL_S s = Return () t \<and> csr_read (csrs t) MEPC = csr_read (csrs s) MEPC \<and>
    do_trap C EXC_ECALL_S t = Return () t"
proof -
  let ?t = "s\<lparr>regs := (regs s)(A0 := - EINVAL)\<rparr>"
  have one: "do_trap C EXC_ECALL_S s' = Return () (s'\<lparr>regs := (regs s')(A0 := - EINVAL)\<rparr>)"
    if "regs s' A7 = 11" "\<not> run_ok (regs s' A0) s'" for s'
  proof -
    have "syscall C s' = Return (- EINVAL) s'" using that by (simp add: syscall_def Let_def run_eq)
    from trap_returns [OF this] that(1) show ?thesis by (simp add: leave_trap_def Let_def)
  qed
  have "\<not> run_ok (- EINVAL) ?t" by (simp add: run_ok_def eid_is_valid_def)
  then have "do_trap C EXC_ECALL_S ?t = Return () ?t" using one [of ?t] assms(1) by simp
  then show ?thesis using one [OF assms] by (intro exI [of _ ?t]) simp
qed

theorem keystone_failed_run_loops_witness:
  "\<exists>t. do_trap kdemo_config 9 (kdemo_args 11 1 0 0 0 0 0 kdemo_boot) = Return () t \<and> do_trap kdemo_config 9 t = Return () t"
  using keystone_failed_run_loops [of "kdemo_args 11 1 0 0 0 0 0 kdemo_boot" kdemo_config]
  by (auto simp: run_ok_def kdemo_boot_facts kdemo_valid)

text \<open>C26: a new enclave starts with supervisor registers of a destroyed one: after an enclave exits, is
  destroyed, and another one is created under the same number and run, the new one reads in
  \<^verbatim>\<open>sepc\<close>, \<^verbatim>\<open>stval\<close>, \<^verbatim>\<open>satp\<close> and the other saved registers the values of the old one.\<close>

theorem keystone_recreated_enclave_inherits:
  assumes "keystone_layout C" and "reach (keystone_boot C) (keystone_step C) s" and "i = current_enclave s"
    and "sys_exit_enclave C s = Return 0 s1" and "enclave_mode s"
    and "sys_destroy_enclave C i s1 = Return 0 s2" and "sys_create_enclave C i ent lo hi slo shi s2 = Return 0 s3"
    and "sys_run_enclave C i s3 = Return 0 s4" and "c \<in> set keystone_csrs - {MEPC}"
  shows "csr_read (csrs s4) c = csr_read (csrs s) c"
proof -
  have c: "c \<in> set keystone_csrs" "c \<noteq> MEPC" using assms(9) by simp_all
  note inv = keystone_sys.reach_inv [OF assms(2)]
  have hw: "hardware C" using assms(1) by (simp add: keystone_layout_def)
  have s1: "s1 = exited C s" using assms(4,5) exit_eq [OF reach_ktable [OF assms(2)], of C] by simp
  have t1: "ktable_ok s1" using exit_inv [OF inv assms(5)] by (simp add: s1 keystone_inv_def)
  have s2: "s2 = destroyed C i s1" using assms(6) destroy_eq [OF t1, of C i] by (auto split: if_splits)
  have s3: "s3 = created C i ent lo hi slo shi s2" using assms(7) by (auto simp: create_eq split: if_splits)
  have s4: "s4 = resumed C i (reset_enclave i s3)" using assms(8) by (auto simp: run_eq split: if_splits)
  let ?st = "st_csrs (encl_state (enclaves (reset_enclave i s3) i))"
  have "?st c = csr_read (csrs s) c"
    using c hw assms(3) saved_regs(2) [OF c(1)]
    by (simp add: s1 s2 s3 reset_enclave_def created_def destroyed_def exited_def Let_def)
  from switch_loads [where st = ?st and g = "csrs s", OF c(1) this] show ?thesis
    using hw by (simp add: s4 resumed_def Let_def)
qed

lemma kdemo_others: "i \<noteq> 0 \<Longrightarrow> enclaves kdemo_running i = enclaves kdemo_boot i"
  by (simp add: kdemo_resumed reset_enclave_def kdemo_created created_def) (simp add: kdemo_ask_def)

theorem keystone_recreated_enclave_inherits_witness:
  "csr_read (csrs (resumed kdemo_config 0 (reset_enclave 0 (created kdemo_config 0 0 0x1000 0x2000 0x3000 0x4000
     (destroyed kdemo_config 0 (exited kdemo_config kdemo_running)))))) SEPC = csr_read (csrs kdemo_running) SEPC"
proof -
  let ?s1 = "exited kdemo_config kdemo_running"
  let ?s2 = "destroyed kdemo_config 0 ?s1"
  let ?s3 = "created kdemo_config 0 0 0x1000 0x2000 0x3000 0x4000 ?s2"
  have i: "keystone_inv kdemo_config kdemo_running" by (rule keystone_sys.reach_inv [OF kdemo_reach(3)])
  have t1: "ktable_ok ?s1" using exit_inv [OF i kdemo_running_facts(1)] by (simp add: keystone_inv_def)
  have st: "status (enclaves ?s1 0) = ENCLAVE_IDLE" using exited_sel(5) [of kdemo_config kdemo_running] by (simp add: kdemo_running_facts)
  have e1: "sys_exit_enclave kdemo_config kdemo_running = Return 0 ?s1"
    using exit_eq [OF reach_ktable [OF kdemo_reach(3)]] kdemo_running_facts(1) by simp
  have e2: "sys_destroy_enclave kdemo_config 0 ?s1 = Return 0 ?s2"
    using destroy_eq [OF t1] st by (simp add: destroy_ok_def kdemo_valid)
  have e3: "sys_create_enclave kdemo_config 0 0 0x1000 0x2000 0x3000 0x4000 ?s2 = Return 0 ?s3"
    by (simp add: create_eq create_ok_def destroyed_def Let_def kdemo_valid is_region_valid_def is_region_overlap_def
        kdemo_running_facts kdemo_others kdemo_boot_facts)
  have e4: "sys_run_enclave kdemo_config 0 ?s3 = Return 0 (resumed kdemo_config 0 (reset_enclave 0 ?s3))"
    by (simp add: run_eq run_ok_def created_def destroyed_def Let_def kdemo_valid)
  show ?thesis
    using keystone_recreated_enclave_inherits [OF kdemo_layout kdemo_reach(3) kdemo_running_facts(2) [symmetric] e1
        kdemo_running_facts(1) e2 e3 e4, of SEPC]
    by (simp add: keystone_csrs_def)
qed

end
