(* ===== verification/Byte_Mem.thy ===== *)
theory Byte_Mem
  imports Serval_Prelude
begin

text \<open>
  Byte addressed little-endian memory, shared by the BPF interpreter and by the RISC-V
  machine that runs the code the BPF compiler emits: a partial map from addresses to bytes,
  where an address outside the domain cannot be read or written.
\<close>

unbundle bit_operations_syntax

type_synonym memory = "u64 \<Rightarrow> u8 option"

fun load_bytes :: "nat \<Rightarrow> memory \<Rightarrow> u64 \<Rightarrow> u64 option" where
  "load_bytes 0 m a = Some 0"
| "load_bytes (Suc n) m a =
     (case m a of None \<Rightarrow> None
      | Some b \<Rightarrow> (case load_bytes n m (a + 1) of None \<Rightarrow> None
                  | Some v \<Rightarrow> Some (ucast b OR push_bit 8 v)))"

fun store_bytes :: "nat \<Rightarrow> u64 \<Rightarrow> u64 \<Rightarrow> memory \<Rightarrow> memory option" where
  "store_bytes 0 v a m = Some m"
| "store_bytes (Suc n) v a m =
     (case m a of None \<Rightarrow> None
      | Some b \<Rightarrow> store_bytes n (drop_bit 8 v) (a + 1) (m(a \<mapsto> ucast v)))"

lemma load_bytes_less:
  assumes "load_bytes n m a = Some v" "n \<le> 8"
  shows "take_bit (8 * n) v = v"
  using assms
proof (induction n arbitrary: a v)
  case 0
  then show ?case by simp
next
  case (Suc n)
  obtain b w where bw: "m a = Some b" "load_bytes n m (a + 1) = Some w" "v = ucast b OR push_bit 8 w"
    using Suc.prems by (auto split: option.splits)
  have w: "take_bit (8 * n) w = w"
    using Suc.IH [OF bw(2)] Suc.prems by simp
  have "\<not> bit v k" if "8 * Suc n \<le> k" for k
  proof -
    have "\<not> bit w (k - 8)"
      using that arg_cong [OF w, of "\<lambda>x. bit x (k - 8)"] by (auto simp: bit_take_bit_iff)
    moreover have "\<not> bit (ucast b :: u64) k"
      using that bit_imp_le_length [of b k] by (auto simp: bit_simps)
    ultimately show ?thesis
      using bw(3) by (simp add: bit_simps)
  qed
  then show ?case
    by (intro bit_word_eqI) (metis bit_take_bit_iff not_le)
qed

lemma store_bytes_dom:
  "store_bytes n v a m = Some m' \<Longrightarrow> dom m' = dom m"
proof (induction n arbitrary: v a m)
  case (Suc n)
  then obtain b where b: "m a = Some b" "store_bytes n (drop_bit 8 v) (a + 1) (m(a \<mapsto> ucast v)) = Some m'"
    by (auto split: option.splits)
  have "dom m' = dom (m(a \<mapsto> ucast v))" by (rule Suc.IH [OF b(2)])
  also have "\<dots> = dom m" using b(1) by (simp add: insert_absorb domI)
  finally show ?case .
qed simp

lemma store_bytes_other:
  assumes "store_bytes n v a m = Some m'" "\<And>k. k < n \<Longrightarrow> a + word_of_nat k \<noteq> x"
  shows "m' x = m x"
  using assms
proof (induction n arbitrary: v a m)
  case (Suc n)
  obtain b where b: "m a = Some b" "store_bytes n (drop_bit 8 v) (a + 1) (m(a \<mapsto> ucast v)) = Some m'"
    using Suc.prems(1) by (auto split: option.splits)
  have "m' x = (m(a \<mapsto> ucast v)) x"
  proof (rule Suc.IH [OF b(2)])
    fix k assume "k < n"
    then show "a + 1 + word_of_nat k \<noteq> x"
      using Suc.prems(2) [of "Suc k"] by (simp add: algebra_simps)
  qed
  then show ?case
    using Suc.prems(2) [of 0] by simp
qed simp

lemma store_bytes_defined:
  "(\<forall>k < n. m (a + word_of_nat k) \<noteq> None) \<Longrightarrow> \<exists>m'. store_bytes n v a m = Some m'"
proof (induction n arbitrary: v a m)
  case (Suc n)
  from Suc.prems [rule_format, of 0] obtain b where b: "m a = Some b" by auto
  have "\<forall>k < n. (m(a \<mapsto> ucast v)) (a + 1 + word_of_nat k) \<noteq> None"
    using Suc.prems by (auto simp: algebra_simps dest: spec [of _ "Suc _"])
  then have "\<exists>m'. store_bytes n (drop_bit 8 v) (a + 1) (m(a \<mapsto> ucast v)) = Some m'" by (rule Suc.IH)
  then show ?case using b by simp
qed simp

lemma load_bytes_cong:
  "(\<And>k. k < n \<Longrightarrow> m (a + word_of_nat k) = m' (a + word_of_nat k)) \<Longrightarrow> load_bytes n m a = load_bytes n m' a"
proof (induction n arbitrary: a)
  case (Suc n)
  have "load_bytes n m (a + 1) = load_bytes n m' (a + 1)"
    by (rule Suc.IH) (use Suc.prems [of "Suc _"] in \<open>simp add: algebra_simps\<close>)
  then show ?case
    using Suc.prems [of 0] by (simp split: option.splits)
qed simp

lemma load_store_bytes:
  assumes "store_bytes n v a m = Some m'" "n \<le> 8"
  shows "load_bytes n m' a = Some (take_bit (8 * n) v)"
  using assms
proof (induction n arbitrary: v a m)
  case 0
  then show ?case by simp
next
  case (Suc n)
  obtain b where b: "m a = Some b" "store_bytes n (drop_bit 8 v) (a + 1) (m(a \<mapsto> ucast v)) = Some m'"
    using Suc.prems(1) by (auto split: option.splits)
  have "load_bytes n m' (a + 1) = Some (take_bit (8 * n) (drop_bit 8 v))"
    using Suc.IH [OF b(2)] Suc.prems(2) by simp
  moreover have "m' a = Some (ucast v)"
  proof -
    have "m' a = (m(a \<mapsto> ucast v)) a"
    proof (rule store_bytes_other [OF b(2)])
      fix k assume "k < n"
      then have "unat (1 + word_of_nat k :: u64) = Suc k"
        using Suc.prems(2) by (simp add: unat_word_ariths unsigned_of_nat take_bit_nat_eq_self)
      then have "1 + word_of_nat k \<noteq> (0 :: u64)" by auto
      then show "a + 1 + word_of_nat k \<noteq> a"
        by (simp add: add.assoc)
    qed
    then show ?thesis by simp
  qed
  moreover have "ucast (ucast v :: u8) OR push_bit 8 (take_bit (8 * n) (drop_bit 8 v)) = take_bit (8 * Suc n) v"
    by (rule bit_word_eqI) (auto simp: bit_simps)
  ultimately show ?case by simp
qed

end
