(* ===== verification/Rv64.thy ===== *)
theory Rv64
  imports Byte_Mem
begin

text \<open>
  The RISC-V machine the compiled BPF code runs on, after the verifier's own semantics in
  \<^verbatim>\<open>src/serval/serval/riscv\<close>: registers (\<^verbatim>\<open>base.rkt\<close>), the effect of one instruction
  (\<^verbatim>\<open>interp.rkt\<close>) and the instruction encodings (\<^verbatim>\<open>encoder.rkt\<close>), for the integer and
  multiplication instructions at a register width of 64. Control registers, fences and
  compressed encodings are left out: the BPF compiler emits none. The decoder is the inverse of
  the encoder on instructions whose shift amounts are in range; a word outside the encoder's
  image does not decode.
\<close>

unbundle bit_operations_syntax

section \<open>Instructions\<close>

datatype r_op =
    R_add | R_sub | R_sll | R_slt | R_sltu | R_xor | R_srl | R_sra | R_or | R_and
  | R_mul | R_mulh | R_mulhsu | R_mulhu | R_div | R_divu | R_rem | R_remu
  | R_mulw | R_divw | R_divuw | R_remw | R_remuw
  | R_addw | R_subw | R_sllw | R_srlw | R_sraw

datatype i_op =
    I_addi | I_slti | I_sltiu | I_xori | I_ori | I_andi | I_slli | I_srli | I_srai
  | I_addiw | I_slliw | I_srliw | I_sraiw | I_jalr

datatype l_op = M_lb | M_lbu | M_lh | M_lhu | M_lw | M_lwu | M_ld
datatype s_op = M_sb | M_sh | M_sw | M_sd
datatype b_op = B_beq | B_bne | B_blt | B_bge | B_bltu | B_bgeu

type_synonym regno = "5 word"

datatype instr =
    Rtype r_op regno regno regno
  | Itype i_op regno regno "12 word"
  | Load l_op regno regno "12 word"
  | Store s_op regno regno "12 word"
  | Branch b_op regno regno "12 word"
  | Lui regno "20 word"
  | Auipc regno "20 word"
  | Jal regno "20 word"

section \<open>Encoding\<close>

definition r_type :: "7 word \<Rightarrow> regno \<Rightarrow> regno \<Rightarrow> 3 word \<Rightarrow> regno \<Rightarrow> 7 word \<Rightarrow> u32" where
  "r_type funct7 rs2 rs1 funct3 rd opcode =
     push_bit 25 (ucast funct7) OR push_bit 20 (ucast rs2) OR push_bit 15 (ucast rs1) OR
     push_bit 12 (ucast funct3) OR push_bit 7 (ucast rd) OR ucast opcode"

definition i_type :: "12 word \<Rightarrow> regno \<Rightarrow> 3 word \<Rightarrow> regno \<Rightarrow> 7 word \<Rightarrow> u32" where
  "i_type imm rs1 funct3 rd opcode =
     push_bit 20 (ucast imm) OR push_bit 15 (ucast rs1) OR
     push_bit 12 (ucast funct3) OR push_bit 7 (ucast rd) OR ucast opcode"

definition s_type :: "12 word \<Rightarrow> regno \<Rightarrow> regno \<Rightarrow> 3 word \<Rightarrow> 7 word \<Rightarrow> u32" where
  "s_type imm rs2 rs1 funct3 opcode =
     push_bit 25 (ucast (drop_bit 5 imm)) OR push_bit 20 (ucast rs2) OR push_bit 15 (ucast rs1) OR
     push_bit 12 (ucast funct3) OR push_bit 7 (ucast (take_bit 5 imm)) OR ucast opcode"

definition u_type :: "20 word \<Rightarrow> regno \<Rightarrow> 7 word \<Rightarrow> u32" where
  "u_type imm rd opcode = push_bit 12 (ucast imm) OR push_bit 7 (ucast rd) OR ucast opcode"

definition b_type :: "12 word \<Rightarrow> regno \<Rightarrow> regno \<Rightarrow> 3 word \<Rightarrow> 7 word \<Rightarrow> u32" where
  "b_type imm rs2 rs1 funct3 opcode =
     push_bit 31 (ucast (drop_bit 11 imm)) OR push_bit 25 (ucast (take_bit 6 (drop_bit 4 imm))) OR
     push_bit 20 (ucast rs2) OR push_bit 15 (ucast rs1) OR push_bit 12 (ucast funct3) OR
     push_bit 8 (ucast (take_bit 4 imm)) OR push_bit 7 (of_bool (bit imm 10)) OR ucast opcode"

definition j_type :: "20 word \<Rightarrow> regno \<Rightarrow> 7 word \<Rightarrow> u32" where
  "j_type imm rd opcode =
     push_bit 31 (ucast (drop_bit 19 imm)) OR push_bit 21 (ucast (take_bit 10 imm)) OR
     push_bit 20 (of_bool (bit imm 10)) OR
     push_bit 12 (ucast (take_bit 8 (drop_bit 11 imm))) OR push_bit 7 (ucast rd) OR ucast opcode"

fun r_code :: "r_op \<Rightarrow> 7 word \<times> 3 word \<times> 7 word" where
  "r_code R_add = (0x00, 0, 0x33)"
| "r_code R_sub = (0x20, 0, 0x33)"
| "r_code R_sll = (0x00, 1, 0x33)"
| "r_code R_slt = (0x00, 2, 0x33)"
| "r_code R_sltu = (0x00, 3, 0x33)"
| "r_code R_xor = (0x00, 4, 0x33)"
| "r_code R_srl = (0x00, 5, 0x33)"
| "r_code R_sra = (0x20, 5, 0x33)"
| "r_code R_or = (0x00, 6, 0x33)"
| "r_code R_and = (0x00, 7, 0x33)"
| "r_code R_mul = (0x01, 0, 0x33)"
| "r_code R_mulh = (0x01, 1, 0x33)"
| "r_code R_mulhsu = (0x01, 2, 0x33)"
| "r_code R_mulhu = (0x01, 3, 0x33)"
| "r_code R_div = (0x01, 4, 0x33)"
| "r_code R_divu = (0x01, 5, 0x33)"
| "r_code R_rem = (0x01, 6, 0x33)"
| "r_code R_remu = (0x01, 7, 0x33)"
| "r_code R_mulw = (0x01, 0, 0x3b)"
| "r_code R_divw = (0x01, 4, 0x3b)"
| "r_code R_divuw = (0x01, 5, 0x3b)"
| "r_code R_remw = (0x01, 6, 0x3b)"
| "r_code R_remuw = (0x01, 7, 0x3b)"
| "r_code R_addw = (0x00, 0, 0x3b)"
| "r_code R_subw = (0x20, 0, 0x3b)"
| "r_code R_sllw = (0x00, 1, 0x3b)"
| "r_code R_srlw = (0x00, 5, 0x3b)"
| "r_code R_sraw = (0x20, 5, 0x3b)"

fun i_code :: "i_op \<Rightarrow> 3 word \<times> 7 word" where
  "i_code I_addi = (0, 0x13)"
| "i_code I_slti = (2, 0x13)"
| "i_code I_sltiu = (3, 0x13)"
| "i_code I_xori = (4, 0x13)"
| "i_code I_ori = (6, 0x13)"
| "i_code I_andi = (7, 0x13)"
| "i_code I_slli = (1, 0x13)"
| "i_code I_srli = (5, 0x13)"
| "i_code I_srai = (5, 0x13)"
| "i_code I_addiw = (0, 0x1b)"
| "i_code I_slliw = (1, 0x1b)"
| "i_code I_srliw = (5, 0x1b)"
| "i_code I_sraiw = (5, 0x1b)"
| "i_code I_jalr = (0, 0x67)"

fun i_imm :: "i_op \<Rightarrow> 12 word \<Rightarrow> 12 word" where
  "i_imm I_srai imm = 1024 OR imm"
| "i_imm I_sraiw imm = 1024 OR imm"
| "i_imm _ imm = imm"

fun l_code :: "l_op \<Rightarrow> 3 word \<times> 7 word" where
  "l_code M_lb = (0, 0x03)"
| "l_code M_lbu = (4, 0x03)"
| "l_code M_lh = (1, 0x03)"
| "l_code M_lhu = (5, 0x03)"
| "l_code M_lw = (2, 0x03)"
| "l_code M_lwu = (6, 0x03)"
| "l_code M_ld = (3, 0x03)"

fun s_code :: "s_op \<Rightarrow> 3 word \<times> 7 word" where
  "s_code M_sb = (0, 0x23)"
| "s_code M_sh = (1, 0x23)"
| "s_code M_sw = (2, 0x23)"
| "s_code M_sd = (3, 0x23)"

fun b_code :: "b_op \<Rightarrow> 3 word \<times> 7 word" where
  "b_code B_beq = (0, 0x63)"
| "b_code B_bne = (1, 0x63)"
| "b_code B_blt = (4, 0x63)"
| "b_code B_bge = (5, 0x63)"
| "b_code B_bltu = (6, 0x63)"
| "b_code B_bgeu = (7, 0x63)"

fun encode_instr :: "instr \<Rightarrow> u32" where
  "encode_instr (Rtype op rd rs1 rs2) = (case r_code op of (f7, f3, opc) \<Rightarrow> r_type f7 rs2 rs1 f3 rd opc)"
| "encode_instr (Itype op rd rs1 imm) = (case i_code op of (f3, opc) \<Rightarrow> i_type (i_imm op imm) rs1 f3 rd opc)"
| "encode_instr (Load op rd rs1 imm) = (case l_code op of (f3, opc) \<Rightarrow> i_type imm rs1 f3 rd opc)"
| "encode_instr (Store op rs1 rs2 imm) = (case s_code op of (f3, opc) \<Rightarrow> s_type imm rs2 rs1 f3 opc)"
| "encode_instr (Branch op rs1 rs2 imm) = (case b_code op of (f3, opc) \<Rightarrow> b_type imm rs2 rs1 f3 opc)"
| "encode_instr (Lui rd imm) = u_type imm rd 0x37"
| "encode_instr (Auipc rd imm) = u_type imm rd 0x17"
| "encode_instr (Jal rd imm) = j_type imm rd 0x6f"

section \<open>Decoding\<close>

definition f_opcode :: "u32 \<Rightarrow> 7 word" where "f_opcode w = ucast w"
definition f_rd :: "u32 \<Rightarrow> regno" where "f_rd w = ucast (drop_bit 7 w)"
definition f_funct3 :: "u32 \<Rightarrow> 3 word" where "f_funct3 w = ucast (drop_bit 12 w)"
definition f_rs1 :: "u32 \<Rightarrow> regno" where "f_rs1 w = ucast (drop_bit 15 w)"
definition f_rs2 :: "u32 \<Rightarrow> regno" where "f_rs2 w = ucast (drop_bit 20 w)"
definition f_funct7 :: "u32 \<Rightarrow> 7 word" where "f_funct7 w = ucast (drop_bit 25 w)"
definition f_imm_i :: "u32 \<Rightarrow> 12 word" where "f_imm_i w = ucast (drop_bit 20 w)"
definition f_imm_s :: "u32 \<Rightarrow> 12 word" where
  "f_imm_s w = push_bit 5 (ucast (drop_bit 25 w)) OR ucast (take_bit 5 (drop_bit 7 w))"
definition f_imm_u :: "u32 \<Rightarrow> 20 word" where "f_imm_u w = ucast (drop_bit 12 w)"
definition f_imm_b :: "u32 \<Rightarrow> 12 word" where
  "f_imm_b w =
     push_bit 11 (ucast (drop_bit 31 w)) OR push_bit 10 (of_bool (bit w 7)) OR
     push_bit 4 (ucast (take_bit 6 (drop_bit 25 w))) OR ucast (take_bit 4 (drop_bit 8 w))"
definition f_imm_j :: "u32 \<Rightarrow> 20 word" where
  "f_imm_j w =
     push_bit 19 (ucast (drop_bit 31 w)) OR push_bit 11 (ucast (take_bit 8 (drop_bit 12 w))) OR
     push_bit 10 (of_bool (bit w 20)) OR ucast (take_bit 10 (drop_bit 21 w))"

definition r_ops :: "r_op list" where
  "r_ops = [R_add, R_sub, R_sll, R_slt, R_sltu, R_xor, R_srl, R_sra, R_or, R_and,
            R_mul, R_mulh, R_mulhsu, R_mulhu, R_div, R_divu, R_rem, R_remu,
            R_mulw, R_divw, R_divuw, R_remw, R_remuw, R_addw, R_subw, R_sllw, R_srlw, R_sraw]"

definition l_ops :: "l_op list" where "l_ops = [M_lb, M_lbu, M_lh, M_lhu, M_lw, M_lwu, M_ld]"
definition s_ops :: "s_op list" where "s_ops = [M_sb, M_sh, M_sw, M_sd]"
definition b_ops :: "b_op list" where "b_ops = [B_beq, B_bne, B_blt, B_bge, B_bltu, B_bgeu]"

definition decode_i :: "7 word \<Rightarrow> 3 word \<Rightarrow> 12 word \<Rightarrow> (i_op \<times> 12 word) option" where
  "decode_i opc f3 imm =
     (if opc = 0x13 then
        (if f3 = 0 then Some (I_addi, imm)
         else if f3 = 1 then (if imm < 64 then Some (I_slli, imm) else None)
         else if f3 = 2 then Some (I_slti, imm)
         else if f3 = 3 then Some (I_sltiu, imm)
         else if f3 = 4 then Some (I_xori, imm)
         else if f3 = 5 then
           (if imm < 64 then Some (I_srli, imm)
            else if drop_bit 6 imm = 16 then Some (I_srai, take_bit 6 imm)
            else None)
         else if f3 = 6 then Some (I_ori, imm)
         else Some (I_andi, imm))
      else if opc = 0x1b then
        (if f3 = 0 then Some (I_addiw, imm)
         else if f3 = 1 then (if imm < 32 then Some (I_slliw, imm) else None)
         else if f3 = 5 then
           (if imm < 32 then Some (I_srliw, imm)
            else if drop_bit 5 imm = 32 then Some (I_sraiw, take_bit 5 imm)
            else None)
         else None)
      else if opc = 0x67 \<and> f3 = 0 then Some (I_jalr, imm)
      else None)"

definition decode_instr :: "u32 \<Rightarrow> instr option" where
  "decode_instr w =
     (let opc = f_opcode w; f3 = f_funct3 w; rd = f_rd w; rs1 = f_rs1 w; rs2 = f_rs2 w in
      if opc = 0x37 then Some (Lui rd (f_imm_u w))
      else if opc = 0x17 then Some (Auipc rd (f_imm_u w))
      else if opc = 0x6f then Some (Jal rd (f_imm_j w))
      else if opc = 0x33 \<or> opc = 0x3b then
        map_option (\<lambda>op. Rtype op rd rs1 rs2) (find (\<lambda>op. r_code op = (f_funct7 w, f3, opc)) r_ops)
      else if opc = 0x03 then
        map_option (\<lambda>op. Load op rd rs1 (f_imm_i w)) (find (\<lambda>op. l_code op = (f3, opc)) l_ops)
      else if opc = 0x23 then
        map_option (\<lambda>op. Store op rs1 rs2 (f_imm_s w)) (find (\<lambda>op. s_code op = (f3, opc)) s_ops)
      else if opc = 0x63 then
        map_option (\<lambda>op. Branch op rs1 rs2 (f_imm_b w)) (find (\<lambda>op. b_code op = (f3, opc)) b_ops)
      else map_option (\<lambda>(op, imm). Itype op rd rs1 imm) (decode_i opc f3 (f_imm_i w)))"

section \<open>Execution\<close>

record rcpu =
  rpc :: u64
  gprs :: "regno \<Rightarrow> u64"
  rmem :: memory

definition gpr_ref :: "rcpu \<Rightarrow> regno \<Rightarrow> u64" where
  "gpr_ref cpu r = (if r = 0 then 0 else gprs cpu r)"

definition gpr_set :: "rcpu \<Rightarrow> regno \<Rightarrow> u64 \<Rightarrow> rcpu" where
  "gpr_set cpu r v = (if r = 0 then cpu else cpu\<lparr>gprs := (gprs cpu)(r := v)\<rparr>)"

definition cpu_next :: "rcpu \<Rightarrow> rcpu" where
  "cpu_next cpu = cpu\<lparr>rpc := rpc cpu + 4\<rparr>"

datatype bin_op =
    V_add | V_sub | V_or | V_and | V_xor | V_shl | V_lshr | V_ashr | V_mul
  | V_div | V_rem | V_udiv | V_urem

definition shamt :: "'a::len word \<Rightarrow> nat" where
  "shamt (v :: 'a word) = unat (word_of_nat (LENGTH('a) - 1) AND v)"

definition bvsdiv :: "'a::len word \<Rightarrow> 'a word \<Rightarrow> 'a word" where
  "bvsdiv a b = word_of_int (sgn (sint a) * sgn (sint b) * (\<bar>sint a\<bar> div \<bar>sint b\<bar>))"

definition bvsrem :: "'a::len word \<Rightarrow> 'a word \<Rightarrow> 'a word" where
  "bvsrem a b = word_of_int (sgn (sint a) * (\<bar>sint a\<bar> mod \<bar>sint b\<bar>))"

fun evaluate_binary_op :: "bin_op \<Rightarrow> 'a::len word \<Rightarrow> 'a word \<Rightarrow> 'a word" where
  "evaluate_binary_op V_add v1 v2 = v1 + v2"
| "evaluate_binary_op V_sub v1 v2 = v1 - v2"
| "evaluate_binary_op V_or v1 v2 = v1 OR v2"
| "evaluate_binary_op V_and v1 v2 = v1 AND v2"
| "evaluate_binary_op V_xor v1 v2 = v1 XOR v2"
| "evaluate_binary_op V_shl v1 v2 = push_bit (shamt v2) v1"
| "evaluate_binary_op V_lshr v1 v2 = drop_bit (shamt v2) v1"
| "evaluate_binary_op V_ashr v1 v2 = signed_drop_bit (shamt v2) v1"
| "evaluate_binary_op V_mul v1 v2 = v1 * v2"
| "evaluate_binary_op V_div v1 v2 = (if v2 = 0 then - 1 else bvsdiv v1 v2)"
| "evaluate_binary_op V_rem v1 v2 = (if v2 = 0 then v1 else bvsrem v1 v2)"
| "evaluate_binary_op V_udiv v1 v2 = (if v2 = 0 then - 1 else v1 div v2)"
| "evaluate_binary_op V_urem v1 v2 = (if v2 = 0 then v1 else v1 mod v2)"

fun evaluate_binary_conditional :: "b_op \<Rightarrow> u64 \<Rightarrow> u64 \<Rightarrow> bool" where
  "evaluate_binary_conditional B_bge v1 v2 = (v2 \<le>s v1)"
| "evaluate_binary_conditional B_blt v1 v2 = (v1 <s v2)"
| "evaluate_binary_conditional B_bgeu v1 v2 = (v2 \<le> v1)"
| "evaluate_binary_conditional B_bltu v1 v2 = (v1 < v2)"
| "evaluate_binary_conditional B_bne v1 v2 = (v1 \<noteq> v2)"
| "evaluate_binary_conditional B_beq v1 v2 = (v1 = v2)"

definition binw :: "bin_op \<Rightarrow> u64 \<Rightarrow> u64 \<Rightarrow> u64" where
  "binw op v1 v2 = scast (evaluate_binary_op op (ucast v1 :: u32) (ucast v2))"

fun eval_r :: "r_op \<Rightarrow> u64 \<Rightarrow> u64 \<Rightarrow> u64 option" where
  "eval_r R_add a b = Some (evaluate_binary_op V_add a b)"
| "eval_r R_sub a b = Some (evaluate_binary_op V_sub a b)"
| "eval_r R_sll a b = Some (evaluate_binary_op V_shl a b)"
| "eval_r R_slt a b = None"
| "eval_r R_sltu a b = Some (if a < b then 1 else 0)"
| "eval_r R_xor a b = Some (evaluate_binary_op V_xor a b)"
| "eval_r R_srl a b = Some (evaluate_binary_op V_lshr a b)"
| "eval_r R_sra a b = Some (evaluate_binary_op V_ashr a b)"
| "eval_r R_or a b = Some (evaluate_binary_op V_or a b)"
| "eval_r R_and a b = Some (evaluate_binary_op V_and a b)"
| "eval_r R_mul a b = Some (evaluate_binary_op V_mul a b)"
| "eval_r R_mulh a b = Some (ucast (drop_bit 64 ((scast a :: 128 word) * scast b)))"
| "eval_r R_mulhsu a b = Some (ucast (drop_bit 64 ((scast a :: 128 word) * ucast b)))"
| "eval_r R_mulhu a b = Some (ucast (drop_bit 64 ((ucast a :: 128 word) * ucast b)))"
| "eval_r R_div a b = Some (evaluate_binary_op V_div a b)"
| "eval_r R_divu a b = Some (evaluate_binary_op V_udiv a b)"
| "eval_r R_rem a b = Some (evaluate_binary_op V_rem a b)"
| "eval_r R_remu a b = Some (evaluate_binary_op V_urem a b)"
| "eval_r R_mulw a b = Some (binw V_mul a b)"
| "eval_r R_divw a b = Some (binw V_div a b)"
| "eval_r R_divuw a b = Some (binw V_udiv a b)"
| "eval_r R_remw a b = Some (binw V_rem a b)"
| "eval_r R_remuw a b = Some (binw V_urem a b)"
| "eval_r R_addw a b = Some (binw V_add a b)"
| "eval_r R_subw a b = Some (binw V_sub a b)"
| "eval_r R_sllw a b = Some (binw V_shl a b)"
| "eval_r R_srlw a b = Some (binw V_lshr a b)"
| "eval_r R_sraw a b = Some (binw V_ashr a b)"

definition shiftiw :: "bin_op \<Rightarrow> u64 \<Rightarrow> 12 word \<Rightarrow> u64" where
  "shiftiw op a imm = scast (evaluate_binary_op op (ucast a :: u32) (scast imm AND 31))"

fun eval_i :: "i_op \<Rightarrow> u64 \<Rightarrow> 12 word \<Rightarrow> u64 option" where
  "eval_i I_addi a imm = Some (evaluate_binary_op V_add a (scast imm))"
| "eval_i I_slti a imm = None"
| "eval_i I_sltiu a imm = Some (if a < scast imm then 1 else 0)"
| "eval_i I_xori a imm = Some (evaluate_binary_op V_xor a (scast imm))"
| "eval_i I_ori a imm = Some (evaluate_binary_op V_or a (scast imm))"
| "eval_i I_andi a imm = Some (evaluate_binary_op V_and a (scast imm))"
| "eval_i I_slli a imm = Some (evaluate_binary_op V_shl a (scast imm))"
| "eval_i I_srli a imm = Some (evaluate_binary_op V_lshr a (scast imm))"
| "eval_i I_srai a imm = Some (evaluate_binary_op V_ashr a (scast imm))"
| "eval_i I_addiw a imm = Some (scast ((ucast a :: u32) + scast imm))"
| "eval_i I_slliw a imm = Some (shiftiw V_shl a imm)"
| "eval_i I_srliw a imm = Some (shiftiw V_lshr a imm)"
| "eval_i I_sraiw a imm = Some (shiftiw V_ashr a imm)"
| "eval_i I_jalr a imm = None"

fun load_size :: "l_op \<Rightarrow> nat" where
  "load_size M_lb = 1" | "load_size M_lbu = 1"
| "load_size M_lh = 2" | "load_size M_lhu = 2"
| "load_size M_lw = 4" | "load_size M_lwu = 4"
| "load_size M_ld = 8"

fun store_size :: "s_op \<Rightarrow> nat" where
  "store_size M_sb = 1" | "store_size M_sh = 2" | "store_size M_sw = 4" | "store_size M_sd = 8"

fun load_extend :: "l_op \<Rightarrow> u64 \<Rightarrow> u64" where
  "load_extend M_lb v = scast (ucast v :: u8)"
| "load_extend M_lh v = scast (ucast v :: u16)"
| "load_extend M_lw v = scast (ucast v :: u32)"
| "load_extend _ v = v"

definition jump_and_link :: "rcpu \<Rightarrow> regno \<Rightarrow> u64 \<Rightarrow> rcpu" where
  "jump_and_link cpu r addr =
     (let target = rpc cpu + push_bit 1 addr
      in (gpr_set cpu r (rpc cpu + 4))\<lparr>rpc := target\<rparr>)"

fun interpret_instr :: "instr \<Rightarrow> rcpu \<Rightarrow> rcpu option" where
  "interpret_instr (Rtype op rd rs1 rs2) cpu =
     map_option (\<lambda>v. cpu_next (gpr_set cpu rd v)) (eval_r op (gpr_ref cpu rs1) (gpr_ref cpu rs2))"
| "interpret_instr (Itype op rd rs1 imm) cpu =
     (if op = I_jalr
      then Some ((gpr_set cpu rd (rpc cpu + 4))\<lparr>rpc := NOT 1 AND (gpr_ref (gpr_set cpu rd (rpc cpu + 4)) rs1 + scast imm)\<rparr>)
      else map_option (\<lambda>v. cpu_next (gpr_set cpu rd v)) (eval_i op (gpr_ref cpu rs1) imm))"
| "interpret_instr (Load op rd rs1 imm) cpu =
     map_option (\<lambda>v. cpu_next (gpr_set cpu rd (load_extend op v)))
       (load_bytes (load_size op) (rmem cpu) (scast imm + gpr_ref cpu rs1))"
| "interpret_instr (Store op rs1 rs2 imm) cpu =
     map_option (\<lambda>m. cpu_next (cpu\<lparr>rmem := m\<rparr>))
       (store_bytes (store_size op) (gpr_ref cpu rs2) (scast imm + gpr_ref cpu rs1) (rmem cpu))"
| "interpret_instr (Branch op rs1 rs2 imm) cpu =
     Some (if evaluate_binary_conditional op (gpr_ref cpu rs1) (gpr_ref cpu rs2)
           then jump_and_link cpu 0 (scast imm)
           else cpu_next cpu)"
| "interpret_instr (Lui rd imm) cpu =
     Some (cpu_next (gpr_set cpu rd (scast (push_bit 12 (ucast imm) :: u32))))"
| "interpret_instr (Auipc rd imm) cpu =
     Some (cpu_next (gpr_set cpu rd (scast (push_bit 12 (ucast imm) :: u32) + rpc cpu)))"
| "interpret_instr (Jal rd imm) cpu = Some (jump_and_link cpu rd (scast imm))"

text \<open>One step of \<^verbatim>\<open>interpret-program\<close>: the word at the program counter is decoded and run.\<close>

definition rv_step :: "(u64 \<Rightarrow> u32 option) \<Rightarrow> rcpu \<Rightarrow> rcpu option" where
  "rv_step img cpu =
     (case img (rpc cpu) of
        None \<Rightarrow> None
      | Some w \<Rightarrow> (case decode_instr w of None \<Rightarrow> None | Some i \<Rightarrow> interpret_instr i cpu))"

fun rv_steps :: "(u64 \<Rightarrow> u32 option) \<Rightarrow> nat \<Rightarrow> rcpu \<Rightarrow> rcpu option" where
  "rv_steps img 0 cpu = Some cpu"
| "rv_steps img (Suc n) cpu =
     (case rv_step img cpu of None \<Rightarrow> None | Some cpu' \<Rightarrow> rv_steps img n cpu')"

end
