(* ===== verification/Rv64_Code.thy ===== *)
theory Rv64_Code
  imports Rv64
begin

text \<open>
  The instruction encodings: the fields of every format read back what was put in them, and
  decoding inverts encoding on every instruction whose shift amount is in range.
\<close>

unbundle bit_operations_syntax

section \<open>Decoding inverts encoding\<close>

lemmas field_defs =
  f_opcode_def f_rd_def f_funct3_def f_rs1_def f_rs2_def f_funct7_def f_imm_i_def f_imm_s_def
  f_imm_u_def f_imm_b_def f_imm_j_def

lemma bit_beyond: "LENGTH('a) \<le> n \<Longrightarrow> \<not> bit (w :: 'a::len word) n"
  by (meson bit_imp_le_length leD)

lemma bit_r_type:
  "bit (r_type f7 rs2 rs1 f3 rd opc) n =
     (if n < 7 then bit opc n else if n < 12 then bit rd (n - 7) else if n < 15 then bit f3 (n - 12)
      else if n < 20 then bit rs1 (n - 15) else if n < 25 then bit rs2 (n - 20)
      else n < 32 \<and> bit f7 (n - 25))"
proof -
  consider "n < 7" | "7 \<le> n" "n < 12" | "12 \<le> n" "n < 15" | "15 \<le> n" "n < 20"
    | "20 \<le> n" "n < 25" | "25 \<le> n" "n < 32" | "32 \<le> n"
    by linarith
  then show ?thesis
    by (cases, simp_all add: r_type_def bit_simps bit_beyond, auto simp: bit_beyond)
qed

lemma r_type_fields [rv_simps]:
  "f_opcode (r_type f7 rs2 rs1 f3 rd opc) = opc"
  "f_rd (r_type f7 rs2 rs1 f3 rd opc) = rd"
  "f_funct3 (r_type f7 rs2 rs1 f3 rd opc) = f3"
  "f_rs1 (r_type f7 rs2 rs1 f3 rd opc) = rs1"
  "f_rs2 (r_type f7 rs2 rs1 f3 rd opc) = rs2"
  "f_funct7 (r_type f7 rs2 rs1 f3 rd opc) = f7"
  by (rule bit_word_eqI; simp add: field_defs bit_r_type bit_simps)+

lemma bit_i_type:
  "bit (i_type imm rs1 f3 rd opc) n =
     (if n < 7 then bit opc n else if n < 12 then bit rd (n - 7) else if n < 15 then bit f3 (n - 12)
      else if n < 20 then bit rs1 (n - 15) else n < 32 \<and> bit imm (n - 20))"
proof -
  consider "n < 7" | "7 \<le> n" "n < 12" | "12 \<le> n" "n < 15" | "15 \<le> n" "n < 20"
    | "20 \<le> n" "n < 32" | "32 \<le> n"
    by linarith
  then show ?thesis
    by (cases, simp_all add: i_type_def bit_simps bit_beyond, auto simp: bit_beyond)
qed

lemma i_type_fields [rv_simps]:
  "f_opcode (i_type imm rs1 f3 rd opc) = opc"
  "f_rd (i_type imm rs1 f3 rd opc) = rd"
  "f_funct3 (i_type imm rs1 f3 rd opc) = f3"
  "f_rs1 (i_type imm rs1 f3 rd opc) = rs1"
  "f_imm_i (i_type imm rs1 f3 rd opc) = imm"
  by (rule bit_word_eqI; simp add: field_defs bit_i_type bit_simps)+

lemma bit_s_type:
  "bit (s_type imm rs2 rs1 f3 opc) n =
     (if n < 7 then bit opc n else if n < 12 then bit imm (n - 7) else if n < 15 then bit f3 (n - 12)
      else if n < 20 then bit rs1 (n - 15) else if n < 25 then bit rs2 (n - 20)
      else n < 32 \<and> bit imm (n - 20))"
proof -
  consider "n < 7" | "7 \<le> n" "n < 12" | "12 \<le> n" "n < 15" | "15 \<le> n" "n < 20"
    | "20 \<le> n" "n < 25" | "25 \<le> n" "n < 32" | "32 \<le> n"
    by linarith
  then show ?thesis
    by (cases, simp_all add: s_type_def bit_simps bit_beyond, auto simp: bit_beyond)
qed

lemma s_type_fields [rv_simps]:
  "f_opcode (s_type imm rs2 rs1 f3 opc) = opc"
  "f_funct3 (s_type imm rs2 rs1 f3 opc) = f3"
  "f_rs1 (s_type imm rs2 rs1 f3 opc) = rs1"
  "f_rs2 (s_type imm rs2 rs1 f3 opc) = rs2"
  by (rule bit_word_eqI; simp add: field_defs bit_s_type bit_simps)+

lemma s_type_imm [rv_simps]: "f_imm_s (s_type imm rs2 rs1 f3 opc) = imm"
proof (rule bit_word_eqI)
  fix n assume "n < LENGTH(12)"
  then consider "n < 5" | "5 \<le> n" "n < 12" by fastforce
  then show "bit (f_imm_s (s_type imm rs2 rs1 f3 opc)) n = bit imm n"
    by (cases, simp_all add: f_imm_s_def bit_s_type bit_simps, auto)
qed

lemma bit_u_type:
  "bit (u_type uimm rd opc) n =
     (if n < 7 then bit opc n else if n < 12 then bit rd (n - 7) else n < 32 \<and> bit uimm (n - 12))"
proof -
  consider "n < 7" | "7 \<le> n" "n < 12" | "12 \<le> n" "n < 32" | "32 \<le> n"
    by linarith
  then show ?thesis
    by (cases, simp_all add: u_type_def bit_simps bit_beyond, auto simp: bit_beyond)
qed

lemma u_type_fields [rv_simps]:
  "f_opcode (u_type uimm rd opc) = opc"
  "f_rd (u_type uimm rd opc) = rd"
  "f_imm_u (u_type uimm rd opc) = uimm"
  by (rule bit_word_eqI; simp add: field_defs bit_u_type bit_simps)+

lemma bit_b_type:
  "bit (b_type imm rs2 rs1 f3 opc) n =
     (if n < 7 then bit opc n else if n = 7 then bit imm 10 else if n < 12 then bit imm (n - 8)
      else if n < 15 then bit f3 (n - 12) else if n < 20 then bit rs1 (n - 15)
      else if n < 25 then bit rs2 (n - 20) else if n < 31 then bit imm (n - 21) else n = 31 \<and> bit imm 11)"
proof -
  consider "n < 7" | "n = 7" | "8 \<le> n" "n < 12" | "12 \<le> n" "n < 15" | "15 \<le> n" "n < 20"
    | "20 \<le> n" "n < 25" | "25 \<le> n" "n < 31" | "n = 31" | "32 \<le> n"
    by linarith
  then show ?thesis
    by (cases, simp_all add: b_type_def bit_simps bit_beyond, auto simp: bit_beyond)
qed

lemma b_type_fields [rv_simps]:
  "f_opcode (b_type imm rs2 rs1 f3 opc) = opc"
  "f_funct3 (b_type imm rs2 rs1 f3 opc) = f3"
  "f_rs1 (b_type imm rs2 rs1 f3 opc) = rs1"
  "f_rs2 (b_type imm rs2 rs1 f3 opc) = rs2"
  by (rule bit_word_eqI; simp add: field_defs bit_b_type bit_simps)+

lemma b_type_imm [rv_simps]: "f_imm_b (b_type imm rs2 rs1 f3 opc) = imm"
proof (rule bit_word_eqI)
  fix n assume "n < LENGTH(12)"
  then consider "n < 4" | "4 \<le> n" "n < 10" | "n = 10" | "n = 11" by fastforce
  then show "bit (f_imm_b (b_type imm rs2 rs1 f3 opc)) n = bit imm n"
    by (cases, simp_all add: f_imm_b_def bit_b_type bit_simps, auto)
qed

lemma bit_j_type:
  "bit (j_type jimm rd opc) n =
     (if n < 7 then bit opc n else if n < 12 then bit rd (n - 7) else if n < 20 then bit jimm (n - 1)
      else if n = 20 then bit jimm 10 else if n < 31 then bit jimm (n - 21) else n = 31 \<and> bit jimm 19)"
proof -
  consider "n < 7" | "7 \<le> n" "n < 12" | "12 \<le> n" "n < 20" | "n = 20" | "21 \<le> n" "n < 31" | "n = 31" | "32 \<le> n"
    by linarith
  then show ?thesis
    by (cases, simp_all add: j_type_def bit_simps bit_beyond, auto simp: bit_beyond)
qed

lemma j_type_fields [rv_simps]:
  "f_opcode (j_type jimm rd opc) = opc"
  "f_rd (j_type jimm rd opc) = rd"
  by (rule bit_word_eqI; simp add: field_defs bit_j_type bit_simps)+

lemma j_type_imm [rv_simps]: "f_imm_j (j_type jimm rd opc) = jimm"
proof (rule bit_word_eqI)
  fix n assume "n < LENGTH(20)"
  then consider "n < 10" | "n = 10" | "11 \<le> n" "n < 19" | "n = 19" by fastforce
  then show "bit (f_imm_j (j_type jimm rd opc)) n = bit jimm n"
    by (cases, simp_all add: f_imm_j_def bit_j_type bit_simps, auto)
qed

fun instr_ok :: "instr \<Rightarrow> bool" where
  "instr_ok (Itype op rd rs1 imm) =
     ((op \<in> {I_slli, I_srli, I_srai} \<longrightarrow> imm < 64) \<and> (op \<in> {I_slliw, I_srliw, I_sraiw} \<longrightarrow> imm < 32))"
| "instr_ok _ = True"

lemma take_bit_small: "(w :: 'a::len word) < 2 ^ k \<Longrightarrow> take_bit k w = w"
  by (metis less_mask_eq take_bit_eq_mask)

lemma drop_bit_small: "(w :: 'a::len word) < 2 ^ k \<Longrightarrow> drop_bit k w = 0"
  by (metis take_bit_small drop_bit_take_bit diff_self_eq_0 take_bit_0)

lemma shamt6: "(imm :: 12 word) < 64 \<Longrightarrow> take_bit 6 imm = imm \<and> drop_bit 6 imm = 0"
  using take_bit_small [of imm 6] drop_bit_small [of imm 6] by simp

lemma shamt5: "(imm :: 12 word) < 32 \<Longrightarrow> take_bit 5 imm = imm \<and> drop_bit 5 imm = 0"
  using take_bit_small [of imm 5] drop_bit_small [of imm 5] by simp

lemma srai_imm: "\<not> (1024 OR imm) < (64 :: 12 word)"
  using shamt6 [of "1024 OR imm"] by (auto simp: or_eq_0_iff)

lemma sraiw_imm: "\<not> (1024 OR imm) < (32 :: 12 word)"
  using shamt5 [of "1024 OR imm"] by (auto simp: or_eq_0_iff)

lemma decode_encode_r: "decode_instr (encode_instr (Rtype op rd rs1 rs2)) = Some (Rtype op rd rs1 rs2)"
  by (cases op) (simp_all add: decode_instr_def Let_def rv_simps r_ops_def)

lemma decode_encode_i:
  "instr_ok (Itype op rd rs1 imm) \<Longrightarrow> decode_instr (encode_instr (Itype op rd rs1 imm)) = Some (Itype op rd rs1 imm)"
  by (cases op) (simp_all add: decode_instr_def Let_def rv_simps decode_i_def srai_imm sraiw_imm shamt6 shamt5)

lemma decode_encode_l: "decode_instr (encode_instr (Load op rd rs1 imm)) = Some (Load op rd rs1 imm)"
  by (cases op) (simp_all add: decode_instr_def Let_def rv_simps l_ops_def)

lemma decode_encode_s: "decode_instr (encode_instr (Store op rs1 rs2 imm)) = Some (Store op rs1 rs2 imm)"
  by (cases op) (simp_all add: decode_instr_def Let_def rv_simps s_ops_def)

lemma decode_encode_b: "decode_instr (encode_instr (Branch op rs1 rs2 imm)) = Some (Branch op rs1 rs2 imm)"
  by (cases op) (simp_all add: decode_instr_def Let_def rv_simps b_ops_def)

lemma decode_encode_instr: "instr_ok i \<Longrightarrow> decode_instr (encode_instr i) = Some i"
  by (cases i)
    (simp_all only: decode_encode_r decode_encode_i decode_encode_l decode_encode_s decode_encode_b,
     simp_all add: decode_instr_def Let_def rv_simps)

declare encode_instr.simps [simp del]

end
