(* ===== verification/Bpf.thy ===== *)
theory Bpf
  imports Byte_Mem
begin

text \<open>
  The BPF interpreter of \<^verbatim>\<open>src/bpf/kbpf.c\<close> with the data types of \<^verbatim>\<open>src/bpf/bpf.h\<close> and
  \<^verbatim>\<open>src/bpf/filter.h\<close>: the opcode table \<^verbatim>\<open>BPF_INSN_MAP\<close>, one definition per group of labels of
  \<^verbatim>\<open>___bpf_prog_run\<close>, the dispatch loop and \<^verbatim>\<open>bpf_prog_run\<close>.
  Register arithmetic is at its width. What the C code leaves undefined (a shift by the width
  or more, a division by zero, a register number of 12 or more, an access to an unmapped
  address, an instruction fetched outside the program) is the result \<open>BUndef\<close>; the \<^verbatim>\<open>BUG_ON\<close> of an
  unknown opcode is \<open>BBug\<close>.
\<close>

unbundle bit_operations_syntax

section \<open>Opcodes\<close>

definition BPF_LD :: u8 where "BPF_LD = 0x00"
definition BPF_LDX :: u8 where "BPF_LDX = 0x01"
definition BPF_ST :: u8 where "BPF_ST = 0x02"
definition BPF_STX :: u8 where "BPF_STX = 0x03"
definition BPF_ALU :: u8 where "BPF_ALU = 0x04"
definition BPF_JMP :: u8 where "BPF_JMP = 0x05"
definition BPF_W :: u8 where "BPF_W = 0x00"
definition BPF_H :: u8 where "BPF_H = 0x08"
definition BPF_B :: u8 where "BPF_B = 0x10"
definition BPF_IMM :: u8 where "BPF_IMM = 0x00"
definition BPF_MEM :: u8 where "BPF_MEM = 0x60"
definition BPF_ADD :: u8 where "BPF_ADD = 0x00"
definition BPF_SUB :: u8 where "BPF_SUB = 0x10"
definition BPF_MUL :: u8 where "BPF_MUL = 0x20"
definition BPF_DIV :: u8 where "BPF_DIV = 0x30"
definition BPF_OR :: u8 where "BPF_OR = 0x40"
definition BPF_AND :: u8 where "BPF_AND = 0x50"
definition BPF_LSH :: u8 where "BPF_LSH = 0x60"
definition BPF_RSH :: u8 where "BPF_RSH = 0x70"
definition BPF_NEG :: u8 where "BPF_NEG = 0x80"
definition BPF_MOD :: u8 where "BPF_MOD = 0x90"
definition BPF_XOR :: u8 where "BPF_XOR = 0xa0"
definition BPF_JA :: u8 where "BPF_JA = 0x00"
definition BPF_JEQ :: u8 where "BPF_JEQ = 0x10"
definition BPF_JGT :: u8 where "BPF_JGT = 0x20"
definition BPF_JGE :: u8 where "BPF_JGE = 0x30"
definition BPF_JSET :: u8 where "BPF_JSET = 0x40"
definition BPF_K :: u8 where "BPF_K = 0x00"
definition BPF_X :: u8 where "BPF_X = 0x08"
definition BPF_JMP32 :: u8 where "BPF_JMP32 = 0x06"
definition BPF_ALU64 :: u8 where "BPF_ALU64 = 0x07"
definition BPF_DW :: u8 where "BPF_DW = 0x18"
definition BPF_XADD :: u8 where "BPF_XADD = 0xc0"
definition BPF_MOV :: u8 where "BPF_MOV = 0xb0"
definition BPF_ARSH :: u8 where "BPF_ARSH = 0xc0"
definition BPF_END :: u8 where "BPF_END = 0xd0"
definition BPF_TO_LE :: u8 where "BPF_TO_LE = 0x00"
definition BPF_TO_BE :: u8 where "BPF_TO_BE = 0x08"
definition BPF_JNE :: u8 where "BPF_JNE = 0x50"
definition BPF_JLT :: u8 where "BPF_JLT = 0xa0"
definition BPF_JLE :: u8 where "BPF_JLE = 0xb0"
definition BPF_JSGT :: u8 where "BPF_JSGT = 0x60"
definition BPF_JSGE :: u8 where "BPF_JSGE = 0x70"
definition BPF_JSLT :: u8 where "BPF_JSLT = 0xc0"
definition BPF_JSLE :: u8 where "BPF_JSLE = 0xd0"
definition BPF_CALL :: u8 where "BPF_CALL = 0x80"
definition BPF_EXIT :: u8 where "BPF_EXIT = 0x90"

lemmas bpf_consts =
  BPF_LD_def BPF_LDX_def BPF_ST_def BPF_STX_def BPF_ALU_def BPF_JMP_def BPF_W_def BPF_H_def
  BPF_B_def BPF_IMM_def BPF_MEM_def BPF_ADD_def BPF_SUB_def BPF_MUL_def BPF_DIV_def
  BPF_OR_def BPF_AND_def BPF_LSH_def BPF_RSH_def BPF_NEG_def BPF_MOD_def BPF_XOR_def
  BPF_JA_def BPF_JEQ_def BPF_JGT_def BPF_JGE_def BPF_JSET_def BPF_K_def BPF_X_def
  BPF_JMP32_def BPF_ALU64_def BPF_DW_def BPF_XADD_def BPF_MOV_def BPF_ARSH_def BPF_END_def
  BPF_TO_LE_def BPF_TO_BE_def BPF_JNE_def BPF_JLT_def BPF_JLE_def BPF_JSGT_def BPF_JSGE_def
  BPF_JSLT_def BPF_JSLE_def BPF_CALL_def BPF_EXIT_def

definition BPF_CLASS :: "u8 \<Rightarrow> u8" where "BPF_CLASS code = code AND 0x07"
definition BPF_SIZE :: "u8 \<Rightarrow> u8" where "BPF_SIZE code = code AND 0x18"
definition BPF_MODE :: "u8 \<Rightarrow> u8" where "BPF_MODE code = code AND 0xe0"
definition BPF_OP :: "u8 \<Rightarrow> u8" where "BPF_OP code = code AND 0xf0"
definition BPF_SRC :: "u8 \<Rightarrow> u8" where "BPF_SRC code = code AND 0x08"

definition BPF_REG_AX :: nat where "BPF_REG_AX = 11"
definition MAX_BPF_EXT_REG :: nat where "MAX_BPF_EXT_REG = 12"
definition BPF_REG_FP :: nat where "BPF_REG_FP = 10"
definition BPF_REG_ARG1 :: nat where "BPF_REG_ARG1 = 1"
definition MAX_BPF_STACK :: u64 where "MAX_BPF_STACK = 512"

record bpf_insn =
  insn_code :: u8
  dst_reg :: "4 word"
  src_reg :: "4 word"
  insn_off :: u16
  insn_imm :: u32

datatype alu_class = C_ALU | C_ALU64
datatype jmp_class = C_JMP | C_JMP32
datatype bpf_src = SrcX | SrcK
datatype alu_op = OpADD | OpSUB | OpAND | OpOR | OpLSH | OpRSH | OpXOR | OpMUL
datatype jmp_op = JEQ | JNE | JGT | JLT | JGE | JLE | JSET | JSGT | JSLT | JSGE | JSLE
datatype bpf_size = SzB | SzH | SzW | SzDW

datatype label =
    L_ALU alu_class alu_op bpf_src
  | L_NEG alu_class
  | L_MOV alu_class bpf_src
  | L_LD_IMM_DW
  | L_ARSH alu_class bpf_src
  | L_MOD alu_class bpf_src
  | L_DIV alu_class bpf_src
  | L_END_TO_BE
  | L_END_TO_LE
  | L_CALL
  | L_JA
  | L_EXIT
  | L_COND_JMP jmp_class jmp_op bpf_src
  | L_STX_MEM bpf_size
  | L_ST_MEM bpf_size
  | L_LDX_MEM bpf_size
  | L_STX_XADD_W
  | L_STX_XADD_DW

definition BPF_INSN_MAP :: "(u8 \<times> label) list" where
  "BPF_INSN_MAP = [
   (BPF_ALU OR BPF_ADD OR BPF_X, L_ALU C_ALU OpADD SrcX),
   (BPF_ALU OR BPF_SUB OR BPF_X, L_ALU C_ALU OpSUB SrcX),
   (BPF_ALU OR BPF_AND OR BPF_X, L_ALU C_ALU OpAND SrcX),
   (BPF_ALU OR BPF_OR OR BPF_X, L_ALU C_ALU OpOR SrcX),
   (BPF_ALU OR BPF_LSH OR BPF_X, L_ALU C_ALU OpLSH SrcX),
   (BPF_ALU OR BPF_RSH OR BPF_X, L_ALU C_ALU OpRSH SrcX),
   (BPF_ALU OR BPF_XOR OR BPF_X, L_ALU C_ALU OpXOR SrcX),
   (BPF_ALU OR BPF_MUL OR BPF_X, L_ALU C_ALU OpMUL SrcX),
   (BPF_ALU OR BPF_MOV OR BPF_X, L_MOV C_ALU SrcX),
   (BPF_ALU OR BPF_ARSH OR BPF_X, L_ARSH C_ALU SrcX),
   (BPF_ALU OR BPF_DIV OR BPF_X, L_DIV C_ALU SrcX),
   (BPF_ALU OR BPF_MOD OR BPF_X, L_MOD C_ALU SrcX),
   (BPF_ALU OR BPF_NEG, L_NEG C_ALU),
   (BPF_ALU OR BPF_END OR BPF_TO_BE, L_END_TO_BE),
   (BPF_ALU OR BPF_END OR BPF_TO_LE, L_END_TO_LE),
   (BPF_ALU OR BPF_ADD OR BPF_K, L_ALU C_ALU OpADD SrcK),
   (BPF_ALU OR BPF_SUB OR BPF_K, L_ALU C_ALU OpSUB SrcK),
   (BPF_ALU OR BPF_AND OR BPF_K, L_ALU C_ALU OpAND SrcK),
   (BPF_ALU OR BPF_OR OR BPF_K, L_ALU C_ALU OpOR SrcK),
   (BPF_ALU OR BPF_LSH OR BPF_K, L_ALU C_ALU OpLSH SrcK),
   (BPF_ALU OR BPF_RSH OR BPF_K, L_ALU C_ALU OpRSH SrcK),
   (BPF_ALU OR BPF_XOR OR BPF_K, L_ALU C_ALU OpXOR SrcK),
   (BPF_ALU OR BPF_MUL OR BPF_K, L_ALU C_ALU OpMUL SrcK),
   (BPF_ALU OR BPF_MOV OR BPF_K, L_MOV C_ALU SrcK),
   (BPF_ALU OR BPF_ARSH OR BPF_K, L_ARSH C_ALU SrcK),
   (BPF_ALU OR BPF_DIV OR BPF_K, L_DIV C_ALU SrcK),
   (BPF_ALU OR BPF_MOD OR BPF_K, L_MOD C_ALU SrcK),
   (BPF_ALU64 OR BPF_ADD OR BPF_X, L_ALU C_ALU64 OpADD SrcX),
   (BPF_ALU64 OR BPF_SUB OR BPF_X, L_ALU C_ALU64 OpSUB SrcX),
   (BPF_ALU64 OR BPF_AND OR BPF_X, L_ALU C_ALU64 OpAND SrcX),
   (BPF_ALU64 OR BPF_OR OR BPF_X, L_ALU C_ALU64 OpOR SrcX),
   (BPF_ALU64 OR BPF_LSH OR BPF_X, L_ALU C_ALU64 OpLSH SrcX),
   (BPF_ALU64 OR BPF_RSH OR BPF_X, L_ALU C_ALU64 OpRSH SrcX),
   (BPF_ALU64 OR BPF_XOR OR BPF_X, L_ALU C_ALU64 OpXOR SrcX),
   (BPF_ALU64 OR BPF_MUL OR BPF_X, L_ALU C_ALU64 OpMUL SrcX),
   (BPF_ALU64 OR BPF_MOV OR BPF_X, L_MOV C_ALU64 SrcX),
   (BPF_ALU64 OR BPF_ARSH OR BPF_X, L_ARSH C_ALU64 SrcX),
   (BPF_ALU64 OR BPF_DIV OR BPF_X, L_DIV C_ALU64 SrcX),
   (BPF_ALU64 OR BPF_MOD OR BPF_X, L_MOD C_ALU64 SrcX),
   (BPF_ALU64 OR BPF_NEG, L_NEG C_ALU64),
   (BPF_ALU64 OR BPF_ADD OR BPF_K, L_ALU C_ALU64 OpADD SrcK),
   (BPF_ALU64 OR BPF_SUB OR BPF_K, L_ALU C_ALU64 OpSUB SrcK),
   (BPF_ALU64 OR BPF_AND OR BPF_K, L_ALU C_ALU64 OpAND SrcK),
   (BPF_ALU64 OR BPF_OR OR BPF_K, L_ALU C_ALU64 OpOR SrcK),
   (BPF_ALU64 OR BPF_LSH OR BPF_K, L_ALU C_ALU64 OpLSH SrcK),
   (BPF_ALU64 OR BPF_RSH OR BPF_K, L_ALU C_ALU64 OpRSH SrcK),
   (BPF_ALU64 OR BPF_XOR OR BPF_K, L_ALU C_ALU64 OpXOR SrcK),
   (BPF_ALU64 OR BPF_MUL OR BPF_K, L_ALU C_ALU64 OpMUL SrcK),
   (BPF_ALU64 OR BPF_MOV OR BPF_K, L_MOV C_ALU64 SrcK),
   (BPF_ALU64 OR BPF_ARSH OR BPF_K, L_ARSH C_ALU64 SrcK),
   (BPF_ALU64 OR BPF_DIV OR BPF_K, L_DIV C_ALU64 SrcK),
   (BPF_ALU64 OR BPF_MOD OR BPF_K, L_MOD C_ALU64 SrcK),
   (BPF_JMP OR BPF_CALL, L_CALL),
   (BPF_JMP OR BPF_EXIT, L_EXIT),
   (BPF_JMP32 OR BPF_JEQ OR BPF_X, L_COND_JMP C_JMP32 JEQ SrcX),
   (BPF_JMP32 OR BPF_JNE OR BPF_X, L_COND_JMP C_JMP32 JNE SrcX),
   (BPF_JMP32 OR BPF_JGT OR BPF_X, L_COND_JMP C_JMP32 JGT SrcX),
   (BPF_JMP32 OR BPF_JLT OR BPF_X, L_COND_JMP C_JMP32 JLT SrcX),
   (BPF_JMP32 OR BPF_JGE OR BPF_X, L_COND_JMP C_JMP32 JGE SrcX),
   (BPF_JMP32 OR BPF_JLE OR BPF_X, L_COND_JMP C_JMP32 JLE SrcX),
   (BPF_JMP32 OR BPF_JSGT OR BPF_X, L_COND_JMP C_JMP32 JSGT SrcX),
   (BPF_JMP32 OR BPF_JSLT OR BPF_X, L_COND_JMP C_JMP32 JSLT SrcX),
   (BPF_JMP32 OR BPF_JSGE OR BPF_X, L_COND_JMP C_JMP32 JSGE SrcX),
   (BPF_JMP32 OR BPF_JSLE OR BPF_X, L_COND_JMP C_JMP32 JSLE SrcX),
   (BPF_JMP32 OR BPF_JSET OR BPF_X, L_COND_JMP C_JMP32 JSET SrcX),
   (BPF_JMP32 OR BPF_JEQ OR BPF_K, L_COND_JMP C_JMP32 JEQ SrcK),
   (BPF_JMP32 OR BPF_JNE OR BPF_K, L_COND_JMP C_JMP32 JNE SrcK),
   (BPF_JMP32 OR BPF_JGT OR BPF_K, L_COND_JMP C_JMP32 JGT SrcK),
   (BPF_JMP32 OR BPF_JLT OR BPF_K, L_COND_JMP C_JMP32 JLT SrcK),
   (BPF_JMP32 OR BPF_JGE OR BPF_K, L_COND_JMP C_JMP32 JGE SrcK),
   (BPF_JMP32 OR BPF_JLE OR BPF_K, L_COND_JMP C_JMP32 JLE SrcK),
   (BPF_JMP32 OR BPF_JSGT OR BPF_K, L_COND_JMP C_JMP32 JSGT SrcK),
   (BPF_JMP32 OR BPF_JSLT OR BPF_K, L_COND_JMP C_JMP32 JSLT SrcK),
   (BPF_JMP32 OR BPF_JSGE OR BPF_K, L_COND_JMP C_JMP32 JSGE SrcK),
   (BPF_JMP32 OR BPF_JSLE OR BPF_K, L_COND_JMP C_JMP32 JSLE SrcK),
   (BPF_JMP32 OR BPF_JSET OR BPF_K, L_COND_JMP C_JMP32 JSET SrcK),
   (BPF_JMP OR BPF_JEQ OR BPF_X, L_COND_JMP C_JMP JEQ SrcX),
   (BPF_JMP OR BPF_JNE OR BPF_X, L_COND_JMP C_JMP JNE SrcX),
   (BPF_JMP OR BPF_JGT OR BPF_X, L_COND_JMP C_JMP JGT SrcX),
   (BPF_JMP OR BPF_JLT OR BPF_X, L_COND_JMP C_JMP JLT SrcX),
   (BPF_JMP OR BPF_JGE OR BPF_X, L_COND_JMP C_JMP JGE SrcX),
   (BPF_JMP OR BPF_JLE OR BPF_X, L_COND_JMP C_JMP JLE SrcX),
   (BPF_JMP OR BPF_JSGT OR BPF_X, L_COND_JMP C_JMP JSGT SrcX),
   (BPF_JMP OR BPF_JSLT OR BPF_X, L_COND_JMP C_JMP JSLT SrcX),
   (BPF_JMP OR BPF_JSGE OR BPF_X, L_COND_JMP C_JMP JSGE SrcX),
   (BPF_JMP OR BPF_JSLE OR BPF_X, L_COND_JMP C_JMP JSLE SrcX),
   (BPF_JMP OR BPF_JSET OR BPF_X, L_COND_JMP C_JMP JSET SrcX),
   (BPF_JMP OR BPF_JEQ OR BPF_K, L_COND_JMP C_JMP JEQ SrcK),
   (BPF_JMP OR BPF_JNE OR BPF_K, L_COND_JMP C_JMP JNE SrcK),
   (BPF_JMP OR BPF_JGT OR BPF_K, L_COND_JMP C_JMP JGT SrcK),
   (BPF_JMP OR BPF_JLT OR BPF_K, L_COND_JMP C_JMP JLT SrcK),
   (BPF_JMP OR BPF_JGE OR BPF_K, L_COND_JMP C_JMP JGE SrcK),
   (BPF_JMP OR BPF_JLE OR BPF_K, L_COND_JMP C_JMP JLE SrcK),
   (BPF_JMP OR BPF_JSGT OR BPF_K, L_COND_JMP C_JMP JSGT SrcK),
   (BPF_JMP OR BPF_JSLT OR BPF_K, L_COND_JMP C_JMP JSLT SrcK),
   (BPF_JMP OR BPF_JSGE OR BPF_K, L_COND_JMP C_JMP JSGE SrcK),
   (BPF_JMP OR BPF_JSLE OR BPF_K, L_COND_JMP C_JMP JSLE SrcK),
   (BPF_JMP OR BPF_JSET OR BPF_K, L_COND_JMP C_JMP JSET SrcK),
   (BPF_JMP OR BPF_JA, L_JA),
   (BPF_STX OR BPF_MEM OR BPF_B, L_STX_MEM SzB),
   (BPF_STX OR BPF_MEM OR BPF_H, L_STX_MEM SzH),
   (BPF_STX OR BPF_MEM OR BPF_W, L_STX_MEM SzW),
   (BPF_STX OR BPF_MEM OR BPF_DW, L_STX_MEM SzDW),
   (BPF_STX OR BPF_XADD OR BPF_W, L_STX_XADD_W),
   (BPF_STX OR BPF_XADD OR BPF_DW, L_STX_XADD_DW),
   (BPF_ST OR BPF_MEM OR BPF_B, L_ST_MEM SzB),
   (BPF_ST OR BPF_MEM OR BPF_H, L_ST_MEM SzH),
   (BPF_ST OR BPF_MEM OR BPF_W, L_ST_MEM SzW),
   (BPF_ST OR BPF_MEM OR BPF_DW, L_ST_MEM SzDW),
   (BPF_LDX OR BPF_MEM OR BPF_B, L_LDX_MEM SzB),
   (BPF_LDX OR BPF_MEM OR BPF_H, L_LDX_MEM SzH),
   (BPF_LDX OR BPF_MEM OR BPF_W, L_LDX_MEM SzW),
   (BPF_LDX OR BPF_MEM OR BPF_DW, L_LDX_MEM SzDW),
   (BPF_LD OR BPF_IMM OR BPF_DW, L_LD_IMM_DW)]"

definition select_insn :: "u8 \<Rightarrow> label option" where
  "select_insn code = map_of BPF_INSN_MAP code"

section \<open>State and register access\<close>

record bpf_state =
  bpc :: int
  bregs :: "nat \<Rightarrow> u64"
  bmem :: memory

datatype bpf_res = BCont bpf_state | BRet u64 | BBug | BUndef

definition DST :: "bpf_insn \<Rightarrow> bpf_state \<Rightarrow> u64" where
  "DST i s = bregs s (unat (dst_reg i))"

definition SRC :: "bpf_insn \<Rightarrow> bpf_state \<Rightarrow> u64" where
  "SRC i s = bregs s (unat (src_reg i))"

definition AX :: "bpf_state \<Rightarrow> u64" where
  "AX s = bregs s BPF_REG_AX"

definition IMM :: "bpf_insn \<Rightarrow> u64" where
  "IMM i = scast (insn_imm i)"

definition OFF :: "bpf_insn \<Rightarrow> u64" where
  "OFF i = scast (insn_off i)"

definition set_reg :: "nat \<Rightarrow> u64 \<Rightarrow> bpf_state \<Rightarrow> bpf_state" where
  "set_reg r v s = s\<lparr>bregs := (bregs s)(r := v)\<rparr>"

definition set_DST :: "bpf_insn \<Rightarrow> u64 \<Rightarrow> bpf_state \<Rightarrow> bpf_state" where
  "set_DST i v s = set_reg (unat (dst_reg i)) v s"

definition CONT :: "bpf_state \<Rightarrow> bpf_res" where
  "CONT s = BCont (s\<lparr>bpc := bpc s + 1\<rparr>)"

definition jump_off :: "bpf_insn \<Rightarrow> bpf_state \<Rightarrow> bpf_state" where
  "jump_off i s = s\<lparr>bpc := bpc s + sint (insn_off i)\<rparr>"

definition operand64 :: "bpf_src \<Rightarrow> bpf_insn \<Rightarrow> bpf_state \<Rightarrow> u64" where
  "operand64 x i s = (case x of SrcX \<Rightarrow> SRC i s | SrcK \<Rightarrow> IMM i)"

definition operand32 :: "bpf_src \<Rightarrow> bpf_insn \<Rightarrow> bpf_state \<Rightarrow> u32" where
  "operand32 x i s = (case x of SrcX \<Rightarrow> ucast (SRC i s) | SrcK \<Rightarrow> insn_imm i)"

section \<open>Arithmetic\<close>

fun alu64 :: "alu_op \<Rightarrow> u64 \<Rightarrow> u64 \<Rightarrow> u64 option" where
  "alu64 OpADD a b = Some (a + b)"
| "alu64 OpSUB a b = Some (a - b)"
| "alu64 OpAND a b = Some (a AND b)"
| "alu64 OpOR a b = Some (a OR b)"
| "alu64 OpLSH a b = (if b < 64 then Some (push_bit (unat b) a) else None)"
| "alu64 OpRSH a b = (if b < 64 then Some (drop_bit (unat b) a) else None)"
| "alu64 OpXOR a b = Some (a XOR b)"
| "alu64 OpMUL a b = Some (a * b)"

fun alu32 :: "alu_op \<Rightarrow> u32 \<Rightarrow> u32 \<Rightarrow> u32 option" where
  "alu32 OpADD a b = Some (a + b)"
| "alu32 OpSUB a b = Some (a - b)"
| "alu32 OpAND a b = Some (a AND b)"
| "alu32 OpOR a b = Some (a OR b)"
| "alu32 OpLSH a b = (if b < 32 then Some (push_bit (unat b) a) else None)"
| "alu32 OpRSH a b = (if b < 32 then Some (drop_bit (unat b) a) else None)"
| "alu32 OpXOR a b = Some (a XOR b)"
| "alu32 OpMUL a b = Some (a * b)"

definition ALU :: "alu_class \<Rightarrow> alu_op \<Rightarrow> bpf_src \<Rightarrow> bpf_insn \<Rightarrow> bpf_state \<Rightarrow> bpf_res" where
  "ALU c op x i s =
     (case c of
        C_ALU64 \<Rightarrow> (case alu64 op (DST i s) (operand64 x i s) of
            None \<Rightarrow> BUndef | Some v \<Rightarrow> CONT (set_DST i v s))
      | C_ALU \<Rightarrow> (case alu32 op (ucast (DST i s)) (operand32 x i s) of
            None \<Rightarrow> BUndef | Some v \<Rightarrow> CONT (set_DST i (ucast v) s)))"

definition ALU_NEG :: "alu_class \<Rightarrow> bpf_insn \<Rightarrow> bpf_state \<Rightarrow> bpf_res" where
  "ALU_NEG c i s =
     (case c of
        C_ALU \<Rightarrow> CONT (set_DST i (ucast (ucast (- DST i s) :: u32)) s)
      | C_ALU64 \<Rightarrow> CONT (set_DST i (- DST i s) s))"

definition ALU_MOV :: "alu_class \<Rightarrow> bpf_src \<Rightarrow> bpf_insn \<Rightarrow> bpf_state \<Rightarrow> bpf_res" where
  "ALU_MOV c x i s =
     (case c of
        C_ALU \<Rightarrow> CONT (set_DST i (ucast (operand32 x i s)) s)
      | C_ALU64 \<Rightarrow> CONT (set_DST i (operand64 x i s) s))"

definition LD_IMM_DW :: "bpf_insn \<Rightarrow> bpf_insn option \<Rightarrow> bpf_state \<Rightarrow> bpf_res" where
  "LD_IMM_DW i i1 s =
     (case i1 of
        None \<Rightarrow> BUndef
      | Some j \<Rightarrow>
          let s1 = set_DST i (ucast (insn_imm i) OR push_bit 32 (ucast (insn_imm j))) s
          in CONT (s1\<lparr>bpc := bpc s1 + 1\<rparr>))"

definition ALU_ARSH :: "alu_class \<Rightarrow> bpf_src \<Rightarrow> bpf_insn \<Rightarrow> bpf_state \<Rightarrow> bpf_res" where
  "ALU_ARSH c x i s =
     (let n = operand64 x i s in
      case c of
        C_ALU \<Rightarrow>
          if n < 32
          then CONT (set_DST i (ucast (signed_drop_bit (unat n) (ucast (DST i s) :: u32))) s)
          else BUndef
      | C_ALU64 \<Rightarrow>
          if n < 64 then CONT (set_DST i (signed_drop_bit (unat n) (DST i s)) s) else BUndef)"

definition do_div :: "u64 \<Rightarrow> u32 \<Rightarrow> u32 \<times> u64" where
  "do_div n base = (ucast (n mod ucast base), n div ucast base)"

definition div64_u64 :: "u64 \<Rightarrow> u64 \<Rightarrow> u64" where
  "div64_u64 dividend divisor = dividend div divisor"

definition div64_u64_rem :: "u64 \<Rightarrow> u64 \<Rightarrow> u64 \<times> u64" where
  "div64_u64_rem dividend divisor = (dividend div divisor, dividend mod divisor)"

definition ALU_MOD :: "alu_class \<Rightarrow> bpf_src \<Rightarrow> bpf_insn \<Rightarrow> bpf_state \<Rightarrow> bpf_res" where
  "ALU_MOD c x i s =
     (case c of
        C_ALU64 \<Rightarrow>
          if operand64 x i s = 0 then BUndef
          else let s1 = set_reg BPF_REG_AX (snd (div64_u64_rem (DST i s) (operand64 x i s))) s
               in CONT (set_DST i (AX s1) s1)
      | C_ALU \<Rightarrow>
          let s1 = set_reg BPF_REG_AX (ucast (ucast (DST i s) :: u32)) s;
              base = operand32 x i s1
          in if base = 0 then BUndef
             else let (rem, n) = do_div (AX s1) base;
                      s2 = set_reg BPF_REG_AX n s1
                  in CONT (set_DST i (ucast rem) s2))"

definition ALU_DIV :: "alu_class \<Rightarrow> bpf_src \<Rightarrow> bpf_insn \<Rightarrow> bpf_state \<Rightarrow> bpf_res" where
  "ALU_DIV c x i s =
     (case c of
        C_ALU64 \<Rightarrow>
          if operand64 x i s = 0 then BUndef
          else CONT (set_DST i (div64_u64 (DST i s) (operand64 x i s)) s)
      | C_ALU \<Rightarrow>
          let s1 = set_reg BPF_REG_AX (ucast (ucast (DST i s) :: u32)) s;
              base = operand32 x i s1
          in if base = 0 then BUndef
             else let s2 = set_reg BPF_REG_AX (snd (do_div (AX s1) base)) s1
                  in CONT (set_DST i (ucast (ucast (AX s2) :: u32)) s2))"

section \<open>Byte order\<close>

definition swab16 :: "u16 \<Rightarrow> u16" where
  "swab16 x = push_bit 8 (x AND 0x00ff) OR drop_bit 8 (x AND 0xff00)"

definition swab32 :: "u32 \<Rightarrow> u32" where
  "swab32 x =
     push_bit 24 (x AND 0x000000ff) OR
     push_bit 8 (x AND 0x0000ff00) OR
     drop_bit 8 (x AND 0x00ff0000) OR
     drop_bit 24 (x AND 0xff000000)"

definition swab64 :: "u64 \<Rightarrow> u64" where
  "swab64 x =
     push_bit 56 (x AND 0x00000000000000ff) OR
     push_bit 40 (x AND 0x000000000000ff00) OR
     push_bit 24 (x AND 0x0000000000ff0000) OR
     push_bit 8 (x AND 0x00000000ff000000) OR
     drop_bit 8 (x AND 0x000000ff00000000) OR
     drop_bit 24 (x AND 0x0000ff0000000000) OR
     drop_bit 40 (x AND 0x00ff000000000000) OR
     drop_bit 56 (x AND 0xff00000000000000)"

definition ALU_END_TO_BE :: "bpf_insn \<Rightarrow> bpf_state \<Rightarrow> bpf_res" where
  "ALU_END_TO_BE i s =
     (if insn_imm i = 16 then CONT (set_DST i (ucast (swab16 (ucast (DST i s)))) s)
      else if insn_imm i = 32 then CONT (set_DST i (ucast (swab32 (ucast (DST i s)))) s)
      else if insn_imm i = 64 then CONT (set_DST i (swab64 (DST i s)) s)
      else CONT s)"

definition ALU_END_TO_LE :: "bpf_insn \<Rightarrow> bpf_state \<Rightarrow> bpf_res" where
  "ALU_END_TO_LE i s =
     (if insn_imm i = 16 then CONT (set_DST i (ucast (ucast (DST i s) :: u16)) s)
      else if insn_imm i = 32 then CONT (set_DST i (ucast (ucast (DST i s) :: u32)) s)
      else if insn_imm i = 64 then CONT (set_DST i (DST i s) s)
      else CONT s)"

section \<open>Jumps\<close>

fun cmp_op :: "jmp_op \<Rightarrow> 'a::len word \<Rightarrow> 'a word \<Rightarrow> bool" where
  "cmp_op JEQ a b = (a = b)"
| "cmp_op JNE a b = (a \<noteq> b)"
| "cmp_op JGT a b = (b < a)"
| "cmp_op JLT a b = (a < b)"
| "cmp_op JGE a b = (b \<le> a)"
| "cmp_op JLE a b = (a \<le> b)"
| "cmp_op JSET a b = (a AND b \<noteq> 0)"
| "cmp_op JSGT a b = (b <s a)"
| "cmp_op JSLT a b = (a <s b)"
| "cmp_op JSGE a b = (b \<le>s a)"
| "cmp_op JSLE a b = (a \<le>s b)"

definition COND_JMP :: "jmp_class \<Rightarrow> jmp_op \<Rightarrow> bpf_src \<Rightarrow> bpf_insn \<Rightarrow> bpf_state \<Rightarrow> bpf_res" where
  "COND_JMP c op x i s =
     (let taken = (case c of
          C_JMP \<Rightarrow> cmp_op op (DST i s) (operand64 x i s)
        | C_JMP32 \<Rightarrow> cmp_op op (ucast (DST i s) :: u32) (operand32 x i s))
      in if taken then CONT (jump_off i s) else CONT s)"

section \<open>Memory\<close>

fun size_bytes :: "bpf_size \<Rightarrow> nat" where
  "size_bytes SzB = 1"
| "size_bytes SzH = 2"
| "size_bytes SzW = 4"
| "size_bytes SzDW = 8"

definition STX_MEM :: "bpf_size \<Rightarrow> bpf_insn \<Rightarrow> bpf_state \<Rightarrow> bpf_res" where
  "STX_MEM z i s =
     (case store_bytes (size_bytes z) (SRC i s) (DST i s + OFF i) (bmem s) of
        None \<Rightarrow> BUndef | Some m \<Rightarrow> CONT (s\<lparr>bmem := m\<rparr>))"

definition ST_MEM :: "bpf_size \<Rightarrow> bpf_insn \<Rightarrow> bpf_state \<Rightarrow> bpf_res" where
  "ST_MEM z i s =
     (case store_bytes (size_bytes z) (IMM i) (DST i s + OFF i) (bmem s) of
        None \<Rightarrow> BUndef | Some m \<Rightarrow> CONT (s\<lparr>bmem := m\<rparr>))"

definition LDX_MEM :: "bpf_size \<Rightarrow> bpf_insn \<Rightarrow> bpf_state \<Rightarrow> bpf_res" where
  "LDX_MEM z i s =
     (case load_bytes (size_bytes z) (bmem s) (SRC i s + OFF i) of
        None \<Rightarrow> BUndef | Some v \<Rightarrow> CONT (set_DST i v s))"

definition atomic_add :: "u32 \<Rightarrow> u64 \<Rightarrow> memory \<Rightarrow> memory option" where
  "atomic_add n a m =
     (case load_bytes 4 m a of
        None \<Rightarrow> None
      | Some v \<Rightarrow> store_bytes 4 (ucast ((ucast v :: u32) + n)) a m)"

definition atomic64_add :: "u64 \<Rightarrow> u64 \<Rightarrow> memory \<Rightarrow> memory option" where
  "atomic64_add n a m =
     (case load_bytes 8 m a of
        None \<Rightarrow> None
      | Some v \<Rightarrow> store_bytes 8 (v + n) a m)"

definition STX_XADD_W :: "bpf_insn \<Rightarrow> bpf_state \<Rightarrow> bpf_res" where
  "STX_XADD_W i s =
     (case atomic_add (ucast (SRC i s)) (DST i s + OFF i) (bmem s) of
        None \<Rightarrow> BUndef | Some m \<Rightarrow> CONT (s\<lparr>bmem := m\<rparr>))"

definition STX_XADD_DW :: "bpf_insn \<Rightarrow> bpf_state \<Rightarrow> bpf_res" where
  "STX_XADD_DW i s =
     (case atomic64_add (SRC i s) (DST i s + OFF i) (bmem s) of
        None \<Rightarrow> BUndef | Some m \<Rightarrow> CONT (s\<lparr>bmem := m\<rparr>))"

section \<open>Dispatch\<close>

fun uses_dst :: "label \<Rightarrow> bool" where
  "uses_dst L_CALL = False"
| "uses_dst L_JA = False"
| "uses_dst L_EXIT = False"
| "uses_dst _ = True"

fun uses_src :: "label \<Rightarrow> bool" where
  "uses_src (L_ALU c op x) = (x = SrcX)"
| "uses_src (L_MOV c x) = (x = SrcX)"
| "uses_src (L_ARSH c x) = (x = SrcX)"
| "uses_src (L_MOD c x) = (x = SrcX)"
| "uses_src (L_DIV c x) = (x = SrcX)"
| "uses_src (L_COND_JMP c op x) = (x = SrcX)"
| "uses_src (L_STX_MEM z) = True"
| "uses_src (L_LDX_MEM z) = True"
| "uses_src L_STX_XADD_W = True"
| "uses_src L_STX_XADD_DW = True"
| "uses_src _ = False"

definition regs_in_bounds :: "label \<Rightarrow> bpf_insn \<Rightarrow> bool" where
  "regs_in_bounds l i =
     ((uses_dst l \<longrightarrow> unat (dst_reg i) < MAX_BPF_EXT_REG) \<and>
      (uses_src l \<longrightarrow> unat (src_reg i) < MAX_BPF_EXT_REG))"

fun exec_label :: "label \<Rightarrow> bpf_insn \<Rightarrow> bpf_insn option \<Rightarrow> bpf_state \<Rightarrow> bpf_res" where
  "exec_label (L_ALU c op x) i i1 s = ALU c op x i s"
| "exec_label (L_NEG c) i i1 s = ALU_NEG c i s"
| "exec_label (L_MOV c x) i i1 s = ALU_MOV c x i s"
| "exec_label L_LD_IMM_DW i i1 s = LD_IMM_DW i i1 s"
| "exec_label (L_ARSH c x) i i1 s = ALU_ARSH c x i s"
| "exec_label (L_MOD c x) i i1 s = ALU_MOD c x i s"
| "exec_label (L_DIV c x) i i1 s = ALU_DIV c x i s"
| "exec_label L_END_TO_BE i i1 s = ALU_END_TO_BE i s"
| "exec_label L_END_TO_LE i i1 s = ALU_END_TO_LE i s"
| "exec_label L_CALL i i1 s = CONT s"
| "exec_label L_JA i i1 s = CONT (jump_off i s)"
| "exec_label L_EXIT i i1 s = BRet (bregs s 0)"
| "exec_label (L_COND_JMP c op x) i i1 s = COND_JMP c op x i s"
| "exec_label (L_STX_MEM z) i i1 s = STX_MEM z i s"
| "exec_label (L_ST_MEM z) i i1 s = ST_MEM z i s"
| "exec_label (L_LDX_MEM z) i i1 s = LDX_MEM z i s"
| "exec_label L_STX_XADD_W i i1 s = STX_XADD_W i s"
| "exec_label L_STX_XADD_DW i i1 s = STX_XADD_DW i s"

definition insn_at :: "bpf_insn list \<Rightarrow> int \<Rightarrow> bpf_insn option" where
  "insn_at prog k = (if 0 \<le> k \<and> nat k < length prog then Some (prog ! nat k) else None)"

definition bpf_step :: "bpf_insn list \<Rightarrow> bpf_state \<Rightarrow> bpf_res" where
  "bpf_step prog s =
     (case insn_at prog (bpc s) of
        None \<Rightarrow> BUndef
      | Some i \<Rightarrow>
          (case select_insn (insn_code i) of
             None \<Rightarrow> BBug
           | Some l \<Rightarrow>
               if regs_in_bounds l i then exec_label l i (insn_at prog (bpc s + 1)) s else BUndef))"

partial_function (option) bpf_loop :: "bpf_insn list \<Rightarrow> bpf_state \<Rightarrow> bpf_res option" where
  "bpf_loop prog s =
     (case bpf_step prog s of
        BCont s' \<Rightarrow> bpf_loop prog s'
      | BRet v \<Rightarrow> Some (BRet v)
      | BBug \<Rightarrow> Some BBug
      | BUndef \<Rightarrow> Some BUndef)"

definition bpf_prog_run :: "u64 \<Rightarrow> u64 \<Rightarrow> bpf_insn list \<Rightarrow> bpf_state \<Rightarrow> u32 option" where
  "bpf_prog_run stack ctx prog s =
     (let s1 = set_reg BPF_REG_FP (stack + MAX_BPF_STACK) s;
          s2 = set_reg BPF_REG_ARG1 ctx s1
      in case bpf_loop prog (s2\<lparr>bpc := 0\<rparr>) of
           Some (BRet v) \<Rightarrow> Some (ucast v)
         | _ \<Rightarrow> None)"

end
