(* ===== verification/Jit_Rv64.thy ===== *)
theory Jit_Rv64
  imports Bpf
begin

text \<open>
  The BPF compiler for RISC-V of \<^verbatim>\<open>src/bpf/jit/bpf_jit_riscv64.c\<close>: register map, instruction
  encoders, immediate loading (\<open>emit_imm\<close>, with \<open>ffs\<close> for \<^verbatim>\<open>__ffs\<close> of \<^verbatim>\<open>bitops.h\<close>), branch offsets, and
  \<open>emit_insn\<close> with one definition per group of cases of its switch.
  A C function that calls \<^verbatim>\<open>emit\<close> several times is the list of the words it emits, in order;
  \<open>emit_insn\<close> stores them through \<open>emit\<close> in the context. Both tables of the context are read
  with bounds: an index outside \<^verbatim>\<open>regmap\<close> or \<^verbatim>\<open>ctx->offset\<close> is the result \<open>JUndef\<close>.
\<close>

unbundle bit_operations_syntax

section \<open>Registers and context\<close>

definition RV_REG_ZERO :: u8 where "RV_REG_ZERO = 0"
definition RV_REG_RA :: u8 where "RV_REG_RA = 1"
definition RV_REG_SP :: u8 where "RV_REG_SP = 2"
definition RV_REG_GP :: u8 where "RV_REG_GP = 3"
definition RV_REG_TP :: u8 where "RV_REG_TP = 4"
definition RV_REG_T0 :: u8 where "RV_REG_T0 = 5"
definition RV_REG_T1 :: u8 where "RV_REG_T1 = 6"
definition RV_REG_T2 :: u8 where "RV_REG_T2 = 7"
definition RV_REG_FP :: u8 where "RV_REG_FP = 8"
definition RV_REG_S1 :: u8 where "RV_REG_S1 = 9"
definition RV_REG_A0 :: u8 where "RV_REG_A0 = 10"
definition RV_REG_A1 :: u8 where "RV_REG_A1 = 11"
definition RV_REG_A2 :: u8 where "RV_REG_A2 = 12"
definition RV_REG_A3 :: u8 where "RV_REG_A3 = 13"
definition RV_REG_A4 :: u8 where "RV_REG_A4 = 14"
definition RV_REG_A5 :: u8 where "RV_REG_A5 = 15"
definition RV_REG_A6 :: u8 where "RV_REG_A6 = 16"
definition RV_REG_A7 :: u8 where "RV_REG_A7 = 17"
definition RV_REG_S2 :: u8 where "RV_REG_S2 = 18"
definition RV_REG_S3 :: u8 where "RV_REG_S3 = 19"
definition RV_REG_S4 :: u8 where "RV_REG_S4 = 20"
definition RV_REG_S5 :: u8 where "RV_REG_S5 = 21"
definition RV_REG_S6 :: u8 where "RV_REG_S6 = 22"
definition RV_REG_S7 :: u8 where "RV_REG_S7 = 23"
definition RV_REG_S8 :: u8 where "RV_REG_S8 = 24"
definition RV_REG_S9 :: u8 where "RV_REG_S9 = 25"
definition RV_REG_S10 :: u8 where "RV_REG_S10 = 26"
definition RV_REG_S11 :: u8 where "RV_REG_S11 = 27"
definition RV_REG_T3 :: u8 where "RV_REG_T3 = 28"
definition RV_REG_T4 :: u8 where "RV_REG_T4 = 29"
definition RV_REG_T5 :: u8 where "RV_REG_T5 = 30"
definition RV_REG_T6 :: u8 where "RV_REG_T6 = 31"

definition regmap :: "u8 list" where
  "regmap = [RV_REG_A5, RV_REG_A0, RV_REG_A1, RV_REG_A2, RV_REG_A3, RV_REG_A4,
             RV_REG_S1, RV_REG_S2, RV_REG_S3, RV_REG_S4, RV_REG_S5, RV_REG_T0]"

record rv_jit_context =
  ctx_insns :: "(nat \<Rightarrow> u32) option"
  ninsns :: nat
  ctx_offset :: "u32 list"

definition bpf_to_rv_reg :: "nat \<Rightarrow> u8 option" where
  "bpf_to_rv_reg bpf_reg = (if bpf_reg < length regmap then Some (regmap ! bpf_reg) else None)"

definition emit :: "u32 \<Rightarrow> rv_jit_context \<Rightarrow> rv_jit_context" where
  "emit insn ctx =
     (let ctx1 = (case ctx_insns ctx of
                    None \<Rightarrow> ctx
                  | Some buf \<Rightarrow> ctx\<lparr>ctx_insns := Some (buf(ninsns ctx := insn))\<rparr>)
      in ctx1\<lparr>ninsns := ninsns ctx1 + 1\<rparr>)"

section \<open>Encoders\<close>

definition rv_r_insn :: "u8 \<Rightarrow> u8 \<Rightarrow> u8 \<Rightarrow> u8 \<Rightarrow> u8 \<Rightarrow> u8 \<Rightarrow> u32" where
  "rv_r_insn funct7 rs2 rs1 funct3 rd opcode =
     push_bit 25 (ucast funct7) OR push_bit 20 (ucast rs2) OR push_bit 15 (ucast rs1) OR
     push_bit 12 (ucast funct3) OR push_bit 7 (ucast rd) OR ucast opcode"

definition rv_i_insn :: "u16 \<Rightarrow> u8 \<Rightarrow> u8 \<Rightarrow> u8 \<Rightarrow> u8 \<Rightarrow> u32" where
  "rv_i_insn imm11_0 rs1 funct3 rd opcode =
     push_bit 20 (ucast imm11_0) OR push_bit 15 (ucast rs1) OR push_bit 12 (ucast funct3) OR
     push_bit 7 (ucast rd) OR ucast opcode"

definition rv_s_insn :: "u16 \<Rightarrow> u8 \<Rightarrow> u8 \<Rightarrow> u8 \<Rightarrow> u8 \<Rightarrow> u32" where
  "rv_s_insn imm11_0 rs2 rs1 funct3 opcode =
     (let imm11_5 = ucast (drop_bit 5 imm11_0) :: u8;
          imm4_0 = ucast (imm11_0 AND 0x1f) :: u8
      in push_bit 25 (ucast imm11_5) OR push_bit 20 (ucast rs2) OR push_bit 15 (ucast rs1) OR
         push_bit 12 (ucast funct3) OR push_bit 7 (ucast imm4_0) OR ucast opcode)"

definition rv_sb_insn :: "u16 \<Rightarrow> u8 \<Rightarrow> u8 \<Rightarrow> u8 \<Rightarrow> u8 \<Rightarrow> u32" where
  "rv_sb_insn imm12_1 rs2 rs1 funct3 opcode =
     (let imm12 = ucast (drop_bit 5 (imm12_1 AND 0x800) OR drop_bit 4 (imm12_1 AND 0x3f0)) :: u8;
          imm4_1 = ucast (push_bit 1 (imm12_1 AND 0xf) OR drop_bit 10 (imm12_1 AND 0x400)) :: u8
      in push_bit 25 (ucast imm12) OR push_bit 20 (ucast rs2) OR push_bit 15 (ucast rs1) OR
         push_bit 12 (ucast funct3) OR push_bit 7 (ucast imm4_1) OR ucast opcode)"

definition rv_u_insn :: "u32 \<Rightarrow> u8 \<Rightarrow> u8 \<Rightarrow> u32" where
  "rv_u_insn imm31_12 rd opcode =
     push_bit 12 imm31_12 OR push_bit 7 (ucast rd) OR ucast opcode"

definition rv_uj_insn :: "u32 \<Rightarrow> u8 \<Rightarrow> u8 \<Rightarrow> u32" where
  "rv_uj_insn imm20_1 rd opcode =
     (let imm = (imm20_1 AND 0x80000) OR push_bit 9 (imm20_1 AND 0x3ff) OR
                drop_bit 2 (imm20_1 AND 0x400) OR drop_bit 11 (imm20_1 AND 0x7f800)
      in push_bit 12 imm OR push_bit 7 (ucast rd) OR ucast opcode)"

definition rv_amo_insn :: "u8 \<Rightarrow> u8 \<Rightarrow> u8 \<Rightarrow> u8 \<Rightarrow> u8 \<Rightarrow> u8 \<Rightarrow> u8 \<Rightarrow> u8 \<Rightarrow> u32" where
  "rv_amo_insn funct5 aq rl rs2 rs1 funct3 rd opcode =
     (let funct7 = push_bit 2 funct5 OR push_bit 1 aq OR rl
      in rv_r_insn funct7 rs2 rs1 funct3 rd opcode)"

definition rv_addiw :: "u8 \<Rightarrow> u8 \<Rightarrow> u16 \<Rightarrow> u32" where
  "rv_addiw rd rs1 imm11_0 = rv_i_insn imm11_0 rs1 0 rd 0x1b"

definition rv_addi :: "u8 \<Rightarrow> u8 \<Rightarrow> u16 \<Rightarrow> u32" where
  "rv_addi rd rs1 imm11_0 = rv_i_insn imm11_0 rs1 0 rd 0x13"

definition rv_addw :: "u8 \<Rightarrow> u8 \<Rightarrow> u8 \<Rightarrow> u32" where
  "rv_addw rd rs1 rs2 = rv_r_insn 0 rs2 rs1 0 rd 0x3b"

definition rv_add :: "u8 \<Rightarrow> u8 \<Rightarrow> u8 \<Rightarrow> u32" where
  "rv_add rd rs1 rs2 = rv_r_insn 0 rs2 rs1 0 rd 0x33"

definition rv_subw :: "u8 \<Rightarrow> u8 \<Rightarrow> u8 \<Rightarrow> u32" where
  "rv_subw rd rs1 rs2 = rv_r_insn 0x20 rs2 rs1 0 rd 0x3b"

definition rv_sub :: "u8 \<Rightarrow> u8 \<Rightarrow> u8 \<Rightarrow> u32" where
  "rv_sub rd rs1 rs2 = rv_r_insn 0x20 rs2 rs1 0 rd 0x33"

definition rv_and :: "u8 \<Rightarrow> u8 \<Rightarrow> u8 \<Rightarrow> u32" where
  "rv_and rd rs1 rs2 = rv_r_insn 0 rs2 rs1 7 rd 0x33"

definition rv_or :: "u8 \<Rightarrow> u8 \<Rightarrow> u8 \<Rightarrow> u32" where
  "rv_or rd rs1 rs2 = rv_r_insn 0 rs2 rs1 6 rd 0x33"

definition rv_xor :: "u8 \<Rightarrow> u8 \<Rightarrow> u8 \<Rightarrow> u32" where
  "rv_xor rd rs1 rs2 = rv_r_insn 0 rs2 rs1 4 rd 0x33"

definition rv_mulw :: "u8 \<Rightarrow> u8 \<Rightarrow> u8 \<Rightarrow> u32" where
  "rv_mulw rd rs1 rs2 = rv_r_insn 1 rs2 rs1 0 rd 0x3b"

definition rv_mul :: "u8 \<Rightarrow> u8 \<Rightarrow> u8 \<Rightarrow> u32" where
  "rv_mul rd rs1 rs2 = rv_r_insn 1 rs2 rs1 0 rd 0x33"

definition rv_divuw :: "u8 \<Rightarrow> u8 \<Rightarrow> u8 \<Rightarrow> u32" where
  "rv_divuw rd rs1 rs2 = rv_r_insn 1 rs2 rs1 5 rd 0x3b"

definition rv_divu :: "u8 \<Rightarrow> u8 \<Rightarrow> u8 \<Rightarrow> u32" where
  "rv_divu rd rs1 rs2 = rv_r_insn 1 rs2 rs1 5 rd 0x33"

definition rv_remuw :: "u8 \<Rightarrow> u8 \<Rightarrow> u8 \<Rightarrow> u32" where
  "rv_remuw rd rs1 rs2 = rv_r_insn 1 rs2 rs1 7 rd 0x3b"

definition rv_remu :: "u8 \<Rightarrow> u8 \<Rightarrow> u8 \<Rightarrow> u32" where
  "rv_remu rd rs1 rs2 = rv_r_insn 1 rs2 rs1 7 rd 0x33"

definition rv_sllw :: "u8 \<Rightarrow> u8 \<Rightarrow> u8 \<Rightarrow> u32" where
  "rv_sllw rd rs1 rs2 = rv_r_insn 0 rs2 rs1 1 rd 0x3b"

definition rv_sll :: "u8 \<Rightarrow> u8 \<Rightarrow> u8 \<Rightarrow> u32" where
  "rv_sll rd rs1 rs2 = rv_r_insn 0 rs2 rs1 1 rd 0x33"

definition rv_srlw :: "u8 \<Rightarrow> u8 \<Rightarrow> u8 \<Rightarrow> u32" where
  "rv_srlw rd rs1 rs2 = rv_r_insn 0 rs2 rs1 5 rd 0x3b"

definition rv_srl :: "u8 \<Rightarrow> u8 \<Rightarrow> u8 \<Rightarrow> u32" where
  "rv_srl rd rs1 rs2 = rv_r_insn 0 rs2 rs1 5 rd 0x33"

definition rv_sraw :: "u8 \<Rightarrow> u8 \<Rightarrow> u8 \<Rightarrow> u32" where
  "rv_sraw rd rs1 rs2 = rv_r_insn 0x20 rs2 rs1 5 rd 0x3b"

definition rv_sra :: "u8 \<Rightarrow> u8 \<Rightarrow> u8 \<Rightarrow> u32" where
  "rv_sra rd rs1 rs2 = rv_r_insn 0x20 rs2 rs1 5 rd 0x33"

definition rv_lui :: "u8 \<Rightarrow> u32 \<Rightarrow> u32" where
  "rv_lui rd imm31_12 = rv_u_insn imm31_12 rd 0x37"

definition rv_slli :: "u8 \<Rightarrow> u8 \<Rightarrow> u16 \<Rightarrow> u32" where
  "rv_slli rd rs1 imm11_0 = rv_i_insn imm11_0 rs1 1 rd 0x13"

definition rv_andi :: "u8 \<Rightarrow> u8 \<Rightarrow> u16 \<Rightarrow> u32" where
  "rv_andi rd rs1 imm11_0 = rv_i_insn imm11_0 rs1 7 rd 0x13"

definition rv_ori :: "u8 \<Rightarrow> u8 \<Rightarrow> u16 \<Rightarrow> u32" where
  "rv_ori rd rs1 imm11_0 = rv_i_insn imm11_0 rs1 6 rd 0x13"

definition rv_xori :: "u8 \<Rightarrow> u8 \<Rightarrow> u16 \<Rightarrow> u32" where
  "rv_xori rd rs1 imm11_0 = rv_i_insn imm11_0 rs1 4 rd 0x13"

definition rv_slliw :: "u8 \<Rightarrow> u8 \<Rightarrow> u16 \<Rightarrow> u32" where
  "rv_slliw rd rs1 imm11_0 = rv_i_insn imm11_0 rs1 1 rd 0x1b"

definition rv_srliw :: "u8 \<Rightarrow> u8 \<Rightarrow> u16 \<Rightarrow> u32" where
  "rv_srliw rd rs1 imm11_0 = rv_i_insn imm11_0 rs1 5 rd 0x1b"

definition rv_srli :: "u8 \<Rightarrow> u8 \<Rightarrow> u16 \<Rightarrow> u32" where
  "rv_srli rd rs1 imm11_0 = rv_i_insn imm11_0 rs1 5 rd 0x13"

definition rv_sraiw :: "u8 \<Rightarrow> u8 \<Rightarrow> u16 \<Rightarrow> u32" where
  "rv_sraiw rd rs1 imm11_0 = rv_i_insn (0x400 OR imm11_0) rs1 5 rd 0x1b"

definition rv_srai :: "u8 \<Rightarrow> u8 \<Rightarrow> u16 \<Rightarrow> u32" where
  "rv_srai rd rs1 imm11_0 = rv_i_insn (0x400 OR imm11_0) rs1 5 rd 0x13"

definition rv_jal :: "u8 \<Rightarrow> u32 \<Rightarrow> u32" where
  "rv_jal rd imm20_1 = rv_uj_insn imm20_1 rd 0x6f"

definition rv_jalr :: "u8 \<Rightarrow> u8 \<Rightarrow> u16 \<Rightarrow> u32" where
  "rv_jalr rd rs1 imm11_0 = rv_i_insn imm11_0 rs1 0 rd 0x67"

definition rv_beq :: "u8 \<Rightarrow> u8 \<Rightarrow> u16 \<Rightarrow> u32" where
  "rv_beq rs1 rs2 imm12_1 = rv_sb_insn imm12_1 rs2 rs1 0 0x63"

definition rv_bltu :: "u8 \<Rightarrow> u8 \<Rightarrow> u16 \<Rightarrow> u32" where
  "rv_bltu rs1 rs2 imm12_1 = rv_sb_insn imm12_1 rs2 rs1 6 0x63"

definition rv_bgeu :: "u8 \<Rightarrow> u8 \<Rightarrow> u16 \<Rightarrow> u32" where
  "rv_bgeu rs1 rs2 imm12_1 = rv_sb_insn imm12_1 rs2 rs1 7 0x63"

definition rv_bne :: "u8 \<Rightarrow> u8 \<Rightarrow> u16 \<Rightarrow> u32" where
  "rv_bne rs1 rs2 imm12_1 = rv_sb_insn imm12_1 rs2 rs1 1 0x63"

definition rv_blt :: "u8 \<Rightarrow> u8 \<Rightarrow> u16 \<Rightarrow> u32" where
  "rv_blt rs1 rs2 imm12_1 = rv_sb_insn imm12_1 rs2 rs1 4 0x63"

definition rv_bge :: "u8 \<Rightarrow> u8 \<Rightarrow> u16 \<Rightarrow> u32" where
  "rv_bge rs1 rs2 imm12_1 = rv_sb_insn imm12_1 rs2 rs1 5 0x63"

definition rv_sb :: "u8 \<Rightarrow> u16 \<Rightarrow> u8 \<Rightarrow> u32" where
  "rv_sb rs1 imm11_0 rs2 = rv_s_insn imm11_0 rs2 rs1 0 0x23"

definition rv_sh :: "u8 \<Rightarrow> u16 \<Rightarrow> u8 \<Rightarrow> u32" where
  "rv_sh rs1 imm11_0 rs2 = rv_s_insn imm11_0 rs2 rs1 1 0x23"

definition rv_sw :: "u8 \<Rightarrow> u16 \<Rightarrow> u8 \<Rightarrow> u32" where
  "rv_sw rs1 imm11_0 rs2 = rv_s_insn imm11_0 rs2 rs1 2 0x23"

definition rv_sd :: "u8 \<Rightarrow> u16 \<Rightarrow> u8 \<Rightarrow> u32" where
  "rv_sd rs1 imm11_0 rs2 = rv_s_insn imm11_0 rs2 rs1 3 0x23"

definition rv_lbu :: "u8 \<Rightarrow> u16 \<Rightarrow> u8 \<Rightarrow> u32" where
  "rv_lbu rd imm11_0 rs1 = rv_i_insn imm11_0 rs1 4 rd 0x03"

definition rv_lhu :: "u8 \<Rightarrow> u16 \<Rightarrow> u8 \<Rightarrow> u32" where
  "rv_lhu rd imm11_0 rs1 = rv_i_insn imm11_0 rs1 5 rd 0x03"

definition rv_lwu :: "u8 \<Rightarrow> u16 \<Rightarrow> u8 \<Rightarrow> u32" where
  "rv_lwu rd imm11_0 rs1 = rv_i_insn imm11_0 rs1 6 rd 0x03"

definition rv_ld :: "u8 \<Rightarrow> u16 \<Rightarrow> u8 \<Rightarrow> u32" where
  "rv_ld rd imm11_0 rs1 = rv_i_insn imm11_0 rs1 3 rd 0x03"

definition rv_amoadd_w :: "u8 \<Rightarrow> u8 \<Rightarrow> u8 \<Rightarrow> u8 \<Rightarrow> u8 \<Rightarrow> u32" where
  "rv_amoadd_w rd rs2 rs1 aq rl = rv_amo_insn 0 aq rl rs2 rs1 2 rd 0x2f"

definition rv_amoadd_d :: "u8 \<Rightarrow> u8 \<Rightarrow> u8 \<Rightarrow> u8 \<Rightarrow> u8 \<Rightarrow> u32" where
  "rv_amoadd_d rd rs2 rs1 aq rl = rv_amo_insn 0 aq rl rs2 rs1 3 rd 0x2f"

section \<open>Ranges\<close>

definition is_12b_int :: "u64 \<Rightarrow> bool" where
  "is_12b_int val = (- 0x800 \<le>s val \<and> val <s 0x800)"

definition is_13b_int :: "u64 \<Rightarrow> bool" where
  "is_13b_int val = (- 0x1000 \<le>s val \<and> val <s 0x1000)"

definition is_21b_int :: "u64 \<Rightarrow> bool" where
  "is_21b_int val = (- 0x100000 \<le>s val \<and> val <s 0x100000)"

definition is_32b_int :: "u64 \<Rightarrow> bool" where
  "is_32b_int val = (- 0x80000000 \<le>s val \<and> val <s 0x80000000)"

definition is_13b_check :: "u32 \<Rightarrow> int" where
  "is_13b_check off = (if \<not> is_13b_int (scast off) then - 1 else 0)"

definition is_12b_check :: "u32 \<Rightarrow> int" where
  "is_12b_check off = (if \<not> is_12b_int (scast off) then - 1 else 0)"

definition is_21b_check :: "u32 \<Rightarrow> int" where
  "is_21b_check off = (if \<not> is_21b_int (scast off) then - 1 else 0)"

section \<open>Immediates\<close>

definition ffs :: "u64 \<Rightarrow> nat" where
  "ffs word =
     (let num = 0; w = word;
          (num, w) = (if w AND 0xffffffff = 0 then (num + 32, drop_bit 32 w) else (num, w));
          (num, w) = (if w AND 0xffff = 0 then (num + 16, drop_bit 16 w) else (num, w));
          (num, w) = (if w AND 0xff = 0 then (num + 8, drop_bit 8 w) else (num, w));
          (num, w) = (if w AND 0xf = 0 then (num + 4, drop_bit 4 w) else (num, w));
          (num, w) = (if w AND 0x3 = 0 then (num + 2, drop_bit 2 w) else (num, w))
      in if w AND 0x1 = 0 then num + 1 else num)"

lemma is_32b_int_iff: "is_32b_int val \<longleftrightarrow> - (2 ^ 31) \<le> sint val \<and> sint val < 2 ^ 31"
  by (simp add: is_32b_int_def word_sle_eq word_sless_alt)

lemma sint_range: "- (2 ^ 63) \<le> sint (v :: u64)" "sint (v :: u64) < 2 ^ 63"
  using sint_ge [of v] sint_lt [of v] by simp_all

lemma sint_add_800:
  "sint (val + 0x800 :: u64) =
     (if sint val + 0x800 < 2 ^ 63 then sint val + 0x800 else sint val + 0x800 - 2 ^ 64)"
proof -
  have s: "sint (0x800 :: u64) = 0x800" by simp
  have "sint (val + 0x800) = signed_take_bit 63 (sint val + 0x800)"
    by (simp add: sint_word_ariths)
  also have "\<dots> = (sint val + 0x800 + 2 ^ 63) mod 2 ^ 64 - 2 ^ 63"
    by (simp add: signed_take_bit_eq_take_bit_shift take_bit_eq_mod)
  also have "(sint val + 0x800 + 2 ^ 63) mod 2 ^ 64 =
      (if sint val + 0x800 < 2 ^ 63 then sint val + 0x800 + 2 ^ 63 else sint val + 0x800 + 2 ^ 63 - 2 ^ 64)"
    using sint_range [of val] by (auto simp: mod_pos_geq)
  finally show ?thesis by simp
qed

lemma abs_drop_bit: "\<bar>drop_bit n x\<bar> \<le> \<bar>x :: int\<bar>"
proof -
  have p: "(1 :: int) \<le> 2 ^ n" by simp
  have "\<bar>x div 2 ^ n\<bar> \<le> \<bar>x\<bar>"
  proof (cases "0 \<le> x")
    case True
    have "x div 2 ^ n \<le> x div 1" by (rule zdiv_mono2 [OF True _ p]) simp
    moreover have "0 \<le> x div 2 ^ n" using True by (simp add: pos_imp_zdiv_nonneg_iff)
    ultimately show ?thesis by simp
  next
    case False
    then have "x div 1 \<le> x div 2 ^ n" by (intro zdiv_mono2_neg [OF _ _ p]) simp_all
    moreover have "x div 2 ^ n < 0" using False by (simp add: pos_imp_zdiv_neg_iff)
    ultimately show ?thesis by simp
  qed
  then show ?thesis by (simp add: drop_bit_eq_div)
qed

lemma upper_bound:
  "\<bar>sint (signed_drop_bit 12 (val + 0x800 :: u64))\<bar> \<le> (\<bar>sint val\<bar> + 0x800) div 4096 + 1"
proof -
  have "sint (signed_drop_bit 12 (val + 0x800)) = sint (val + 0x800) div 4096"
    by (simp add: sint_signed_drop_bit_eq drop_bit_eq_div)
  then show ?thesis
    unfolding sint_add_800 using sint_range [of val] by (auto split: if_splits)
qed

lemma emit_imm_smaller:
  assumes "\<not> is_32b_int val"
  shows "\<bar>sint (signed_drop_bit n (signed_drop_bit 12 (val + 0x800)))\<bar> < \<bar>sint val\<bar>"
proof -
  have "\<bar>sint (signed_drop_bit n (signed_drop_bit 12 (val + 0x800)))\<bar> \<le> (\<bar>sint val\<bar> + 0x800) div 4096 + 1"
    using abs_drop_bit [of n "sint (signed_drop_bit 12 (val + 0x800))"] upper_bound [of val]
    by (simp add: sint_signed_drop_bit_eq)
  moreover have "2 ^ 31 \<le> \<bar>sint val\<bar>"
    using assms by (auto simp: is_32b_int_iff)
  ultimately show ?thesis by simp
qed

text \<open>
  The signed addition \<^verbatim>\<open>val + (1 << 11)\<close> of the source overflows for the 2048 largest values; it is taken to wrap, as
  the instructions for it do.
\<close>

function emit_imm :: "u8 \<Rightarrow> u64 \<Rightarrow> u32 list" where
  "emit_imm rd val =
     (let upper = signed_drop_bit 12 (val + 0x800);
          lower = val AND 0xfff
      in if is_32b_int val then
           (if upper \<noteq> 0
            then [rv_lui rd (ucast upper), rv_addiw rd rd (ucast lower)]
            else [rv_addi rd RV_REG_ZERO (ucast lower)])
         else
           (let shift = ffs upper;
                upper' = signed_drop_bit shift upper;
                shift' = shift + 12
            in emit_imm rd upper' @ [rv_slli rd rd (word_of_nat shift')] @
               (if lower \<noteq> 0 then [rv_addi rd rd (ucast lower)] else [])))"
  by pat_completeness auto

termination emit_imm
  by (relation "measure (\<lambda>(rd, val). nat \<bar>sint val\<bar>)") (auto dest: emit_imm_smaller)

declare emit_imm.simps [simp del]

section \<open>Helpers of emit\_insn\<close>

definition rv_offset :: "int \<Rightarrow> int \<Rightarrow> u32 list \<Rightarrow> u32 option" where
  "rv_offset bpf_to bpf_from offset =
     (if 0 \<le> bpf_from \<and> nat bpf_from < length offset \<and> 0 \<le> bpf_to \<and> nat bpf_to < length offset
      then let from = offset ! nat bpf_from - 1; to = offset ! nat bpf_to
           in Some (push_bit 2 (to - from))
      else None)"

definition emit_zext_32 :: "u8 \<Rightarrow> u32 list" where
  "emit_zext_32 reg = [rv_slli reg reg 32, rv_srli reg reg 32]"

definition BPF_TAIL_CALL :: u8 where "BPF_TAIL_CALL = 0xf0"

definition init_regs :: "bpf_insn \<Rightarrow> (u8 \<times> u8) option" where
  "init_regs insn =
     (let code = insn_code insn;
          rd = (if code \<in> {BPF_JMP OR BPF_JA, BPF_JMP OR BPF_CALL, BPF_JMP OR BPF_EXIT, BPF_JMP OR BPF_TAIL_CALL}
                then Some (- 1) else bpf_to_rv_reg (unat (dst_reg insn)));
          rs = (if code AND (BPF_ALU OR BPF_X) \<noteq> 0 \<or> code AND (BPF_ALU64 OR BPF_X) \<noteq> 0 \<or>
                   code AND (BPF_JMP OR BPF_X) \<noteq> 0 \<or> code AND (BPF_JMP32 OR BPF_X) \<noteq> 0 \<or>
                   code AND BPF_LDX \<noteq> 0 \<or> code AND BPF_STX \<noteq> 0
                then bpf_to_rv_reg (unat (src_reg insn)) else Some (- 1))
      in case (rd, rs) of (Some rd, Some rs) \<Rightarrow> Some (rd, rs) | _ \<Rightarrow> None)"

definition emit_zext_32_rd_rs :: "u8 \<Rightarrow> u8 \<Rightarrow> u32 list \<times> u8 \<times> u8" where
  "emit_zext_32_rd_rs rd rs =
     ([rv_addi RV_REG_T2 rd 0] @ emit_zext_32 RV_REG_T2 @ [rv_addi RV_REG_T1 rs 0] @ emit_zext_32 RV_REG_T1,
      RV_REG_T2, RV_REG_T1)"

definition emit_sext_32_rd_rs :: "u8 \<Rightarrow> u8 \<Rightarrow> u32 list \<times> u8 \<times> u8" where
  "emit_sext_32_rd_rs rd rs =
     ([rv_addiw RV_REG_T2 rd 0, rv_addiw RV_REG_T1 rs 0], RV_REG_T2, RV_REG_T1)"

definition emit_zext_32_rd_t1 :: "u8 \<Rightarrow> u32 list \<times> u8" where
  "emit_zext_32_rd_t1 rd =
     ([rv_addi RV_REG_T2 rd 0] @ emit_zext_32 RV_REG_T2 @ emit_zext_32 RV_REG_T1, RV_REG_T2)"

definition emit_sext_32_rd :: "u8 \<Rightarrow> u32 list \<times> u8" where
  "emit_sext_32_rd rd = ([rv_addiw RV_REG_T2 rd 0], RV_REG_T2)"

section \<open>Arithmetic\<close>

definition emit_mov_x :: "bool \<Rightarrow> u8 \<Rightarrow> u8 \<Rightarrow> u32 list" where
  "emit_mov_x is64 rd rs =
     [if is64 then rv_addi rd rs 0 else rv_addiw rd rs 0] @ (if \<not> is64 then emit_zext_32 rd else [])"

fun emit_alu_x :: "alu_op \<Rightarrow> bool \<Rightarrow> u8 \<Rightarrow> u8 \<Rightarrow> u32 list" where
  "emit_alu_x OpADD is64 rd rs = [if is64 then rv_add rd rd rs else rv_addw rd rd rs]"
| "emit_alu_x OpSUB is64 rd rs = [if is64 then rv_sub rd rd rs else rv_subw rd rd rs]"
| "emit_alu_x OpAND is64 rd rs = [rv_and rd rd rs]"
| "emit_alu_x OpOR is64 rd rs = [rv_or rd rd rs]"
| "emit_alu_x OpXOR is64 rd rs = [rv_xor rd rd rs]"
| "emit_alu_x OpMUL is64 rd rs =
     [if is64 then rv_mul rd rd rs else rv_mulw rd rd rs] @ (if \<not> is64 then emit_zext_32 rd else [])"
| "emit_alu_x OpLSH is64 rd rs = [if is64 then rv_sll rd rd rs else rv_sllw rd rd rs]"
| "emit_alu_x OpRSH is64 rd rs = [if is64 then rv_srl rd rd rs else rv_srlw rd rd rs]"

definition emit_div_x :: "bool \<Rightarrow> u8 \<Rightarrow> u8 \<Rightarrow> u32 list" where
  "emit_div_x is64 rd rs =
     [if is64 then rv_divu rd rd rs else rv_divuw rd rd rs] @ (if \<not> is64 then emit_zext_32 rd else [])"

definition emit_mod_x :: "bool \<Rightarrow> u8 \<Rightarrow> u8 \<Rightarrow> u32 list" where
  "emit_mod_x is64 rd rs =
     [if is64 then rv_remu rd rd rs else rv_remuw rd rd rs] @ (if \<not> is64 then emit_zext_32 rd else [])"

definition emit_arsh_x :: "bool \<Rightarrow> u8 \<Rightarrow> u8 \<Rightarrow> u32 list" where
  "emit_arsh_x is64 rd rs = [if is64 then rv_sra rd rd rs else rv_sraw rd rd rs]"

definition emit_neg :: "bool \<Rightarrow> u8 \<Rightarrow> u32 list" where
  "emit_neg is64 rd = [if is64 then rv_sub rd RV_REG_ZERO rd else rv_subw rd RV_REG_ZERO rd]"

definition emit_from_le :: "u8 \<Rightarrow> u32 \<Rightarrow> u32 list" where
  "emit_from_le rd imm =
     (let shift = 64 - imm in [rv_slli rd rd (ucast shift), rv_srli rd rd (ucast shift)])"

definition be_round :: "u8 \<Rightarrow> u32 list" where
  "be_round rd =
     [rv_andi RV_REG_T1 rd 0xff,
      rv_add RV_REG_T2 RV_REG_T2 RV_REG_T1,
      rv_slli RV_REG_T2 RV_REG_T2 8,
      rv_srli rd rd 8]"

definition emit_from_be :: "u8 \<Rightarrow> u32 \<Rightarrow> u32 list" where
  "emit_from_be rd imm =
     [rv_addi RV_REG_T2 RV_REG_ZERO 0] @
     be_round rd @
     (if imm = 16 then [] else
        be_round rd @ be_round rd @
        (if imm = 32 then [] else
           be_round rd @ be_round rd @ be_round rd @ be_round rd)) @
     [rv_andi RV_REG_T1 rd 0xff,
      rv_add RV_REG_T2 RV_REG_T2 RV_REG_T1,
      rv_addi rd RV_REG_T2 0]"

definition emit_mov_k :: "bool \<Rightarrow> u8 \<Rightarrow> u32 \<Rightarrow> u32 list" where
  "emit_mov_k is64 rd imm = emit_imm rd (scast imm) @ (if \<not> is64 then emit_zext_32 rd else [])"

fun emit_alu_k :: "alu_op \<Rightarrow> bool \<Rightarrow> u8 \<Rightarrow> u32 \<Rightarrow> u32 list" where
  "emit_alu_k OpADD is64 rd imm =
     (if is_12b_int (scast imm)
      then [if is64 then rv_addi rd rd (ucast imm) else rv_addiw rd rd (ucast imm)]
      else emit_imm RV_REG_T1 (scast imm) @ [if is64 then rv_add rd rd RV_REG_T1 else rv_addw rd rd RV_REG_T1]) @
     (if \<not> is64 then emit_zext_32 rd else [])"
| "emit_alu_k OpSUB is64 rd imm =
     (if is_12b_int (scast (- imm))
      then [if is64 then rv_addi rd rd (ucast (- imm)) else rv_addiw rd rd (ucast (- imm))]
      else emit_imm RV_REG_T1 (scast imm) @ [if is64 then rv_sub rd rd RV_REG_T1 else rv_subw rd rd RV_REG_T1]) @
     (if \<not> is64 then emit_zext_32 rd else [])"
| "emit_alu_k OpAND is64 rd imm =
     (if is_12b_int (scast imm)
      then [rv_andi rd rd (ucast imm)]
      else emit_imm RV_REG_T1 (scast imm) @ [rv_and rd rd RV_REG_T1]) @
     (if \<not> is64 then emit_zext_32 rd else [])"
| "emit_alu_k OpOR is64 rd imm =
     (if is_12b_int (scast imm)
      then [rv_ori rd rd (ucast imm)]
      else emit_imm RV_REG_T1 (scast imm) @ [rv_or rd rd RV_REG_T1]) @
     (if \<not> is64 then emit_zext_32 rd else [])"
| "emit_alu_k OpXOR is64 rd imm =
     (if is_12b_int (scast imm)
      then [rv_xori rd rd (ucast imm)]
      else emit_imm RV_REG_T1 (scast imm) @ [rv_xor rd rd RV_REG_T1]) @
     (if \<not> is64 then emit_zext_32 rd else [])"
| "emit_alu_k OpMUL is64 rd imm =
     emit_imm RV_REG_T1 (scast imm) @ [if is64 then rv_mul rd rd RV_REG_T1 else rv_mulw rd rd RV_REG_T1] @
     (if \<not> is64 then emit_zext_32 rd else [])"
| "emit_alu_k OpLSH is64 rd imm = [if is64 then rv_slli rd rd (ucast imm) else rv_slliw rd rd (ucast imm)]"
| "emit_alu_k OpRSH is64 rd imm = [if is64 then rv_srli rd rd (ucast imm) else rv_srliw rd rd (ucast imm)]"

definition emit_div_k :: "bool \<Rightarrow> u8 \<Rightarrow> u32 \<Rightarrow> u32 list" where
  "emit_div_k is64 rd imm =
     emit_imm RV_REG_T1 (scast imm) @ [if is64 then rv_divu rd rd RV_REG_T1 else rv_divuw rd rd RV_REG_T1] @
     (if \<not> is64 then emit_zext_32 rd else [])"

definition emit_mod_k :: "bool \<Rightarrow> u8 \<Rightarrow> u32 \<Rightarrow> u32 list" where
  "emit_mod_k is64 rd imm =
     emit_imm RV_REG_T1 (scast imm) @ [if is64 then rv_remu rd rd RV_REG_T1 else rv_remuw rd rd RV_REG_T1] @
     (if \<not> is64 then emit_zext_32 rd else [])"

definition emit_arsh_k :: "bool \<Rightarrow> u8 \<Rightarrow> u32 \<Rightarrow> u32 list" where
  "emit_arsh_k is64 rd imm = [if is64 then rv_srai rd rd (ucast imm) else rv_sraiw rd rd (ucast imm)]"

section \<open>Jumps\<close>

definition emit_jmp_x :: "jmp_op \<Rightarrow> bool \<Rightarrow> u8 \<Rightarrow> u8 \<Rightarrow> u32 \<Rightarrow> u32 list" where
  "emit_jmp_x op is64 rd rs rvoff =
     (let target = ucast (signed_drop_bit 1 rvoff) :: u16;
          (zpre, zrd, zrs) = (if \<not> is64 then emit_zext_32_rd_rs rd rs else ([], rd, rs));
          (spre, srd, srs) = (if \<not> is64 then emit_sext_32_rd_rs rd rs else ([], rd, rs))
      in case op of
           JEQ \<Rightarrow> zpre @ [rv_beq zrd zrs target]
         | JGT \<Rightarrow> zpre @ [rv_bltu zrs zrd target]
         | JLT \<Rightarrow> zpre @ [rv_bltu zrd zrs target]
         | JGE \<Rightarrow> zpre @ [rv_bgeu zrd zrs target]
         | JLE \<Rightarrow> zpre @ [rv_bgeu zrs zrd target]
         | JNE \<Rightarrow> zpre @ [rv_bne zrd zrs target]
         | JSGT \<Rightarrow> spre @ [rv_blt srs srd target]
         | JSLT \<Rightarrow> spre @ [rv_blt srd srs target]
         | JSGE \<Rightarrow> spre @ [rv_bge srd srs target]
         | JSLE \<Rightarrow> spre @ [rv_bge srs srd target]
         | JSET \<Rightarrow> zpre @ [rv_and RV_REG_T1 zrd zrs, rv_bne RV_REG_T1 RV_REG_ZERO target])"

definition emit_jmp_k :: "jmp_op \<Rightarrow> bool \<Rightarrow> u8 \<Rightarrow> u32 \<Rightarrow> u32 \<Rightarrow> u32 list" where
  "emit_jmp_k op is64 rd imm rvoff =
     (let target = ucast (signed_drop_bit 1 rvoff) :: u16;
          pre = emit_imm RV_REG_T1 (scast imm);
          (zpre, zrd) = (if \<not> is64 then emit_zext_32_rd_t1 rd else ([], rd));
          (spre, srd) = (if \<not> is64 then emit_sext_32_rd rd else ([], rd))
      in case op of
           JEQ \<Rightarrow> pre @ zpre @ [rv_beq zrd RV_REG_T1 target]
         | JGT \<Rightarrow> pre @ zpre @ [rv_bltu RV_REG_T1 zrd target]
         | JLT \<Rightarrow> pre @ zpre @ [rv_bltu zrd RV_REG_T1 target]
         | JGE \<Rightarrow> pre @ zpre @ [rv_bgeu zrd RV_REG_T1 target]
         | JLE \<Rightarrow> pre @ zpre @ [rv_bgeu RV_REG_T1 zrd target]
         | JNE \<Rightarrow> pre @ zpre @ [rv_bne zrd RV_REG_T1 target]
         | JSGT \<Rightarrow> pre @ spre @ [rv_blt RV_REG_T1 srd target]
         | JSLT \<Rightarrow> pre @ spre @ [rv_blt srd RV_REG_T1 target]
         | JSGE \<Rightarrow> pre @ spre @ [rv_bge srd RV_REG_T1 target]
         | JSLE \<Rightarrow> pre @ spre @ [rv_bge RV_REG_T1 srd target]
         | JSET \<Rightarrow> pre @ zpre @ [rv_and RV_REG_T1 zrd RV_REG_T1, rv_bne RV_REG_T1 RV_REG_ZERO target])"

section \<open>Memory\<close>

definition emit_ld_imm_dw :: "u8 \<Rightarrow> u32 \<Rightarrow> u32 \<Rightarrow> u32 list" where
  "emit_ld_imm_dw rd imm imm1 = emit_imm rd (push_bit 32 (scast imm1) OR ucast imm)"

fun rv_load :: "bpf_size \<Rightarrow> u8 \<Rightarrow> u16 \<Rightarrow> u8 \<Rightarrow> u32" where
  "rv_load SzB rd off rs = rv_lbu rd off rs"
| "rv_load SzH rd off rs = rv_lhu rd off rs"
| "rv_load SzW rd off rs = rv_lwu rd off rs"
| "rv_load SzDW rd off rs = rv_ld rd off rs"

fun rv_store :: "bpf_size \<Rightarrow> u8 \<Rightarrow> u16 \<Rightarrow> u8 \<Rightarrow> u32" where
  "rv_store SzB rd off rs = rv_sb rd off rs"
| "rv_store SzH rd off rs = rv_sh rd off rs"
| "rv_store SzW rd off rs = rv_sw rd off rs"
| "rv_store SzDW rd off rs = rv_sd rd off rs"

definition emit_ldx :: "bpf_size \<Rightarrow> u8 \<Rightarrow> u8 \<Rightarrow> u16 \<Rightarrow> u32 list" where
  "emit_ldx z rd rs off =
     (if is_12b_int (scast off) then [rv_load z rd off rs]
      else emit_imm RV_REG_T1 (scast off) @ [rv_add RV_REG_T1 RV_REG_T1 rs, rv_load z rd 0 RV_REG_T1])"

definition emit_st :: "bpf_size \<Rightarrow> u8 \<Rightarrow> u16 \<Rightarrow> u32 \<Rightarrow> u32 list" where
  "emit_st z rd off imm =
     emit_imm RV_REG_T1 (scast imm) @
     (if is_12b_int (scast off) then [rv_store z rd off RV_REG_T1]
      else emit_imm RV_REG_T2 (scast off) @ [rv_add RV_REG_T2 RV_REG_T2 rd, rv_store z RV_REG_T2 0 RV_REG_T1])"

definition emit_stx :: "bpf_size \<Rightarrow> u8 \<Rightarrow> u8 \<Rightarrow> u16 \<Rightarrow> u32 list" where
  "emit_stx z rd rs off =
     (if is_12b_int (scast off) then [rv_store z rd off rs]
      else emit_imm RV_REG_T1 (scast off) @ [rv_add RV_REG_T1 RV_REG_T1 rd, rv_store z RV_REG_T1 0 rs])"

definition emit_xadd :: "u8 \<Rightarrow> u8 \<Rightarrow> u8 \<Rightarrow> u16 \<Rightarrow> u32 list" where
  "emit_xadd code rd rs off =
     (let (pre, rd) =
        (if off \<noteq> 0 then
           ((if is_12b_int (scast off) then [rv_addi RV_REG_T1 rd off]
             else emit_imm RV_REG_T1 (scast off) @ [rv_add RV_REG_T1 RV_REG_T1 rd]), RV_REG_T1)
         else ([], rd))
      in pre @ [if BPF_SIZE code = BPF_W then rv_amoadd_w RV_REG_ZERO rs rd 0 0
                else rv_amoadd_d RV_REG_ZERO rs rd 0 0])"

section \<open>The compiler\<close>

datatype jit_res = JOk int "u32 list" | JErr | JUndef

definition rv_offset_check :: "u16 \<Rightarrow> int \<Rightarrow> u32 list \<Rightarrow> (u32 \<times> int) option" where
  "rv_offset_check off insn offset =
     map_option (\<lambda>rvoff. (rvoff, is_13b_check rvoff)) (rv_offset (insn + sint off) insn offset)"

definition jit_cond :: "u16 \<Rightarrow> int \<Rightarrow> u32 list \<Rightarrow> (u32 \<Rightarrow> u32 list) \<Rightarrow> jit_res" where
  "jit_cond off i offset code =
     (case rv_offset_check off i offset of
        None \<Rightarrow> JUndef
      | Some (rvoff, err) \<Rightarrow> if err \<noteq> 0 then JErr else JOk 0 (code rvoff))"

definition jit_ja :: "u16 \<Rightarrow> int \<Rightarrow> u32 list \<Rightarrow> jit_res" where
  "jit_ja off i offset =
     (case rv_offset (i + sint off) i offset of
        None \<Rightarrow> JUndef
      | Some rvoff \<Rightarrow>
          if \<not> is_21b_int (scast rvoff) then JErr
          else JOk 0 [rv_jal RV_REG_ZERO (signed_drop_bit 1 rvoff)])"

definition jit_insn :: "bpf_insn \<Rightarrow> bpf_insn option \<Rightarrow> int \<Rightarrow> u32 list \<Rightarrow> jit_res" where
  "jit_insn insn insn1 i offset =
     (let code = insn_code insn; off = insn_off insn; imm = insn_imm insn;
          is64 = (BPF_CLASS code = BPF_ALU64 \<or> BPF_CLASS code = BPF_JMP)
      in case init_regs insn of
           None \<Rightarrow> JUndef
         | Some (rd, rs) \<Rightarrow>
             (case select_insn code of
                None \<Rightarrow> JErr
              | Some (L_MOV c SrcX) \<Rightarrow> JOk 0 (emit_mov_x is64 rd rs)
              | Some (L_ALU c op SrcX) \<Rightarrow> JOk 0 (emit_alu_x op is64 rd rs)
              | Some (L_DIV c SrcX) \<Rightarrow> JOk 0 (emit_div_x is64 rd rs)
              | Some (L_MOD c SrcX) \<Rightarrow> JOk 0 (emit_mod_x is64 rd rs)
              | Some (L_ARSH c SrcX) \<Rightarrow> JOk 0 (emit_arsh_x is64 rd rs)
              | Some (L_NEG c) \<Rightarrow> JOk 0 (emit_neg is64 rd)
              | Some L_END_TO_LE \<Rightarrow> JOk 0 (emit_from_le rd imm)
              | Some L_END_TO_BE \<Rightarrow> JOk 0 (emit_from_be rd imm)
              | Some (L_MOV c SrcK) \<Rightarrow> JOk 0 (emit_mov_k is64 rd imm)
              | Some (L_ALU c op SrcK) \<Rightarrow> JOk 0 (emit_alu_k op is64 rd imm)
              | Some (L_DIV c SrcK) \<Rightarrow> JOk 0 (emit_div_k is64 rd imm)
              | Some (L_MOD c SrcK) \<Rightarrow> JOk 0 (emit_mod_k is64 rd imm)
              | Some (L_ARSH c SrcK) \<Rightarrow> JOk 0 (emit_arsh_k is64 rd imm)
              | Some L_JA \<Rightarrow> jit_ja off i offset
              | Some (L_COND_JMP c op SrcX) \<Rightarrow> jit_cond off i offset (emit_jmp_x op is64 rd rs)
              | Some (L_COND_JMP c op SrcK) \<Rightarrow> jit_cond off i offset (emit_jmp_k op is64 rd imm)
              | Some L_CALL \<Rightarrow> JErr
              | Some L_EXIT \<Rightarrow> JErr
              | Some L_LD_IMM_DW \<Rightarrow>
                  (case insn1 of None \<Rightarrow> JUndef | Some j \<Rightarrow> JOk 1 (emit_ld_imm_dw rd imm (insn_imm j)))
              | Some (L_LDX_MEM z) \<Rightarrow> JOk 0 (emit_ldx z rd rs off)
              | Some (L_ST_MEM z) \<Rightarrow> JOk 0 (emit_st z rd off imm)
              | Some (L_STX_MEM z) \<Rightarrow> JOk 0 (emit_stx z rd rs off)
              | Some L_STX_XADD_W \<Rightarrow> JOk 0 (emit_xadd code rd rs off)
              | Some L_STX_XADD_DW \<Rightarrow> JOk 0 (emit_xadd code rd rs off)))"

definition emits :: "u32 list \<Rightarrow> rv_jit_context \<Rightarrow> rv_jit_context" where
  "emits ws ctx = fold emit ws ctx"

definition emit_insn :: "bpf_insn \<Rightarrow> bpf_insn option \<Rightarrow> int \<Rightarrow> rv_jit_context \<Rightarrow> (int \<times> rv_jit_context) option" where
  "emit_insn insn insn1 i ctx =
     (case jit_insn insn insn1 i (ctx_offset ctx) of
        JUndef \<Rightarrow> None
      | JErr \<Rightarrow> Some (- 1, ctx)
      | JOk ret ws \<Rightarrow> Some (ret, emits ws ctx))"

end
