(* ===== verification/Jit_Rv64_Enc.thy ===== *)
theory Jit_Rv64_Enc
  imports Rv64_Code Jit_Rv64
begin

text \<open>
  The compiler's instruction encoders produce the encodings of the verifier's own encoder: the
  bit manipulation of every \<^verbatim>\<open>rv_*_insn\<close> function is the corresponding instruction format, for
  register numbers below 32 and immediates cut to the width of the field.
\<close>

unbundle bit_operations_syntax

section \<open>Formats\<close>

lemma ucast_through:
  assumes "take_bit LENGTH('k::len) (x :: u8) = x"
  shows "(ucast (ucast x :: 'k word) :: u32) = ucast x"
proof (rule bit_word_eqI)
  fix n assume "n < LENGTH(32)"
  have "bit x n = bit (take_bit LENGTH('k) x) n" using assms by simp
  then show "bit (ucast (ucast x :: 'k word) :: u32) n = bit (ucast x :: u32) n"
    by (auto simp: bit_simps)
qed

lemma ucast_field:
  "(x :: u8) < 32 \<Longrightarrow> (ucast (ucast x :: 5 word) :: u32) = ucast x"
  "(x :: u8) < 8 \<Longrightarrow> (ucast (ucast x :: 3 word) :: u32) = ucast x"
  "(x :: u8) < 128 \<Longrightarrow> (ucast (ucast x :: 7 word) :: u32) = ucast x"
  using take_bit_small [of x 5] take_bit_small [of x 3] take_bit_small [of x 7]
  by (auto intro!: ucast_through)

lemma rv_r_insn_type:
  assumes "f7 < 128" "rs2 < 32" "rs1 < 32" "f3 < 8" "rd < 32" "opc < 128"
  shows "rv_r_insn f7 rs2 rs1 f3 rd opc = r_type (ucast f7) (ucast rs2) (ucast rs1) (ucast f3) (ucast rd) (ucast opc)"
  using assms by (simp add: rv_r_insn_def r_type_def ucast_field)

lemma push_imm12: "push_bit 20 (ucast (imm :: u16) :: u32) = push_bit 20 (ucast (ucast imm :: 12 word))"
  by (rule bit_word_eqI) (auto simp: bit_simps)

lemma rv_i_insn_type:
  assumes "rs1 < 32" "f3 < 8" "rd < 32" "opc < 128"
  shows "rv_i_insn imm rs1 f3 rd opc = i_type (ucast imm) (ucast rs1) (ucast f3) (ucast rd) (ucast opc)"
  using assms by (simp add: rv_i_insn_def i_type_def ucast_field push_imm12)

lemma s_imm_parts:
  "push_bit 25 (ucast (ucast (drop_bit 5 imm) :: u8) :: u32) = push_bit 25 (ucast (drop_bit 5 (ucast (imm :: u16) :: 12 word)))"
  "(ucast (ucast (imm AND 0x1f) :: u8) :: u32) = ucast (take_bit 5 (ucast (imm :: u16) :: 12 word))"
proof -
  show "push_bit 25 (ucast (ucast (drop_bit 5 imm) :: u8) :: u32) = push_bit 25 (ucast (drop_bit 5 (ucast imm :: 12 word)))"
    by (rule bit_word_eqI) (auto simp: bit_simps)
  have m: "(0x1f :: u16) = mask 5" by (simp add: mask_eq_exp_minus_1)
  show "(ucast (ucast (imm AND 0x1f) :: u8) :: u32) = ucast (take_bit 5 (ucast imm :: 12 word))"
    unfolding m by (rule bit_word_eqI) (auto simp: bit_simps)
qed

lemma rv_s_insn_type:
  assumes "rs2 < 32" "rs1 < 32" "f3 < 8" "opc < 128"
  shows "rv_s_insn imm rs2 rs1 f3 opc = s_type (ucast imm) (ucast rs2) (ucast rs1) (ucast f3) (ucast opc)"
  using assms by (simp add: rv_s_insn_def s_type_def ucast_field s_imm_parts)

lemma rv_u_insn_type:
  assumes "rd < 32" "opc < 128"
  shows "rv_u_insn imm rd opc = u_type (ucast imm) (ucast rd) (ucast opc)"
proof -
  have "push_bit 12 imm = push_bit 12 (ucast (ucast imm :: 20 word) :: u32)"
    by (rule bit_word_eqI) (auto simp: bit_simps)
  then show ?thesis
    using assms by (simp add: rv_u_insn_def u_type_def ucast_field)
qed

lemma and_push_mask: "x AND push_bit k (mask m) = push_bit k (take_bit m (drop_bit k (x :: 'a::len word)))"
  by (rule bit_word_eqI) (auto simp: bit_simps)

lemma bit_times_2: "bit (x * 2 :: 'a::len word) n \<longleftrightarrow> 0 < n \<and> n < LENGTH('a) \<and> bit x (n - 1)"
  using bit_push_bit_iff [of 1 x n] by (auto simp: push_bit_eq_mult possible_bit_def bit_imp_le_length)

lemma sb_masks:
  "(0x800 :: u16) = push_bit 11 (mask 1)" "(0x3f0 :: u16) = push_bit 4 (mask 6)"
  "(0xf :: u16) = push_bit 0 (mask 4)" "(0x400 :: u16) = push_bit 10 (mask 1)"
  by (simp_all add: mask_eq_exp_minus_1 push_bit_eq_mult)

lemma rv_sb_insn_type:
  assumes "rs2 < 32" "rs1 < 32" "f3 < 8" "opc < 128"
  shows "rv_sb_insn imm rs2 rs1 f3 opc = b_type (ucast imm) (ucast rs2) (ucast rs1) (ucast f3) (ucast opc)"
proof -
  have "push_bit 25 (ucast (ucast (drop_bit 5 (imm AND 0x800) OR drop_bit 4 (imm AND 0x3f0)) :: u8) :: u32) =
        push_bit 31 (ucast (drop_bit 11 (ucast imm :: 12 word))) OR
        push_bit 25 (ucast (take_bit 6 (drop_bit 4 (ucast imm :: 12 word))))"
    (is "?l = ?r")
  proof (rule bit_word_eqI)
    fix n assume "n < LENGTH(32)"
    then consider "n < 25" | "25 \<le> n" "n < 31" | "n = 31" by fastforce
    then show "bit ?l n = bit ?r n"
      unfolding sb_masks and_push_mask by (cases, simp_all add: bit_simps bit_times_2 bit_iff_odd_drop_bit [symmetric], auto)
  qed
  moreover have "push_bit 7 (ucast (ucast (push_bit 1 (imm AND 0xf) OR drop_bit 10 (imm AND 0x400)) :: u8) :: u32) =
        push_bit 8 (ucast (take_bit 4 (ucast imm :: 12 word))) OR
        push_bit 7 (of_bool (bit (ucast imm :: 12 word) 10))"
    (is "?l = ?r")
  proof (rule bit_word_eqI)
    fix n assume "n < LENGTH(32)"
    then consider "n < 7" | "n = 7" | "8 \<le> n" "n < 12" | "12 \<le> n" "n < 32" by fastforce
    then show "bit ?l n = bit ?r n"
      unfolding sb_masks and_push_mask by (cases, simp_all add: bit_simps bit_times_2 bit_iff_odd_drop_bit [symmetric], auto)
  qed
  ultimately show ?thesis
    using assms by (simp add: rv_sb_insn_def b_type_def ucast_field Let_def ac_simps)
qed

lemma uj_masks:
  "(0x80000 :: u32) = push_bit 19 (mask 1)" "(0x3ff :: u32) = push_bit 0 (mask 10)"
  "(0x400 :: u32) = push_bit 10 (mask 1)" "(0x7f800 :: u32) = push_bit 11 (mask 8)"
  by (simp_all add: mask_eq_exp_minus_1 push_bit_eq_mult)

lemma rv_uj_insn_type:
  assumes "rd < 32" "opc < 128"
  shows "rv_uj_insn imm rd opc = j_type (ucast imm) (ucast rd) (ucast opc)"
proof -
  have "push_bit 12 ((imm AND 0x80000) OR push_bit 9 (imm AND 0x3ff) OR
                drop_bit 2 (imm AND 0x400) OR drop_bit 11 (imm AND 0x7f800)) =
        push_bit 31 (ucast (drop_bit 19 (ucast imm :: 20 word))) OR
        push_bit 21 (ucast (take_bit 10 (ucast imm :: 20 word))) OR
        push_bit 20 (of_bool (bit (ucast imm :: 20 word) 10)) OR
        push_bit 12 (ucast (take_bit 8 (drop_bit 11 (ucast imm :: 20 word))))"
    (is "?l = ?r")
  proof (rule bit_word_eqI)
    fix n assume "n < LENGTH(32)"
    then consider "n < 12" | "12 \<le> n" "n < 20" | "n = 20" | "21 \<le> n" "n < 31" | "n = 31" by fastforce
    then show "bit ?l n = bit ?r n"
      unfolding uj_masks and_push_mask
      by (cases, simp_all add: bit_simps bit_times_2 bit_iff_odd_drop_bit [symmetric], auto)
  qed
  then show ?thesis
    using assms by (simp add: rv_uj_insn_def j_type_def ucast_field Let_def ac_simps)
qed
section \<open>Instructions\<close>

lemmas rv_encoder_defs =
  rv_addiw_def rv_addi_def rv_addw_def rv_add_def rv_subw_def rv_sub_def rv_and_def
  rv_or_def rv_xor_def rv_mulw_def rv_mul_def rv_divuw_def rv_divu_def rv_remuw_def
  rv_remu_def rv_sllw_def rv_sll_def rv_srlw_def rv_srl_def rv_sraw_def rv_sra_def
  rv_lui_def rv_slli_def rv_andi_def rv_ori_def rv_xori_def rv_slliw_def rv_srliw_def
  rv_srli_def rv_sraiw_def rv_srai_def rv_jal_def rv_jalr_def rv_beq_def rv_bltu_def
  rv_bgeu_def rv_bne_def rv_blt_def rv_bge_def rv_sb_def rv_sh_def rv_sw_def rv_sd_def
  rv_lbu_def rv_lhu_def rv_lwu_def rv_ld_def

lemma ucast_or_1024: "(ucast (0x400 OR imm :: u16) :: 12 word) = 1024 OR ucast imm"
  by (simp add: unsigned_or_eq)

lemma rv_r_encode:
  assumes "rd < 32" "rs1 < 32" "rs2 < 32"
  shows
  "rv_add rd rs1 rs2 = encode_instr (Rtype R_add (ucast rd) (ucast rs1) (ucast rs2))"
  "rv_addw rd rs1 rs2 = encode_instr (Rtype R_addw (ucast rd) (ucast rs1) (ucast rs2))"
  "rv_sub rd rs1 rs2 = encode_instr (Rtype R_sub (ucast rd) (ucast rs1) (ucast rs2))"
  "rv_subw rd rs1 rs2 = encode_instr (Rtype R_subw (ucast rd) (ucast rs1) (ucast rs2))"
  "rv_and rd rs1 rs2 = encode_instr (Rtype R_and (ucast rd) (ucast rs1) (ucast rs2))"
  "rv_or rd rs1 rs2 = encode_instr (Rtype R_or (ucast rd) (ucast rs1) (ucast rs2))"
  "rv_xor rd rs1 rs2 = encode_instr (Rtype R_xor (ucast rd) (ucast rs1) (ucast rs2))"
  "rv_mulw rd rs1 rs2 = encode_instr (Rtype R_mulw (ucast rd) (ucast rs1) (ucast rs2))"
  "rv_mul rd rs1 rs2 = encode_instr (Rtype R_mul (ucast rd) (ucast rs1) (ucast rs2))"
  "rv_divuw rd rs1 rs2 = encode_instr (Rtype R_divuw (ucast rd) (ucast rs1) (ucast rs2))"
  "rv_divu rd rs1 rs2 = encode_instr (Rtype R_divu (ucast rd) (ucast rs1) (ucast rs2))"
  "rv_remuw rd rs1 rs2 = encode_instr (Rtype R_remuw (ucast rd) (ucast rs1) (ucast rs2))"
  "rv_remu rd rs1 rs2 = encode_instr (Rtype R_remu (ucast rd) (ucast rs1) (ucast rs2))"
  "rv_sllw rd rs1 rs2 = encode_instr (Rtype R_sllw (ucast rd) (ucast rs1) (ucast rs2))"
  "rv_sll rd rs1 rs2 = encode_instr (Rtype R_sll (ucast rd) (ucast rs1) (ucast rs2))"
  "rv_srlw rd rs1 rs2 = encode_instr (Rtype R_srlw (ucast rd) (ucast rs1) (ucast rs2))"
  "rv_srl rd rs1 rs2 = encode_instr (Rtype R_srl (ucast rd) (ucast rs1) (ucast rs2))"
  "rv_sraw rd rs1 rs2 = encode_instr (Rtype R_sraw (ucast rd) (ucast rs1) (ucast rs2))"
  "rv_sra rd rs1 rs2 = encode_instr (Rtype R_sra (ucast rd) (ucast rs1) (ucast rs2))"
  using assms by (simp_all add: encode_instr.simps rv_encoder_defs rv_r_insn_type)

lemma rv_i_encode:
  assumes "rd < 32" "rs1 < 32"
  shows
  "rv_addiw rd rs1 imm = encode_instr (Itype I_addiw (ucast rd) (ucast rs1) (ucast imm))"
  "rv_addi rd rs1 imm = encode_instr (Itype I_addi (ucast rd) (ucast rs1) (ucast imm))"
  "rv_slli rd rs1 imm = encode_instr (Itype I_slli (ucast rd) (ucast rs1) (ucast imm))"
  "rv_andi rd rs1 imm = encode_instr (Itype I_andi (ucast rd) (ucast rs1) (ucast imm))"
  "rv_ori rd rs1 imm = encode_instr (Itype I_ori (ucast rd) (ucast rs1) (ucast imm))"
  "rv_xori rd rs1 imm = encode_instr (Itype I_xori (ucast rd) (ucast rs1) (ucast imm))"
  "rv_slliw rd rs1 imm = encode_instr (Itype I_slliw (ucast rd) (ucast rs1) (ucast imm))"
  "rv_srliw rd rs1 imm = encode_instr (Itype I_srliw (ucast rd) (ucast rs1) (ucast imm))"
  "rv_srli rd rs1 imm = encode_instr (Itype I_srli (ucast rd) (ucast rs1) (ucast imm))"
  "rv_sraiw rd rs1 imm = encode_instr (Itype I_sraiw (ucast rd) (ucast rs1) (ucast imm))"
  "rv_srai rd rs1 imm = encode_instr (Itype I_srai (ucast rd) (ucast rs1) (ucast imm))"
  "rv_jalr rd rs1 imm = encode_instr (Itype I_jalr (ucast rd) (ucast rs1) (ucast imm))"
  using assms by (simp_all add: encode_instr.simps rv_encoder_defs rv_i_insn_type ucast_or_1024)

lemma rv_l_encode:
  assumes "rd < 32" "rs1 < 32"
  shows
  "rv_lbu rd imm rs1 = encode_instr (Load M_lbu (ucast rd) (ucast rs1) (ucast imm))"
  "rv_lhu rd imm rs1 = encode_instr (Load M_lhu (ucast rd) (ucast rs1) (ucast imm))"
  "rv_lwu rd imm rs1 = encode_instr (Load M_lwu (ucast rd) (ucast rs1) (ucast imm))"
  "rv_ld rd imm rs1 = encode_instr (Load M_ld (ucast rd) (ucast rs1) (ucast imm))"
  using assms by (simp_all add: encode_instr.simps rv_encoder_defs rv_i_insn_type)

lemma rv_s_encode:
  assumes "rs1 < 32" "rs2 < 32"
  shows
  "rv_sb rs1 imm rs2 = encode_instr (Store M_sb (ucast rs1) (ucast rs2) (ucast imm))"
  "rv_sh rs1 imm rs2 = encode_instr (Store M_sh (ucast rs1) (ucast rs2) (ucast imm))"
  "rv_sw rs1 imm rs2 = encode_instr (Store M_sw (ucast rs1) (ucast rs2) (ucast imm))"
  "rv_sd rs1 imm rs2 = encode_instr (Store M_sd (ucast rs1) (ucast rs2) (ucast imm))"
  using assms by (simp_all add: encode_instr.simps rv_encoder_defs rv_s_insn_type)

lemma rv_b_encode:
  assumes "rs1 < 32" "rs2 < 32"
  shows
  "rv_beq rs1 rs2 imm = encode_instr (Branch B_beq (ucast rs1) (ucast rs2) (ucast imm))"
  "rv_bltu rs1 rs2 imm = encode_instr (Branch B_bltu (ucast rs1) (ucast rs2) (ucast imm))"
  "rv_bgeu rs1 rs2 imm = encode_instr (Branch B_bgeu (ucast rs1) (ucast rs2) (ucast imm))"
  "rv_bne rs1 rs2 imm = encode_instr (Branch B_bne (ucast rs1) (ucast rs2) (ucast imm))"
  "rv_blt rs1 rs2 imm = encode_instr (Branch B_blt (ucast rs1) (ucast rs2) (ucast imm))"
  "rv_bge rs1 rs2 imm = encode_instr (Branch B_bge (ucast rs1) (ucast rs2) (ucast imm))"
  using assms by (simp_all add: encode_instr.simps rv_encoder_defs rv_sb_insn_type)

lemma rv_u_encode:
  assumes "rd < 32"
  shows
  "rv_lui rd imm32 = encode_instr (Lui (ucast rd) (ucast imm32))"
  "rv_jal rd imm32 = encode_instr (Jal (ucast rd) (ucast imm32))"
  using assms by (simp_all add: encode_instr.simps rv_encoder_defs rv_u_insn_type rv_uj_insn_type)

lemmas rv_encodes = rv_r_encode rv_i_encode rv_l_encode rv_s_encode rv_b_encode rv_u_encode

section \<open>Execution of emitted words\<close>

definition exec_word :: "u32 \<Rightarrow> rcpu \<Rightarrow> rcpu option" where
  "exec_word w cpu = (case decode_instr w of None \<Rightarrow> None | Some i \<Rightarrow> interpret_instr i cpu)"

lemma exec_word_encode: "instr_ok i \<Longrightarrow> exec_word (encode_instr i) cpu = interpret_instr i cpu"
  by (simp add: exec_word_def decode_encode_instr)

end
