(* ===== verification/Jit_Rv64_Imm.thy ===== *)
theory Jit_Rv64_Imm
  imports Jit_Rv64_Enc
begin

text \<open>
  Running emitted words on the RISC-V machine, and the correctness of the compiler's immediate
  loading: \<open>ffs\<close> finds the lowest set bit, and the words of \<open>emit_imm rd val\<close> leave exactly \<open>val\<close>
  in \<open>rd\<close>, for every 64-bit value, in at most eight instructions.
\<close>

unbundle bit_operations_syntax

section \<open>The lowest set bit\<close>

definition ffs_inv :: "u64 \<Rightarrow> nat \<Rightarrow> nat \<Rightarrow> u64 \<Rightarrow> bool" where
  "ffs_inv word m num w = (take_bit num word = 0 \<and> w = drop_bit num word \<and> take_bit m w \<noteq> 0)"

definition ffs_half :: "nat \<Rightarrow> nat \<times> u64 \<Rightarrow> nat \<times> u64" where
  "ffs_half k p = (if take_bit k (snd p) = 0 then (fst p + k, drop_bit k (snd p)) else p)"

lemma take_bit_add_drop:
  "take_bit (m + k) (w :: 'a::len word) = take_bit m w OR push_bit m (take_bit k (drop_bit m w))"
  by (rule bit_word_eqI) (auto simp: bit_simps)

lemma ffs_half_inv:
  assumes "ffs_inv word (k + k) (fst p) (snd p)"
  shows "ffs_inv word k (fst (ffs_half k p)) (snd (ffs_half k p))"
proof (cases "take_bit k (snd p) = 0")
  case True
  obtain num w where p: "p = (num, w)" by (cases p)
  have w: "take_bit num word = 0" "w = drop_bit num word" "take_bit (k + k) w \<noteq> 0" "take_bit k w = 0"
    using assms True p by (auto simp: ffs_inv_def)
  have "take_bit (num + k) word = 0"
    using w by (simp add: take_bit_add_drop)
  moreover have "take_bit k (drop_bit k w) \<noteq> 0"
    using w(3,4) by (auto simp: take_bit_add_drop)
  ultimately show ?thesis
    using True p w(2) by (simp add: ffs_half_def ffs_inv_def add.commute)
next
  case False
  then show ?thesis
    using assms by (auto simp: ffs_half_def ffs_inv_def)
qed

lemma ffs_masks:
  "(0xffffffff :: u64) = mask 32" "(0xffff :: u64) = mask 16" "(0xff :: u64) = mask 8"
  "(0xf :: u64) = mask 4" "(0x3 :: u64) = mask 2"
  by (simp_all add: mask_eq_exp_minus_1)

lemma ffs_half_fold:
  "(if w AND mask k = 0 then (num + k, drop_bit k w) else (num, w)) = ffs_half k (num, w)"
  by (simp add: ffs_half_def take_bit_eq_mask)

lemma ffs_last: "(if w AND 1 = 0 then num + 1 else num) = fst (ffs_half 1 (num, w))"
  by (simp add: ffs_half_def take_bit_eq_mask)

lemma ffs_halves:
  "ffs word = fst (ffs_half 1 (ffs_half 2 (ffs_half 4 (ffs_half 8 (ffs_half 16 (ffs_half 32 (0, word)))))))"
  unfolding ffs_def ffs_masks
  by (simp only: Let_def split_beta ffs_half_fold ffs_last prod.collapse)

lemma ffs_correct:
  assumes "word \<noteq> 0"
  shows "take_bit (ffs word) word = 0" "bit word (ffs word)"
proof -
  define p where "p = ffs_half 2 (ffs_half 4 (ffs_half 8 (ffs_half 16 (ffs_half 32 (0, word)))))"
  have "ffs_inv word (32 + 32) (fst (0 :: nat, word)) (snd (0 :: nat, word))"
    using assms by (simp add: ffs_inv_def take_bit_word_beyond_length_eq)
  from ffs_half_inv [OF this] have "ffs_inv word (16 + 16) (fst (ffs_half 32 (0, word))) (snd (ffs_half 32 (0, word)))" by simp
  from ffs_half_inv [OF this]
  have "ffs_inv word (8 + 8) (fst (ffs_half 16 (ffs_half 32 (0, word)))) (snd (ffs_half 16 (ffs_half 32 (0, word))))" by simp
  from ffs_half_inv [OF this]
  have "ffs_inv word (4 + 4) (fst (ffs_half 8 (ffs_half 16 (ffs_half 32 (0, word)))))
      (snd (ffs_half 8 (ffs_half 16 (ffs_half 32 (0, word)))))" by simp
  from ffs_half_inv [OF this]
  have "ffs_inv word (2 + 2) (fst (ffs_half 4 (ffs_half 8 (ffs_half 16 (ffs_half 32 (0, word))))))
      (snd (ffs_half 4 (ffs_half 8 (ffs_half 16 (ffs_half 32 (0, word))))))" by simp
  from ffs_half_inv [OF this] have "ffs_inv word (1 + 1) (fst p) (snd p)" by (simp add: p_def numeral_2_eq_2)
  from ffs_half_inv [OF this] have i: "ffs_inv word 1 (fst (ffs_half 1 p)) (snd (ffs_half 1 p))" .
  have f: "ffs word = fst (ffs_half 1 p)"
    unfolding ffs_halves p_def ..
  show "take_bit (ffs word) word = 0"
    using i by (simp add: ffs_inv_def f)
  have "take_bit 1 (drop_bit (ffs word) word) \<noteq> 0"
    using i by (auto simp: ffs_inv_def f)
  then show "bit word (ffs word)"
    by (simp add: bit_iff_odd_drop_bit odd_iff_mod_2_eq_one)
qed

section \<open>Blocks of emitted words\<close>

fun exec_block :: "u32 list \<Rightarrow> rcpu \<Rightarrow> rcpu option" where
  "exec_block [] cpu = Some cpu"
| "exec_block (w # ws) cpu =
     (case exec_word w cpu of
        None \<Rightarrow> None
      | Some cpu' \<Rightarrow> if ws = [] \<or> rpc cpu' = rpc cpu + 4 then exec_block ws cpu' else None)"

lemma exec_block_append:
  assumes "exec_block ws1 cpu = Some cpu1" "rpc cpu1 = rpc cpu + 4 * word_of_nat (length ws1)"
  shows "exec_block (ws1 @ ws2) cpu = exec_block ws2 cpu1"
  using assms
proof (induction ws1 arbitrary: cpu)
  case (Cons w ws)
  obtain c where c: "exec_word w cpu = Some c" "ws = [] \<or> rpc c = rpc cpu + 4" "exec_block ws c = Some cpu1"
    using Cons.prems(1) by (auto split: option.splits if_splits)
  show ?case
  proof (cases "ws = []")
    case True
    then show ?thesis using c Cons.prems(2) by simp
  next
    case False
    then have "rpc c = rpc cpu + 4" using c(2) by simp
    then show ?thesis
      using c Cons.IH [OF c(3)] Cons.prems(2) by (simp add: algebra_simps)
  qed
qed simp

text \<open>Running a straight-line block whose only effect is a register write.\<close>

definition adv :: "nat \<Rightarrow> rcpu \<Rightarrow> rcpu" where
  "adv n cpu = cpu\<lparr>rpc := rpc cpu + 4 * word_of_nat n\<rparr>"

lemma adv_simps [simp]:
  "rpc (adv n cpu) = rpc cpu + 4 * word_of_nat n"
  "gpr_ref (adv n cpu) r = gpr_ref cpu r"
  "rmem (adv n cpu) = rmem cpu"
  "adv 0 cpu = cpu"
  "adv m (adv n cpu) = adv (n + m) cpu"
  "cpu_next (adv n cpu) = adv (n + 1) cpu"
  "gpr_set (adv n cpu) r v = adv n (gpr_set cpu r v)"
  by (simp_all add: adv_def gpr_ref_def gpr_set_def cpu_next_def algebra_simps)

lemma cpu_next_adv: "cpu_next cpu = adv 1 cpu"
  by (simp add: adv_def cpu_next_def)

lemma gpr_simps [simp]:
  "gpr_ref cpu 0 = 0"
  "rpc (gpr_set cpu r v) = rpc cpu"
  "rmem (gpr_set cpu r v) = rmem cpu"
  "r \<noteq> 0 \<Longrightarrow> gpr_ref (gpr_set cpu r v) r = v"
  "r \<noteq> r' \<Longrightarrow> gpr_ref (gpr_set cpu r v) r' = gpr_ref cpu r'"
  "gpr_set (gpr_set cpu r v) r v' = gpr_set cpu r v'"
  by (auto simp: gpr_ref_def gpr_set_def)

lemmas exec_simps [rv_simps] = rv_encodes exec_word_encode cpu_next_adv

lemma sext12_word:
  "(scast (ucast v :: 12 word) :: 'a::len word) = take_bit 12 (v + 0x800) - 0x800"
  if "12 \<le> LENGTH('a)" for v :: "'a::len word"
proof -
  have "sint (ucast v :: 12 word) = signed_take_bit 11 (uint v)"
    by (simp add: signed_ucast_eq)
  also have "\<dots> = take_bit 12 (uint v + 0x800) - 0x800"
    by (simp add: signed_take_bit_eq_take_bit_shift)
  finally have s: "sint (ucast v :: 12 word) = take_bit 12 (uint v + 0x800) - 0x800" .
  have "(scast (ucast v :: 12 word) :: 'a word) = word_of_int (sint (ucast v :: 12 word))"
    by simp
  also have "\<dots> = word_of_int (take_bit 12 (uint v + 0x800)) - 0x800"
    by (simp add: s)
  also have "word_of_int (take_bit 12 (uint v + 0x800)) = take_bit 12 (v + 0x800 :: 'a word)"
    by (simp add: take_bit_of_int [symmetric])
  finally show ?thesis .
qed

section \<open>Loading immediates\<close>

lemma push_signed_drop: "push_bit n (signed_drop_bit n x) = push_bit n (drop_bit n (x :: 'a::len word))"
  by (rule bit_word_eqI) (auto simp: bit_simps)

lemma upper_lower:
  assumes "12 \<le> LENGTH('a::len)"
  shows "push_bit 12 (signed_drop_bit 12 (v + 0x800)) + scast (ucast v :: 12 word) = (v :: 'a word)"
  unfolding sext12_word [OF assms] push_signed_drop
  using bits_ident [of 12 "v + 0x800"] by (simp add: algebra_simps)

lemma ucast32_of_int: "(ucast (word_of_int k :: u64) :: u32) = word_of_int k"
  by transfer simp

lemma ucast32_arith:
  "(ucast (a + b :: u64) :: u32) = ucast a + ucast b"
  "(ucast (a - b :: u64) :: u32) = ucast a - ucast b"
  "(ucast (a * b :: u64) :: u32) = ucast a * ucast b"
  "(ucast (- a :: u64) :: u32) = - ucast a"
proof -
  have "(ucast (a + b) :: u32) = ucast (word_of_int (uint a + uint b) :: u64)" by simp
  also have "\<dots> = word_of_int (uint a + uint b)" by (rule ucast32_of_int)
  finally show "(ucast (a + b) :: u32) = ucast a + ucast b" by simp
  have "(ucast (a - b) :: u32) = ucast (word_of_int (uint a - uint b) :: u64)" by simp
  also have "\<dots> = word_of_int (uint a - uint b)" by (rule ucast32_of_int)
  finally show "(ucast (a - b) :: u32) = ucast a - ucast b" by simp
  have "(ucast (a * b) :: u32) = ucast (word_of_int (uint a * uint b) :: u64)" by simp
  also have "\<dots> = word_of_int (uint a * uint b)" by (rule ucast32_of_int)
  finally show "(ucast (a * b) :: u32) = ucast a * ucast b" by simp
  have "(ucast (- a) :: u32) = ucast (word_of_int (- uint a) :: u64)" by simp
  also have "\<dots> = word_of_int (- uint a)" by (rule ucast32_of_int)
  finally show "(ucast (- a) :: u32) = - ucast a" by simp
qed

lemma lower_imm: "(ucast (ucast (val AND 0xfff :: u64) :: u16) :: 12 word) = ucast val"
proof -
  have m: "(0xfff :: u64) = mask 12" by (simp add: mask_eq_exp_minus_1)
  show ?thesis unfolding m by (rule bit_word_eqI) (auto simp: bit_simps)
qed

lemma lui_imm:
  "(push_bit 12 (ucast (ucast (ucast (u :: u64) :: u32) :: 20 word)) :: u32) = ucast (push_bit 12 u)"
  by (rule bit_word_eqI) (auto simp: bit_simps)

lemma sext32_word: "(scast (ucast v :: u32) :: u64) = v \<longleftrightarrow> is_32b_int v"
proof -
  have "(scast (ucast v :: u32) :: u64) = v \<longleftrightarrow> sint (scast (ucast v :: u32) :: u64) = sint v"
    by (simp add: signed_word_eqI word_eq_iff_signed)
  also have "sint (scast (ucast v :: u32) :: u64) = signed_take_bit 31 (sint v)"
    by transfer (simp add: signed_take_bit_take_bit)
  also have "signed_take_bit 31 (sint v) = sint v \<longleftrightarrow> is_32b_int v"
    by (simp add: signed_take_bit_int_eq_self_iff is_32b_int_iff)
  finally show ?thesis .
qed

lemma imm_small:
  assumes "(imm :: u16) < 64"
  shows "(ucast imm :: 12 word) < 64" "unat (scast (ucast imm :: 12 word) :: u64) = unat imm" "unat imm < 64"
proof -
  have "unat imm < 64" using assms by (simp add: word_less_nat_alt)
  moreover have "imm = word_of_nat (unat imm)" by simp
  ultimately obtain n where n: "imm = word_of_nat n" "n < 64" by blast
  have m: "n mod 65536 = n" "n mod 4096 = n" "n mod 2 ^ 64 = n" using n(2) by simp_all
  have u: "unat imm = n" unfolding n(1) using m by (simp add: unsigned_of_nat take_bit_eq_mod)
  show "unat imm < 64" using u n(2) by simp
  have c: "(ucast imm :: 12 word) = word_of_nat n"
    unfolding n(1) using m by (simp add: unsigned_of_nat take_bit_eq_mod)
  show "(ucast imm :: 12 word) < 64"
    unfolding c using n(2) m by (simp add: word_less_nat_alt unsigned_of_nat take_bit_eq_mod)
  show "unat (scast (ucast imm :: 12 word) :: u64) = unat imm"
    unfolding c u using n(2)
    by (simp add: signed_of_nat signed_take_bit_int_eq_self unsigned_of_nat take_bit_nat_eq_self)
qed

lemma shamt64: "unat (v :: u64) < 64 \<Longrightarrow> shamt v = unat v"
proof -
  assume a: "unat v < 64"
  have "word_of_nat (LENGTH(64) - 1) AND v = take_bit 6 v"
    by (simp add: take_bit_eq_mask mask_eq_exp_minus_1 and.commute)
  then have "shamt v = unat (take_bit 6 v)"
    by (simp add: shamt_def)
  also have "\<dots> = take_bit 6 (unat v)"
    by (simp add: unsigned_take_bit_eq)
  finally show "shamt v = unat v" using a by (simp add: take_bit_nat_eq_self)
qed

lemma shamt_imm: "(imm :: u16) < 64 \<Longrightarrow> shamt (scast (ucast imm :: 12 word) :: u64) = unat imm"
  using shamt64 [of "scast (ucast imm :: 12 word)"] imm_small [of imm] by simp

lemma exec_shift_imm:
  assumes "rd < 32" "rs < 32" "imm < 64"
  shows
  "exec_word (rv_slli rd rs imm) cpu = Some (adv 1 (gpr_set cpu (ucast rd) (push_bit (unat imm) (gpr_ref cpu (ucast rs)))))"
  "exec_word (rv_srli rd rs imm) cpu = Some (adv 1 (gpr_set cpu (ucast rd) (drop_bit (unat imm) (gpr_ref cpu (ucast rs)))))"
  "exec_word (rv_srai rd rs imm) cpu = Some (adv 1 (gpr_set cpu (ucast rd) (signed_drop_bit (unat imm) (gpr_ref cpu (ucast rs)))))"
  using assms by (simp_all add: exec_simps imm_small shamt_imm)

lemma exec_addi:
  assumes "rd < 32" "rs < 32"
  shows
  "exec_word (rv_addi rd rs imm) cpu = Some (adv 1 (gpr_set cpu (ucast rd) (gpr_ref cpu (ucast rs) + scast (ucast imm :: 12 word))))"
  "exec_word (rv_addiw rd rs imm) cpu = Some (adv 1 (gpr_set cpu (ucast rd) (scast ((ucast (gpr_ref cpu (ucast rs)) :: u32) + scast (ucast imm :: 12 word)))))"
  using assms by (simp_all add: exec_simps)

lemma exec_lui:
  assumes "rd < 32"
  shows "exec_word (rv_lui rd imm) cpu = Some (adv 1 (gpr_set cpu (ucast rd) (scast (push_bit 12 (ucast (ucast imm :: 20 word)) :: u32))))"
  using assms by (simp add: exec_simps)

lemma unat_ucast5: "(rd :: u8) < 32 \<Longrightarrow> unat (ucast rd :: 5 word) = unat rd"
  by (simp add: unsigned_ucast_eq take_bit_nat_eq_self word_less_nat_alt)

lemma ucast5_eq_iff: "(r :: u8) < 32 \<Longrightarrow> s < 32 \<Longrightarrow> (ucast r :: 5 word) = ucast s \<longleftrightarrow> r = s"
  by (metis unat_ucast5 word_unat_eq_iff)

lemma ucast5_nonzero: "(rd :: u8) < 32 \<Longrightarrow> 0 < rd \<Longrightarrow> (ucast rd :: 5 word) \<noteq> 0"
  using ucast5_eq_iff [of rd 0] by auto

lemma ucast_scast32 [simp]: "(ucast (scast (v :: u32) :: u64) :: u32) = v"
  by (rule bit_word_eqI) (auto simp: bit_simps)

lemma emit_imm_base:
  assumes "rd < 32" "0 < rd" "is_32b_int val"
  shows "exec_block (emit_imm rd val) cpu = Some (adv (length (emit_imm rd val)) (gpr_set cpu (ucast rd) val))"
proof (cases "signed_drop_bit 12 (val + 0x800) = 0")
  case True
  have "scast (ucast val :: 12 word) = val"
    using upper_lower [of val] True by simp
  then show ?thesis
    using assms True
    by (subst (1 2) emit_imm.simps) (simp add: Let_def exec_addi lower_imm RV_REG_ZERO_def)
next
  case False
  have "(ucast (push_bit 12 (signed_drop_bit 12 (val + 0x800))) :: u32) + scast (ucast val :: 12 word) =
      ucast val"
  proof -
    have "(scast (ucast val :: 12 word) :: u32) = ucast (scast (ucast val :: 12 word) :: u64)"
      by (rule bit_word_eqI) (auto simp: bit_simps)
    then show ?thesis
      using upper_lower [of val] by (simp add: ucast32_arith(1) [symmetric])
  qed
  moreover have "(scast (ucast val :: u32) :: u64) = val"
    using assms(3) by (simp add: sext32_word)
  ultimately show ?thesis
    using assms False
    by (subst (1 2) emit_imm.simps)
      (simp add: Let_def exec_addi exec_lui lower_imm lui_imm ucast5_nonzero)
qed

lemma upper_shift:
  assumes "\<not> is_32b_int val"
  defines "upper \<equiv> signed_drop_bit 12 (val + 0x800)"
  shows "upper \<noteq> 0" "ffs upper + 12 < 64"
    "push_bit (ffs upper + 12) (signed_drop_bit (ffs upper) upper) = push_bit 12 upper"
proof -
  show nz: "upper \<noteq> 0"
  proof
    assume z: "upper = 0"
    have "sint upper = sint (val + 0x800) div 4096"
      by (simp add: upper_def sint_signed_drop_bit_eq drop_bit_eq_div)
    then have "sint (val + 0x800) div 4096 = 0" by (simp add: z)
    then have "0 \<le> sint (val + 0x800)" "sint (val + 0x800) < 4096" by presburger+
    then show False
      using assms(1) sint_range [of val] unfolding sint_add_800 is_32b_int_iff by (auto split: if_splits)
  qed
  note f = ffs_correct [OF nz]
  have "ffs upper < 52"
  proof (rule ccontr)
    assume "\<not> ffs upper < 52"
    then have "\<not> bit upper 51"
      using arg_cong [OF f(1), of "\<lambda>x. bit x 51"] by (simp add: bit_take_bit_iff)
    moreover have "bit upper 51"
      using f(2) \<open>\<not> ffs upper < 52\<close> bit_imp_le_length [OF f(2)]
      by (auto simp: upper_def bit_signed_drop_bit_iff split: if_splits)
    ultimately show False by simp
  qed
  then show "ffs upper + 12 < 64" by simp
  have "push_bit (ffs upper) (signed_drop_bit (ffs upper) upper) = upper"
    using bits_ident [of "ffs upper" upper] f(1) by (simp add: push_signed_drop)
  then show "push_bit (ffs upper + 12) (signed_drop_bit (ffs upper) upper) = push_bit 12 upper"
    by (metis push_bit_push_bit add.commute)
qed

lemma emit_imm_rec:
  assumes "\<not> is_32b_int val"
  defines "upper \<equiv> signed_drop_bit 12 (val + 0x800)"
  shows "emit_imm rd val =
    emit_imm rd (signed_drop_bit (ffs upper) upper) @ [rv_slli rd rd (word_of_nat (ffs upper + 12))] @
    (if val AND 0xfff \<noteq> 0 then [rv_addi rd rd (ucast (val AND 0xfff))] else [])"
  by (subst emit_imm.simps) (simp only: Let_def assms(1) if_False upper_def)

lemma shift_imm16: "n < 64 \<Longrightarrow> (word_of_nat n :: u16) < 64 \<and> unat (word_of_nat n :: u16) = n"
  by (simp add: word_less_nat_alt unsigned_of_nat take_bit_nat_eq_self)

lemma emit_imm_exec:
  "rd < 32 \<Longrightarrow> 0 < rd \<Longrightarrow>
   exec_block (emit_imm rd val) cpu = Some (adv (length (emit_imm rd val)) (gpr_set cpu (ucast rd) val))"
proof (induction rd val rule: emit_imm.induct)
  case (1 rd val)
  show ?case
  proof (cases "is_32b_int val")
    case True
    then show ?thesis using emit_imm_base 1(2,3) by blast
  next
    case False
    define upper where "upper = signed_drop_bit 12 (val + 0x800)"
    define u where "u = signed_drop_bit (ffs upper) upper"
    note up = upper_shift [OF False, folded upper_def]
    have ih: "exec_block (emit_imm rd u) cpu = Some (adv (length (emit_imm rd u)) (gpr_set cpu (ucast rd) u))"
      using 1(1) [OF upper_def refl False refl u_def refl 1(2,3)] .
    have sh: "word_of_nat (ffs upper + 12) < (64 :: u16)" "unat (word_of_nat (ffs upper + 12) :: u16) = ffs upper + 12"
      using shift_imm16 [OF up(2)] by blast+
    have v: "push_bit 12 upper + scast (ucast val :: 12 word) = val"
      using upper_lower [of val] by (simp add: upper_def)
    have z: "scast (ucast val :: 12 word) = (0 :: u64)" if "val AND 0xfff = 0"
      using lower_imm [of val] that by simp
    have w: "push_bit 12 upper = val" if "val AND 0xfff = 0"
      using v z [OF that] by simp
    have "exec_block (emit_imm rd val) cpu =
        exec_block ([rv_slli rd rd (word_of_nat (ffs upper + 12))] @
          (if val AND 0xfff \<noteq> 0 then [rv_addi rd rd (ucast (val AND 0xfff))] else []))
          (adv (length (emit_imm rd u)) (gpr_set cpu (ucast rd) u))"
      unfolding emit_imm_rec [OF False, folded upper_def] u_def [symmetric]
      by (rule exec_block_append [OF ih]) simp
    also have "\<dots> = Some (adv (length (emit_imm rd val)) (gpr_set cpu (ucast rd) val))"
      unfolding emit_imm_rec [OF False, folded upper_def] u_def [symmetric]
      using 1(2,3) sh up(3) v w
      by (cases "val AND 0xfff = 0") (simp_all add: exec_shift_imm exec_addi ucast5_nonzero lower_imm u_def)
    finally show ?thesis .
  qed
qed

lemma emit_imm_length_base: "\<bar>sint val\<bar> < 2 ^ 31 \<Longrightarrow> length (emit_imm rd val) \<le> 2"
  by (subst emit_imm.simps) (auto simp: Let_def is_32b_int_iff)

lemma emit_imm_length_step:
  assumes "\<And>u. \<bar>sint u\<bar> \<le> (b + 0x800) div 4096 + 1 \<Longrightarrow> length (emit_imm rd u) \<le> n" "\<bar>sint val\<bar> \<le> b" "2 \<le> n"
  shows "length (emit_imm rd val) \<le> n + 2"
proof (cases "is_32b_int val")
  case True
  then show ?thesis using assms(3) by (subst emit_imm.simps) (auto simp: Let_def)
next
  case False
  define upper where "upper = signed_drop_bit 12 (val + 0x800)"
  have "\<bar>sint (signed_drop_bit (ffs upper) upper)\<bar> \<le> \<bar>sint upper\<bar>"
    using abs_drop_bit by (simp add: sint_signed_drop_bit_eq)
  also have "\<dots> \<le> (\<bar>sint val\<bar> + 0x800) div 4096 + 1"
    using upper_bound [of val] by (simp add: upper_def)
  also have "\<dots> \<le> (b + 0x800) div 4096 + 1"
    using assms(2) by (simp add: zdiv_mono1)
  finally have "length (emit_imm rd (signed_drop_bit (ffs upper) upper)) \<le> n"
    by (rule assms(1))
  then show ?thesis
    by (simp add: emit_imm_rec [OF False] upper_def [symmetric])
qed

lemma emit_imm_length: "length (emit_imm rd val) \<le> 8"
proof -
  have a: "length (emit_imm rd u) \<le> 4" if "\<bar>sint u\<bar> \<le> 2 ^ 39 + 2" for u
    using emit_imm_length_step [of "2 ^ 39 + 2" rd 2 u] emit_imm_length_base [of _ rd] that by simp
  have b: "length (emit_imm rd u) \<le> 6" if "\<bar>sint u\<bar> \<le> 2 ^ 51 + 1" for u
    using emit_imm_length_step [of "2 ^ 51 + 1" rd 4 u] a that by simp
  have "\<bar>sint val\<bar> \<le> 2 ^ 63"
    using sint_range [of val] by simp
  then show ?thesis
    using emit_imm_length_step [of "2 ^ 63" rd 6 val] b by simp
qed

end
