(* ===== verification/Bpf_Run.thy ===== *)
theory Bpf_Run
  imports Bpf
begin

text \<open>
  Facts on the BPF interpreter: the opcode table has one label per opcode, how each
  instruction moves the program counter, that programs without backward jumps terminate, that
  32-bit arithmetic clears the upper half of its destination, and that stores stay inside
  the mapped memory.
\<close>

unbundle bit_operations_syntax

section \<open>The opcode table\<close>

lemma insn_map_distinct: "distinct (map fst BPF_INSN_MAP)"
  by code_simp

definition label_class :: "label \<Rightarrow> u8" where
  "label_class l =
     (case l of
        L_ALU c op x \<Rightarrow> (case c of C_ALU \<Rightarrow> BPF_ALU | C_ALU64 \<Rightarrow> BPF_ALU64)
      | L_NEG c \<Rightarrow> (case c of C_ALU \<Rightarrow> BPF_ALU | C_ALU64 \<Rightarrow> BPF_ALU64)
      | L_MOV c x \<Rightarrow> (case c of C_ALU \<Rightarrow> BPF_ALU | C_ALU64 \<Rightarrow> BPF_ALU64)
      | L_ARSH c x \<Rightarrow> (case c of C_ALU \<Rightarrow> BPF_ALU | C_ALU64 \<Rightarrow> BPF_ALU64)
      | L_MOD c x \<Rightarrow> (case c of C_ALU \<Rightarrow> BPF_ALU | C_ALU64 \<Rightarrow> BPF_ALU64)
      | L_DIV c x \<Rightarrow> (case c of C_ALU \<Rightarrow> BPF_ALU | C_ALU64 \<Rightarrow> BPF_ALU64)
      | L_LD_IMM_DW \<Rightarrow> BPF_LD
      | L_END_TO_BE \<Rightarrow> BPF_ALU
      | L_END_TO_LE \<Rightarrow> BPF_ALU
      | L_CALL \<Rightarrow> BPF_JMP
      | L_JA \<Rightarrow> BPF_JMP
      | L_EXIT \<Rightarrow> BPF_JMP
      | L_COND_JMP c op x \<Rightarrow> (case c of C_JMP \<Rightarrow> BPF_JMP | C_JMP32 \<Rightarrow> BPF_JMP32)
      | L_STX_MEM z \<Rightarrow> BPF_STX
      | L_ST_MEM z \<Rightarrow> BPF_ST
      | L_LDX_MEM z \<Rightarrow> BPF_LDX
      | L_STX_XADD_W \<Rightarrow> BPF_STX
      | L_STX_XADD_DW \<Rightarrow> BPF_STX)"

lemma insn_map_class: "list_all (\<lambda>(c, l). BPF_CLASS c = label_class l) BPF_INSN_MAP"
  by code_simp

lemma select_insn_all:
  assumes "list_all (\<lambda>(c, l). P c l) BPF_INSN_MAP" "select_insn code = Some l"
  shows "P code l"
  using assms by (auto simp: select_insn_def list_all_iff dest: map_of_SomeD)

lemma select_insn_class: "select_insn code = Some l \<Longrightarrow> BPF_CLASS code = label_class l"
  by (rule select_insn_all [OF insn_map_class])

definition bpf_opcode :: "label \<Rightarrow> u8 option" where
  "bpf_opcode l = map_of (map (\<lambda>(c, l). (l, c)) BPF_INSN_MAP) l"

lemma insn_map_opcode:
  "list_all (\<lambda>(c, l). bpf_opcode l = Some c) BPF_INSN_MAP"
  by code_simp

lemma opcode_map_select:
  "list_all (\<lambda>(l, c). select_insn c = Some l) (map (\<lambda>(c, l). (l, c)) BPF_INSN_MAP)"
  by code_simp

lemma bpf_opcode_iff: "bpf_opcode l = Some c \<longleftrightarrow> select_insn c = Some l"
proof
  assume "bpf_opcode l = Some c"
  then have "(l, c) \<in> set (map (\<lambda>(c, l). (l, c)) BPF_INSN_MAP)"
    unfolding bpf_opcode_def by (rule map_of_SomeD)
  then show "select_insn c = Some l"
    using opcode_map_select by (auto simp: list_all_iff)
next
  assume "select_insn c = Some l"
  then show "bpf_opcode l = Some c"
    by (rule select_insn_all [OF insn_map_opcode])
qed

section \<open>Program counter and termination\<close>

fun is_jump :: "label \<Rightarrow> bool" where
  "is_jump L_JA = True"
| "is_jump (L_COND_JMP c op x) = True"
| "is_jump _ = False"

lemmas exec_defs =
  ALU_def ALU_NEG_def ALU_MOV_def LD_IMM_DW_def ALU_ARSH_def ALU_MOD_def ALU_DIV_def
  ALU_END_TO_BE_def ALU_END_TO_LE_def COND_JMP_def STX_MEM_def ST_MEM_def LDX_MEM_def
  STX_XADD_W_def STX_XADD_DW_def

lemmas state_defs = CONT_def set_DST_def set_reg_def jump_off_def

lemma exec_label_pc:
  assumes "exec_label l i i1 s = BCont s'"
  shows "bpc s' = bpc s + 1 \<or> (l = L_LD_IMM_DW \<and> bpc s' = bpc s + 2) \<or>
         (is_jump l \<and> bpc s' = bpc s + 1 + sint (insn_off i))"
  using assms
  by (cases l)
    (auto simp: exec_defs state_defs Let_def
      split: alu_class.splits jmp_class.splits option.splits if_splits prod.splits)

definition forward_insn :: "bpf_insn \<Rightarrow> bool" where
  "forward_insn i =
     (case select_insn (insn_code i) of
        None \<Rightarrow> True
      | Some l \<Rightarrow> is_jump l \<longrightarrow> 0 \<le> sint (insn_off i))"

definition forward_prog :: "bpf_insn list \<Rightarrow> bool" where
  "forward_prog prog = list_all forward_insn prog"

lemma bpf_step_pc:
  assumes "bpf_step prog s = BCont s'" "forward_prog prog"
  shows "bpc s < bpc s'" "0 \<le> bpc s" "bpc s < int (length prog)"
proof -
  obtain i where i: "insn_at prog (bpc s) = Some i"
    using assms(1) by (auto simp: bpf_step_def split: option.splits)
  then show "0 \<le> bpc s" "bpc s < int (length prog)"
    by (auto simp: insn_at_def split: if_splits)
  have "i \<in> set prog"
    using i by (auto simp: insn_at_def split: if_splits)
  then have f: "forward_insn i"
    using assms(2) by (auto simp: forward_prog_def list_all_iff)
  obtain l where l: "select_insn (insn_code i) = Some l"
      "exec_label l i (insn_at prog (bpc s + 1)) s = BCont s'"
    using assms(1) i by (auto simp: bpf_step_def split: option.splits if_splits)
  show "bpc s < bpc s'"
    using exec_label_pc [OF l(2)] f l(1) by (auto simp: forward_insn_def)
qed

fun bpf_fuel :: "nat \<Rightarrow> bpf_insn list \<Rightarrow> bpf_state \<Rightarrow> bpf_res option" where
  "bpf_fuel 0 prog s = None"
| "bpf_fuel (Suc n) prog s =
     (case bpf_step prog s of BCont s' \<Rightarrow> bpf_fuel n prog s' | r \<Rightarrow> Some r)"

lemma bpf_fuel_loop: "bpf_fuel n prog s = Some r \<Longrightarrow> bpf_loop prog s = Some r"
proof (induction n arbitrary: s)
  case (Suc n)
  then show ?case
    by (subst bpf_loop.simps) (auto split: bpf_res.splits)
qed simp

lemma bpf_fuel_forward:
  assumes "forward_prog prog" "nat (int (length prog) - bpc s) < n"
  shows "\<exists>r. bpf_fuel n prog s = Some r"
  using assms(2)
proof (induction n arbitrary: s)
  case (Suc n)
  show ?case
  proof (cases "bpf_step prog s")
    case (BCont s')
    note pc = bpf_step_pc [OF BCont assms(1)]
    have "nat (int (length prog) - bpc s') < n"
      using Suc.prems pc by linarith
    from Suc.IH [OF this] BCont show ?thesis by simp
  qed auto
qed simp

section \<open>Results of 32-bit arithmetic\<close>

fun is_alu32 :: "label \<Rightarrow> bool" where
  "is_alu32 (L_ALU c op x) = (c = C_ALU)"
| "is_alu32 (L_NEG c) = (c = C_ALU)"
| "is_alu32 (L_MOV c x) = (c = C_ALU)"
| "is_alu32 (L_ARSH c x) = (c = C_ALU)"
| "is_alu32 (L_MOD c x) = (c = C_ALU)"
| "is_alu32 (L_DIV c x) = (c = C_ALU)"
| "is_alu32 _ = False"

lemma ucast32_less: "(ucast (v :: u32) :: u64) < 0x100000000"
proof -
  have "unat v < 2 ^ 32" using unsigned_less [of v, where ?'a = nat] by simp
  then show ?thesis by (simp add: word_less_nat_alt unsigned_ucast_eq take_bit_nat_eq_self)
qed

lemma exec_label_alu32:
  assumes "exec_label l i i1 s = BCont s'" "is_alu32 l"
  shows "DST i s' < 0x100000000"
  using assms
  by (cases l)
    (auto simp: exec_defs state_defs DST_def Let_def ucast32_less
      split: option.splits if_splits prod.splits)

section \<open>Memory\<close>

lemma atomic_add_dom: "atomic_add n a m = Some m' \<Longrightarrow> dom m' = dom m"
  by (cases "load_bytes 4 m a") (simp_all add: atomic_add_def store_bytes_dom)

lemma atomic64_add_dom: "atomic64_add n a m = Some m' \<Longrightarrow> dom m' = dom m"
  by (cases "load_bytes 8 m a") (simp_all add: atomic64_add_def store_bytes_dom)

lemma exec_label_mem:
  assumes "exec_label l i i1 s = BCont s'"
  shows "bmem s' = bmem s \<or>
         ((\<exists>z. l = L_STX_MEM z \<or> l = L_ST_MEM z) \<or> l = L_STX_XADD_W \<or> l = L_STX_XADD_DW) \<and>
         dom (bmem s') = dom (bmem s)"
proof (cases l)
  case (L_STX_MEM z)
  then show ?thesis using assms store_bytes_dom
    by (cases "store_bytes (size_bytes z) (SRC i s) (DST i s + OFF i) (bmem s)")
      (force simp: STX_MEM_def CONT_def)+
next
  case (L_ST_MEM z)
  then show ?thesis using assms store_bytes_dom
    by (cases "store_bytes (size_bytes z) (IMM i) (DST i s + OFF i) (bmem s)")
      (force simp: ST_MEM_def CONT_def)+
next
  case L_STX_XADD_W
  then show ?thesis using assms atomic_add_dom
    by (cases "atomic_add (ucast (SRC i s)) (DST i s + OFF i) (bmem s)")
      (force simp: STX_XADD_W_def CONT_def)+
next
  case L_STX_XADD_DW
  then show ?thesis using assms atomic64_add_dom
    by (cases "atomic64_add (SRC i s) (DST i s + OFF i) (bmem s)")
      (force simp: STX_XADD_DW_def CONT_def)+
qed (use assms in \<open>auto simp: exec_defs state_defs Let_def
      split: alu_class.splits jmp_class.splits option.splits if_splits prod.splits\<close>)

lemma bpf_step_cases:
  assumes "bpf_step prog s = BCont s'"
  obtains i l where "insn_at prog (bpc s) = Some i" "select_insn (insn_code i) = Some l"
    "regs_in_bounds l i" "exec_label l i (insn_at prog (bpc s + 1)) s = BCont s'"
  using assms by (auto simp: bpf_step_def split: option.splits if_splits)

lemma bpf_step_dom: "bpf_step prog s = BCont s' \<Longrightarrow> dom (bmem s') = dom (bmem s)"
  by (erule bpf_step_cases, drule exec_label_mem) auto

definition bpf_next :: "bpf_insn list \<Rightarrow> bpf_state \<Rightarrow> bpf_state \<Rightarrow> bool" where
  "bpf_next prog s s' = (bpf_step prog s = BCont s')"

section \<open>Byte swaps\<close>

definition byte_at :: "nat \<Rightarrow> 'a::len word \<Rightarrow> 'a word" where
  "byte_at k x = take_bit 8 (drop_bit (8 * k) x)"

lemma and_byte_mask: "x AND push_bit k (mask 8) = push_bit k (take_bit 8 (drop_bit k (x :: 'a::len word)))"
  by (rule bit_word_eqI) (auto simp: bit_simps)

lemma byte_masks16: "(0xff :: u16) = push_bit 0 (mask 8)" "(0xff00 :: u16) = push_bit 8 (mask 8)"
  by (simp_all add: mask_eq_exp_minus_1 push_bit_eq_mult)

lemma byte_masks32:
  "(0xff :: u32) = push_bit 0 (mask 8)" "(0xff00 :: u32) = push_bit 8 (mask 8)"
  "(0xff0000 :: u32) = push_bit 16 (mask 8)" "(0xff000000 :: u32) = push_bit 24 (mask 8)"
  by (simp_all add: mask_eq_exp_minus_1 push_bit_eq_mult)

lemma byte_masks64:
  "(0xff :: u64) = push_bit 0 (mask 8)" "(0xff00 :: u64) = push_bit 8 (mask 8)"
  "(0xff0000 :: u64) = push_bit 16 (mask 8)" "(0xff000000 :: u64) = push_bit 24 (mask 8)"
  "(0xff00000000 :: u64) = push_bit 32 (mask 8)" "(0xff0000000000 :: u64) = push_bit 40 (mask 8)"
  "(0xff000000000000 :: u64) = push_bit 48 (mask 8)" "(0xff00000000000000 :: u64) = push_bit 56 (mask 8)"
  by (simp_all add: mask_eq_exp_minus_1 push_bit_eq_mult)

lemma drop_push_byte:
  "k + 8 \<le> LENGTH('a) \<Longrightarrow> n \<le> k \<Longrightarrow>
   drop_bit n (push_bit k (take_bit 8 x)) = push_bit (k - n) (take_bit 8 (x :: 'a::len word))"
  by (rule bit_word_eqI) (auto simp: bit_simps add.commute)

lemma swab16_bytes: "swab16 x = push_bit 8 (byte_at 0 x) OR byte_at 1 x"
  unfolding swab16_def byte_masks16 and_byte_mask byte_at_def by (simp add: drop_push_byte)

lemma swab32_bytes:
  "swab32 x = push_bit 24 (byte_at 0 x) OR push_bit 16 (byte_at 1 x) OR push_bit 8 (byte_at 2 x) OR byte_at 3 x"
  unfolding swab32_def byte_masks32 and_byte_mask byte_at_def by (simp add: drop_push_byte)

lemma swab64_bytes:
  "swab64 x = push_bit 56 (byte_at 0 x) OR push_bit 48 (byte_at 1 x) OR push_bit 40 (byte_at 2 x) OR
     push_bit 32 (byte_at 3 x) OR push_bit 24 (byte_at 4 x) OR push_bit 16 (byte_at 5 x) OR
     push_bit 8 (byte_at 6 x) OR byte_at 7 x"
  unfolding swab64_def byte_masks64 and_byte_mask byte_at_def by (simp add: drop_push_byte)

section \<open>Runs\<close>

lemma exec_label_ret: "exec_label l i i1 s = BRet v \<Longrightarrow> l = L_EXIT \<and> v = bregs s 0"
  by (cases l)
    (auto simp: exec_defs state_defs Let_def
      split: alu_class.splits jmp_class.splits option.splits if_splits prod.splits)

lemma bpf_step_ret: "bpf_step prog s = BRet v \<Longrightarrow> v = bregs s 0"
  by (auto simp: bpf_step_def dest: exec_label_ret split: option.splits if_splits)

lemma bpf_loop_reaches:
  assumes "bpf_loop prog s = Some x"
  shows "\<exists>s'. (bpf_next prog)\<^sup>*\<^sup>* s s' \<and> bpf_step prog s' = x"
  using assms
proof (rule bpf_loop.raw_induct [rotated])
  fix loop prog s x
  assume ih: "\<And>p t y. loop p t = Some y \<Longrightarrow> \<exists>s'. (bpf_next p)\<^sup>*\<^sup>* t s' \<and> bpf_step p s' = y"
    and eq: "(case bpf_step prog s of BCont s' \<Rightarrow> loop prog s' | BRet v \<Rightarrow> Some (BRet v)
      | BBug \<Rightarrow> Some BBug | BUndef \<Rightarrow> Some BUndef) = Some x"
  show "\<exists>s'. (bpf_next prog)\<^sup>*\<^sup>* s s' \<and> bpf_step prog s' = x"
  proof (cases "bpf_step prog s")
    case (BCont s1)
    then have "loop prog s1 = Some x" using eq by simp
    then obtain s' where s': "(bpf_next prog)\<^sup>*\<^sup>* s1 s'" "bpf_step prog s' = x" using ih by blast
    have "bpf_next prog s s1" using BCont by (simp add: bpf_next_def)
    from converse_rtranclp_into_rtranclp [of "bpf_next prog", OF this s'(1)] s'(2) show ?thesis by blast
  qed (use eq in auto)
qed

end
