(* ===== verification/Jit_Rv64_Sim.thy ===== *)
theory Jit_Rv64_Sim
  imports Jit_Rv64_Imm Bpf_Run
begin

text \<open>
  The simulation between the BPF interpreter and the compiled code: registers and memory of the
  two machines agree, and the block of words the compiler emits for one BPF instruction takes
  related states to related states.
\<close>

unbundle bit_operations_syntax

section \<open>Related states\<close>

definition rv_reg :: "nat \<Rightarrow> regno" where
  "rv_reg k = ucast (regmap ! k)"

definition sim :: "bpf_state \<Rightarrow> rcpu \<Rightarrow> bool" where
  "sim b r = ((\<forall>k < 11. gpr_ref r (rv_reg k) = bregs b k) \<and> rmem r = bmem b)"

lemmas regmap_defs =
  regmap_def RV_REG_A5_def RV_REG_A0_def RV_REG_A1_def RV_REG_A2_def RV_REG_A3_def RV_REG_A4_def
  RV_REG_S1_def RV_REG_S2_def RV_REG_S3_def RV_REG_S4_def RV_REG_S5_def RV_REG_T0_def

lemma less_11: "(k :: nat) < 11 \<longleftrightarrow> k \<in> {0, 1, 2, 3, 4, 5, 6, 7, 8, 9, 10}"
  by (simp only: insert_iff empty_iff) arith

lemma regmap_reg:
  assumes "k < 11"
  shows "regmap ! k < 32" "0 < regmap ! k"
  using assms unfolding less_11 by (auto simp: regmap_defs)

lemma rv_reg_temp:
  assumes "k < 11"
  shows "rv_reg k \<noteq> 0" "rv_reg k \<noteq> 6" "rv_reg k \<noteq> 7"
  using assms unfolding less_11 by (auto simp: rv_reg_def regmap_defs)

lemma rv_reg_inj: "j < 11 \<Longrightarrow> k < 11 \<Longrightarrow> rv_reg j = rv_reg k \<longleftrightarrow> j = k"
  unfolding less_11 by (auto simp: rv_reg_def regmap_defs)

lemma temp_regs [simp]:
  "RV_REG_T1 < 32" "RV_REG_T2 < 32" "RV_REG_ZERO < 32" "0 < RV_REG_T1" "0 < RV_REG_T2"
  "(ucast RV_REG_T1 :: regno) = 6" "(ucast RV_REG_T2 :: regno) = 7" "(ucast RV_REG_ZERO :: regno) = 0"
  by (simp_all add: RV_REG_T1_def RV_REG_T2_def RV_REG_ZERO_def)

lemma sim_write:
  assumes "sim b r" "d < 11"
  shows "sim (set_reg d v b) (adv n (gpr_set r (rv_reg d) v))"
  using assms by (auto simp: sim_def set_reg_def rv_reg_inj rv_reg_temp)

lemma sim_temp:
  "sim b (adv n (gpr_set r 6 v)) \<longleftrightarrow> sim b r"
  "sim b (adv n (gpr_set r 7 v)) \<longleftrightarrow> sim b r"
  "sim b (gpr_set r 6 v) \<longleftrightarrow> sim b r"
  "sim b (gpr_set r 7 v) \<longleftrightarrow> sim b r"
  "sim b (adv n r) \<longleftrightarrow> sim b r"
  by (auto simp: sim_def rv_reg_temp)

lemma sim_pc [simp]: "sim (b\<lparr>bpc := p\<rparr>) r \<longleftrightarrow> sim b r"
  by (simp add: sim_def)

lemma sim_rpc [simp]: "sim b (r\<lparr>rpc := p\<rparr>) \<longleftrightarrow> sim b r"
  by (simp add: sim_def gpr_ref_def)

lemma sim_AX: "sim b r \<Longrightarrow> sim (set_reg BPF_REG_AX v b) r"
  by (simp add: sim_def set_reg_def BPF_REG_AX_def)

lemma sim_read: "sim b r \<Longrightarrow> k < 11 \<Longrightarrow> gpr_ref r (rv_reg k) = bregs b k"
  by (simp add: sim_def)

section \<open>Blocks\<close>

definition runs :: "u32 list \<Rightarrow> rcpu \<Rightarrow> bpf_state \<Rightarrow> bool" where
  "runs ws r b' =
     (\<exists>r'. exec_block ws r = Some r' \<and> rpc r' = rpc r + 4 * word_of_nat (length ws) \<and> sim b' r')"

lemma exec_emit_imm:
  assumes "rd < 32" "0 < rd"
  shows "exec_block (emit_imm rd v @ ws) r =
    exec_block ws (adv (length (emit_imm rd v)) (gpr_set r (ucast rd) v))"
  by (rule exec_block_append [OF emit_imm_exec [OF assms]]) simp

lemma zext_shifts: "drop_bit 32 (push_bit 32 (v :: u64)) = ucast (ucast v :: u32)"
  by (rule bit_word_eqI) (auto simp: bit_simps)

lemma exec_zext_32_only:
  assumes "reg < 32" "0 < reg"
  shows "exec_block (emit_zext_32 reg) r =
    Some (adv 2 (gpr_set r (ucast reg) (ucast (ucast (gpr_ref r (ucast reg)) :: u32))))"
  using assms by (simp add: emit_zext_32_def exec_shift_imm ucast5_nonzero zext_shifts) (simp add: numeral_2_eq_2)

lemma length_zext_32 [simp]: "length (emit_zext_32 reg) = 2"
  by (simp add: emit_zext_32_def)

lemma exec_zext_32:
  assumes "reg < 32" "0 < reg"
  shows "exec_block (emit_zext_32 reg @ ws) r =
    exec_block ws (adv 2 (gpr_set r (ucast reg) (ucast (ucast (gpr_ref r (ucast reg)) :: u32))))"
  by (rule exec_block_append [OF exec_zext_32_only [OF assms]]) simp

text \<open>A block that ends by writing the destination register with the interpreter's value.\<close>

definition writes :: "u32 list \<Rightarrow> rcpu \<Rightarrow> u8 \<Rightarrow> u64 \<Rightarrow> bool" where
  "writes ws r rd v =
     (\<exists>t1 t2. exec_block ws r =
        Some (adv (length ws) (gpr_set (gpr_set (gpr_set r 6 t1) 7 t2) (ucast rd) v)))"

lemma writes_runs:
  assumes "writes ws r (regmap ! d) v" "sim b r" "d < 11"
  shows "runs ws r (set_reg d v b)"
proof -
  obtain t1 t2 where "exec_block ws r =
      Some (adv (length ws) (gpr_set (gpr_set (gpr_set r 6 t1) 7 t2) (rv_reg d) v))"
    using assms(1) by (auto simp: writes_def rv_reg_def)
  moreover have "sim b (gpr_set (gpr_set r 6 t1) 7 t2)"
    using assms(2) by (simp add: sim_temp)
  ultimately show ?thesis
    using sim_write [OF _ assms(3)] by (auto simp: runs_def)
qed

lemma gpr_set_same: "gpr_set r k (gpr_ref r k) = r"
  by (simp add: gpr_set_def gpr_ref_def)

lemma gpr_set_swap: "j \<noteq> k \<Longrightarrow> gpr_set (gpr_set r j v) k w = gpr_set (gpr_set r k w) j v"
  by (auto simp: gpr_set_def fun_upd_twist)

lemma writes_direct:
  assumes "exec_block ws r = Some (adv (length ws) (gpr_set r (ucast rd) v))"
  shows "writes ws r rd v"
  unfolding writes_def
  by (rule exI [of _ "gpr_ref r 6"], rule exI [of _ "gpr_ref r 7"])
    (use assms in \<open>simp add: gpr_set_same\<close>)

lemma writes_t1:
  assumes "exec_block ws r = Some (adv (length ws) (gpr_set (gpr_set r 6 t1) (ucast rd) v))"
  shows "writes ws r rd v"
  unfolding writes_def
  by (rule exI [of _ t1], rule exI [of _ "gpr_ref r 7"])
    (use assms in \<open>simp add: gpr_set_same [of "gpr_set r 6 t1" 7, simplified]\<close>)

lemma writes_zext:
  assumes "writes ws r rd v" "rd < 32" "0 < rd"
  shows "writes (ws @ emit_zext_32 rd) r rd (ucast (ucast v :: u32))"
proof -
  obtain t1 t2 where w: "exec_block ws r =
      Some (adv (length ws) (gpr_set (gpr_set (gpr_set r 6 t1) 7 t2) (ucast rd) v))"
    using assms(1) by (auto simp: writes_def)
  have "exec_block (ws @ emit_zext_32 rd) r =
      exec_block (emit_zext_32 rd) (adv (length ws) (gpr_set (gpr_set (gpr_set r 6 t1) 7 t2) (ucast rd) v))"
    by (rule exec_block_append [OF w]) simp
  also have "\<dots> = Some (adv (length (ws @ emit_zext_32 rd))
      (gpr_set (gpr_set (gpr_set r 6 t1) 7 t2) (ucast rd) (ucast (ucast v :: u32))))"
    using assms by (simp add: exec_zext_32_only ucast5_nonzero)
  finally show ?thesis unfolding writes_def by blast
qed

section \<open>Register arithmetic\<close>

lemma exec_r64:
  assumes "rd < 32" "rs1 < 32" "rs2 < 32"
  shows
  "exec_word (rv_add rd rs1 rs2) r = Some (adv 1 (gpr_set r (ucast rd) (gpr_ref r (ucast rs1) + gpr_ref r (ucast rs2))))"
  "exec_word (rv_sub rd rs1 rs2) r = Some (adv 1 (gpr_set r (ucast rd) (gpr_ref r (ucast rs1) - gpr_ref r (ucast rs2))))"
  "exec_word (rv_and rd rs1 rs2) r = Some (adv 1 (gpr_set r (ucast rd) (gpr_ref r (ucast rs1) AND gpr_ref r (ucast rs2))))"
  "exec_word (rv_or rd rs1 rs2) r = Some (adv 1 (gpr_set r (ucast rd) (gpr_ref r (ucast rs1) OR gpr_ref r (ucast rs2))))"
  "exec_word (rv_xor rd rs1 rs2) r = Some (adv 1 (gpr_set r (ucast rd) (gpr_ref r (ucast rs1) XOR gpr_ref r (ucast rs2))))"
  "exec_word (rv_mul rd rs1 rs2) r = Some (adv 1 (gpr_set r (ucast rd) (gpr_ref r (ucast rs1) * gpr_ref r (ucast rs2))))"
  "exec_word (rv_sll rd rs1 rs2) r = Some (adv 1 (gpr_set r (ucast rd) (push_bit (shamt (gpr_ref r (ucast rs2))) (gpr_ref r (ucast rs1)))))"
  "exec_word (rv_srl rd rs1 rs2) r = Some (adv 1 (gpr_set r (ucast rd) (drop_bit (shamt (gpr_ref r (ucast rs2))) (gpr_ref r (ucast rs1)))))"
  "exec_word (rv_sra rd rs1 rs2) r = Some (adv 1 (gpr_set r (ucast rd) (signed_drop_bit (shamt (gpr_ref r (ucast rs2))) (gpr_ref r (ucast rs1)))))"
  "gpr_ref r (ucast rs2) \<noteq> 0 \<Longrightarrow>
   exec_word (rv_divu rd rs1 rs2) r = Some (adv 1 (gpr_set r (ucast rd) (gpr_ref r (ucast rs1) div gpr_ref r (ucast rs2))))"
  "gpr_ref r (ucast rs2) \<noteq> 0 \<Longrightarrow>
   exec_word (rv_remu rd rs1 rs2) r = Some (adv 1 (gpr_set r (ucast rd) (gpr_ref r (ucast rs1) mod gpr_ref r (ucast rs2))))"
  using assms by (simp_all add: exec_simps)

lemma exec_r32:
  fixes r :: rcpu
  assumes "rd < 32" "rs1 < 32" "rs2 < 32"
  defines "a \<equiv> ucast (gpr_ref r (ucast rs1)) :: u32" and "b \<equiv> ucast (gpr_ref r (ucast rs2)) :: u32"
  shows
  "exec_word (rv_addw rd rs1 rs2) r = Some (adv 1 (gpr_set r (ucast rd) (scast (a + b))))"
  "exec_word (rv_subw rd rs1 rs2) r = Some (adv 1 (gpr_set r (ucast rd) (scast (a - b))))"
  "exec_word (rv_mulw rd rs1 rs2) r = Some (adv 1 (gpr_set r (ucast rd) (scast (a * b))))"
  "exec_word (rv_sllw rd rs1 rs2) r = Some (adv 1 (gpr_set r (ucast rd) (scast (push_bit (shamt b) a))))"
  "exec_word (rv_srlw rd rs1 rs2) r = Some (adv 1 (gpr_set r (ucast rd) (scast (drop_bit (shamt b) a))))"
  "exec_word (rv_sraw rd rs1 rs2) r = Some (adv 1 (gpr_set r (ucast rd) (scast (signed_drop_bit (shamt b) a))))"
  "b \<noteq> 0 \<Longrightarrow> exec_word (rv_divuw rd rs1 rs2) r = Some (adv 1 (gpr_set r (ucast rd) (scast (a div b))))"
  "b \<noteq> 0 \<Longrightarrow> exec_word (rv_remuw rd rs1 rs2) r = Some (adv 1 (gpr_set r (ucast rd) (scast (a mod b))))"
  using assms by (simp_all add: exec_simps binw_def)

lemma exec_singleton: "exec_block [w] r = exec_word w r"
  by (simp split: option.splits)

lemma writes_word:
  assumes "exec_word w r = Some (adv 1 (gpr_set r (ucast rd) v))"
  shows "writes [w] r rd v"
  by (rule writes_direct) (use assms in simp)

lemma shamt32: "(v :: u32) < 32 \<Longrightarrow> shamt v = unat v"
proof -
  assume a: "v < 32"
  have "word_of_nat (LENGTH(32) - 1) AND v = take_bit 5 v"
    by (simp add: take_bit_eq_mask mask_eq_exp_minus_1 and.commute)
  then have "shamt v = unat (take_bit 5 v)"
    by (simp add: shamt_def)
  also have "take_bit 5 v = v"
    using a by (simp add: take_bit_small)
  finally show "shamt v = unat v" .
qed

lemma shamt64_less: "(v :: u64) < 64 \<Longrightarrow> shamt v = unat v"
  by (rule shamt64) (simp add: word_less_nat_alt)

lemma emit_alu_x_64:
  assumes "rd < 32" "0 < rd" "rs < 32" "alu64 op (gpr_ref r (ucast rd)) (gpr_ref r (ucast rs)) = Some v"
  shows "writes (emit_alu_x op True rd rs) r rd v"
  using assms
  by (cases op) (auto intro!: writes_word simp: exec_r64 shamt64_less split: if_splits)

lemma ucast_ucast32 [simp]: "(ucast (ucast (v :: u32) :: u64) :: u32) = v"
  by (rule bit_word_eqI) (auto simp: bit_simps)

lemma ucast32_bits:
  "(ucast (a AND b :: u64) :: u32) = ucast a AND ucast b"
  "(ucast (a OR b :: u64) :: u32) = ucast a OR ucast b"
  "(ucast (a XOR b :: u64) :: u32) = ucast a XOR ucast b"
  by (simp_all add: unsigned_and_eq unsigned_or_eq unsigned_xor_eq)

fun alu_x32 :: "alu_op \<Rightarrow> u64 \<Rightarrow> u64 \<Rightarrow> u32 \<Rightarrow> u64" where
  "alu_x32 OpAND a b v = a AND b"
| "alu_x32 OpOR a b v = a OR b"
| "alu_x32 OpXOR a b v = a XOR b"
| "alu_x32 OpMUL a b v = ucast v"
| "alu_x32 _ a b v = scast v"

text \<open>What the emitted code leaves in the destination of a 32-bit operation on registers.\<close>

lemma emit_alu_x_32:
  assumes "rd < 32" "0 < rd" "rs < 32"
    "alu32 op (ucast (gpr_ref r (ucast rd))) (ucast (gpr_ref r (ucast rs))) = Some v"
  shows "writes (emit_alu_x op False rd rs) r rd (alu_x32 op (gpr_ref r (ucast rd)) (gpr_ref r (ucast rs)) v)"
proof (cases "op = OpMUL")
  case True
  have "writes [rv_mulw rd rd rs] r rd (scast v)"
    using assms True by (auto intro!: writes_word simp: exec_r32)
  from writes_zext [OF this assms(1,2)] True show ?thesis by simp
next
  case False
  then show ?thesis
    using assms
    by (cases op) (auto intro!: writes_word simp: exec_r32 exec_r64 shamt32 split: if_splits)
qed

lemma alu_x32_low:
  assumes "alu32 op (ucast a) (ucast b) = Some v"
  shows "ucast (alu_x32 op a b v) = v"
  using assms by (cases op) (auto simp: ucast32_bits)

lemma emit_mov_x_64:
  assumes "rd < 32" "rs < 32"
  shows "writes (emit_mov_x True rd rs) r rd (gpr_ref r (ucast rs))"
  unfolding emit_mov_x_def using assms by (auto intro!: writes_word simp: exec_addi)

lemma emit_mov_x_32:
  assumes "rd < 32" "0 < rd" "rs < 32"
  shows "writes (emit_mov_x False rd rs) r rd (ucast (ucast (gpr_ref r (ucast rs)) :: u32))"
proof -
  have "writes [rv_addiw rd rs 0] r rd (scast (ucast (gpr_ref r (ucast rs)) :: u32))"
    using assms by (auto intro!: writes_word simp: exec_addi)
  from writes_zext [OF this assms(1,2)] show ?thesis by (simp add: emit_mov_x_def)
qed

lemma emit_div_mod_x_64:
  assumes "rd < 32" "rs < 32" "gpr_ref r (ucast rs) \<noteq> 0"
  shows "writes (emit_div_x True rd rs) r rd (gpr_ref r (ucast rd) div gpr_ref r (ucast rs))"
    "writes (emit_mod_x True rd rs) r rd (gpr_ref r (ucast rd) mod gpr_ref r (ucast rs))"
  unfolding emit_div_x_def emit_mod_x_def using assms by (auto intro!: writes_word simp: exec_r64)

lemma emit_div_mod_x_32:
  fixes r :: rcpu
  assumes "rd < 32" "0 < rd" "rs < 32" "(ucast (gpr_ref r (ucast rs)) :: u32) \<noteq> 0"
  defines "a \<equiv> ucast (gpr_ref r (ucast rd)) :: u32" and "b \<equiv> ucast (gpr_ref r (ucast rs)) :: u32"
  shows "writes (emit_div_x False rd rs) r rd (ucast (a div b))"
    "writes (emit_mod_x False rd rs) r rd (ucast (a mod b))"
proof -
  have "writes [rv_divuw rd rd rs] r rd (scast (a div b))" "writes [rv_remuw rd rd rs] r rd (scast (a mod b))"
    using assms by (auto intro!: writes_word simp: exec_r32)
  from this [THEN writes_zext [OF _ assms(1,2)]]
  show "writes (emit_div_x False rd rs) r rd (ucast (a div b))"
    "writes (emit_mod_x False rd rs) r rd (ucast (a mod b))"
    by (simp_all add: emit_div_x_def emit_mod_x_def)
qed

lemma emit_arsh_x_64:
  assumes "rd < 32" "rs < 32" "gpr_ref r (ucast rs) < 64"
  shows "writes (emit_arsh_x True rd rs) r rd (signed_drop_bit (unat (gpr_ref r (ucast rs))) (gpr_ref r (ucast rd)))"
  unfolding emit_arsh_x_def using assms by (auto intro!: writes_word simp: exec_r64 shamt64_less)

lemma ucast32_small:
  assumes "(n :: u64) < 32"
  shows "(ucast n :: u32) < 32" "unat (ucast n :: u32) = unat n"
  using assms by (simp_all add: word_less_nat_alt unsigned_ucast_eq take_bit_nat_eq_self)

lemma emit_arsh_x_32:
  assumes "rd < 32" "rs < 32" "gpr_ref r (ucast rs) < 32"
  shows "writes (emit_arsh_x False rd rs) r rd
    (scast (signed_drop_bit (unat (gpr_ref r (ucast rs))) (ucast (gpr_ref r (ucast rd)) :: u32)))"
  unfolding emit_arsh_x_def
  using assms ucast32_small [OF assms(3)] by (auto intro!: writes_word simp: exec_r32 shamt32)

lemma emit_neg_64: "rd < 32 \<Longrightarrow> writes (emit_neg True rd) r rd (- gpr_ref r (ucast rd))"
  unfolding emit_neg_def by (auto intro!: writes_word simp: exec_r64)

lemma emit_neg_32: "rd < 32 \<Longrightarrow> writes (emit_neg False rd) r rd (scast (- ucast (gpr_ref r (ucast rd)) :: u32))"
  unfolding emit_neg_def by (auto intro!: writes_word simp: exec_r32)

section \<open>Byte order\<close>

lemma emit_from_le_ok:
  assumes "rd < 32" "0 < rd"
  shows "writes (emit_from_le rd 16) r rd (ucast (ucast (gpr_ref r (ucast rd)) :: u16))"
    "writes (emit_from_le rd 32) r rd (ucast (ucast (gpr_ref r (ucast rd)) :: u32))"
    "writes (emit_from_le rd 64) r rd (gpr_ref r (ucast rd))"
proof -
  have z: "drop_bit 48 (push_bit 48 v) = ucast (ucast v :: u16)" for v :: u64
    by (rule bit_word_eqI) (auto simp: bit_simps)
  show "writes (emit_from_le rd 16) r rd (ucast (ucast (gpr_ref r (ucast rd)) :: u16))"
    "writes (emit_from_le rd 32) r rd (ucast (ucast (gpr_ref r (ucast rd)) :: u32))"
    "writes (emit_from_le rd 64) r rd (gpr_ref r (ucast rd))"
    unfolding emit_from_le_def using assms
    by (auto intro!: writes_direct simp: exec_shift_imm ucast5_nonzero z zext_shifts gpr_set_same)
qed

lemma exec_logic_imm:
  assumes "rd < 32" "rs < 32"
  shows
  "exec_word (rv_andi rd rs imm) r = Some (adv 1 (gpr_set r (ucast rd) (gpr_ref r (ucast rs) AND scast (ucast imm :: 12 word))))"
  "exec_word (rv_ori rd rs imm) r = Some (adv 1 (gpr_set r (ucast rd) (gpr_ref r (ucast rs) OR scast (ucast imm :: 12 word))))"
  "exec_word (rv_xori rd rs imm) r = Some (adv 1 (gpr_set r (ucast rd) (gpr_ref r (ucast rs) XOR scast (ucast imm :: 12 word))))"
  using assms by (simp_all add: exec_simps)

lemma and_ff: "(x :: u64) AND 0xff = take_bit 8 x"
  by (simp add: take_bit_eq_mask mask_eq_exp_minus_1)

definition be_state :: "rcpu \<Rightarrow> u8 \<Rightarrow> u64 \<Rightarrow> u64 \<Rightarrow> u64 \<Rightarrow> rcpu" where
  "be_state r rd t1 t2 v = gpr_set (gpr_set (gpr_set r 6 t1) 7 t2) (ucast rd) v"

definition be_reg :: "u8 \<Rightarrow> bool" where
  "be_reg rd = (rd < 32 \<and> 0 < rd \<and> (ucast rd :: regno) \<noteq> 6 \<and> (ucast rd :: regno) \<noteq> 7)"

lemma be_state_regs:
  assumes "be_reg rd"
  shows "gpr_ref (be_state r rd t1 t2 v) (ucast rd) = v" "gpr_ref (be_state r rd t1 t2 v) 6 = t1"
    "gpr_ref (be_state r rd t1 t2 v) 7 = t2"
    "gpr_set (be_state r rd t1 t2 v) (ucast rd) v' = be_state r rd t1 t2 v'"
    "gpr_set (be_state r rd t1 t2 v) 6 t1' = be_state r rd t1' t2 v"
    "gpr_set (be_state r rd t1 t2 v) 7 t2' = be_state r rd t1 t2' v"
    "rpc (be_state r rd t1 t2 v) = rpc r"
proof -
  have n: "(ucast rd :: regno) \<noteq> 0" "(ucast rd :: regno) \<noteq> 6" "(ucast rd :: regno) \<noteq> 7"
    using assms ucast5_nonzero by (auto simp: be_reg_def)
  then show "gpr_ref (be_state r rd t1 t2 v) (ucast rd) = v" "gpr_ref (be_state r rd t1 t2 v) 6 = t1"
    "gpr_ref (be_state r rd t1 t2 v) 7 = t2"
    "gpr_set (be_state r rd t1 t2 v) (ucast rd) v' = be_state r rd t1 t2 v'"
    "rpc (be_state r rd t1 t2 v) = rpc r"
    by (simp_all add: be_state_def)
  show "gpr_set (be_state r rd t1 t2 v) 6 t1' = be_state r rd t1' t2 v"
    "gpr_set (be_state r rd t1 t2 v) 7 t2' = be_state r rd t1 t2' v"
    using n by (simp_all add: be_state_def gpr_set_swap [of "ucast rd"] gpr_set_swap [of 7 6])
qed

lemma exec_be_round:
  assumes "be_reg rd"
  shows "exec_block (be_round rd @ ws) (adv n (be_state r rd t1 t2 v)) =
    exec_block ws (adv (n + 4) (be_state r rd (take_bit 8 v) (push_bit 8 (t2 + take_bit 8 v)) (drop_bit 8 v)))"
proof -
  have "rd < 32" using assms by (simp add: be_reg_def)
  have "exec_block (be_round rd) (adv n (be_state r rd t1 t2 v)) =
      Some (adv (n + 4) (be_state r rd (take_bit 8 v) (push_bit 8 (t2 + take_bit 8 v)) (drop_bit 8 v)))"
    using \<open>rd < 32\<close>
    by (simp add: be_round_def exec_logic_imm exec_r64 exec_shift_imm be_state_regs [OF assms] and_ff)
      (simp add: numeral_eq_Suc)
  moreover have "length (be_round rd) = 4" by (simp add: be_round_def)
  ultimately show ?thesis
    using exec_block_append [of "be_round rd"] by (simp add: be_state_regs [OF assms] algebra_simps)
qed

lemma exec_be_tail:
  assumes "be_reg rd"
  shows "exec_block [rv_andi RV_REG_T1 rd 0xff, rv_add RV_REG_T2 RV_REG_T2 RV_REG_T1, rv_addi rd RV_REG_T2 0]
      (adv n (be_state r rd t1 t2 v)) =
    Some (adv (n + 3) (be_state r rd (take_bit 8 v) (t2 + take_bit 8 v) (t2 + take_bit 8 v)))"
proof -
  have "rd < 32" using assms by (simp add: be_reg_def)
  then show ?thesis
    by (simp add: exec_logic_imm exec_r64 exec_addi be_state_regs [OF assms] and_ff) (simp add: numeral_eq_Suc)
qed

lemma exec_be_head:
  assumes "be_reg rd"
  shows "exec_block ([rv_addi RV_REG_T2 RV_REG_ZERO 0] @ ws) r =
    exec_block ws (adv 1 (be_state r rd (gpr_ref r 6) 0 (gpr_ref r (ucast rd))))"
proof -
  have "be_state r rd (gpr_ref r 6) 0 (gpr_ref r (ucast rd)) = gpr_set r 7 0"
  proof -
    have "(ucast rd :: regno) \<noteq> 7" using assms by (simp add: be_reg_def)
    then have "gpr_ref (gpr_set r 7 0) (ucast rd) = gpr_ref r (ucast rd)" by simp
    then show ?thesis
      using gpr_set_same [of "gpr_set r 7 0" "ucast rd"] by (simp add: be_state_def gpr_set_same)
  qed
  then show ?thesis by (auto simp: exec_addi)
qed

lemma plus_byte: "push_bit 8 x + take_bit 8 y = push_bit 8 x OR take_bit 8 (y :: u64)"
  by (rule disjunctive_add) (auto simp: bit_simps)

lemma swab_bytes_u64:
  "(ucast (push_bit 8 (byte_at 0 (ucast a :: u16)) :: u16) :: u64) = push_bit 8 (take_bit 8 a)"
  "(ucast (byte_at (Suc 0) (ucast a :: u16)) :: u64) = take_bit 8 (drop_bit 8 a)"
  "(ucast (push_bit 24 (byte_at 0 (ucast a :: u32)) :: u32) :: u64) = push_bit 24 (take_bit 8 a)"
  "(ucast (push_bit 16 (byte_at (Suc 0) (ucast a :: u32)) :: u32) :: u64) = push_bit 16 (take_bit 8 (drop_bit 8 a))"
  "(ucast (push_bit 8 (byte_at 2 (ucast a :: u32)) :: u32) :: u64) = push_bit 8 (take_bit 8 (drop_bit 16 a))"
  "(ucast (byte_at 3 (ucast a :: u32)) :: u64) = take_bit 8 (drop_bit 24 (a :: u64))"
  by (rule bit_word_eqI; auto simp: byte_at_def bit_simps)+

lemma be_value_16: "push_bit 8 (take_bit 8 a) + take_bit 8 (drop_bit 8 a) = (ucast (swab16 (ucast (a :: u64))) :: u64)"
  by (simp add: swab16_bytes unsigned_or_eq swab_bytes_u64 plus_byte)

lemma be_value_32:
  "push_bit 8 (push_bit 8 (push_bit 8 (take_bit 8 a) + take_bit 8 (drop_bit 8 a)) + take_bit 8 (drop_bit 16 a)) +
     take_bit 8 (drop_bit 24 a) = (ucast (swab32 (ucast (a :: u64))) :: u64)"
  unfolding plus_byte by (simp add: swab32_bytes unsigned_or_eq swab_bytes_u64 push_bit_or or.assoc)

lemma be_value_64:
  "push_bit 8 (push_bit 8 (push_bit 8 (push_bit 8 (push_bit 8 (push_bit 8 (push_bit 8 (take_bit 8 a) +
     take_bit 8 (drop_bit 8 a)) + take_bit 8 (drop_bit 16 a)) + take_bit 8 (drop_bit 24 a)) +
     take_bit 8 (drop_bit 32 a)) + take_bit 8 (drop_bit 40 a)) + take_bit 8 (drop_bit 48 a)) +
     take_bit 8 (drop_bit 56 a) = swab64 a"
  unfolding plus_byte by (simp add: swab64_bytes byte_at_def push_bit_or or.assoc)

lemma writes_be:
  "exec_block ws r = Some (adv (length ws) (be_state r rd t1 t2 v)) \<Longrightarrow> writes ws r rd v"
  by (auto simp: writes_def be_state_def)

lemma emit_from_be_ok:
  assumes "be_reg rd"
  shows "writes (emit_from_be rd 16) r rd (ucast (swab16 (ucast (gpr_ref r (ucast rd)))))"
    "writes (emit_from_be rd 32) r rd (ucast (swab32 (ucast (gpr_ref r (ucast rd)))))"
    "writes (emit_from_be rd 64) r rd (swab64 (gpr_ref r (ucast rd)))"
proof -
  have l: "length (be_round rd) = 4" by (simp add: be_round_def)
  note ex = exec_be_head [OF assms] exec_be_round [OF assms] exec_be_tail [OF assms] append_assoc
  show "writes (emit_from_be rd 16) r rd (ucast (swab16 (ucast (gpr_ref r (ucast rd)))))"
    unfolding emit_from_be_def by (rule writes_be) (simp add: ex append.append_Nil l be_value_16 del: append_Cons exec_block.simps)
  show "writes (emit_from_be rd 32) r rd (ucast (swab32 (ucast (gpr_ref r (ucast rd)))))"
    unfolding emit_from_be_def by (rule writes_be) (simp add: ex l be_value_32 del: append_Cons exec_block.simps)
  show "writes (emit_from_be rd 64) r rd (swab64 (gpr_ref r (ucast rd)))"
    unfolding emit_from_be_def by (rule writes_be) (simp add: ex l be_value_64 del: append_Cons exec_block.simps)
qed

section \<open>Immediate arithmetic\<close>

lemma is_12b_int_iff: "is_12b_int val \<longleftrightarrow> - (2 ^ 11) \<le> sint val \<and> sint val < 2 ^ 11"
  by (simp add: is_12b_int_def word_sle_eq word_sless_alt)

lemma sext12_self: "is_12b_int v \<Longrightarrow> (scast (ucast v :: 12 word) :: u64) = v"
proof -
  assume v: "is_12b_int v"
  have "sint (scast (ucast v :: 12 word) :: u64) = signed_take_bit 11 (sint v)"
    by transfer (simp add: signed_take_bit_take_bit)
  also have "\<dots> = sint v"
    using v by (simp add: signed_take_bit_int_eq_self is_12b_int_iff)
  finally show ?thesis by (simp add: signed_word_eqI)
qed

lemma imm12_field: "(ucast (ucast (imm :: u32) :: u16) :: 12 word) = ucast (scast imm :: u64)"
  by (rule bit_word_eqI) (auto simp: bit_simps)

lemma off12_field: "(ucast (off :: u16) :: 12 word) = ucast (scast off :: u64)"
  by (rule bit_word_eqI) (auto simp: bit_simps)

lemma scast12_u32: "(scast (w :: 12 word) :: u32) = ucast (scast w :: u64)"
  by (rule bit_word_eqI) (auto simp: bit_simps)

lemma imm12:
  assumes "is_12b_int (scast (imm :: u32))"
  shows "(scast (ucast (ucast imm :: u16) :: 12 word) :: u64) = scast imm"
    "(scast (ucast (ucast imm :: u16) :: 12 word) :: u32) = imm"
  using sext12_self [OF assms] by (simp_all add: imm12_field scast12_u32)

lemma neg_imm12:
  assumes "is_12b_int (scast (- imm :: u32))"
  shows "(scast (- imm) :: u64) = - scast imm"
proof -
  define w where "w = (scast (- imm) :: u64)"
  have w: "- 2048 \<le> sint w" "sint w < 2048"
    using assms by (simp_all add: is_12b_int_iff w_def)
  have "sint (- w) = - sint w"
    using w by (simp add: sint_word_ariths signed_take_bit_int_eq_self)
  then have "is_32b_int (- w)"
    using w by (simp add: is_32b_int_iff)
  then have "(scast (ucast (- w) :: u32) :: u64) = - w" by (simp add: sext32_word)
  moreover have "(ucast (- w) :: u32) = imm"
    by (simp add: ucast32_arith w_def)
  ultimately show ?thesis by (simp add: w_def)
qed

lemma writes_imm_word:
  assumes "exec_word w (adv (length (emit_imm RV_REG_T1 c)) (gpr_set r 6 c)) =
      Some (adv (length (emit_imm RV_REG_T1 c) + 1) (gpr_set (gpr_set r 6 c) (ucast rd) v))"
  shows "writes (emit_imm RV_REG_T1 c @ [w]) r rd v"
  by (rule writes_t1) (use assms in \<open>simp add: exec_emit_imm\<close>)

lemma shift_imm:
  assumes "(scast (imm :: u32) :: u64) < 64"
  shows "(ucast imm :: u16) < 64" "unat (ucast imm :: u16) = unat (scast imm :: u64)" "unat imm = unat (scast imm :: u64)"
proof -
  have "scast imm = (word_of_nat (unat (scast imm :: u64)) :: u64)" by simp
  moreover have "unat (scast imm :: u64) < 64" using assms by (simp add: word_less_nat_alt)
  ultimately obtain n where n: "scast imm = (word_of_nat n :: u64)" "n < 64" by blast
  have "imm = ucast (scast imm :: u64)" by simp
  also have "\<dots> = word_of_nat n"
    unfolding n(1) using n(2) by (simp add: unsigned_of_nat take_bit_nat_eq_self)
  finally have i: "imm = word_of_nat n" .
  have c: "(ucast imm :: u16) = word_of_nat n"
    unfolding i using n(2) by (simp add: unsigned_of_nat take_bit_nat_eq_self)
  show "(ucast imm :: u16) < 64" "unat (ucast imm :: u16) = unat (scast imm :: u64)"
    unfolding c n(1) using n(2) by (simp_all add: word_less_nat_alt unsigned_of_nat take_bit_nat_eq_self)
  show "unat imm = unat (scast imm :: u64)"
    unfolding n(1) unfolding i using n(2) by (simp add: unsigned_of_nat take_bit_nat_eq_self)
qed

definition temp_free :: "u8 \<Rightarrow> bool" where
  "temp_free rd = (rd < 32 \<and> 0 < rd \<and> (ucast rd :: regno) \<noteq> 6)"

lemma emit_alu_k_64:
  assumes "temp_free rd" "alu64 op (gpr_ref r (ucast rd)) (scast imm) = Some v"
  shows "writes (emit_alu_k op True rd imm) r rd v"
proof -
  have rd: "rd < 32" "0 < rd" "(ucast rd :: regno) \<noteq> 6" using assms(1) by (simp_all add: temp_free_def)
  have six: "gpr_ref (gpr_set r 6 t) (ucast rd) = gpr_ref r (ucast rd)" for t
    using rd(3) by simp
  note ex = exec_addi exec_logic_imm exec_r64 exec_shift_imm six
  show ?thesis
    using assms(2) rd
    by (cases op) (auto intro!: writes_word writes_imm_word simp: ex imm12 neg_imm12 shift_imm split: if_splits)
qed

lemma imm_small32:
  assumes "(imm :: u16) < 32"
  shows "(ucast imm :: 12 word) < 32" "shamt (scast (ucast imm :: 12 word) AND 31 :: u32) = unat imm"
proof -
  have lt: "unat imm < 32" using assms by (simp add: word_less_nat_alt)
  then have "imm < 64" by (simp add: word_less_nat_alt)
  note s = imm_small [OF this]
  have "unat (scast (ucast imm :: 12 word) :: u32) = unat imm"
    unfolding scast12_u32 using s(2) lt by (simp add: unsigned_ucast_eq take_bit_nat_eq_self)
  then have l: "(scast (ucast imm :: 12 word) :: u32) < 32" "unat (scast (ucast imm :: 12 word) :: u32) = unat imm"
    using lt by (simp_all add: word_less_nat_alt)
  have "(31 :: u32) = mask 5" by (simp add: mask_eq_exp_minus_1)
  then have "(scast (ucast imm :: 12 word) AND 31 :: u32) = scast (ucast imm :: 12 word)"
    using take_bit_small [of "scast (ucast imm :: 12 word) :: u32" 5] l(1) by (simp add: take_bit_eq_mask)
  then show "shamt (scast (ucast imm :: 12 word) AND 31 :: u32) = unat imm"
    using shamt32 [OF l(1)] l(2) by simp
  have "unat (ucast imm :: 12 word) = unat imm"
    using lt by (simp add: unsigned_ucast_eq take_bit_nat_eq_self)
  then show "(ucast imm :: 12 word) < 32" using lt by (simp add: word_less_nat_alt)
qed

lemma exec_shiftiw:
  assumes "rd < 32" "rs < 32" "imm < 32"
  shows
  "exec_word (rv_slliw rd rs imm) r = Some (adv 1 (gpr_set r (ucast rd) (scast (push_bit (unat imm) (ucast (gpr_ref r (ucast rs)) :: u32)))))"
  "exec_word (rv_srliw rd rs imm) r = Some (adv 1 (gpr_set r (ucast rd) (scast (drop_bit (unat imm) (ucast (gpr_ref r (ucast rs)) :: u32)))))"
  "exec_word (rv_sraiw rd rs imm) r = Some (adv 1 (gpr_set r (ucast rd) (scast (signed_drop_bit (unat imm) (ucast (gpr_ref r (ucast rs)) :: u32)))))"
  using assms by (simp_all add: exec_simps imm_small32 shiftiw_def)

lemma shift_imm32:
  assumes "(imm :: u32) < 32"
  shows "(ucast imm :: u16) < 32" "unat (ucast imm :: u16) = unat imm"
  using assms by (simp_all add: word_less_nat_alt unsigned_ucast_eq take_bit_nat_eq_self)

lemma emit_alu_k_32:
  assumes "temp_free rd" "alu32 op (ucast (gpr_ref r (ucast rd))) imm = Some v" "op \<noteq> OpLSH" "op \<noteq> OpRSH"
  shows "writes (emit_alu_k op False rd imm) r rd (ucast v)"
proof -
  have rd: "rd < 32" "0 < rd" "(ucast rd :: regno) \<noteq> 6" using assms(1) by (simp_all add: temp_free_def)
  have six: "gpr_ref (gpr_set r 6 t) (ucast rd) = gpr_ref r (ucast rd)" for t
    using rd(3) by simp
  note ex = exec_addi exec_logic_imm exec_r64 exec_r32 six
  have z: "writes (ws @ emit_zext_32 rd) r rd (ucast v)" if "writes ws r rd w" "ucast w = v" for ws w
    using writes_zext [OF that(1) rd(1,2)] that(2) by simp
  have b: "(ucast (gpr_ref r (ucast rd) AND scast imm) :: u32) = ucast (gpr_ref r (ucast rd)) AND imm"
    "(ucast (gpr_ref r (ucast rd) OR scast imm) :: u32) = ucast (gpr_ref r (ucast rd)) OR imm"
    "(ucast (gpr_ref r (ucast rd) XOR scast imm) :: u32) = ucast (gpr_ref r (ucast rd)) XOR imm"
    by (simp_all add: ucast32_bits)
  have n: "(scast (ucast (ucast (- imm) :: u16) :: 12 word) :: u32) = - imm" if "is_12b_int (scast (- imm))"
    using imm12(2) [OF that] .
  show ?thesis
  proof (cases op)
    case OpADD
    show ?thesis
      by (cases "is_12b_int (scast imm)"; simp only: OpADD emit_alu_k.simps if_True if_False not_False_eq_True;
          rule z [where w = "scast v"])
        (use assms(2) rd OpADD in \<open>auto intro!: writes_word writes_imm_word simp: ex imm12\<close>)
  next
    case OpSUB
    show ?thesis
      by (cases "is_12b_int (scast (- imm))"; simp only: OpSUB emit_alu_k.simps if_True if_False not_False_eq_True;
          rule z [where w = "scast v"])
        (use assms(2) rd OpSUB in \<open>auto intro!: writes_word writes_imm_word simp: ex n\<close>)
  next
    case OpMUL
    have "writes (emit_imm RV_REG_T1 (scast imm) @ [rv_mulw rd rd RV_REG_T1]) r rd (scast v)"
      using assms(2) rd OpMUL by (auto intro!: writes_imm_word simp: ex)
    from z [OF this] OpMUL show ?thesis by simp
  next
    case OpAND
    show ?thesis
      by (cases "is_12b_int (scast imm)"; simp only: OpAND emit_alu_k.simps if_True if_False not_False_eq_True;
          rule z [where w = "gpr_ref r (ucast rd) AND scast imm"])
        (use assms(2) rd OpAND b in \<open>auto intro!: writes_word writes_imm_word simp: ex imm12\<close>)
  next
    case OpOR
    show ?thesis
      by (cases "is_12b_int (scast imm)"; simp only: OpOR emit_alu_k.simps if_True if_False not_False_eq_True;
          rule z [where w = "gpr_ref r (ucast rd) OR scast imm"])
        (use assms(2) rd OpOR b in \<open>auto intro!: writes_word writes_imm_word simp: ex imm12\<close>)
  next
    case OpXOR
    show ?thesis
      by (cases "is_12b_int (scast imm)"; simp only: OpXOR emit_alu_k.simps if_True if_False not_False_eq_True;
          rule z [where w = "gpr_ref r (ucast rd) XOR scast imm"])
        (use assms(2) rd OpXOR b in \<open>auto intro!: writes_word writes_imm_word simp: ex imm12\<close>)
  qed (use assms(3,4) in simp_all)
qed

lemma emit_shift_k_32:
  assumes "rd < 32" "alu32 op (ucast (gpr_ref r (ucast rd))) imm = Some v" "op = OpLSH \<or> op = OpRSH"
  shows "writes (emit_alu_k op False rd imm) r rd (scast v)"
  using assms by (auto intro!: writes_word simp: exec_shiftiw shift_imm32 split: if_splits)

lemma emit_imm_writes:
  assumes "rd < 32" "0 < rd"
  shows "writes (emit_imm rd v) r rd v"
  by (rule writes_direct) (rule emit_imm_exec [OF assms])

lemma emit_mov_k_64: "rd < 32 \<Longrightarrow> 0 < rd \<Longrightarrow> writes (emit_mov_k True rd imm) r rd (scast imm)"
  by (simp add: emit_mov_k_def emit_imm_writes)

lemma emit_mov_k_32: "rd < 32 \<Longrightarrow> 0 < rd \<Longrightarrow> writes (emit_mov_k False rd imm) r rd (ucast imm)"
  using writes_zext [OF emit_imm_writes [of rd "scast imm" r]] by (simp add: emit_mov_k_def)

lemma emit_div_mod_k_64:
  assumes "temp_free rd" "(scast imm :: u64) \<noteq> 0"
  shows "writes (emit_div_k True rd imm) r rd (gpr_ref r (ucast rd) div scast imm)"
    "writes (emit_mod_k True rd imm) r rd (gpr_ref r (ucast rd) mod scast imm)"
  using assms
  by (auto intro!: writes_imm_word simp: emit_div_k_def emit_mod_k_def exec_r64 temp_free_def)

lemma emit_div_mod_k_32:
  fixes r :: rcpu
  assumes "temp_free rd" "imm \<noteq> 0"
  defines "a \<equiv> ucast (gpr_ref r (ucast rd)) :: u32"
  shows "writes (emit_div_k False rd imm) r rd (ucast (a div imm))"
    "writes (emit_mod_k False rd imm) r rd (ucast (a mod imm))"
proof -
  have rd: "rd < 32" "0 < rd" "(ucast rd :: regno) \<noteq> 6" using assms(1) by (simp_all add: temp_free_def)
  have "writes (emit_imm RV_REG_T1 (scast imm) @ [rv_divuw rd rd RV_REG_T1]) r rd (scast (a div imm))"
    "writes (emit_imm RV_REG_T1 (scast imm) @ [rv_remuw rd rd RV_REG_T1]) r rd (scast (a mod imm))"
    using assms rd by (auto intro!: writes_imm_word simp: exec_r32)
  from this [THEN writes_zext [OF _ rd(1,2)]]
  show "writes (emit_div_k False rd imm) r rd (ucast (a div imm))"
    "writes (emit_mod_k False rd imm) r rd (ucast (a mod imm))"
    by (simp_all add: emit_div_k_def emit_mod_k_def)
qed

lemma emit_arsh_k_64:
  assumes "rd < 32" "(scast imm :: u64) < 64"
  shows "writes (emit_arsh_k True rd imm) r rd (signed_drop_bit (unat (scast imm :: u64)) (gpr_ref r (ucast rd)))"
  unfolding emit_arsh_k_def
  using assms by (auto intro!: writes_word simp: exec_shift_imm shift_imm)

lemma emit_arsh_k_32:
  assumes "rd < 32" "(scast imm :: u64) < 32"
  shows "writes (emit_arsh_k False rd imm) r rd
    (scast (signed_drop_bit (unat (scast imm :: u64)) (ucast (gpr_ref r (ucast rd)) :: u32)))"
proof -
  have "(scast imm :: u64) < 64"
    using assms(2) by (rule less_trans) simp
  note s = shift_imm [OF this]
  have "imm < 32"
    using assms(2) s(3) by (simp add: word_less_nat_alt)
  then show ?thesis
    unfolding emit_arsh_k_def
    using assms s by (auto intro!: writes_word simp: exec_shiftiw shift_imm32)
qed

section \<open>Memory\<close>

lemma emit_ld_imm_dw_ok:
  assumes "rd < 32" "0 < rd"
  shows "writes (emit_ld_imm_dw rd imm imm1) r rd (ucast imm OR push_bit 32 (ucast imm1))"
proof -
  have "(push_bit 32 (scast imm1) OR ucast imm :: u64) = ucast imm OR push_bit 32 (ucast imm1)"
    by (rule bit_word_eqI) (auto simp: bit_simps)
  then show ?thesis
    using emit_imm_writes [OF assms] by (simp add: emit_ld_imm_dw_def)
qed

lemma exec_load:
  assumes "rd < 32" "rs < 32"
  shows "exec_word (rv_load z rd off rs) r =
    map_option (\<lambda>v. adv 1 (gpr_set r (ucast rd) v))
      (load_bytes (size_bytes z) (rmem r) (scast (ucast off :: 12 word) + gpr_ref r (ucast rs)))"
  using assms by (cases z) (simp_all add: exec_simps)

lemma exec_store:
  assumes "rd < 32" "rs < 32"
  shows "exec_word (rv_store z rd off rs) r =
    map_option (\<lambda>m. adv 1 (r\<lparr>rmem := m\<rparr>))
      (store_bytes (size_bytes z) (gpr_ref r (ucast rs)) (scast (ucast off :: 12 word) + gpr_ref r (ucast rd)) (rmem r))"
  using assms by (cases z) (simp_all add: exec_simps)

lemma off12: "is_12b_int (scast (off :: u16)) \<Longrightarrow> (scast (ucast off :: 12 word) :: u64) = scast off"
  using sext12_self by (simp add: off12_field)

lemma emit_ldx_ok:
  assumes "rd < 32" "rs < 32" "(ucast rs :: regno) \<noteq> 6"
    "load_bytes (size_bytes z) (rmem r) (scast off + gpr_ref r (ucast rs)) = Some v"
  shows "writes (emit_ldx z rd rs off) r rd v"
proof (cases "is_12b_int (scast off)")
  case True
  then show ?thesis
    using assms by (auto intro!: writes_word simp: emit_ldx_def exec_load off12)
next
  case False
  have six: "gpr_ref (gpr_set r 6 t) (ucast rs) = gpr_ref r (ucast rs)" for t
    using assms(3) by simp
  show ?thesis
    unfolding emit_ldx_def using assms False
    by (intro writes_t1 [where ?t1.0 = "scast off + gpr_ref r (ucast rs)"])
      (simp add: exec_emit_imm exec_r64 six exec_load)
qed

lemma gpr_rmem [simp]: "gpr_ref (r\<lparr>rmem := m\<rparr>) k = gpr_ref r k"
  by (simp add: gpr_ref_def)

lemma adv_rmem [simp]: "(adv n r)\<lparr>rmem := m\<rparr> = adv n (r\<lparr>rmem := m\<rparr>)"
  by (simp add: adv_def)

definition stores :: "u32 list \<Rightarrow> rcpu \<Rightarrow> memory \<Rightarrow> bool" where
  "stores ws r m =
     (\<exists>t1 t2. exec_block ws r = Some (adv (length ws) ((gpr_set (gpr_set r 6 t1) 7 t2)\<lparr>rmem := m\<rparr>)))"

lemma sim_rmem: "sim b r \<Longrightarrow> sim (b\<lparr>bmem := m\<rparr>) (r\<lparr>rmem := m\<rparr>)"
  by (simp add: sim_def)

lemma stores_runs:
  assumes "stores ws r m" "sim b r"
  shows "runs ws r (b\<lparr>bmem := m\<rparr>)"
proof -
  obtain t1 t2 where "exec_block ws r = Some (adv (length ws) ((gpr_set (gpr_set r 6 t1) 7 t2)\<lparr>rmem := m\<rparr>))"
    using assms(1) by (auto simp: stores_def)
  moreover have "sim (b\<lparr>bmem := m\<rparr>) ((gpr_set (gpr_set r 6 t1) 7 t2)\<lparr>rmem := m\<rparr>)"
    using assms(2) by (intro sim_rmem) (simp add: sim_temp)
  ultimately show ?thesis
    by (auto simp: runs_def sim_temp)
qed

lemma stores_intro:
  assumes "exec_block ws r = Some (adv (length ws) ((gpr_set (gpr_set r 6 t1) 7 t2)\<lparr>rmem := m\<rparr>))"
  shows "stores ws r m"
  using assms by (auto simp: stores_def)

lemma emit_stx_ok:
  assumes "rd < 32" "rs < 32" "(ucast rd :: regno) \<noteq> 6" "(ucast rs :: regno) \<noteq> 6"
    "store_bytes (size_bytes z) (gpr_ref r (ucast rs)) (scast off + gpr_ref r (ucast rd)) (rmem r) = Some m"
  shows "stores (emit_stx z rd rs off) r m"
proof (cases "is_12b_int (scast off)")
  case True
  then show ?thesis
    using assms
    by (intro stores_intro [where ?t1.0 = "gpr_ref r 6" and ?t2.0 = "gpr_ref r 7"])
      (simp add: emit_stx_def exec_store off12 gpr_set_same)
next
  case False
  define t where "t = scast off + gpr_ref r (ucast rd)"
  have six: "gpr_ref (gpr_set r 6 u) (ucast rd) = gpr_ref r (ucast rd)"
    "gpr_ref (gpr_set r 6 u) (ucast rs) = gpr_ref r (ucast rs)" for u
    using assms(3,4) by simp_all
  have sev: "gpr_set (gpr_set r 6 t) 7 (gpr_ref r 7) = gpr_set r 6 t"
    using gpr_set_same [of "gpr_set r 6 t" 7] by simp
  show ?thesis
    unfolding emit_stx_def using assms False
    by (intro stores_intro [where ?t1.0 = t and ?t2.0 = "gpr_ref r 7"])
      (simp add: exec_emit_imm exec_r64 six exec_store sev, simp add: t_def)
qed

lemma emit_st_ok:
  assumes "rd < 32" "(ucast rd :: regno) \<noteq> 6" "(ucast rd :: regno) \<noteq> 7"
    "store_bytes (size_bytes z) (scast imm) (scast off + gpr_ref r (ucast rd)) (rmem r) = Some m"
  shows "stores (emit_st z rd off imm) r m"
proof -
  have six: "gpr_ref (gpr_set r 6 u) (ucast rd) = gpr_ref r (ucast rd)"
    "gpr_ref (gpr_set (gpr_set r 6 u) 7 w) (ucast rd) = gpr_ref r (ucast rd)" for u w
    using assms(2,3) by simp_all
  show ?thesis
  proof (cases "is_12b_int (scast off)")
    case True
    have sev: "gpr_set (gpr_set r 6 (scast imm)) 7 (gpr_ref r 7) = gpr_set r 6 (scast imm)"
      using gpr_set_same [of "gpr_set r 6 (scast imm)" 7] by simp
    show ?thesis
      unfolding emit_st_def using assms True
      by (intro stores_intro [where ?t1.0 = "scast imm" and ?t2.0 = "gpr_ref r 7"])
        (simp add: exec_emit_imm exec_store off12 sev six)
  next
    case False
    define t where "t = scast off + gpr_ref r (ucast rd)"
    show ?thesis
      unfolding emit_st_def using assms False
      by (intro stores_intro [where ?t1.0 = "scast imm" and ?t2.0 = t])
        (simp add: exec_emit_imm exec_r64 six exec_store, simp add: t_def)
  qed
qed

section \<open>Jumps\<close>

lemma is_13b_int_iff: "is_13b_int val \<longleftrightarrow> - (2 ^ 12) \<le> sint val \<and> sint val < 2 ^ 12"
  by (simp add: is_13b_int_def word_sle_eq word_sless_alt)

lemma is_21b_int_iff: "is_21b_int val \<longleftrightarrow> - (2 ^ 20) \<le> sint val \<and> sint val < 2 ^ 20"
  by (simp add: is_21b_int_def word_sle_eq word_sless_alt)

lemma sint_scast32: "sint (scast (v :: u32) :: u64) = sint v"
  by transfer simp

lemma scast_word_of_int: "(scast (v :: u32) :: u64) = word_of_int (sint v)"
  by simp

lemma sint_half:
  "sint (signed_drop_bit 1 (v :: u32)) = sint v div 2"
  by (simp add: sint_signed_drop_bit_eq drop_bit_eq_div)

lemma push_bit_1_word: "push_bit 1 (word_of_int k :: u64) = word_of_int (k * 2)"
  by (simp add: push_bit_eq_mult)

lemma branch_target:
  assumes "is_13b_int (scast rvoff)" "even (sint (rvoff :: u32))"
  shows "push_bit 1 (scast (ucast (ucast (signed_drop_bit 1 rvoff) :: u16) :: 12 word) :: u64) = scast rvoff"
proof -
  define h where "h = signed_drop_bit 1 rvoff"
  have s: "sint h = sint rvoff div 2" unfolding h_def by (rule sint_half)
  have r: "- (2 ^ 11) \<le> sint h" "sint h < 2 ^ 11"
    using assms(1) unfolding s is_13b_int_iff sint_scast32 by auto
  have "is_12b_int (scast h)"
    using r by (simp add: is_12b_int_iff sint_scast32)
  then have "(scast (ucast (ucast h :: u16) :: 12 word) :: u64) = scast h"
    by (rule imm12)
  then have "push_bit 1 (scast (ucast (ucast h :: u16) :: 12 word) :: u64) = word_of_int (sint h * 2)"
    unfolding scast_word_of_int using push_bit_1_word by metis
  also have "sint h * 2 = sint rvoff"
    using assms(2) s by simp
  finally show ?thesis by (simp add: h_def)
qed

lemma sext20_self:
  assumes "- (2 ^ 19) \<le> sint v" "sint v < 2 ^ 19"
  shows "(scast (ucast (v :: u32) :: 20 word) :: u64) = scast v"
proof -
  have "sint (scast (ucast v :: 20 word) :: u64) = signed_take_bit 19 (sint v)"
    by transfer (simp add: signed_take_bit_take_bit)
  also have "\<dots> = sint (scast v :: u64)"
    using assms by (simp add: signed_take_bit_int_eq_self sint_scast32)
  finally show ?thesis by (simp add: signed_word_eqI)
qed

lemma jal_target:
  assumes "is_21b_int (scast rvoff)" "even (sint (rvoff :: u32))"
  shows "push_bit 1 (scast (ucast (signed_drop_bit 1 rvoff) :: 20 word) :: u64) = scast rvoff"
proof -
  define h where "h = signed_drop_bit 1 rvoff"
  have s: "sint h = sint rvoff div 2" unfolding h_def by (rule sint_half)
  have r: "- (2 ^ 19) \<le> sint h" "sint h < 2 ^ 19"
    using assms(1) unfolding s is_21b_int_iff sint_scast32 by auto
  have "push_bit 1 (scast (ucast h :: 20 word) :: u64) = push_bit 1 (word_of_int (sint h))"
    using sext20_self [OF r] by simp
  also have "\<dots> = word_of_int (sint h * 2)"
    by (rule push_bit_1_word)
  also have "sint h * 2 = sint rvoff"
    using assms(2) s by simp
  finally show ?thesis by (simp add: h_def)
qed

lemma exec_branch:
  assumes "rs1 < 32" "rs2 < 32"
  shows
  "exec_word (rv_beq rs1 rs2 t) r = Some (if gpr_ref r (ucast rs1) = gpr_ref r (ucast rs2) then r\<lparr>rpc := rpc r + push_bit 1 (scast (ucast t :: 12 word))\<rparr> else adv 1 r)"
  "exec_word (rv_bne rs1 rs2 t) r = Some (if gpr_ref r (ucast rs1) \<noteq> gpr_ref r (ucast rs2) then r\<lparr>rpc := rpc r + push_bit 1 (scast (ucast t :: 12 word))\<rparr> else adv 1 r)"
  "exec_word (rv_bltu rs1 rs2 t) r = Some (if gpr_ref r (ucast rs1) < gpr_ref r (ucast rs2) then r\<lparr>rpc := rpc r + push_bit 1 (scast (ucast t :: 12 word))\<rparr> else adv 1 r)"
  "exec_word (rv_bgeu rs1 rs2 t) r = Some (if gpr_ref r (ucast rs2) \<le> gpr_ref r (ucast rs1) then r\<lparr>rpc := rpc r + push_bit 1 (scast (ucast t :: 12 word))\<rparr> else adv 1 r)"
  "exec_word (rv_blt rs1 rs2 t) r = Some (if gpr_ref r (ucast rs1) <s gpr_ref r (ucast rs2) then r\<lparr>rpc := rpc r + push_bit 1 (scast (ucast t :: 12 word))\<rparr> else adv 1 r)"
  "exec_word (rv_bge rs1 rs2 t) r = Some (if gpr_ref r (ucast rs2) \<le>s gpr_ref r (ucast rs1) then r\<lparr>rpc := rpc r + push_bit 1 (scast (ucast t :: 12 word))\<rparr> else adv 1 r)"
  using assms by (simp_all add: exec_simps jump_and_link_def gpr_set_def)

definition branches :: "u32 list \<Rightarrow> rcpu \<Rightarrow> bool \<Rightarrow> u64 \<Rightarrow> bool" where
  "branches ws r taken d =
     (\<exists>t1 t2. exec_block ws r =
        Some ((gpr_set (gpr_set r 6 t1) 7 t2)\<lparr>rpc := rpc r + 4 * word_of_nat (length ws - 1) + (if taken then d else 4)\<rparr>))"

lemma branches_last:
  assumes "exec_block pre r = Some (adv (length pre) (gpr_set (gpr_set r 6 t1) 7 t2))"
    "exec_word w (adv (length pre) (gpr_set (gpr_set r 6 t1) 7 t2)) =
      Some (if c then (adv (length pre) (gpr_set (gpr_set r 6 t1) 7 t2))\<lparr>rpc := rpc r + 4 * word_of_nat (length pre) + d\<rparr>
            else adv 1 (adv (length pre) (gpr_set (gpr_set r 6 t1) 7 t2)))"
  shows "branches (pre @ [w]) r c d"
proof -
  have "exec_block (pre @ [w]) r = exec_word w (adv (length pre) (gpr_set (gpr_set r 6 t1) 7 t2))"
    using exec_block_append [OF assms(1), of "[w]"] by (simp add: exec_singleton del: exec_block.simps(2))
  with assms(2) show ?thesis
    unfolding branches_def by (intro exI [of _ t1] exI [of _ t2]) (simp add: adv_def algebra_simps)
qed

lemma gpr_temp_same:
  "gpr_set (gpr_set r 6 (gpr_ref r 6)) 7 (gpr_ref r 7) = r"
  "gpr_set (gpr_set r 6 t) 7 (gpr_ref r 7) = gpr_set r 6 t"
  using gpr_set_same [of "gpr_set r 6 t" 7] by (simp_all add: gpr_set_same)

lemma sim_branch:
  assumes "branches ws r taken d" "sim b r" "ws \<noteq> []"
  shows "\<exists>r'. exec_block ws r = Some r' \<and> sim b r' \<and>
    rpc r' = (if taken then rpc r + 4 * word_of_nat (length ws - 1) + d else rpc r + 4 * word_of_nat (length ws))"
proof -
  obtain n where n: "length ws = Suc n" using assms(3) by (cases ws) auto
  show ?thesis
    using assms(1,2) unfolding branches_def n by (auto simp: sim_temp algebra_simps)
qed

definition cmp32 :: "jmp_op \<Rightarrow> u64 \<Rightarrow> u64 \<Rightarrow> bool" where
  "cmp32 op a b = cmp_op op (ucast a :: u32) (ucast b)"

lemma cmp32_JNE: "cmp32 JNE a b = (\<not> cmp32 JEQ a b)"
  by (simp add: cmp32_def)

lemma ucast_cmp:
  "(ucast (a :: u32) :: u64) < ucast b \<longleftrightarrow> a < b"
  "(ucast (a :: u32) :: u64) \<le> ucast b \<longleftrightarrow> a \<le> b"
  "(ucast (a :: u32) :: u64) = ucast b \<longleftrightarrow> a = b"
  "(ucast a AND ucast b :: u64) = 0 \<longleftrightarrow> a AND b = 0"
proof -
  have u: "unat (ucast x :: u64) = unat x" for x :: u32
  proof -
    have "unat x < 2 ^ 32" using unsigned_less [of x, where ?'a = nat] by simp
    then show ?thesis by (simp add: unsigned_ucast_eq take_bit_nat_eq_self)
  qed
  show "(ucast (a :: u32) :: u64) < ucast b \<longleftrightarrow> a < b" "(ucast (a :: u32) :: u64) \<le> ucast b \<longleftrightarrow> a \<le> b"
    by (simp_all add: word_less_nat_alt word_le_nat_alt u)
  show e: "(ucast (a :: u32) :: u64) = ucast b \<longleftrightarrow> a = b" for a b :: u32
    by (metis ucast_ucast32)
  have "(ucast a AND ucast b :: u64) = ucast (a AND b)"
    by (simp add: unsigned_and_eq)
  then show "(ucast a AND ucast b :: u64) = 0 \<longleftrightarrow> a AND b = 0"
    using e [of "a AND b" 0] by simp
qed

lemma scast_cmp:
  "(scast (a :: u32) :: u64) <s scast b \<longleftrightarrow> a <s b"
  "(scast (a :: u32) :: u64) \<le>s scast b \<longleftrightarrow> a \<le>s b"
  by (simp_all only: word_sless_alt word_sle_eq sint_scast32)

lemma exec_zext_rd_rs:
  assumes "rd < 32" "rs < 32" "(ucast rs :: regno) \<noteq> 7"
  shows "exec_block (fst (emit_zext_32_rd_rs rd rs)) r =
    Some (adv 6 (gpr_set (gpr_set r 6 (ucast (ucast (gpr_ref r (ucast rs)) :: u32))) 7 (ucast (ucast (gpr_ref r (ucast rd)) :: u32))))"
  using assms
  by (simp add: emit_zext_32_rd_rs_def emit_zext_32_def exec_addi exec_shift_imm zext_shifts)
    (simp add: numeral_eq_Suc gpr_set_swap [of 7 6, simplified])

lemma exec_sext_rd_rs:
  assumes "rd < 32" "rs < 32" "(ucast rs :: regno) \<noteq> 7"
  shows "exec_block (fst (emit_sext_32_rd_rs rd rs)) r =
    Some (adv 2 (gpr_set (gpr_set r 6 (scast (ucast (gpr_ref r (ucast rs)) :: u32))) 7 (scast (ucast (gpr_ref r (ucast rd)) :: u32))))"
  using assms
  by (simp add: emit_sext_32_rd_rs_def exec_addi) (simp add: numeral_eq_Suc gpr_set_swap [of 7 6, simplified])

definition jump_reg :: "u8 \<Rightarrow> bool" where
  "jump_reg rd = (rd < 32 \<and> (ucast rd :: regno) \<noteq> 6 \<and> (ucast rd :: regno) \<noteq> 7)"

lemma emit_jmp_x_64:
  assumes "jump_reg rd" "jump_reg rs" "is_13b_int (scast rvoff)" "even (sint rvoff)"
  shows "branches (emit_jmp_x op True rd rs rvoff) r
    (cmp_op op (gpr_ref r (ucast rd)) (gpr_ref r (ucast rs))) (scast rvoff)"
proof -
  have reg: "rd < 32" "rs < 32" "(ucast rd :: regno) \<noteq> 6" "(ucast rs :: regno) \<noteq> 6"
    using assms(1,2) by (simp_all add: jump_reg_def)
  note t = branch_target [OF assms(3,4)]
  show ?thesis
  proof (cases "op = JSET")
    case True
    have "branches ([rv_and RV_REG_T1 rd rs] @ [rv_bne RV_REG_T1 RV_REG_ZERO (ucast (signed_drop_bit 1 rvoff))]) r
        (gpr_ref r (ucast rd) AND gpr_ref r (ucast rs) \<noteq> 0) (scast rvoff)"
      by (rule branches_last [where ?t1.0 = "gpr_ref r (ucast rd) AND gpr_ref r (ucast rs)" and ?t2.0 = "gpr_ref r 7"])
        (use reg t in \<open>simp_all add: exec_r64 exec_branch gpr_temp_same\<close>)
    then show ?thesis by (simp add: emit_jmp_x_def True)
  next
    case False
    have b: "branches ([] @ [w]) r c (scast rvoff)"
      if "exec_word w r = Some (if c then r\<lparr>rpc := rpc r + scast rvoff\<rparr> else adv 1 r)" for w c
      by (rule branches_last [where ?t1.0 = "gpr_ref r 6" and ?t2.0 = "gpr_ref r 7"])
        (use that in \<open>simp_all add: gpr_temp_same gpr_set_same\<close>)
    show ?thesis
      using False reg t
      by (cases op) (auto simp: emit_jmp_x_def exec_branch intro!: b [unfolded append_Nil])
  qed
qed

lemma emit_jmp_x_32:
  assumes "jump_reg rd" "jump_reg rs" "is_13b_int (scast rvoff)" "even (sint rvoff)"
  shows "branches (emit_jmp_x op False rd rs rvoff) r
    (cmp32 op (gpr_ref r (ucast rd)) (gpr_ref r (ucast rs))) (scast rvoff)"
proof -
  have reg: "rd < 32" "rs < 32" "(ucast rd :: regno) \<noteq> 7" "(ucast rs :: regno) \<noteq> 7"
    using assms(1,2) by (simp_all add: jump_reg_def)
  note t = branch_target [OF assms(3,4)] branch_target [OF assms(3,4), simplified]
  define za zb where "za = (ucast (ucast (gpr_ref r (ucast rd)) :: u32) :: u64)"
    and "zb = (ucast (ucast (gpr_ref r (ucast rs)) :: u32) :: u64)"
  define sa sb where "sa = (scast (ucast (gpr_ref r (ucast rd)) :: u32) :: u64)"
    and "sb = (scast (ucast (gpr_ref r (ucast rs)) :: u32) :: u64)"
  note z = exec_zext_rd_rs [OF reg(1,2,4), of r, folded za_def zb_def]
  note s = exec_sext_rd_rs [OF reg(1,2,4), of r, folded sa_def sb_def]
  have lz: "length (fst (emit_zext_32_rd_rs rd rs)) = 6" "snd (emit_zext_32_rd_rs rd rs) = (RV_REG_T2, RV_REG_T1)"
    by (simp_all add: emit_zext_32_rd_rs_def)
  have ls: "length (fst (emit_sext_32_rd_rs rd rs)) = 2" "snd (emit_sext_32_rd_rs rd rs) = (RV_REG_T2, RV_REG_T1)"
    by (simp_all add: emit_sext_32_rd_rs_def)
  have bz: "branches (fst (emit_zext_32_rd_rs rd rs) @ [w]) r c (scast rvoff)"
    if "exec_word w (adv 6 (gpr_set (gpr_set r 6 zb) 7 za)) =
      Some (if c then (adv 6 (gpr_set (gpr_set r 6 zb) 7 za))\<lparr>rpc := rpc r + 24 + scast rvoff\<rparr>
            else adv 1 (adv 6 (gpr_set (gpr_set r 6 zb) 7 za)))" for w c
    by (rule branches_last [where ?t1.0 = zb and ?t2.0 = za]) (use z that in \<open>simp_all add: lz(1)\<close>)
  have bs: "branches (fst (emit_sext_32_rd_rs rd rs) @ [w]) r c (scast rvoff)"
    if "exec_word w (adv 2 (gpr_set (gpr_set r 6 sb) 7 sa)) =
      Some (if c then (adv 2 (gpr_set (gpr_set r 6 sb) 7 sa))\<lparr>rpc := rpc r + 8 + scast rvoff\<rparr>
            else adv 1 (adv 2 (gpr_set (gpr_set r 6 sb) 7 sa)))" for w c
    by (rule branches_last [where ?t1.0 = sb and ?t2.0 = sa]) (use s that in \<open>simp_all add: ls(1)\<close>)
  have cmp: "za = zb \<longleftrightarrow> cmp32 JEQ (gpr_ref r (ucast rd)) (gpr_ref r (ucast rs))"
    "za < zb \<longleftrightarrow> cmp32 JLT (gpr_ref r (ucast rd)) (gpr_ref r (ucast rs))"
    "zb < za \<longleftrightarrow> cmp32 JGT (gpr_ref r (ucast rd)) (gpr_ref r (ucast rs))"
    "za \<le> zb \<longleftrightarrow> cmp32 JLE (gpr_ref r (ucast rd)) (gpr_ref r (ucast rs))"
    "zb \<le> za \<longleftrightarrow> cmp32 JGE (gpr_ref r (ucast rd)) (gpr_ref r (ucast rs))"
    "za AND zb \<noteq> 0 \<longleftrightarrow> cmp32 JSET (gpr_ref r (ucast rd)) (gpr_ref r (ucast rs))"
    "sa <s sb \<longleftrightarrow> cmp32 JSLT (gpr_ref r (ucast rd)) (gpr_ref r (ucast rs))"
    "sb <s sa \<longleftrightarrow> cmp32 JSGT (gpr_ref r (ucast rd)) (gpr_ref r (ucast rs))"
    "sa \<le>s sb \<longleftrightarrow> cmp32 JSLE (gpr_ref r (ucast rd)) (gpr_ref r (ucast rs))"
    "sb \<le>s sa \<longleftrightarrow> cmp32 JSGE (gpr_ref r (ucast rd)) (gpr_ref r (ucast rs))"
    by (simp_all only: cmp32_def cmp_op.simps za_def zb_def sa_def sb_def ucast_cmp scast_cmp)
  show ?thesis
  proof (cases "op = JSET")
    case True
    have "branches ((fst (emit_zext_32_rd_rs rd rs) @ [rv_and RV_REG_T1 RV_REG_T2 RV_REG_T1]) @
        [rv_bne RV_REG_T1 RV_REG_ZERO (ucast (signed_drop_bit 1 rvoff))]) r (za AND zb \<noteq> 0) (scast rvoff)"
      using exec_block_append [OF z, of "[rv_and RV_REG_T1 RV_REG_T2 RV_REG_T1]"]
      by (intro branches_last [where ?t1.0 = "za AND zb" and ?t2.0 = za])
        (simp_all add: lz(1) exec_r64 exec_branch t gpr_set_swap [of 7 6, simplified])
    then show ?thesis by (simp add: emit_jmp_x_def True lz split_beta cmp(6))
  next
    case False
    then show ?thesis
      by (cases op)
        (auto simp: emit_jmp_x_def lz ls split_beta exec_branch t cmp cmp32_JNE simp del: cmp_op.simps intro!: bz bs)
  qed
qed

section \<open>Jumps on immediates\<close>

lemma exec_zext_rd_t1:
  assumes "rd < 32" "(ucast rd :: regno) \<noteq> 6"
  shows "exec_block (emit_imm RV_REG_T1 c @ fst (emit_zext_32_rd_t1 rd)) r =
    Some (adv (length (emit_imm RV_REG_T1 c) + 5)
      (gpr_set (gpr_set r 6 (ucast (ucast c :: u32))) 7 (ucast (ucast (gpr_ref r (ucast rd)) :: u32))))"
proof -
  have six: "gpr_ref (gpr_set r 6 t) (ucast rd) = gpr_ref r (ucast rd)" for t
    using assms(2) by simp
  show ?thesis
    using assms
    by (simp add: exec_emit_imm emit_zext_32_rd_t1_def emit_zext_32_def exec_addi exec_shift_imm zext_shifts six)
      (simp add: numeral_eq_Suc gpr_set_swap [of 7 6, simplified])
qed

lemma exec_sext_rd:
  assumes "rd < 32" "(ucast rd :: regno) \<noteq> 6"
  shows "exec_block (emit_imm RV_REG_T1 c @ fst (emit_sext_32_rd rd)) r =
    Some (adv (length (emit_imm RV_REG_T1 c) + 1)
      (gpr_set (gpr_set r 6 c) 7 (scast (ucast (gpr_ref r (ucast rd)) :: u32))))"
proof -
  have six: "gpr_ref (gpr_set r 6 t) (ucast rd) = gpr_ref r (ucast rd)" for t
    using assms(2) by simp
  show ?thesis
    using assms by (simp add: exec_emit_imm emit_sext_32_rd_def exec_addi six)
qed

lemma emit_jmp_k_64:
  assumes "jump_reg rd" "is_13b_int (scast rvoff)" "even (sint rvoff)"
  shows "branches (emit_jmp_k op True rd imm rvoff) r (cmp_op op (gpr_ref r (ucast rd)) (scast imm)) (scast rvoff)"
proof -
  have reg: "rd < 32" "(ucast rd :: regno) \<noteq> 6"
    using assms(1) by (simp_all add: jump_reg_def)
  have six: "gpr_ref (gpr_set r 6 t) (ucast rd) = gpr_ref r (ucast rd)" for t
    using reg(2) by simp
  note t = branch_target [OF assms(2,3)] branch_target [OF assms(2,3), simplified]
  define c where "c = (scast imm :: u64)"
  have l: "exec_block (emit_imm RV_REG_T1 c) r = Some (adv (length (emit_imm RV_REG_T1 c)) (gpr_set r 6 c))"
    using emit_imm_exec [of RV_REG_T1] by simp
  have b: "branches (emit_imm RV_REG_T1 c @ [w]) r q (scast rvoff)"
    if "exec_word w (adv (length (emit_imm RV_REG_T1 c)) (gpr_set r 6 c)) =
      Some (if q then (adv (length (emit_imm RV_REG_T1 c)) (gpr_set r 6 c))\<lparr>rpc := rpc r + 4 * word_of_nat (length (emit_imm RV_REG_T1 c)) + scast rvoff\<rparr>
            else adv 1 (adv (length (emit_imm RV_REG_T1 c)) (gpr_set r 6 c)))" for w q
    by (rule branches_last [where ?t1.0 = c and ?t2.0 = "gpr_ref r 7"])
      (use l that in \<open>simp_all add: gpr_temp_same\<close>)
  show ?thesis
  proof (cases "op = JSET")
    case True
    define pre where "pre = emit_imm RV_REG_T1 c @ [rv_and RV_REG_T1 rd RV_REG_T1]"
    define v where "v = gpr_ref r (ucast rd) AND c"
    have p: "exec_block pre r = Some (adv (length pre) (gpr_set r 6 v))"
      using reg by (simp add: pre_def v_def exec_emit_imm exec_r64 six)
    have "branches (pre @ [rv_bne RV_REG_T1 RV_REG_ZERO (ucast (signed_drop_bit 1 rvoff))]) r (v \<noteq> 0) (scast rvoff)"
      by (rule branches_last [where ?t1.0 = v and ?t2.0 = "gpr_ref r 7"])
        (use p t in \<open>simp_all add: exec_branch gpr_temp_same\<close>)
    then have "branches ((emit_imm RV_REG_T1 c @ [rv_and RV_REG_T1 rd RV_REG_T1]) @
        [rv_bne RV_REG_T1 RV_REG_ZERO (ucast (signed_drop_bit 1 rvoff))]) r (gpr_ref r (ucast rd) AND c \<noteq> 0) (scast rvoff)"
      by (simp only: pre_def v_def)
    then show ?thesis by (simp add: emit_jmp_k_def True c_def)
  next
    case False
    then show ?thesis
      unfolding c_def [symmetric] using reg
      by (cases op) (auto simp: emit_jmp_k_def c_def [symmetric] exec_branch t six intro!: b)
  qed
qed

lemma emit_jmp_k_32:
  assumes "jump_reg rd" "is_13b_int (scast rvoff)" "even (sint rvoff)"
  shows "branches (emit_jmp_k op False rd imm rvoff) r (cmp_op op (ucast (gpr_ref r (ucast rd)) :: u32) imm) (scast rvoff)"
proof -
  have reg: "rd < 32" "(ucast rd :: regno) \<noteq> 6"
    using assms(1) by (simp_all add: jump_reg_def)
  note t = branch_target [OF assms(2,3)] branch_target [OF assms(2,3), simplified]
  define a where "a = (ucast (gpr_ref r (ucast rd)) :: u32)"
  define zpre where "zpre = emit_imm RV_REG_T1 (scast imm) @ fst (emit_zext_32_rd_t1 rd)"
  define spre where "spre = emit_imm RV_REG_T1 (scast imm) @ fst (emit_sext_32_rd rd)"
  have z: "exec_block zpre r = Some (adv (length zpre) (gpr_set (gpr_set r 6 (ucast imm)) 7 (ucast a)))"
    using exec_zext_rd_t1 [OF reg, of "scast imm" r] by (simp add: zpre_def a_def emit_zext_32_rd_t1_def)
  have s: "exec_block spre r = Some (adv (length spre) (gpr_set (gpr_set r 6 (scast imm)) 7 (scast a)))"
    using exec_sext_rd [OF reg, of "scast imm" r] by (simp add: spre_def a_def emit_sext_32_rd_def)
  have bz: "branches (zpre @ [w]) r c (scast rvoff)"
    if "exec_word w (adv (length zpre) (gpr_set (gpr_set r 6 (ucast imm)) 7 (ucast a))) =
      Some (if c then (adv (length zpre) (gpr_set (gpr_set r 6 (ucast imm)) 7 (ucast a)))\<lparr>rpc := rpc r + 4 * word_of_nat (length zpre) + scast rvoff\<rparr>
            else adv 1 (adv (length zpre) (gpr_set (gpr_set r 6 (ucast imm)) 7 (ucast a))))" for w c
    by (rule branches_last [OF z that])
  have bs: "branches (spre @ [w]) r c (scast rvoff)"
    if "exec_word w (adv (length spre) (gpr_set (gpr_set r 6 (scast imm)) 7 (scast a))) =
      Some (if c then (adv (length spre) (gpr_set (gpr_set r 6 (scast imm)) 7 (scast a)))\<lparr>rpc := rpc r + 4 * word_of_nat (length spre) + scast rvoff\<rparr>
            else adv 1 (adv (length spre) (gpr_set (gpr_set r 6 (scast imm)) 7 (scast a))))" for w c
    by (rule branches_last [OF s that])
  have e: "emit_imm RV_REG_T1 (scast imm) @ fst (emit_zext_32_rd_t1 rd) @ ws = zpre @ ws"
    "emit_imm RV_REG_T1 (scast imm) @ fst (emit_sext_32_rd rd) @ ws = spre @ ws"
    "snd (emit_zext_32_rd_t1 rd) = RV_REG_T2" "snd (emit_sext_32_rd rd) = RV_REG_T2" for ws
    by (simp_all add: zpre_def spre_def emit_zext_32_rd_t1_def emit_sext_32_rd_def)
  show ?thesis
    unfolding a_def [symmetric]
  proof (cases "op = JSET")
    case True
    define pre where "pre = zpre @ [rv_and RV_REG_T1 RV_REG_T2 RV_REG_T1]"
    have p: "exec_block pre r = Some (adv (length pre) (gpr_set (gpr_set r 6 (ucast a AND ucast imm)) 7 (ucast a)))"
      using exec_block_append [OF z, of "[rv_and RV_REG_T1 RV_REG_T2 RV_REG_T1]"]
      by (simp add: pre_def exec_r64 gpr_set_swap [of 7 6, simplified])
    have "branches (pre @ [rv_bne RV_REG_T1 RV_REG_ZERO (ucast (signed_drop_bit 1 rvoff))]) r
        ((ucast a AND ucast imm :: u64) \<noteq> 0) (scast rvoff)"
      by (rule branches_last [OF p]) (use t in \<open>simp_all add: exec_branch\<close>)
    then show "branches (emit_jmp_k op False rd imm rvoff) r (cmp_op op a imm) (scast rvoff)"
      by (simp add: emit_jmp_k_def True e split_beta pre_def ucast_cmp)
  next
    case False
    then show "branches (emit_jmp_k op False rd imm rvoff) r (cmp_op op a imm) (scast rvoff)"
      by (cases op) (auto simp: emit_jmp_k_def e split_beta exec_branch t ucast_cmp scast_cmp intro!: bz bs)
  qed
qed

end
