(* ===== verification/Simulation.thy ===== *)
theory Simulation
  imports Main
begin

text \<open>
  The interface of a forward simulation between two machines: when every step of the abstract
  machine from related states is matched by steps of the concrete machine, so is every run.
\<close>

locale forward_sim =
  fixes astep :: "'a \<Rightarrow> 'a \<Rightarrow> bool"
    and cstep :: "'c \<Rightarrow> 'c \<Rightarrow> bool"
    and rel :: "'a \<Rightarrow> 'c \<Rightarrow> bool"
  assumes step_sim: "rel a c \<Longrightarrow> astep a a' \<Longrightarrow> \<exists>c'. cstep\<^sup>*\<^sup>* c c' \<and> rel a' c'"
begin

lemma steps_sim:
  assumes "astep\<^sup>*\<^sup>* a a'" "rel a c"
  shows "\<exists>c'. cstep\<^sup>*\<^sup>* c c' \<and> rel a' c'"
  using assms(1)
proof (induction rule: rtranclp_induct)
  case base
  then show ?case using assms(2) by blast
next
  case (step y z)
  then obtain c1 where c1: "cstep\<^sup>*\<^sup>* c c1" "rel y c1" by blast
  from step_sim [OF c1(2) step.hyps(2)] obtain c2 where "cstep\<^sup>*\<^sup>* c1 c2" "rel z c2" by blast
  with c1(1) show ?case by (meson rtranclp_trans)
qed

text \<open>A state the abstract machine reaches and that is observed through related states.\<close>

lemma steps_observe:
  assumes "astep\<^sup>*\<^sup>* a a'" "rel a c" "\<And>x y. rel x y \<Longrightarrow> aobs x = cobs y"
  shows "\<exists>c'. cstep\<^sup>*\<^sup>* c c' \<and> cobs c' = aobs a'"
  using steps_sim [OF assms(1,2)] assms(3) by metis

end

end
