(* ===== verification/Jit_Rv64_Main.thy ===== *)
theory Jit_Rv64_Main
  imports Jit_Rv64_Sim Simulation
begin

text \<open>
  Correctness of the compiler for one BPF instruction and for whole programs: every instruction
  the compiler translates exactly is simulated by its block of emitted words, and a program
  whose blocks are laid out as the table of offsets says runs in lockstep with the interpreter.
\<close>

unbundle bit_operations_syntax

section \<open>Registers and width of an instruction\<close>

lemma insn_map_dst:
  "list_all (\<lambda>(c, l). uses_dst l \<longrightarrow>
     c \<notin> {BPF_JMP OR BPF_JA, BPF_JMP OR BPF_CALL, BPF_JMP OR BPF_EXIT, BPF_JMP OR BPF_TAIL_CALL}) BPF_INSN_MAP"
  by code_simp

lemma insn_map_src:
  "list_all (\<lambda>(c, l). uses_src l \<longrightarrow>
     c AND (BPF_ALU OR BPF_X) \<noteq> 0 \<or> c AND (BPF_ALU64 OR BPF_X) \<noteq> 0 \<or>
     c AND (BPF_JMP OR BPF_X) \<noteq> 0 \<or> c AND (BPF_JMP32 OR BPF_X) \<noteq> 0 \<or>
     c AND BPF_LDX \<noteq> 0 \<or> c AND BPF_STX \<noteq> 0) BPF_INSN_MAP"
  by code_simp

lemma bpf_to_rv_reg_less: "k < 11 \<Longrightarrow> bpf_to_rv_reg k = Some (regmap ! k)"
  by (simp add: bpf_to_rv_reg_def regmap_def)

definition jump_no_dst :: "u8 \<Rightarrow> bool" where
  "jump_no_dst c =
     (c \<in> {BPF_JMP OR BPF_JA, BPF_JMP OR BPF_CALL, BPF_JMP OR BPF_EXIT, BPF_JMP OR BPF_TAIL_CALL})"

definition reads_src :: "u8 \<Rightarrow> bool" where
  "reads_src c =
     (c AND (BPF_ALU OR BPF_X) \<noteq> 0 \<or> c AND (BPF_ALU64 OR BPF_X) \<noteq> 0 \<or>
      c AND (BPF_JMP OR BPF_X) \<noteq> 0 \<or> c AND (BPF_JMP32 OR BPF_X) \<noteq> 0 \<or>
      c AND BPF_LDX \<noteq> 0 \<or> c AND BPF_STX \<noteq> 0)"

lemma init_regs_eq:
  assumes "unat (dst_reg i) < 11" "unat (src_reg i) < 11"
  shows "init_regs i =
    Some (if jump_no_dst (insn_code i) then - 1 else regmap ! unat (dst_reg i),
          if reads_src (insn_code i) then regmap ! unat (src_reg i) else - 1)"
  unfolding init_regs_def Let_def jump_no_dst_def [symmetric] reads_src_def [symmetric]
  using assms by (simp add: bpf_to_rv_reg_less)

lemma init_regs_ok:
  assumes "select_insn (insn_code i) = Some l" "unat (dst_reg i) < 11" "unat (src_reg i) < 11"
  obtains rd rs where "init_regs i = Some (rd, rs)"
    "uses_dst l \<Longrightarrow> rd = regmap ! unat (dst_reg i)" "uses_src l \<Longrightarrow> rs = regmap ! unat (src_reg i)"
proof (rule that [OF init_regs_eq [OF assms(2,3)]])
  show "uses_dst l \<Longrightarrow> (if jump_no_dst (insn_code i) then - 1 else regmap ! unat (dst_reg i)) = regmap ! unat (dst_reg i)"
    using select_insn_all [OF insn_map_dst assms(1)] by (simp add: jump_no_dst_def)
  show "uses_src l \<Longrightarrow> (if reads_src (insn_code i) then regmap ! unat (src_reg i) else - 1) = regmap ! unat (src_reg i)"
    using select_insn_all [OF insn_map_src assms(1)] by (simp add: reads_src_def)
qed

definition label_is64 :: "label \<Rightarrow> bool" where
  "label_is64 l = (label_class l = BPF_ALU64 \<or> label_class l = BPF_JMP)"

lemma label_is64_simps [simp]:
  "label_is64 (L_ALU c op x) = (c = C_ALU64)"
  "label_is64 (L_NEG c) = (c = C_ALU64)"
  "label_is64 (L_MOV c x) = (c = C_ALU64)"
  "label_is64 (L_ARSH c x) = (c = C_ALU64)"
  "label_is64 (L_MOD c x) = (c = C_ALU64)"
  "label_is64 (L_DIV c x) = (c = C_ALU64)"
  by (cases c; simp add: label_is64_def label_class_def bpf_consts)+

lemma label_is64_jmp [simp]: "label_is64 (L_COND_JMP j op x) = (j = C_JMP)"
  by (cases j; simp add: label_is64_def label_class_def bpf_consts)

section \<open>Instructions compiled exactly\<close>

fun jit_exact :: "label \<Rightarrow> u32 \<Rightarrow> bool" where
  "jit_exact (L_ALU c op x) imm =
     (c = C_ALU64 \<or> (case x of SrcX \<Rightarrow> op = OpMUL | SrcK \<Rightarrow> op \<noteq> OpLSH \<and> op \<noteq> OpRSH))"
| "jit_exact (L_NEG c) imm = (c = C_ALU64)"
| "jit_exact (L_ARSH c x) imm = (c = C_ALU64)"
| "jit_exact L_END_TO_BE imm = (imm = 16 \<or> imm = 32 \<or> imm = 64)"
| "jit_exact L_END_TO_LE imm = (imm = 16 \<or> imm = 32 \<or> imm = 64)"
| "jit_exact L_CALL imm = False"
| "jit_exact L_EXIT imm = False"
| "jit_exact L_STX_XADD_W imm = False"
| "jit_exact L_STX_XADD_DW imm = False"
| "jit_exact _ imm = True"

text \<open>The destination value the interpreter computes for an arithmetic instruction.\<close>

fun is_write :: "label \<Rightarrow> bool" where
  "is_write (L_ALU c op x) = True"
| "is_write (L_NEG c) = True"
| "is_write (L_MOV c x) = True"
| "is_write (L_ARSH c x) = True"
| "is_write (L_MOD c x) = True"
| "is_write (L_DIV c x) = True"
| "is_write L_END_TO_BE = True"
| "is_write L_END_TO_LE = True"
| "is_write (L_LDX_MEM z) = True"
| "is_write _ = False"

lemma runs_CONT:
  assumes "runs ws r (set_reg d v b)" "BCont b' = CONT (set_reg d v b)"
  shows "runs ws r b'"
  using assms by (auto simp: runs_def CONT_def)

lemma reg_facts:
  assumes "k < 11"
  shows "regmap ! k < 32" "0 < regmap ! k" "(ucast (regmap ! k) :: regno) \<noteq> 0"
    "(ucast (regmap ! k) :: regno) \<noteq> 6" "(ucast (regmap ! k) :: regno) \<noteq> 7"
    "temp_free (regmap ! k)" "be_reg (regmap ! k)" "jump_reg (regmap ! k)"
  using regmap_reg [OF assms] rv_reg_temp [OF assms]
  by (simp_all add: rv_reg_def temp_free_def be_reg_def jump_reg_def)

lemma sim_gpr: "sim b r \<Longrightarrow> k < 11 \<Longrightarrow> gpr_ref r (ucast (regmap ! k)) = bregs b k"
  by (simp add: sim_def rv_reg_def)

lemma unat_ucast64: "unat (ucast (x :: u32) :: u64) = unat x"
proof -
  have "unat x < 2 ^ 32" using unsigned_less [of x, where ?'a = nat] by simp
  then show ?thesis by (simp add: unsigned_ucast_eq take_bit_nat_eq_self)
qed

lemma ucast_div_mod:
  "(ucast (a :: u32) div ucast b :: u64) = ucast (a div b)"
  "(ucast (a :: u32) mod ucast b :: u64) = ucast (a mod b)"
  by (simp_all only: word_unat_eq_iff unat_div unat_mod unat_ucast64)

lemma set_reg_set_DST: "set_DST i v b = set_reg (unat (dst_reg i)) v b"
  by (simp add: set_DST_def)

lemma SRC_AX: "unat (src_reg i) < 11 \<Longrightarrow> SRC i (set_reg BPF_REG_AX v b) = SRC i b"
  by (simp add: SRC_def set_reg_def BPF_REG_AX_def)

lemma operand_AX:
  "unat (src_reg i) < 11 \<Longrightarrow> operand32 x i (set_reg BPF_REG_AX v b) = operand32 x i b"
  by (simp add: operand32_def SRC_AX split: bpf_src.split)

lemma AX_set [simp]: "AX (set_reg BPF_REG_AX v b) = v"
  by (simp add: AX_def set_reg_def)

lemma writes_step:
  assumes "writes ws r (regmap ! unat (dst_reg i)) v" "sim b r" "unat (dst_reg i) < 11"
    "CONT (set_DST i v b) = BCont b'"
  shows "runs ws r b'"
  using writes_runs [OF assms(1-3)] assms(4) by (auto simp: runs_def CONT_def set_DST_def)

lemma jit_alu_ok:
  assumes s: "sim b r" and d: "unat (dst_reg i) < 11" and x: "unat (src_reg i) < 11"
    and sel: "select_insn (insn_code i) = Some (L_ALU c op x)" "jit_exact (L_ALU c op x) (insn_imm i)"
    and step: "exec_label (L_ALU c op x) i i1 b = BCont b'" and jit: "jit_insn i i1 k offset = JOk ret ws"
  shows "runs ws r b'" "ret = 0" "ws \<noteq> []"
proof -
  obtain rd rs where ir: "init_regs i = Some (rd, rs)" "rd = regmap ! unat (dst_reg i)"
      "x = SrcX \<longrightarrow> rs = regmap ! unat (src_reg i)"
    using init_regs_ok [OF sel(1) d x] by auto
  note is64 = select_insn_class [OF sel(1)] label_is64_def [of "L_ALU c op x", symmetric, simplified]
  have gd: "gpr_ref r (ucast rd) = DST i b" using sim_gpr [OF s d] ir(2) by (simp add: DST_def)
  have gs: "x = SrcX \<longrightarrow> gpr_ref r (ucast rs) = SRC i b" using sim_gpr [OF s x] ir(3) by (simp add: SRC_def)
  have ws: "ret = 0" "ws = (case x of SrcX \<Rightarrow> emit_alu_x op (c = C_ALU64) rd rs | SrcK \<Rightarrow> emit_alu_k op (c = C_ALU64) rd (insn_imm i))"
    using jit ir(1) sel(1) is64 by (cases x; simp add: jit_insn_def Let_def)+
  show "ret = 0" by (rule ws)
  show "ws \<noteq> []" unfolding ws(2) by (cases x; cases op) auto
  note rf = reg_facts [OF d, folded ir(2)]
  show "runs ws r b'"
  proof (cases c)
    case C_ALU64
    obtain v where v: "alu64 op (DST i b) (operand64 x i b) = Some v" "CONT (set_DST i v b) = BCont b'"
      using step C_ALU64 by (auto simp: ALU_def split: option.splits)
    have "writes ws r rd v"
    proof (cases x)
      case SrcX
      then show ?thesis
        using emit_alu_x_64 [OF rf(1,2), of rs op r v] v(1) gd gs ir(3) reg_facts [OF x] ws(2) C_ALU64
        by (simp add: operand64_def)
    next
      case SrcK
      then show ?thesis
        using emit_alu_k_64 [OF rf(6), of op r "insn_imm i" v] v(1) gd ws(2) C_ALU64
        by (simp add: operand64_def IMM_def)
    qed
    then show ?thesis
      using writes_step [OF _ s d v(2)] ir(2) by simp
  next
    case C_ALU
    obtain v where v: "alu32 op (ucast (DST i b)) (operand32 x i b) = Some v" "CONT (set_DST i (ucast v) b) = BCont b'"
      using step C_ALU by (auto simp: ALU_def split: option.splits)
    have "writes ws r rd (ucast v)"
    proof (cases x)
      case SrcX
      then show ?thesis
        using emit_alu_x_32 [OF rf(1,2), of rs op r v] v(1) gd gs ir(3) reg_facts [OF x] ws(2) C_ALU sel(2)
        by (simp add: operand32_def)
    next
      case SrcK
      then show ?thesis
        using emit_alu_k_32 [OF rf(6), of op r "insn_imm i" v] v(1) gd ws(2) C_ALU sel(2)
        by (simp add: operand32_def)
    qed
    then show ?thesis
      using writes_step [OF _ s d v(2)] ir(2) by simp
  qed
qed

text \<open>The other instructions that write a register, each with the words it compiles to.\<close>

definition jit_words :: "label \<Rightarrow> bpf_insn \<Rightarrow> u8 \<Rightarrow> u8 \<Rightarrow> u32 list" where
  "jit_words l i rd rs =
     (case l of
        L_MOV c SrcX \<Rightarrow> emit_mov_x (c = C_ALU64) rd rs
      | L_MOV c SrcK \<Rightarrow> emit_mov_k (c = C_ALU64) rd (insn_imm i)
      | L_DIV c SrcX \<Rightarrow> emit_div_x (c = C_ALU64) rd rs
      | L_DIV c SrcK \<Rightarrow> emit_div_k (c = C_ALU64) rd (insn_imm i)
      | L_MOD c SrcX \<Rightarrow> emit_mod_x (c = C_ALU64) rd rs
      | L_MOD c SrcK \<Rightarrow> emit_mod_k (c = C_ALU64) rd (insn_imm i)
      | L_ARSH c SrcX \<Rightarrow> emit_arsh_x (c = C_ALU64) rd rs
      | L_ARSH c SrcK \<Rightarrow> emit_arsh_k (c = C_ALU64) rd (insn_imm i)
      | L_NEG c \<Rightarrow> emit_neg (c = C_ALU64) rd
      | L_END_TO_LE \<Rightarrow> emit_from_le rd (insn_imm i)
      | L_END_TO_BE \<Rightarrow> emit_from_be rd (insn_imm i)
      | L_LDX_MEM z \<Rightarrow> emit_ldx z rd rs (insn_off i)
      | L_ST_MEM z \<Rightarrow> emit_st z rd (insn_off i) (insn_imm i)
      | L_STX_MEM z \<Rightarrow> emit_stx z rd rs (insn_off i)
      | _ \<Rightarrow> [])"

fun plain_label :: "label \<Rightarrow> bool" where
  "plain_label (L_MOV c x) = True"
| "plain_label (L_DIV c x) = True"
| "plain_label (L_MOD c x) = True"
| "plain_label (L_ARSH c x) = True"
| "plain_label (L_NEG c) = True"
| "plain_label L_END_TO_LE = True"
| "plain_label L_END_TO_BE = True"
| "plain_label (L_LDX_MEM z) = True"
| "plain_label (L_ST_MEM z) = True"
| "plain_label (L_STX_MEM z) = True"
| "plain_label _ = False"

lemma jit_insn_plain:
  assumes "select_insn (insn_code i) = Some l" "plain_label l" "init_regs i = Some (rd, rs)"
  shows "jit_insn i i1 k offset = JOk 0 (jit_words l i rd rs)"
  using assms select_insn_class [OF assms(1)] label_is64_def [of l, symmetric]
  by (cases l) (auto simp: jit_insn_def Let_def jit_words_def split: bpf_src.splits)

lemma jit_setup:
  assumes "sim b r" "unat (dst_reg i) < 11" "unat (src_reg i) < 11"
    "select_insn (insn_code i) = Some l" "uses_dst l"
  obtains rd rs where "init_regs i = Some (rd, rs)" "rd = regmap ! unat (dst_reg i)"
    "gpr_ref r (ucast rd) = DST i b"
    "uses_src l \<Longrightarrow> rs = regmap ! unat (src_reg i)" "uses_src l \<Longrightarrow> gpr_ref r (ucast rs) = SRC i b"
proof -
  obtain rd rs where ir: "init_regs i = Some (rd, rs)"
      "uses_dst l \<Longrightarrow> rd = regmap ! unat (dst_reg i)" "uses_src l \<Longrightarrow> rs = regmap ! unat (src_reg i)"
    using init_regs_ok [OF assms(4,2,3)] by blast
  show thesis
    by (rule that [of rd rs]) (use ir assms sim_gpr [OF assms(1)] in \<open>auto simp: DST_def SRC_def\<close>)
qed

lemma jit_mov_ok:
  assumes "sim b r" "unat (dst_reg i) < 11" "unat (src_reg i) < 11"
    "select_insn (insn_code i) = Some (L_MOV c x)" "exec_label (L_MOV c x) i i1 b = BCont b'"
    "jit_insn i i1 k offset = JOk ret ws"
  shows "runs ws r b'"
proof -
  obtain rd rs where ir: "init_regs i = Some (rd, rs)" "rd = regmap ! unat (dst_reg i)"
      "gpr_ref r (ucast rd) = DST i b"
      "x = SrcX \<Longrightarrow> rs = regmap ! unat (src_reg i)" "x = SrcX \<Longrightarrow> gpr_ref r (ucast rs) = SRC i b"
    using jit_setup [OF assms(1-4)] by auto
  have ws: "ws = jit_words (L_MOV c x) i rd rs"
    using jit_insn_plain [OF assms(4) _ ir(1), of i1 k offset] assms(6) by simp
  note rf = reg_facts [OF assms(2), folded ir(2)] reg_facts [OF assms(3)]
  have "writes ws r rd (case c of C_ALU \<Rightarrow> ucast (operand32 x i b) | C_ALU64 \<Rightarrow> operand64 x i b)"
    unfolding ws jit_words_def operand32_def operand64_def IMM_def
    using ir(4,5) rf emit_mov_x_64 [of rd rs r] emit_mov_x_32 [of rd rs r] emit_mov_k_64 [of rd "insn_imm i" r]
      emit_mov_k_32 [of rd "insn_imm i" r]
    by (cases c; cases x) simp_all
  then show ?thesis
    using writes_step [OF _ assms(1,2), of ws] assms(5) ir(2) by (cases c) (auto simp: ALU_MOV_def)
qed

lemma jit_div_ok:
  assumes "sim b r" "unat (dst_reg i) < 11" "unat (src_reg i) < 11"
    "select_insn (insn_code i) = Some (L_DIV c x)" "exec_label (L_DIV c x) i i1 b = BCont b'"
    "jit_insn i i1 k offset = JOk ret ws"
  shows "runs ws r b'"
proof -
  obtain rd rs where ir: "init_regs i = Some (rd, rs)" "rd = regmap ! unat (dst_reg i)"
      "gpr_ref r (ucast rd) = DST i b"
      "x = SrcX \<Longrightarrow> rs = regmap ! unat (src_reg i)" "x = SrcX \<Longrightarrow> gpr_ref r (ucast rs) = SRC i b"
    using jit_setup [OF assms(1-4)] by auto
  have ws: "ws = jit_words (L_DIV c x) i rd rs"
    using jit_insn_plain [OF assms(4) _ ir(1), of i1 k offset] assms(6) by simp
  note rf = reg_facts [OF assms(2), folded ir(2)] reg_facts [OF assms(3)]
  show ?thesis
  proof (cases c)
    case C_ALU64
    then have nz: "operand64 x i b \<noteq> 0"
      using assms(5) by (auto simp: ALU_DIV_def split: if_splits)
    have "writes ws r rd (DST i b div operand64 x i b)"
      unfolding ws jit_words_def operand64_def IMM_def
      using ir(3-5) rf nz C_ALU64 emit_div_mod_x_64(1) [of rd rs r] emit_div_mod_k_64(1) [of rd "insn_imm i" r]
      by (cases x) (simp_all add: operand64_def IMM_def)
    then show ?thesis
      using writes_step [OF _ assms(1,2), of ws] assms(5) ir(2) C_ALU64 nz
      by (auto simp: ALU_DIV_def div64_u64_def)
  next
    case C_ALU
    define b1 where "b1 = set_reg BPF_REG_AX (ucast (ucast (DST i b) :: u32)) b"
    define base where "base = operand32 x i b"
    have op: "operand32 x i b1 = base" by (simp add: b1_def base_def operand_AX assms(3))
    have nz: "base \<noteq> 0"
      using assms(5) C_ALU by (auto simp: ALU_DIV_def Let_def b1_def [symmetric] op split: if_splits)
    define b2 where "b2 = set_reg BPF_REG_AX (ucast ((ucast (DST i b) :: u32) div base)) b1"
    have b': "BCont b' = CONT (set_DST i (ucast ((ucast (DST i b) :: u32) div base)) b2)"
    proof -
      have "AX b1 = ucast (ucast (DST i b) :: u32)" by (simp add: b1_def)
      then show ?thesis
        using assms(5) C_ALU nz
        by (simp add: ALU_DIV_def Let_def b1_def [symmetric] op do_div_def ucast_div_mod b2_def)
    qed
    have "sim b2 r" unfolding b2_def b1_def by (intro sim_AX assms(1))
    moreover have "writes ws r rd (ucast ((ucast (DST i b) :: u32) div base))"
      unfolding ws jit_words_def
      using ir(3-5) rf nz C_ALU emit_div_mod_x_32(1) [of rd rs r] emit_div_mod_k_32(1) [of rd "insn_imm i" r]
      by (cases x) (simp_all add: base_def operand32_def)
    ultimately show ?thesis
      using writes_step [OF _ _ assms(2), of ws r _ b2] b' ir(2) by simp
  qed
qed

lemma jit_mod_ok:
  assumes "sim b r" "unat (dst_reg i) < 11" "unat (src_reg i) < 11"
    "select_insn (insn_code i) = Some (L_MOD c x)" "exec_label (L_MOD c x) i i1 b = BCont b'"
    "jit_insn i i1 k offset = JOk ret ws"
  shows "runs ws r b'"
proof -
  obtain rd rs where ir: "init_regs i = Some (rd, rs)" "rd = regmap ! unat (dst_reg i)"
      "gpr_ref r (ucast rd) = DST i b"
      "x = SrcX \<Longrightarrow> rs = regmap ! unat (src_reg i)" "x = SrcX \<Longrightarrow> gpr_ref r (ucast rs) = SRC i b"
    using jit_setup [OF assms(1-4)] by auto
  have ws: "ws = jit_words (L_MOD c x) i rd rs"
    using jit_insn_plain [OF assms(4) _ ir(1), of i1 k offset] assms(6) by simp
  note rf = reg_facts [OF assms(2), folded ir(2)] reg_facts [OF assms(3)]
  show ?thesis
  proof (cases c)
    case C_ALU64
    then have nz: "operand64 x i b \<noteq> 0"
      using assms(5) by (auto simp: ALU_MOD_def split: if_splits)
    have "writes ws r rd (DST i b mod operand64 x i b)"
      unfolding ws jit_words_def operand64_def IMM_def
      using ir(3-5) rf nz C_ALU64 emit_div_mod_x_64(2) [of rd rs r] emit_div_mod_k_64(2) [of rd "insn_imm i" r]
      by (cases x) (simp_all add: operand64_def IMM_def)
    moreover have "sim (set_reg BPF_REG_AX (DST i b mod operand64 x i b) b) r"
      by (rule sim_AX [OF assms(1)])
    ultimately show ?thesis
      using writes_step [OF _ _ assms(2), of ws r _ "set_reg BPF_REG_AX (DST i b mod operand64 x i b) b"] assms(5) ir(2) C_ALU64 nz
      by (auto simp: ALU_MOD_def div64_u64_rem_def Let_def)
  next
    case C_ALU
    define b1 where "b1 = set_reg BPF_REG_AX (ucast (ucast (DST i b) :: u32)) b"
    define base where "base = operand32 x i b"
    have op: "operand32 x i b1 = base" by (simp add: b1_def base_def operand_AX assms(3))
    have nz: "base \<noteq> 0"
      using assms(5) C_ALU by (auto simp: ALU_MOD_def Let_def b1_def [symmetric] op split: if_splits)
    define b2 where "b2 = set_reg BPF_REG_AX (ucast ((ucast (DST i b) :: u32) div base)) b1"
    have b': "BCont b' = CONT (set_DST i (ucast ((ucast (DST i b) :: u32) mod base)) b2)"
    proof -
      have "AX b1 = ucast (ucast (DST i b) :: u32)" by (simp add: b1_def)
      then show ?thesis
        using assms(5) C_ALU nz
        by (simp add: ALU_MOD_def Let_def b1_def [symmetric] op do_div_def ucast_div_mod b2_def)
    qed
    have "sim b2 r" unfolding b2_def b1_def by (intro sim_AX assms(1))
    moreover have "writes ws r rd (ucast ((ucast (DST i b) :: u32) mod base))"
      unfolding ws jit_words_def
      using ir(3-5) rf nz C_ALU emit_div_mod_x_32(2) [of rd rs r] emit_div_mod_k_32(2) [of rd "insn_imm i" r]
      by (cases x) (simp_all add: base_def operand32_def)
    ultimately show ?thesis
      using writes_step [OF _ _ assms(2), of ws r _ b2] b' ir(2) by simp
  qed
qed

lemma jit_shift_neg_ok:
  assumes "sim b r" "unat (dst_reg i) < 11" "unat (src_reg i) < 11"
    "select_insn (insn_code i) = Some l" "l = L_ARSH C_ALU64 x \<or> l = L_NEG C_ALU64"
    "exec_label l i i1 b = BCont b'" "jit_insn i i1 k offset = JOk ret ws"
  shows "runs ws r b'"
proof -
  have u: "uses_dst l" "plain_label l" using assms(5) by auto
  obtain rd rs where ir: "init_regs i = Some (rd, rs)" "rd = regmap ! unat (dst_reg i)"
      "gpr_ref r (ucast rd) = DST i b"
      "uses_src l \<Longrightarrow> rs = regmap ! unat (src_reg i)" "uses_src l \<Longrightarrow> gpr_ref r (ucast rs) = SRC i b"
    using jit_setup [OF assms(1-4) u(1)] by blast
  have ws: "ws = jit_words l i rd rs"
    using jit_insn_plain [OF assms(4) u(2) ir(1), of i1 k offset] assms(7) by simp
  note rf = reg_facts [OF assms(2), folded ir(2)] reg_facts [OF assms(3)]
  show ?thesis
    using assms(5)
  proof
    assume l: "l = L_NEG C_ALU64"
    then have "writes ws r rd (- DST i b)"
      unfolding ws using emit_neg_64 [OF rf(1), of r] ir(3) by (simp add: jit_words_def)
    then show ?thesis
      using writes_step [OF _ assms(1,2), of ws] assms(6) ir(2) l by (simp add: ALU_NEG_def)
  next
    assume l: "l = L_ARSH C_ALU64 x"
    define n where "n = operand64 x i b"
    have n: "n < 64" using assms(6) l by (auto simp: ALU_ARSH_def Let_def n_def split: if_splits)
    have "writes ws r rd (signed_drop_bit (unat n) (DST i b))"
      unfolding ws using emit_arsh_x_64 [of rd rs r] emit_arsh_k_64 [OF rf(1), of "insn_imm i" r] ir(3-5) n rf l
      by (cases x) (simp_all add: jit_words_def n_def operand64_def IMM_def)
    then show ?thesis
      using writes_step [OF _ assms(1,2), of ws] assms(6) ir(2) l n by (simp add: ALU_ARSH_def Let_def n_def)
  qed
qed

lemma jit_end_ok:
  assumes "sim b r" "unat (dst_reg i) < 11" "unat (src_reg i) < 11"
    "select_insn (insn_code i) = Some l" "l = L_END_TO_BE \<or> l = L_END_TO_LE"
    "insn_imm i = 16 \<or> insn_imm i = 32 \<or> insn_imm i = 64"
    "exec_label l i i1 b = BCont b'" "jit_insn i i1 k offset = JOk ret ws"
  shows "runs ws r b'"
proof -
  have u: "uses_dst l" "plain_label l" using assms(5) by auto
  obtain rd rs where ir: "init_regs i = Some (rd, rs)" "rd = regmap ! unat (dst_reg i)"
      "gpr_ref r (ucast rd) = DST i b"
      "uses_src l \<Longrightarrow> rs = regmap ! unat (src_reg i)" "uses_src l \<Longrightarrow> gpr_ref r (ucast rs) = SRC i b"
    using jit_setup [OF assms(1-4) u(1)] by blast
  have ws: "ws = jit_words l i rd rs"
    using jit_insn_plain [OF assms(4) u(2) ir(1), of i1 k offset] assms(8) by simp
  note rf = reg_facts [OF assms(2), folded ir(2)]
  note ok = emit_from_le_ok [OF rf(1,2), of r] emit_from_be_ok [OF rf(7), of r]
  from assms(5) show ?thesis
  proof
    assume l: "l = L_END_TO_BE"
    show ?thesis
      using assms(6,7) ok ir(3) l
      by (elim disjE) (auto intro!: writes_step [OF _ assms(1,2)] simp: ws jit_words_def ALU_END_TO_BE_def ir(2) [symmetric])
  next
    assume l: "l = L_END_TO_LE"
    show ?thesis
      using assms(6,7) ok ir(3) l
      by (elim disjE) (auto intro!: writes_step [OF _ assms(1,2)] simp: ws jit_words_def ALU_END_TO_LE_def ir(2) [symmetric])
  qed
qed

lemma jit_mem_ok:
  assumes "sim b r" "unat (dst_reg i) < 11" "unat (src_reg i) < 11"
    "select_insn (insn_code i) = Some l" "l = L_LDX_MEM z \<or> l = L_ST_MEM z \<or> l = L_STX_MEM z"
    "exec_label l i i1 b = BCont b'" "jit_insn i i1 k offset = JOk ret ws"
  shows "runs ws r b'"
proof -
  have u: "uses_dst l" "plain_label l" using assms(5) by auto
  obtain rd rs where ir: "init_regs i = Some (rd, rs)" "rd = regmap ! unat (dst_reg i)"
      "gpr_ref r (ucast rd) = DST i b"
      "uses_src l \<Longrightarrow> rs = regmap ! unat (src_reg i)" "uses_src l \<Longrightarrow> gpr_ref r (ucast rs) = SRC i b"
    using jit_setup [OF assms(1-4) u(1)] by blast
  have ws: "ws = jit_words l i rd rs"
    using jit_insn_plain [OF assms(4) u(2) ir(1), of i1 k offset] assms(7) by simp
  note rf = reg_facts [OF assms(2), folded ir(2)]
  note rs = reg_facts [OF assms(3)]
  have m: "rmem r = bmem b" using assms(1) by (simp add: sim_def)
  from assms(5) show ?thesis
  proof (elim disjE)
    assume l: "l = L_LDX_MEM z"
    obtain v where v: "load_bytes (size_bytes z) (bmem b) (SRC i b + OFF i) = Some v" "CONT (set_DST i v b) = BCont b'"
      using assms(6) l by (auto simp: LDX_MEM_def split: option.splits)
    have "writes ws r rd v"
      unfolding ws using emit_ldx_ok [of rd rs z r "insn_off i" v] ir rf rs v(1) m l
      by (simp add: jit_words_def OFF_def add.commute)
    then show ?thesis using writes_step [OF _ assms(1,2) v(2)] ir(2) by simp
  next
    assume l: "l = L_ST_MEM z"
    obtain m' where v: "store_bytes (size_bytes z) (IMM i) (DST i b + OFF i) (bmem b) = Some m'" "CONT (b\<lparr>bmem := m'\<rparr>) = BCont b'"
      using assms(6) l by (auto simp: ST_MEM_def split: option.splits)
    have "stores ws r m'"
      unfolding ws using emit_st_ok [of rd z "insn_imm i" "insn_off i" r m'] ir rf v(1) m l
      by (simp add: jit_words_def OFF_def IMM_def add.commute)
    from stores_runs [OF this assms(1)] v(2) show ?thesis by (auto simp: runs_def CONT_def)
  next
    assume l: "l = L_STX_MEM z"
    obtain m' where v: "store_bytes (size_bytes z) (SRC i b) (DST i b + OFF i) (bmem b) = Some m'" "CONT (b\<lparr>bmem := m'\<rparr>) = BCont b'"
      using assms(6) l by (auto simp: STX_MEM_def split: option.splits)
    have "stores ws r m'"
      unfolding ws using emit_stx_ok [of rd rs z r "insn_off i" m'] ir rf rs v(1) m l
      by (simp add: jit_words_def OFF_def add.commute)
    from stores_runs [OF this assms(1)] v(2) show ?thesis by (auto simp: runs_def CONT_def)
  qed
qed

lemma jit_ld_imm_ok:
  assumes "sim b r" "unat (dst_reg i) < 11" "unat (src_reg i) < 11"
    "select_insn (insn_code i) = Some L_LD_IMM_DW" "exec_label L_LD_IMM_DW i i1 b = BCont b'"
    "jit_insn i i1 k offset = JOk ret ws"
  shows "runs ws r b'" "ret = 1"
proof -
  obtain j where j: "i1 = Some j" using assms(5) by (auto simp: LD_IMM_DW_def split: option.splits)
  obtain rd rs where ir: "init_regs i = Some (rd, rs)" "rd = regmap ! unat (dst_reg i)"
    using init_regs_ok [OF assms(4,2,3)] by (metis uses_dst.simps(7))
  have ws: "ret = 1" "ws = emit_ld_imm_dw rd (insn_imm i) (insn_imm j)"
    using assms(4,6) ir(1) j by (simp_all add: jit_insn_def Let_def)
  show "ret = 1" by (rule ws)
  note rf = reg_facts [OF assms(2), folded ir(2)]
  have "writes ws r rd (ucast (insn_imm i) OR push_bit 32 (ucast (insn_imm j)))"
    unfolding ws by (rule emit_ld_imm_dw_ok [OF rf(1,2)])
  from writes_runs [OF this [unfolded ir(2)] assms(1,2)] show "runs ws r b'"
    using assms(5) j by (auto simp: LD_IMM_DW_def Let_def runs_def CONT_def set_DST_def)
qed

lemma even_sint: "even (sint w) \<longleftrightarrow> \<not> bit (w :: u32) 0"
  by (metis bit_0 bit_sint_iff even_iff_mod_2_eq_zero len_gt_0 linorder_not_less bit_imp_le_length)

lemma rv_offset_even: "rv_offset t f offset = Some rvoff \<Longrightarrow> even (sint rvoff)"
  by (auto simp: rv_offset_def Let_def even_sint bit_push_bit_iff split: if_splits)

lemma exec_jal:
  "exec_word (rv_jal RV_REG_ZERO t) r = Some (r\<lparr>rpc := rpc r + push_bit 1 (scast (ucast t :: 20 word))\<rparr>)"
  by (simp add: exec_simps jump_and_link_def gpr_set_def)

lemma jit_ja_ok:
  assumes "sim b r" "jit_ja off k offset = JOk ret ws"
  obtains rvoff r' where "rv_offset (k + sint off) k offset = Some rvoff" "is_21b_int (scast rvoff)" "ret = 0"
    "exec_block ws r = Some r'" "sim b r'" "rpc r' = rpc r + 4 * word_of_nat (length ws - 1) + scast rvoff"
proof -
  obtain rvoff where o: "rv_offset (k + sint off) k offset = Some rvoff" "is_21b_int (scast rvoff)"
      "ret = 0" "ws = [rv_jal RV_REG_ZERO (signed_drop_bit 1 rvoff)]"
    using assms(2) by (auto simp: jit_ja_def split: option.splits if_splits)
  have "exec_block ws r = Some (r\<lparr>rpc := rpc r + scast rvoff\<rparr>)"
    using jal_target [OF o(2) rv_offset_even [OF o(1)]] o(4) exec_jal by (simp add: exec_singleton del: exec_block.simps)
  then show thesis
    by (rule that [OF o(1-3)]) (use assms(1) o(4) in simp_all)
qed

lemma is_13b_21b: "is_13b_int v \<Longrightarrow> is_21b_int v"
  by (simp add: is_13b_int_iff is_21b_int_iff)

lemma emit_jmp_nonempty: "emit_jmp_x op w rd rs off \<noteq> []" "emit_jmp_k op w rd imm off \<noteq> []"
  by (cases op; simp add: emit_jmp_x_def emit_jmp_k_def split_beta)+

lemma jit_cond_ok:
  assumes "sim b r" "unat (dst_reg i) < 11" "unat (src_reg i) < 11"
    "select_insn (insn_code i) = Some (L_COND_JMP c op x)" "exec_label (L_COND_JMP c op x) i i1 b = BCont b'"
    "jit_insn i i1 k offset = JOk ret ws"
  obtains rvoff r' where "rv_offset (k + sint (insn_off i)) k offset = Some rvoff" "is_21b_int (scast rvoff)" "ret = 0"
    "exec_block ws r = Some r'" "sim b' r'"
    "(bpc b' = bpc b + 1 \<and> rpc r' = rpc r + 4 * word_of_nat (length ws)) \<or>
     (bpc b' = bpc b + 1 + sint (insn_off i) \<and> rpc r' = rpc r + 4 * word_of_nat (length ws - 1) + scast rvoff)"
proof -
  let ?l = "L_COND_JMP c op x"
  obtain rd rs where ir: "init_regs i = Some (rd, rs)" "rd = regmap ! unat (dst_reg i)"
      "gpr_ref r (ucast rd) = DST i b"
      "x = SrcX \<Longrightarrow> rs = regmap ! unat (src_reg i)" "x = SrcX \<Longrightarrow> gpr_ref r (ucast rs) = SRC i b"
    using jit_setup [OF assms(1-4)] by auto
  note is64 = select_insn_class [OF assms(4)] label_is64_def [of ?l, symmetric, simplified]
  define code where "code = (case x of SrcX \<Rightarrow> emit_jmp_x op (c = C_JMP) rd rs | SrcK \<Rightarrow> emit_jmp_k op (c = C_JMP) rd (insn_imm i))"
  have "jit_cond (insn_off i) k offset code = JOk ret ws"
    using assms(4,6) ir(1) is64 by (cases x) (simp_all add: jit_insn_def Let_def code_def)
  then obtain rvoff where o: "rv_offset (k + sint (insn_off i)) k offset = Some rvoff"
      "is_13b_int (scast rvoff)" "ret = 0" "ws = code rvoff"
    by (auto simp: jit_cond_def rv_offset_check_def is_13b_check_def split: option.splits if_splits)
  note rf = reg_facts [OF assms(2), folded ir(2)] and rs = reg_facts [OF assms(3)]
  define taken where "taken = (case c of C_JMP \<Rightarrow> cmp_op op (DST i b) (operand64 x i b)
      | C_JMP32 \<Rightarrow> cmp_op op (ucast (DST i b) :: u32) (operand32 x i b))"
  note e = rv_offset_even [OF o(1)]
  have "branches ws r taken (scast rvoff)"
    using emit_jmp_x_64 [OF rf(8) _ o(2) e, of rs op r] emit_jmp_x_32 [OF rf(8) _ o(2) e, of rs op r]
      emit_jmp_k_64 [OF rf(8) o(2) e, of op "insn_imm i" r] emit_jmp_k_32 [OF rf(8) o(2) e, of op "insn_imm i" r]
      ir rs o(4)
    by (cases c; cases x)
      (simp_all add: taken_def code_def operand64_def operand32_def IMM_def cmp32_def)
  moreover have "ws \<noteq> []"
    unfolding o(4) code_def using emit_jmp_nonempty by (cases x) simp_all
  ultimately obtain r' where r': "exec_block ws r = Some r'" "sim b r'"
      "rpc r' = (if taken then rpc r + 4 * word_of_nat (length ws - 1) + scast rvoff else rpc r + 4 * word_of_nat (length ws))"
    using sim_branch [OF _ assms(1)] by blast
  have b': "b' = (if taken then (jump_off i b)\<lparr>bpc := bpc (jump_off i b) + 1\<rparr> else b\<lparr>bpc := bpc b + 1\<rparr>)"
    using assms(5) by (auto simp: COND_JMP_def taken_def CONT_def split: if_splits)
  show thesis
    by (rule that [OF o(1) is_13b_21b [OF o(2)] o(3) r'(1)])
      (use r'(2,3) b' in \<open>auto simp: jump_off_def\<close>)
qed

section \<open>Programs\<close>

definition rv_next :: "(u64 \<Rightarrow> u32 option) \<Rightarrow> rcpu \<Rightarrow> rcpu \<Rightarrow> bool" where
  "rv_next img r r' = (rv_step img r = Some r')"

definition loaded :: "(u64 \<Rightarrow> u32 option) \<Rightarrow> u64 \<Rightarrow> u32 list \<Rightarrow> bool" where
  "loaded img pc ws = (\<forall>j < length ws. img (pc + 4 * word_of_nat j) = Some (ws ! j))"

lemma exec_block_steps:
  "exec_block ws r = Some r' \<Longrightarrow> loaded img (rpc r) ws \<Longrightarrow> (rv_next img)\<^sup>*\<^sup>* r r'"
proof (induction ws arbitrary: r)
  case (Cons w ws)
  obtain c where c: "exec_word w r = Some c" "ws = [] \<or> rpc c = rpc r + 4" "exec_block ws c = Some r'"
    using Cons.prems(1) by (auto split: option.splits if_splits)
  have "img (rpc r) = Some w"
    using Cons.prems(2) by (auto simp: loaded_def dest: spec [of _ 0])
  then have n: "rv_next img r c"
    using c(1) by (simp add: rv_next_def rv_step_def exec_word_def split: option.splits)
  have "loaded img (rpc c) ws"
  proof (cases "ws = []")
    case False
    then have p: "rpc c = rpc r + 4" using c(2) by simp
    show ?thesis
      unfolding loaded_def
    proof (intro allI impI)
      fix j assume "j < length ws"
      then have "img (rpc r + 4 * word_of_nat (Suc j)) = Some ((w # ws) ! Suc j)"
        using Cons.prems(2) unfolding loaded_def by (metis Suc_less_eq length_Cons)
      then show "img (rpc c + 4 * word_of_nat j) = Some (ws ! j)"
        by (simp add: p algebra_simps)
    qed
  qed (simp add: loaded_def)
  from Cons.IH [OF c(3) this] n show ?case by (meson converse_rtranclp_into_rtranclp)
qed simp

definition jit_start :: "u32 list \<Rightarrow> nat \<Rightarrow> nat" where
  "jit_start offset k = (if k = 0 then 0 else unat (offset ! (k - 1)))"

definition jit_addr :: "u64 \<Rightarrow> u32 list \<Rightarrow> int \<Rightarrow> u64" where
  "jit_addr base offset pc = base + 4 * word_of_nat (jit_start offset (nat pc))"

definition exact_insn :: "bpf_insn \<Rightarrow> bool" where
  "exact_insn i =
     (case select_insn (insn_code i) of
        None \<Rightarrow> True
      | Some l \<Rightarrow> l = L_EXIT \<or> (jit_exact l (insn_imm i) \<and> unat (dst_reg i) < 11 \<and> unat (src_reg i) < 11))"

definition placed :: "bpf_insn list \<Rightarrow> u32 list \<Rightarrow> (u64 \<Rightarrow> u32 option) \<Rightarrow> u64 \<Rightarrow> nat \<Rightarrow> bool" where
  "placed prog offset img base k =
     (case jit_insn (prog ! k) (insn_at prog (int k + 1)) (int k) offset of
        JOk ret ws \<Rightarrow>
          unat (offset ! k) = jit_start offset k + length ws \<and>
          (ret = 1 \<longrightarrow> Suc k < length prog \<and> offset ! Suc k = offset ! k) \<and>
          loaded img (jit_addr base offset (int k)) ws
      | _ \<Rightarrow> select_insn (insn_code (prog ! k)) \<in> {None, Some L_EXIT})"

definition compiled :: "bpf_insn list \<Rightarrow> u32 list \<Rightarrow> (u64 \<Rightarrow> u32 option) \<Rightarrow> u64 \<Rightarrow> bool" where
  "compiled prog offset img base =
     (length offset = length prog \<and>
      (\<forall>k < length prog. unat (offset ! k) < 2 ^ 28 \<and> placed prog offset img base k))"

definition jit_rel :: "bpf_insn list \<Rightarrow> u32 list \<Rightarrow> (u64 \<Rightarrow> u32 option) \<Rightarrow> u64 \<Rightarrow> bpf_state \<Rightarrow> rcpu \<Rightarrow> bool" where
  "jit_rel prog offset img base b r =
     (list_all exact_insn prog \<and> compiled prog offset img base \<and>
      sim b r \<and> rpc r = jit_addr base offset (bpc b))"

lemma rv_offset_value:
  assumes "rv_offset t f offset = Some rvoff" "unat (offset ! nat t) < 2 ^ 28" "unat (offset ! nat f) < 2 ^ 28"
  shows "(scast rvoff :: u64) = 4 * (word_of_nat (unat (offset ! nat t)) - word_of_nat (unat (offset ! nat f)) + 1)"
    "0 \<le> t" "nat t < length offset"
proof -
  define A B where "A = unat (offset ! nat t)" and "B = unat (offset ! nat f)"
  have o: "offset ! nat t = word_of_int (int A)" "offset ! nat f = word_of_int (int B)"
    by (simp_all add: A_def B_def)
  have AB: "A < 2 ^ 28" "B < 2 ^ 28" using assms(2,3) by (simp_all add: A_def B_def)
  define d where "d = 4 * (int A - int B + 1)"
  show "0 \<le> t" "nat t < length offset"
    using assms(1) by (auto simp: rv_offset_def split: if_splits)
  have "rvoff = push_bit 2 (offset ! nat t - (offset ! nat f - 1))"
    using assms(1) by (auto simp: rv_offset_def Let_def split: if_splits)
  also have "\<dots> = word_of_int d"
    unfolding o d_def by (simp add: push_bit_eq_mult algebra_simps)
  finally have "rvoff = word_of_int d" .
  moreover have "- (2 ^ 31) \<le> d" "d < 2 ^ 31"
    using AB by (simp_all add: d_def)
  ultimately have "sint rvoff = d"
    by (simp add: signed_of_int signed_take_bit_int_eq_self)
  then have "(scast rvoff :: u64) = word_of_int d" by (simp add: scast_word_of_int)
  then show "(scast rvoff :: u64) = 4 * (word_of_nat (unat (offset ! nat t)) - word_of_nat (unat (offset ! nat f)) + 1)"
    by (simp add: d_def A_def B_def algebra_simps)
qed

definition jump_outcome :: "bpf_insn \<Rightarrow> int \<Rightarrow> u32 list \<Rightarrow> int \<Rightarrow> u32 list \<Rightarrow> bpf_state \<Rightarrow> rcpu \<Rightarrow> bpf_state \<Rightarrow> rcpu \<Rightarrow> bool" where
  "jump_outcome i k offset ret ws b r b' r' =
     ((bpc b' = bpc b + 1 + ret \<and> rpc r' = rpc r + 4 * word_of_nat (length ws)) \<or>
      (\<exists>rvoff. rv_offset (k + sint (insn_off i)) k offset = Some rvoff \<and> ret = 0 \<and> ws \<noteq> [] \<and>
        bpc b' = bpc b + 1 + sint (insn_off i) \<and>
        rpc r' = rpc r + 4 * word_of_nat (length ws - 1) + scast rvoff))"

lemma jit_jump_sim:
  assumes "sim b r" "unat (dst_reg i) < 11" "unat (src_reg i) < 11"
    "select_insn (insn_code i) = Some l" "is_jump l"
    "exec_label l i i1 b = BCont b'" "jit_insn i i1 k offset = JOk ret ws"
  shows "\<exists>r'. exec_block ws r = Some r' \<and> sim b' r' \<and> jump_outcome i k offset ret ws b r b' r'"
proof (cases l)
  case L_JA
  obtain rd rs where "init_regs i = Some (rd, rs)"
    using init_regs_ok [OF assms(4,2,3)] by blast
  then have j: "jit_ja (insn_off i) k offset = JOk ret ws"
    using assms(4,7) L_JA by (simp add: jit_insn_def Let_def)
  then have ne: "ws \<noteq> []"
    by (auto simp: jit_ja_def split: option.splits if_splits)
  have b': "b' = b\<lparr>bpc := bpc b + sint (insn_off i) + 1\<rparr>"
    using assms(6) L_JA by (simp add: jump_off_def CONT_def)
  obtain rvoff r' where o: "rv_offset (k + sint (insn_off i)) k offset = Some rvoff" "ret = 0"
      "exec_block ws r = Some r'" "sim b r'" "rpc r' = rpc r + 4 * word_of_nat (length ws - 1) + scast rvoff"
    using jit_ja_ok [OF assms(1) j] by blast
  have "jump_outcome i k offset ret ws b r b' r'"
    unfolding jump_outcome_def using o ne b' by simp
  with o b' show ?thesis by auto
next
  case (L_COND_JMP c op x)
  have "ws \<noteq> []"
  proof -
    obtain rd rs where "init_regs i = Some (rd, rs)"
      using init_regs_ok [OF assms(4,2,3)] by blast
    then show ?thesis
      using assms(4,7) L_COND_JMP emit_jmp_nonempty
      by (auto simp: jit_insn_def Let_def jit_cond_def split: bpf_src.splits option.splits if_splits)
  qed
  with jit_cond_ok [OF assms(1-3) assms(4) [unfolded L_COND_JMP] assms(6) [unfolded L_COND_JMP] assms(7)]
  show ?thesis unfolding jump_outcome_def by (metis add.right_neutral)
qed (use assms(5) in simp_all)

lemma jit_insn_sim:
  assumes "sim b r" "unat (dst_reg i) < 11" "unat (src_reg i) < 11"
    "select_insn (insn_code i) = Some l" "jit_exact l (insn_imm i)"
    "exec_label l i i1 b = BCont b'" "jit_insn i i1 k offset = JOk ret ws"
  shows "\<exists>r'. exec_block ws r = Some r' \<and> sim b' r' \<and> jump_outcome i k offset ret ws b r b' r'"
proof (cases "is_jump l")
  case True
  then show ?thesis using jit_jump_sim [OF assms(1-4) _ assms(6,7)] by blast
next
  case False
  have plain: ?thesis if "runs ws r b'" "bpc b' = bpc b + 1 + ret"
    using that by (auto simp: runs_def jump_outcome_def)
  show ?thesis
  proof (cases "l = L_LD_IMM_DW")
    case True
    have "bpc b' = bpc b + 2"
      using assms(6) True by (auto simp: LD_IMM_DW_def Let_def state_defs split: option.splits)
    then show ?thesis
      using plain jit_ld_imm_ok [OF assms(1-3) assms(4) [unfolded True] assms(6) [unfolded True] assms(7)] by simp
  next
    case ld: False
    have pc: "bpc b' = bpc b + 1"
      using exec_label_pc [OF assms(6)] False ld by blast
    have ret: "ret = 0" if "plain_label l"
      using init_regs_ok [OF assms(4,2,3)] jit_insn_plain [OF assms(4) that] assms(7) by (metis jit_res.inject)
    show ?thesis
    proof (cases l)
      case (L_ALU c op x)
      then show ?thesis
        using jit_alu_ok [OF assms(1-3)] assms(4-7) pc by (intro plain) auto
    next
      case (L_MOV c x)
      then show ?thesis
        using jit_mov_ok [OF assms(1-3)] assms(4-7) pc ret by (intro plain) auto
    next
      case (L_DIV c x)
      then show ?thesis
        using jit_div_ok [OF assms(1-3)] assms(4-7) pc ret by (intro plain) auto
    next
      case (L_MOD c x)
      then show ?thesis
        using jit_mod_ok [OF assms(1-3)] assms(4-7) pc ret by (intro plain) auto
    next
      case (L_ARSH c x)
      then have "l = L_ARSH C_ALU64 x" using assms(5) by simp
      then show ?thesis
        using jit_shift_neg_ok [OF assms(1-4) _ assms(6,7), of x] pc ret L_ARSH by (intro plain) auto
    next
      case (L_NEG c)
      then have "l = L_NEG C_ALU64" using assms(5) by simp
      then show ?thesis
        using jit_shift_neg_ok [OF assms(1-4) _ assms(6,7)] pc ret L_NEG by (intro plain) auto
    next
      case L_END_TO_BE
      then show ?thesis
        using jit_end_ok [OF assms(1-4) _ _ assms(6,7)] assms(5) pc ret by (intro plain) auto
    next
      case L_END_TO_LE
      then show ?thesis
        using jit_end_ok [OF assms(1-4) _ _ assms(6,7)] assms(5) pc ret by (intro plain) auto
    next
      case (L_LDX_MEM z)
      then show ?thesis
        using jit_mem_ok [OF assms(1-4) _ assms(6,7), of z] pc ret by (intro plain) auto
    next
      case (L_ST_MEM z)
      then show ?thesis
        using jit_mem_ok [OF assms(1-4) _ assms(6,7), of z] pc ret by (intro plain) auto
    next
      case (L_STX_MEM z)
      then show ?thesis
        using jit_mem_ok [OF assms(1-4) _ assms(6,7), of z] pc ret by (intro plain) auto
    qed (use assms(5) False ld in simp_all)
  qed
qed

lemma jit_ret: "jit_insn i i1 k offset = JOk ret ws \<Longrightarrow> ret = 0 \<or> ret = 1"
  by (auto simp: jit_insn_def Let_def jit_ja_def jit_cond_def split: option.splits prod.splits if_splits label.splits bpf_src.splits)

lemma jit_addr_next:
  assumes "unat (offset ! k) = jit_start offset k + n" "bpc b = int k"
  shows "jit_addr base offset (bpc b + 1) = jit_addr base offset (bpc b) + 4 * word_of_nat n"
proof -
  have "nat (bpc b + 1) = Suc k" "nat (bpc b) = k" using assms(2) by simp_all
  then show ?thesis
    by (simp add: jit_addr_def jit_start_def [of offset "Suc k"] assms(1) algebra_simps)
qed

lemma jit_addr_skip:
  assumes "offset ! Suc k = offset ! k" "bpc b = int k"
  shows "jit_addr base offset (bpc b + 2) = jit_addr base offset (bpc b + 1)"
proof -
  have "nat (bpc b + 1) = Suc k" "nat (bpc b + 2) = Suc (Suc k)" using assms(2) by simp_all
  then show ?thesis by (simp add: jit_addr_def jit_start_def assms(1))
qed

lemma jit_addr_jump:
  assumes "rv_offset (int k + d) (int k) offset = Some rvoff" "\<forall>j < length offset. unat (offset ! j) < 2 ^ 28"
    "k < length offset" "unat (offset ! k) = jit_start offset k + n" "n \<noteq> 0"
  shows "jit_addr base offset (int k + 1 + d) = jit_addr base offset (int k) + 4 * word_of_nat (n - 1) + scast rvoff"
proof -
  obtain m where m: "n = Suc m" using assms(5) by (cases n) auto
  have t: "0 \<le> int k + d" "nat (int k + d) < length offset"
    using assms(1) by (auto simp: rv_offset_def split: if_splits)
  have v: "(scast rvoff :: u64) = 4 * (word_of_nat (unat (offset ! nat (int k + d))) - word_of_nat (unat (offset ! k)) + 1)"
    using rv_offset_value(1) [OF assms(1)] assms(2,3) t by simp
  have "nat (int k + 1 + d) = Suc (nat (int k + d))" using t(1) by simp
  then have a: "jit_addr base offset (int k + 1 + d) = base + 4 * word_of_nat (unat (offset ! nat (int k + d)))"
    by (simp add: jit_addr_def jit_start_def)
  show ?thesis
    unfolding a v assms(4) m by (simp add: jit_addr_def algebra_simps)
qed

lemma jit_step_sim:
  assumes "jit_rel prog offset img base b r" "bpf_next prog b b'"
  shows "\<exists>r'. (rv_next img)\<^sup>*\<^sup>* r r' \<and> jit_rel prog offset img base b' r'"
proof -
  obtain i l where il: "insn_at prog (bpc b) = Some i" "select_insn (insn_code i) = Some l"
      "exec_label l i (insn_at prog (bpc b + 1)) b = BCont b'"
    using assms(2) by (auto simp: bpf_next_def elim: bpf_step_cases)
  define k where "k = nat (bpc b)"
  have k: "bpc b = int k" "k < length prog" "i = prog ! k"
    using il(1) by (auto simp: insn_at_def k_def split: if_splits)
  have rel: "list_all exact_insn prog" "compiled prog offset img base" "sim b r" "rpc r = jit_addr base offset (bpc b)"
    using assms(1) by (simp_all add: jit_rel_def)
  have "exact_insn i" using rel(1) k by (simp add: list_all_length)
  then have ex: "jit_exact l (insn_imm i)" "unat (dst_reg i) < 11" "unat (src_reg i) < 11" and nexit: "l \<noteq> L_EXIT"
    using il(2,3) by (auto simp: exact_insn_def)
  have len: "length offset = length prog" and off: "\<forall>j < length offset. unat (offset ! j) < 2 ^ 28"
    and pl: "placed prog offset img base k"
    using rel(2) k(2) by (auto simp: compiled_def)
  obtain ret ws where j: "jit_insn i (insn_at prog (bpc b + 1)) (int k) offset = JOk ret ws"
      "unat (offset ! k) = jit_start offset k + length ws" "ret = 1 \<longrightarrow> offset ! Suc k = offset ! k"
      "loaded img (rpc r) ws"
    using pl il(2) nexit k rel(4) by (auto simp: placed_def split: jit_res.splits)
  obtain r' where r': "exec_block ws r = Some r'" "sim b' r'" "jump_outcome i (int k) offset ret ws b r b' r'"
    using jit_insn_sim [OF rel(3) ex(2,3) il(2) ex(1) il(3) j(1)] by blast
  have "rpc r' = jit_addr base offset (bpc b')"
    using r'(3) unfolding jump_outcome_def
  proof (elim disjE exE conjE)
    assume p: "bpc b' = bpc b + 1 + ret" "rpc r' = rpc r + 4 * word_of_nat (length ws)"
    have "jit_addr base offset (bpc b + 1 + ret) = jit_addr base offset (bpc b + 1)"
      using jit_ret [OF j(1)] j(3) jit_addr_skip [OF _ k(1)] by (auto simp: add.assoc)
    then show ?thesis
      using p rel(4) jit_addr_next [OF j(2) k(1)] by simp
  next
    fix rvoff
    assume p: "rv_offset (int k + sint (insn_off i)) (int k) offset = Some rvoff" "ws \<noteq> []"
      "bpc b' = bpc b + 1 + sint (insn_off i)" "rpc r' = rpc r + 4 * word_of_nat (length ws - 1) + scast rvoff"
    then show ?thesis
      using jit_addr_jump [OF p(1) off _ j(2), of base] k len rel(4) by simp
  qed
  then have "jit_rel prog offset img base b' r'"
    using rel(1,2) r'(2) by (simp add: jit_rel_def)
  with exec_block_steps [OF r'(1) j(4)] show ?thesis by blast
qed

interpretation jit: forward_sim "bpf_next prog" "rv_next img" "jit_rel prog offset img base"
  for prog offset img base
  by unfold_locales (rule jit_step_sim)

end
