(* ===== verification/Jit_Rv64_Props.thy ===== *)
theory Jit_Rv64_Props
  imports Jit_Rv64_Main
begin

text \<open>
  The properties of the BPF interpreter and of its compiler for RISC-V: whole programs, single
  instructions, the 32-bit operations that the compiler leaves without a zero extension,
  immediates, encodings and rejected instructions. A small compiled program serves as the input
  of the witnesses.
\<close>

unbundle bit_operations_syntax

section \<open>A compiled program\<close>

definition bpf_mk :: "label \<Rightarrow> 4 word \<Rightarrow> 4 word \<Rightarrow> u16 \<Rightarrow> u32 \<Rightarrow> bpf_insn" where
  "bpf_mk l d s off imm =
     \<lparr>insn_code = the (bpf_opcode l), dst_reg = d, src_reg = s, insn_off = off, insn_imm = imm\<rparr>"

definition bdemo_prog :: "bpf_insn list" where
  "bdemo_prog =
     [bpf_mk (L_MOV C_ALU64 SrcK) 0 0 0 0x12345,
      bpf_mk (L_MOV C_ALU64 SrcX) 6 0 0 0,
      bpf_mk (L_COND_JMP C_JMP JEQ SrcX) 0 6 1 0,
      bpf_mk (L_ALU C_ALU64 OpADD SrcK) 0 0 0 5,
      bpf_mk (L_ALU C_ALU64 OpADD SrcX) 0 6 0 0,
      bpf_mk L_EXIT 0 0 0 0]"

definition bdemo_offset :: "u32 list" where
  "bdemo_offset = [2, 3, 4, 5, 6, 6]"

definition bdemo_words :: "u32 list" where
  "bdemo_words = [0x127b7, 0x3457879b, 0x78493, 0x978463, 0x578793, 0x9787b3]"

definition bdemo_img :: "u64 \<Rightarrow> u32 option" where
  "bdemo_img a =
     (if 0x1000 \<le> a \<and> a < 0x1018 \<and> a AND 3 = 0 then Some (bdemo_words ! unat (drop_bit 2 (a - 0x1000))) else None)"

definition bdemo_state :: bpf_state where
  "bdemo_state = \<lparr>bpc = 0, bregs = (\<lambda>k. 0), bmem = (\<lambda>a. None)\<rparr>"

definition bdemo_cpu :: rcpu where
  "bdemo_cpu = \<lparr>rpc = 0x1000, gprs = (\<lambda>k. 0), rmem = (\<lambda>a. None)\<rparr>"

lemma bdemo_exact: "list_all exact_insn bdemo_prog"
  by code_simp

lemma bdemo_placed:
  "placed bdemo_prog bdemo_offset bdemo_img 0x1000 0" "placed bdemo_prog bdemo_offset bdemo_img 0x1000 1"
  "placed bdemo_prog bdemo_offset bdemo_img 0x1000 2" "placed bdemo_prog bdemo_offset bdemo_img 0x1000 3"
  "placed bdemo_prog bdemo_offset bdemo_img 0x1000 4" "placed bdemo_prog bdemo_offset bdemo_img 0x1000 5"
  by code_simp+

lemma bdemo_compiled: "compiled bdemo_prog bdemo_offset bdemo_img 0x1000"
proof -
  have "length bdemo_prog = 6" "length bdemo_offset = 6" by (simp_all add: bdemo_prog_def bdemo_offset_def)
  moreover have "unat (bdemo_offset ! k) < 2 ^ 28 \<and> placed bdemo_prog bdemo_offset bdemo_img 0x1000 k" if k: "k < 6" for k
  proof -
    have "k \<in> {0, 1, 2, 3, 4, 5}" using k by auto
    then show ?thesis using bdemo_placed by (auto simp: bdemo_offset_def)
  qed
  ultimately show ?thesis by (simp add: compiled_def)
qed

lemma bdemo_sim: "sim bdemo_state bdemo_cpu"
  by (simp add: sim_def bdemo_state_def bdemo_cpu_def gpr_ref_def)

lemma bdemo_pc: "rpc bdemo_cpu = jit_addr 0x1000 bdemo_offset (bpc bdemo_state)"
  by (simp add: jit_addr_def jit_start_def bdemo_state_def bdemo_cpu_def)

definition res_value :: "bpf_res option \<Rightarrow> u64 option" where
  "res_value x = (case x of Some (BRet v) \<Rightarrow> Some v | _ \<Rightarrow> None)"

lemma res_value_loop: "res_value (bpf_fuel n prog s) = Some v \<Longrightarrow> bpf_loop prog s = Some (BRet v)"
  by (rule bpf_fuel_loop) (auto simp: res_value_def split: option.splits bpf_res.splits)

lemma bdemo_loop: "bpf_loop bdemo_prog bdemo_state = Some (BRet 0x2468a)"
  by (rule res_value_loop [of 10]) code_simp

section \<open>The encoder of each instruction\<close>

text \<open>The compiler's encoder called with the fields of an instruction, if it has one.\<close>

fun rv_word :: "instr \<Rightarrow> u32 option" where
  "rv_word (Rtype R_add rd rs1 rs2) = Some (rv_add (ucast rd) (ucast rs1) (ucast rs2))"
| "rv_word (Rtype R_addw rd rs1 rs2) = Some (rv_addw (ucast rd) (ucast rs1) (ucast rs2))"
| "rv_word (Rtype R_sub rd rs1 rs2) = Some (rv_sub (ucast rd) (ucast rs1) (ucast rs2))"
| "rv_word (Rtype R_subw rd rs1 rs2) = Some (rv_subw (ucast rd) (ucast rs1) (ucast rs2))"
| "rv_word (Rtype R_and rd rs1 rs2) = Some (rv_and (ucast rd) (ucast rs1) (ucast rs2))"
| "rv_word (Rtype R_or rd rs1 rs2) = Some (rv_or (ucast rd) (ucast rs1) (ucast rs2))"
| "rv_word (Rtype R_xor rd rs1 rs2) = Some (rv_xor (ucast rd) (ucast rs1) (ucast rs2))"
| "rv_word (Rtype R_mulw rd rs1 rs2) = Some (rv_mulw (ucast rd) (ucast rs1) (ucast rs2))"
| "rv_word (Rtype R_mul rd rs1 rs2) = Some (rv_mul (ucast rd) (ucast rs1) (ucast rs2))"
| "rv_word (Rtype R_divuw rd rs1 rs2) = Some (rv_divuw (ucast rd) (ucast rs1) (ucast rs2))"
| "rv_word (Rtype R_divu rd rs1 rs2) = Some (rv_divu (ucast rd) (ucast rs1) (ucast rs2))"
| "rv_word (Rtype R_remuw rd rs1 rs2) = Some (rv_remuw (ucast rd) (ucast rs1) (ucast rs2))"
| "rv_word (Rtype R_remu rd rs1 rs2) = Some (rv_remu (ucast rd) (ucast rs1) (ucast rs2))"
| "rv_word (Rtype R_sllw rd rs1 rs2) = Some (rv_sllw (ucast rd) (ucast rs1) (ucast rs2))"
| "rv_word (Rtype R_sll rd rs1 rs2) = Some (rv_sll (ucast rd) (ucast rs1) (ucast rs2))"
| "rv_word (Rtype R_srlw rd rs1 rs2) = Some (rv_srlw (ucast rd) (ucast rs1) (ucast rs2))"
| "rv_word (Rtype R_srl rd rs1 rs2) = Some (rv_srl (ucast rd) (ucast rs1) (ucast rs2))"
| "rv_word (Rtype R_sraw rd rs1 rs2) = Some (rv_sraw (ucast rd) (ucast rs1) (ucast rs2))"
| "rv_word (Rtype R_sra rd rs1 rs2) = Some (rv_sra (ucast rd) (ucast rs1) (ucast rs2))"
| "rv_word (Itype I_addiw rd rs1 imm) = Some (rv_addiw (ucast rd) (ucast rs1) (ucast imm))"
| "rv_word (Itype I_addi rd rs1 imm) = Some (rv_addi (ucast rd) (ucast rs1) (ucast imm))"
| "rv_word (Itype I_slli rd rs1 imm) = Some (rv_slli (ucast rd) (ucast rs1) (ucast imm))"
| "rv_word (Itype I_andi rd rs1 imm) = Some (rv_andi (ucast rd) (ucast rs1) (ucast imm))"
| "rv_word (Itype I_ori rd rs1 imm) = Some (rv_ori (ucast rd) (ucast rs1) (ucast imm))"
| "rv_word (Itype I_xori rd rs1 imm) = Some (rv_xori (ucast rd) (ucast rs1) (ucast imm))"
| "rv_word (Itype I_slliw rd rs1 imm) = Some (rv_slliw (ucast rd) (ucast rs1) (ucast imm))"
| "rv_word (Itype I_srliw rd rs1 imm) = Some (rv_srliw (ucast rd) (ucast rs1) (ucast imm))"
| "rv_word (Itype I_srli rd rs1 imm) = Some (rv_srli (ucast rd) (ucast rs1) (ucast imm))"
| "rv_word (Itype I_sraiw rd rs1 imm) = Some (rv_sraiw (ucast rd) (ucast rs1) (ucast imm))"
| "rv_word (Itype I_srai rd rs1 imm) = Some (rv_srai (ucast rd) (ucast rs1) (ucast imm))"
| "rv_word (Itype I_jalr rd rs1 imm) = Some (rv_jalr (ucast rd) (ucast rs1) (ucast imm))"
| "rv_word (Load M_lbu rd rs1 imm) = Some (rv_lbu (ucast rd) (ucast imm) (ucast rs1))"
| "rv_word (Load M_lhu rd rs1 imm) = Some (rv_lhu (ucast rd) (ucast imm) (ucast rs1))"
| "rv_word (Load M_lwu rd rs1 imm) = Some (rv_lwu (ucast rd) (ucast imm) (ucast rs1))"
| "rv_word (Load M_ld rd rs1 imm) = Some (rv_ld (ucast rd) (ucast imm) (ucast rs1))"
| "rv_word (Store M_sb rs1 rs2 imm) = Some (rv_sb (ucast rs1) (ucast imm) (ucast rs2))"
| "rv_word (Store M_sh rs1 rs2 imm) = Some (rv_sh (ucast rs1) (ucast imm) (ucast rs2))"
| "rv_word (Store M_sw rs1 rs2 imm) = Some (rv_sw (ucast rs1) (ucast imm) (ucast rs2))"
| "rv_word (Store M_sd rs1 rs2 imm) = Some (rv_sd (ucast rs1) (ucast imm) (ucast rs2))"
| "rv_word (Branch B_beq rs1 rs2 imm) = Some (rv_beq (ucast rs1) (ucast rs2) (ucast imm))"
| "rv_word (Branch B_bltu rs1 rs2 imm) = Some (rv_bltu (ucast rs1) (ucast rs2) (ucast imm))"
| "rv_word (Branch B_bgeu rs1 rs2 imm) = Some (rv_bgeu (ucast rs1) (ucast rs2) (ucast imm))"
| "rv_word (Branch B_bne rs1 rs2 imm) = Some (rv_bne (ucast rs1) (ucast rs2) (ucast imm))"
| "rv_word (Branch B_blt rs1 rs2 imm) = Some (rv_blt (ucast rs1) (ucast rs2) (ucast imm))"
| "rv_word (Branch B_bge rs1 rs2 imm) = Some (rv_bge (ucast rs1) (ucast rs2) (ucast imm))"
| "rv_word (Lui rd imm20) = Some (rv_lui (ucast rd) (ucast imm20))"
| "rv_word (Jal rd imm20) = Some (rv_jal (ucast rd) (ucast imm20))"
| "rv_word _ = None"

lemma ucast_reg_small: "(ucast (rd :: regno) :: u8) < 32"
proof -
  have "unat rd < 2 ^ 5" using unsigned_less [of rd, where ?'a = nat] by simp
  then show ?thesis by (simp add: word_less_nat_alt unsigned_ucast_eq take_bit_nat_eq_self)
qed

lemma ucast_up_down [simp]:
  "(ucast (ucast (rd :: regno) :: u8) :: regno) = rd" "(ucast (ucast (imm :: 12 word) :: u16) :: 12 word) = imm"
  "(ucast (ucast (imm20 :: 20 word) :: u32) :: 20 word) = imm20"
  by (rule bit_word_eqI; auto simp: bit_simps)+

lemma rv_word_encode: "rv_word i = Some w \<Longrightarrow> w = encode_instr i"
  by (cases i rule: rv_word.cases) (auto simp: rv_encodes ucast_reg_small)

section \<open>Instructions that are not compiled\<close>

definition jit_rejects :: "bpf_insn \<Rightarrow> int \<Rightarrow> u32 list \<Rightarrow> bool" where
  "jit_rejects insn i offset =
     (case select_insn (insn_code insn) of
        None \<Rightarrow> True
      | Some L_CALL \<Rightarrow> True
      | Some L_EXIT \<Rightarrow> True
      | Some L_JA \<Rightarrow>
          (case rv_offset (i + sint (insn_off insn)) i offset of
             None \<Rightarrow> False
           | Some rvoff \<Rightarrow> sint rvoff < - (2 ^ 20) \<or> 2 ^ 20 \<le> sint rvoff)
      | Some (L_COND_JMP c op x) \<Rightarrow>
          (case rv_offset (i + sint (insn_off insn)) i offset of
             None \<Rightarrow> False
           | Some rvoff \<Rightarrow> sint rvoff < - (2 ^ 12) \<or> 2 ^ 12 \<le> sint rvoff)
      | _ \<Rightarrow> False)"

lemma is_13b_sint: "is_13b_int (scast (rvoff :: u32)) \<longleftrightarrow> - (2 ^ 12) \<le> sint rvoff \<and> sint rvoff < 2 ^ 12"
  by (simp add: is_13b_int_def word_sle_eq word_sless_alt sint_scast32)

lemma is_21b_sint: "is_21b_int (scast (rvoff :: u32)) \<longleftrightarrow> - (2 ^ 20) \<le> sint rvoff \<and> sint rvoff < 2 ^ 20"
  by (simp add: is_21b_int_def word_sle_eq word_sless_alt sint_scast32)

lemma jit_insn_reject:
  assumes "unat (dst_reg i) < 11" "unat (src_reg i) < 11"
  shows "jit_insn i i1 k offset = JErr \<longleftrightarrow> jit_rejects i k offset"
  using init_regs_eq [OF assms]
  by (auto simp: jit_insn_def jit_rejects_def Let_def jit_ja_def jit_cond_def rv_offset_check_def
      is_13b_check_def is_13b_sint is_21b_sint split: option.splits label.splits bpf_src.splits if_splits)

section \<open>32-bit arithmetic without the final zero extension\<close>

lemma runs_set_reg:
  assumes "runs ws r (set_reg d v b)" "CONT (set_reg d u b) = BCont b'"
  shows "runs ws r (set_reg d v b')"
proof -
  have "b' = (set_reg d u b)\<lparr>bpc := bpc b + 1\<rparr>"
    using assms(2) by (auto simp: CONT_def set_reg_def)
  then show ?thesis
    using assms(1) by (simp add: runs_def sim_def set_reg_def)
qed

lemma writes_low:
  assumes "writes ws r (regmap ! unat (dst_reg i)) v" "sim b r" "unat (dst_reg i) < 11"
    "CONT (set_DST i u b) = BCont b'" "(ucast v :: u32) = ucast u"
  shows "\<exists>v. runs ws r (set_reg (unat (dst_reg i)) v b') \<and> (ucast v :: u32) = ucast (DST i b')"
proof -
  have "DST i b' = u" using assms(4) by (auto simp: CONT_def set_DST_def set_reg_def DST_def)
  with runs_set_reg [OF writes_runs [OF assms(1-3)]] assms(4,5) show ?thesis
    unfolding set_DST_def by metis
qed

lemma jit_alu_low:
  assumes s: "sim b r" and d: "unat (dst_reg i) < 11" and x: "unat (src_reg i) < 11"
    and sel: "select_insn (insn_code i) = Some (L_ALU C_ALU op y)" "\<not> jit_exact (L_ALU C_ALU op y) (insn_imm i)"
    and step: "exec_label (L_ALU C_ALU op y) i i1 b = BCont b'" and jit: "jit_insn i i1 k offset = JOk ret ws"
  shows "\<exists>v. runs ws r (set_reg (unat (dst_reg i)) v b') \<and> (ucast v :: u32) = ucast (DST i b')"
proof -
  obtain rd rs where ir: "init_regs i = Some (rd, rs)" "rd = regmap ! unat (dst_reg i)"
      "gpr_ref r (ucast rd) = DST i b"
      "uses_src (L_ALU C_ALU op y) \<Longrightarrow> rs = regmap ! unat (src_reg i)"
      "uses_src (L_ALU C_ALU op y) \<Longrightarrow> gpr_ref r (ucast rs) = SRC i b"
    using jit_setup [OF s d x sel(1)] by (metis uses_dst.simps(4))
  note is64 = select_insn_class [OF sel(1)] label_is64_def [of "L_ALU C_ALU op y", symmetric, simplified]
  have ws: "ws = (case y of SrcX \<Rightarrow> emit_alu_x op False rd rs | SrcK \<Rightarrow> emit_alu_k op False rd (insn_imm i))"
    using jit ir(1) sel(1) is64 by (cases y; simp add: jit_insn_def Let_def)
  note rf = reg_facts [OF d, folded ir(2)]
  obtain v where v: "alu32 op (ucast (DST i b)) (operand32 y i b) = Some v" "CONT (set_DST i (ucast v) b) = BCont b'"
    using step by (auto simp: ALU_def split: option.splits)
  show ?thesis
  proof (cases y)
    case SrcX
    have a: "alu32 op (ucast (DST i b)) (ucast (SRC i b)) = Some v" using v(1) SrcX by (simp add: operand32_def)
    have "writes ws r rd (alu_x32 op (DST i b) (SRC i b) v)"
      using emit_alu_x_32 [OF rf(1,2), of rs op r v] a ir(3-5) reg_facts [OF x] ws SrcX by simp
    with writes_low [OF _ s d v(2)] alu_x32_low [OF a] ir(2) show ?thesis by simp
  next
    case SrcK
    then have "writes ws r rd (scast v)"
      using emit_shift_k_32 [OF rf(1), of op r "insn_imm i" v] v(1) ir(3) ws sel(2) by (simp add: operand32_def)
    with writes_low [OF _ s d v(2)] ir(2) show ?thesis by simp
  qed
qed

lemma jit_shift_neg_low:
  assumes "sim b r" "unat (dst_reg i) < 11" "unat (src_reg i) < 11"
    "select_insn (insn_code i) = Some l" "l = L_ARSH C_ALU x \<or> l = L_NEG C_ALU"
    "exec_label l i i1 b = BCont b'" "jit_insn i i1 k offset = JOk ret ws"
  shows "\<exists>v. runs ws r (set_reg (unat (dst_reg i)) v b') \<and> (ucast v :: u32) = ucast (DST i b')"
proof -
  have u: "uses_dst l" "plain_label l" using assms(5) by auto
  obtain rd rs where ir: "init_regs i = Some (rd, rs)" "rd = regmap ! unat (dst_reg i)"
      "gpr_ref r (ucast rd) = DST i b"
      "uses_src l \<Longrightarrow> rs = regmap ! unat (src_reg i)" "uses_src l \<Longrightarrow> gpr_ref r (ucast rs) = SRC i b"
    using jit_setup [OF assms(1-4) u(1)] by blast
  have ws: "ws = jit_words l i rd rs"
    using jit_insn_plain [OF assms(4) u(2) ir(1), of i1 k offset] assms(7) by simp
  note rf = reg_facts [OF assms(2), folded ir(2)] reg_facts [OF assms(3)]
  show ?thesis
    using assms(5)
  proof
    assume l: "l = L_NEG C_ALU"
    then have w: "writes ws r rd (scast (- ucast (DST i b) :: u32))"
      unfolding ws using emit_neg_32 [OF rf(1), of r] ir(3) by (simp add: jit_words_def)
    have "CONT (set_DST i (ucast (ucast (- DST i b) :: u32)) b) = BCont b'"
      using assms(6) l by (simp add: ALU_NEG_def)
    from writes_low [OF w [unfolded ir(2)] assms(1,2) this] show ?thesis by (simp add: ucast32_arith)
  next
    assume l: "l = L_ARSH C_ALU x"
    define n where "n = operand64 x i b"
    have n: "n < 32" using assms(6) l by (auto simp: ALU_ARSH_def Let_def n_def split: if_splits)
    have w: "writes ws r rd (scast (signed_drop_bit (unat n) (ucast (DST i b) :: u32)))"
      unfolding ws using emit_arsh_x_32 [of rd rs r] emit_arsh_k_32 [OF rf(1), of "insn_imm i" r] ir(3-5) n rf l
      by (cases x) (simp_all add: jit_words_def n_def operand64_def IMM_def)
    have "CONT (set_DST i (ucast (signed_drop_bit (unat n) (ucast (DST i b) :: u32))) b) = BCont b'"
      using assms(6) l n by (simp add: ALU_ARSH_def Let_def n_def)
    from writes_low [OF w [unfolded ir(2)] assms(1,2) this] show ?thesis by simp
  qed
qed

section \<open>Properties\<close>

text \<open>C27: the compiled code of a program computes what the interpreter computes. Take a program whose
  instructions compile exactly, its code placed in memory by the two passes over it, and a processor
  that agrees with the interpreter state on the registers, on memory and on the program counter. If
  the interpreter returns \<open>v\<close>, then the processor runs to the code address of the instruction at which
  the interpreter returned, with \<open>v\<close> in the register of \<^verbatim>\<open>R0\<close> and the interpreter's final memory.\<close>
theorem jit_program_correct:
  assumes "list_all exact_insn prog" "compiled prog offset img base"
    "sim b r" "rpc r = jit_addr base offset (bpc b)" "bpf_loop prog b = Some (BRet v)"
  shows "\<exists>b' r'. (bpf_next prog)\<^sup>*\<^sup>* b b' \<and> bpf_step prog b' = BRet v \<and> (rv_next img)\<^sup>*\<^sup>* r r' \<and>
    rpc r' = jit_addr base offset (bpc b') \<and> gpr_ref r' (rv_reg 0) = v \<and> rmem r' = bmem b'"
proof -
  obtain b' where b': "(bpf_next prog)\<^sup>*\<^sup>* b b'" "bpf_step prog b' = BRet v"
    using bpf_loop_reaches [OF assms(5)] by blast
  have "jit_rel prog offset img base b r" using assms(1-4) by (simp add: jit_rel_def)
  from jit.steps_sim [OF b'(1) this] obtain r'
    where r': "(rv_next img)\<^sup>*\<^sup>* r r'" "jit_rel prog offset img base b' r'" by blast
  then have "rpc r' = jit_addr base offset (bpc b')" "gpr_ref r' (rv_reg 0) = bregs b' 0" "rmem r' = bmem b'"
    by (auto simp: jit_rel_def sim_def)
  with b' r'(1) bpf_step_ret [OF b'(2)] show ?thesis by metis
qed

theorem jit_program_correct_witness:
  "\<exists>b' r'. (bpf_next bdemo_prog)\<^sup>*\<^sup>* bdemo_state b' \<and> bpf_step bdemo_prog b' = BRet 0x2468a \<and>
    (rv_next bdemo_img)\<^sup>*\<^sup>* bdemo_cpu r' \<and> rpc r' = jit_addr 0x1000 bdemo_offset (bpc b') \<and>
    gpr_ref r' (rv_reg 0) = 0x2468a \<and> rmem r' = bmem b'"
  by (rule jit_program_correct [OF bdemo_exact bdemo_compiled bdemo_sim bdemo_pc bdemo_loop])

text \<open>C28: one compiled instruction does what the interpreter does, for the instructions that compile exactly: all
  except the 32-bit register operations other than move, multiplication, division and remainder, the 32-bit shifts,
  the 32-bit negation, byte swaps of a width other than 16, 32 and 64, the atomic additions, calls and exits. When \<^verbatim>\<open>emit_insn\<close> succeeds on such an instruction, it
  appends words to the context; a processor that agrees with the interpreter and executes these words ends in
  agreement with the interpreter's next state, and its program counter has moved past the words, or by the branch
  distance computed from the offset table when the interpreter takes the jump.\<close>
theorem jit_insn_correct:
  assumes "sim b r" "unat (dst_reg i) < 11" "unat (src_reg i) < 11"
    "select_insn (insn_code i) = Some l" "jit_exact l (insn_imm i)"
    "exec_label l i i1 b = BCont b'" "emit_insn i i1 k ctx = Some (ret, ctx')" "ret \<noteq> - 1"
  shows "\<exists>ws r'. ctx' = emits ws ctx \<and> exec_block ws r = Some r' \<and> sim b' r' \<and>
    jump_outcome i k (ctx_offset ctx) ret ws b r b' r'"
proof -
  obtain ws where "jit_insn i i1 k (ctx_offset ctx) = JOk ret ws" "ctx' = emits ws ctx"
    using assms(7,8) by (auto simp: emit_insn_def split: jit_res.splits)
  with jit_insn_sim [OF assms(1-6)] show ?thesis by blast
qed

definition bdemo_ctx :: rv_jit_context where
  "bdemo_ctx = \<lparr>ctx_insns = None, ninsns = 0, ctx_offset = []\<rparr>"

lemma bdemo_xor:
  "jit_insn (bpf_mk (L_ALU C_ALU64 OpXOR SrcX) 0 6 0 0) None 0 [] = JOk 0 [rv_xor RV_REG_A5 RV_REG_A5 RV_REG_S1]"
  by code_simp

theorem jit_insn_correct_witness:
  "\<exists>ws r'. emits [rv_xor RV_REG_A5 RV_REG_A5 RV_REG_S1] bdemo_ctx = emits ws bdemo_ctx \<and>
    exec_block ws bdemo_cpu = Some r' \<and> sim (bdemo_state\<lparr>bpc := 1\<rparr>) r' \<and>
    jump_outcome (bpf_mk (L_ALU C_ALU64 OpXOR SrcX) 0 6 0 0) 0 (ctx_offset bdemo_ctx) 0 ws
      bdemo_state bdemo_cpu (bdemo_state\<lparr>bpc := 1\<rparr>) r'"
proof (rule jit_insn_correct)
  show "sim bdemo_state bdemo_cpu" by (rule bdemo_sim)
  show "select_insn (insn_code (bpf_mk (L_ALU C_ALU64 OpXOR SrcX) 0 6 0 0)) = Some (L_ALU C_ALU64 OpXOR SrcX)"
    by code_simp
  show "exec_label (L_ALU C_ALU64 OpXOR SrcX) (bpf_mk (L_ALU C_ALU64 OpXOR SrcX) 0 6 0 0) None bdemo_state =
    BCont (bdemo_state\<lparr>bpc := 1\<rparr>)"
    by (simp add: ALU_def CONT_def set_DST_def set_reg_def bdemo_state_def DST_def operand64_def SRC_def fun_eq_iff)
  show "emit_insn (bpf_mk (L_ALU C_ALU64 OpXOR SrcX) 0 6 0 0) None 0 bdemo_ctx =
    Some (0, emits [rv_xor RV_REG_A5 RV_REG_A5 RV_REG_S1] bdemo_ctx)"
    by (simp add: emit_insn_def bdemo_xor bdemo_ctx_def)
qed (simp_all add: bpf_mk_def)

text \<open>C29: every 32-bit arithmetic instruction compiles to code whose result agrees with the interpreter's in
  the low 32 bits, and that leaves every other register and memory as the interpreter does.\<close>
theorem jit_alu32_low_half:
  assumes "sim b r" "unat (dst_reg i) < 11" "unat (src_reg i) < 11"
    "select_insn (insn_code i) = Some l" "is_alu32 l"
    "exec_label l i i1 b = BCont b'" "jit_insn i i1 k offset = JOk ret ws"
  shows "\<exists>v. runs ws r (set_reg (unat (dst_reg i)) v b') \<and> (ucast v :: u32) = ucast (DST i b')"
proof (cases "jit_exact l (insn_imm i)")
  case True
  have "runs ws r b'"
    using assms True
    by (cases l) (auto intro: jit_alu_ok jit_mov_ok jit_div_ok jit_mod_ok)
  then have "runs ws r (set_reg (unat (dst_reg i)) (DST i b') b')" by (simp add: set_reg_def DST_def)
  then show ?thesis by blast
next
  case False
  with assms show ?thesis
    by (cases l) (auto intro: jit_alu_low jit_shift_neg_low simp del: jit_exact.simps(1))
qed

text \<open>The interpreter and the compiled code on \<^verbatim>\<open>w0 += w6\<close> with \<open>0x80000000\<close> and 0.\<close>

definition bdemo_add32 :: bpf_insn where
  "bdemo_add32 = bpf_mk (L_ALU C_ALU OpADD SrcX) 0 6 0 0"

definition bdemo_high :: bpf_state where
  "bdemo_high = \<lparr>bpc = 0, bregs = (\<lambda>k. if k = 0 then 0x80000000 else 0), bmem = (\<lambda>a. None)\<rparr>"

definition bdemo_high_cpu :: rcpu where
  "bdemo_high_cpu = \<lparr>rpc = 0x1000, gprs = (\<lambda>k. if k = 15 then 0x80000000 else 0), rmem = (\<lambda>a. None)\<rparr>"

lemma bdemo_high_sim: "sim bdemo_high bdemo_high_cpu"
proof -
  have "rv_reg k \<noteq> 15" if "k < 11" "k \<noteq> 0" for k
    using rv_reg_inj [of k 0] that by (simp add: rv_reg_def regmap_defs)
  then show ?thesis
    by (auto simp: sim_def bdemo_high_def bdemo_high_cpu_def gpr_ref_def rv_reg_def regmap_defs)
qed

lemma scast_high_differs:
  assumes "bit (v :: u32) 31"
  shows "(scast v :: u64) \<noteq> ucast v"
proof
  assume "(scast v :: u64) = ucast v"
  then have "bit (scast v :: u64) 32 = bit (ucast v :: u64) 32" by simp
  then show False using assms by (simp add: bit_simps bit_beyond)
qed

text \<open>C30: the 32-bit addition and subtraction of registers compile to one \<^verbatim>\<open>addw\<close> or \<^verbatim>\<open>subw\<close> with no zero
  extension after it. Whenever bit 31 of the result is set, the compiled code leaves the sign-extended
  result in the destination, which differs from the zero-extended result of the interpreter.\<close>
theorem jit_alu32_upper_half:
  assumes "sim b r" "unat (dst_reg i) < 11" "unat (src_reg i) < 11"
    "select_insn (insn_code i) = Some (L_ALU C_ALU op SrcX)" "op = OpADD \<or> op = OpSUB"
    "exec_label (L_ALU C_ALU op SrcX) i i1 b = BCont b'" "bit (DST i b') 31"
  shows "\<exists>ws r'. jit_insn i i1 k offset = JOk 0 ws \<and> exec_block ws r = Some r' \<and>
    gpr_ref r' (rv_reg (unat (dst_reg i))) = scast (ucast (DST i b') :: u32) \<and>
    gpr_ref r' (rv_reg (unat (dst_reg i))) \<noteq> DST i b'"
proof -
  obtain rd rs where ir: "init_regs i = Some (rd, rs)" "rd = regmap ! unat (dst_reg i)"
      "gpr_ref r (ucast rd) = DST i b" "rs = regmap ! unat (src_reg i)" "gpr_ref r (ucast rs) = SRC i b"
    using jit_setup [OF assms(1-4)] by (metis uses_dst.simps(4) uses_src.simps(1))
  have jit: "jit_insn i i1 k offset = JOk 0 (emit_alu_x op False rd rs)"
    using ir(1) assms(4) select_insn_class [OF assms(4)] label_is64_def [of "L_ALU C_ALU op SrcX", symmetric]
    by (simp add: jit_insn_def Let_def)
  obtain v where v: "alu32 op (ucast (DST i b)) (ucast (SRC i b)) = Some v" "CONT (set_DST i (ucast v) b) = BCont b'"
    using assms(6) by (auto simp: ALU_def operand32_def split: option.splits)
  have D: "DST i b' = ucast v" using v(2) by (auto simp: CONT_def set_DST_def set_reg_def DST_def)
  have "writes (emit_alu_x op False rd rs) r rd (alu_x32 op (DST i b) (SRC i b) v)"
    using emit_alu_x_32 [of rd rs op r v] v(1) ir reg_facts [OF assms(2)] reg_facts [OF assms(3)] by simp
  then obtain t1 t2 where w: "exec_block (emit_alu_x op False rd rs) r =
      Some (adv (length (emit_alu_x op False rd rs)) (gpr_set (gpr_set (gpr_set r 6 t1) 7 t2) (ucast rd) (scast v)))"
    using assms(5) by (auto simp: writes_def)
  have "bit v 31" using assms(7) D by (simp add: bit_simps)
  with scast_high_differs w jit D ir(2) rv_reg_temp [OF assms(2)] show ?thesis
    by (auto simp: rv_reg_def)
qed

lemma bdemo_add32_select: "select_insn (insn_code bdemo_add32) = Some (L_ALU C_ALU OpADD SrcX)"
  by code_simp

lemma bdemo_add32_step: "exec_label (L_ALU C_ALU OpADD SrcX) bdemo_add32 None bdemo_high = BCont (bdemo_high\<lparr>bpc := 1\<rparr>)"
  by (simp add: ALU_def CONT_def set_DST_def set_reg_def bdemo_high_def bdemo_add32_def bpf_mk_def DST_def operand32_def SRC_def fun_eq_iff)

lemma bdemo_add32_regs: "unat (dst_reg bdemo_add32) = 0" "unat (src_reg bdemo_add32) = 6"
  by (simp_all add: bdemo_add32_def bpf_mk_def)

lemma bdemo_add32_result: "DST bdemo_add32 (bdemo_high\<lparr>bpc := 1\<rparr>) = 0x80000000"
  by (simp add: DST_def bdemo_add32_regs bdemo_high_def)

theorem jit_alu32_upper_half_witness:
  "\<exists>ws r'. jit_insn bdemo_add32 None 0 [] = JOk 0 ws \<and> exec_block ws bdemo_high_cpu = Some r' \<and>
    gpr_ref r' (rv_reg 0) = - 0x80000000 \<and> gpr_ref r' (rv_reg 0) \<noteq> 0x80000000"
  using jit_alu32_upper_half [OF bdemo_high_sim _ _ bdemo_add32_select _ bdemo_add32_step, of 0 "[]"]
  by (simp add: bdemo_add32_regs bdemo_add32_result)

theorem jit_alu32_low_half_witness:
  "\<exists>v. runs [rv_addw RV_REG_A5 RV_REG_A5 RV_REG_S1] bdemo_high_cpu (set_reg 0 v (bdemo_high\<lparr>bpc := 1\<rparr>)) \<and>
    (ucast v :: u32) = 0x80000000"
proof -
  have "jit_insn bdemo_add32 None 0 [] = JOk 0 [rv_addw RV_REG_A5 RV_REG_A5 RV_REG_S1]" by code_simp
  from jit_alu32_low_half [OF bdemo_high_sim _ _ bdemo_add32_select _ bdemo_add32_step this]
  show ?thesis by (simp add: bdemo_add32_regs bdemo_add32_result)
qed

text \<open>C31: \<^verbatim>\<open>emit_imm\<close> loads any 64-bit value: the words it emits, executed, leave the value in the register and
  change nothing else, and there are at most eight of them.\<close>
theorem emit_imm_correct:
  assumes "rd < 32" "0 < rd"
  shows "length (emit_imm rd val) \<le> 8 \<and>
    exec_block (emit_imm rd val) cpu = Some (adv (length (emit_imm rd val)) (gpr_set cpu (ucast rd) val))"
  using emit_imm_length emit_imm_exec [OF assms] by blast

theorem emit_imm_correct_witness:
  "length (emit_imm 15 0x123456789abcdef0) \<le> 8 \<and>
    exec_block (emit_imm 15 0x123456789abcdef0) bdemo_cpu =
      Some (adv (length (emit_imm 15 0x123456789abcdef0)) (gpr_set bdemo_cpu 15 0x123456789abcdef0))"
  using emit_imm_correct [of 15 "0x123456789abcdef0" bdemo_cpu] by simp

text \<open>C32: each instruction encoder of the compiler, except the two for atomic additions, which the verifier's
  RISC-V model does not have, gives the same word as the encoder of that model for the same operands. With shift
  amounts below the register width, no other instruction of the model has this word.\<close>
theorem jit_encoders_agree:
  assumes "rv_word i = Some w"
  shows "w = encode_instr i \<and> (\<forall>j. instr_ok i \<and> instr_ok j \<and> encode_instr j = w \<longrightarrow> j = i)"
proof -
  have w: "w = encode_instr i" by (rule rv_word_encode [OF assms])
  have "j = i" if "instr_ok i" "instr_ok j" "encode_instr j = w" for j
    using decode_encode_instr [OF that(1)] decode_encode_instr [OF that(2)] that(3) w by simp
  with w show ?thesis by blast
qed

theorem jit_encoders_agree_witness:
  "rv_beq 10 11 0x7ff = encode_instr (Branch B_beq 10 11 0x7ff) \<and>
   rv_beq 10 11 0x7ff \<noteq> encode_instr (Branch B_beq 10 11 0x7fe)"
proof -
  have "rv_word (Branch B_beq 10 11 0x7ff) = Some (rv_beq 10 11 0x7ff)" by simp
  note A = jit_encoders_agree [OF this]
  have "Branch B_beq 10 11 0x7fe = Branch B_beq 10 11 0x7ff" if "encode_instr (Branch B_beq 10 11 0x7fe) = rv_beq 10 11 0x7ff"
    using A [THEN conjunct2, THEN spec, of "Branch B_beq 10 11 0x7fe"] that by simp
  then show ?thesis using A by auto
qed

text \<open>C33: \<^verbatim>\<open>emit_insn\<close> fails with -1 exactly on unknown opcodes, calls, exits and jumps whose distance does not fit
  the 13 bits of a branch or the 21 bits of a \<^verbatim>\<open>jal\<close>, and then it leaves the context as it was.\<close>
theorem emit_insn_error:
  assumes "unat (dst_reg i) < 11" "unat (src_reg i) < 11"
  shows "emit_insn i i1 k ctx = Some (- 1, ctx') \<longleftrightarrow> jit_rejects i k (ctx_offset ctx) \<and> ctx' = ctx"
  using jit_insn_reject [OF assms, of i1 k "ctx_offset ctx"] jit_ret [of i i1 k "ctx_offset ctx"]
  by (auto simp: emit_insn_def split: jit_res.splits)

theorem emit_insn_error_witness:
  "emit_insn (bpf_mk L_JA 0 0 1 0) None 0 (bdemo_ctx\<lparr>ctx_offset := [1, 0x80001]\<rparr>) =
     Some (- 1, bdemo_ctx\<lparr>ctx_offset := [1, 0x80001]\<rparr>)"
proof -
  have "jit_rejects (bpf_mk L_JA 0 0 1 0) 0 [1, 0x80001]" by code_simp
  then show ?thesis
    using emit_insn_error [of "bpf_mk L_JA 0 0 1 0" None 0 "bdemo_ctx\<lparr>ctx_offset := [1, 0x80001]\<rparr>"]
    by (simp add: bpf_mk_def)
qed

text \<open>C34: the interpreter stops on every program whose jumps all go forward: from any state it returns a result,
  after at most one step more than the instructions left.\<close>
theorem bpf_forward_terminates:
  assumes "forward_prog prog"
  shows "\<exists>r. bpf_loop prog s = Some r \<and> bpf_fuel (Suc (nat (int (length prog) - bpc s))) prog s = Some r"
  using bpf_fuel_forward [OF assms lessI, of s] bpf_fuel_loop by blast

theorem bpf_forward_terminates_witness:
  "\<exists>r. bpf_loop bdemo_prog bdemo_state = Some r \<and>
    bpf_fuel (Suc (nat (int (length bdemo_prog) - bpc bdemo_state))) bdemo_prog bdemo_state = Some r"
proof (rule bpf_forward_terminates)
  show "forward_prog bdemo_prog" by code_simp
qed

text \<open>C35: a 32-bit arithmetic instruction of the interpreter leaves a zero-extended value, below \<open>2 ^ 32\<close>, in its
  destination register.\<close>
theorem bpf_alu32_zero_extends:
  assumes "exec_label l i i1 s = BCont s'" "is_alu32 l"
  shows "DST i s' < 0x100000000"
  by (rule exec_label_alu32 [OF assms])

theorem bpf_alu32_zero_extends_witness: "DST bdemo_add32 (bdemo_high\<lparr>bpc := 1\<rparr>) < 0x100000000"
  by (rule bpf_alu32_zero_extends [OF bdemo_add32_step]) simp

end
