(* ===== verification/C_Buf.thy ===== *)
theory C_Buf
  imports Serval_Prelude "HOL-Library.Monad_Syntax"
begin

text \<open>
  Arrays and counting loops of the C sources. An array is a list; reading or writing it outside
  its bounds has no result. A loop \<^verbatim>\<open>for (i = a; i < n; i++)\<close> is \<open>for_up\<close>, with the body as a
  function of the counter and the state. \<open>memcpy\<close> and \<open>memset\<close> on arrays are the loops of
  \<^verbatim>\<open>kernel/string.c\<close>; the big-endian accessors are those of \<^verbatim>\<open>include/sys/unaligned\<close>.
\<close>

unbundle bit_operations_syntax

section \<open>Arrays\<close>

definition rd :: "'a list \<Rightarrow> nat \<Rightarrow> 'a option" where
  "rd xs i = (if i < length xs then Some (xs ! i) else None)"

definition wr :: "'a list \<Rightarrow> nat \<Rightarrow> 'a \<Rightarrow> 'a list option" where
  "wr xs i v = (if i < length xs then Some (xs[i := v]) else None)"

function for_up :: "nat \<Rightarrow> nat \<Rightarrow> (nat \<Rightarrow> 's \<Rightarrow> 's option) \<Rightarrow> 's \<Rightarrow> 's option" where
  "for_up i n body s =
     (if i < n then (case body i s of None \<Rightarrow> None | Some s' \<Rightarrow> for_up (Suc i) n body s') else Some s)"
  by auto
termination
  by (relation "measure (\<lambda>(i, n, body, s). n - i)") auto

declare for_up.simps [simp del]

definition buf_memcpy :: "'a list \<Rightarrow> nat \<Rightarrow> 'a list \<Rightarrow> nat \<Rightarrow> nat \<Rightarrow> 'a list option" where
  "buf_memcpy dest d src s count =
     for_up 0 count (\<lambda>i dest. do { x \<leftarrow> rd src (s + i); wr dest (d + i) x }) dest"

definition buf_memset :: "'a list \<Rightarrow> 'a \<Rightarrow> nat \<Rightarrow> 'a list option" where
  "buf_memset s c count = for_up 0 count (\<lambda>i s. wr s i c) s"

fun for_down :: "nat \<Rightarrow> (nat \<Rightarrow> 's \<Rightarrow> 's option) \<Rightarrow> 's \<Rightarrow> 's option" where
  "for_down 0 body s = Some s"
| "for_down (Suc n) body s = (case body n s of None \<Rightarrow> None | Some s' \<Rightarrow> for_down n body s')"

text \<open>\<^verbatim>\<open>memmove\<close> within one array: upwards when the destination is not above the source, downwards otherwise.\<close>

definition buf_memmove :: "'a list \<Rightarrow> nat \<Rightarrow> nat \<Rightarrow> nat \<Rightarrow> 'a list option" where
  "buf_memmove xs dest src count =
     (if dest \<le> src
      then for_up 0 count (\<lambda>i xs. do { x \<leftarrow> rd xs (src + i); wr xs (dest + i) x }) xs
      else for_down count (\<lambda>i xs. do { x \<leftarrow> rd xs (src + i); wr xs (dest + i) x }) xs)"

section \<open>Big-endian access\<close>

definition get_unaligned_be32 :: "u8 list \<Rightarrow> nat \<Rightarrow> u32 option" where
  "get_unaligned_be32 p i =
     do { a \<leftarrow> rd p i; b \<leftarrow> rd p (i + 1); c \<leftarrow> rd p (i + 2); d \<leftarrow> rd p (i + 3);
          Some (push_bit 24 (ucast a) OR push_bit 16 (ucast b) OR push_bit 8 (ucast c) OR ucast d) }"

definition put_unaligned_be16 :: "u16 \<Rightarrow> u8 list \<Rightarrow> nat \<Rightarrow> u8 list option" where
  "put_unaligned_be16 val p i = do { p \<leftarrow> wr p i (ucast (drop_bit 8 val)); wr p (i + 1) (ucast val) }"

definition put_unaligned_be32 :: "u32 \<Rightarrow> u8 list \<Rightarrow> nat \<Rightarrow> u8 list option" where
  "put_unaligned_be32 val p i =
     do { p \<leftarrow> put_unaligned_be16 (ucast (drop_bit 16 val)) p i; put_unaligned_be16 (ucast val) p (i + 2) }"

definition put_unaligned_be64 :: "u64 \<Rightarrow> u8 list \<Rightarrow> nat \<Rightarrow> u8 list option" where
  "put_unaligned_be64 val p i =
     do { p \<leftarrow> put_unaligned_be32 (ucast (drop_bit 32 val)) p i; put_unaligned_be32 (ucast val) p (i + 4) }"

section \<open>Rules\<close>

lemma rd_simps [simp]: "i < length xs \<Longrightarrow> rd xs i = Some (xs ! i)"
  by (simp add: rd_def)

lemma wr_simps [simp]: "i < length xs \<Longrightarrow> wr xs i v = Some (xs[i := v])"
  by (simp add: wr_def)

lemma for_up_inv:
  assumes "i \<le> n" "P i s"
    and "\<And>k t. i \<le> k \<Longrightarrow> k < n \<Longrightarrow> P k t \<Longrightarrow> \<exists>t'. body k t = Some t' \<and> P (Suc k) t'"
  shows "\<exists>s'. for_up i n body s = Some s' \<and> P n s'"
  using assms
proof (induction i n body s rule: for_up.induct)
  case (1 i n body s)
  show ?case
  proof (cases "i < n")
    case True
    then obtain t' where t': "body i s = Some t'" "P (Suc i) t'" using 1(3,4) by blast
    have "\<exists>s'. for_up (Suc i) n body t' = Some s' \<and> P n s'"
      by (rule 1(1) [OF True t'(1)]) (use True t'(2) 1(4) in auto)
    then show ?thesis using True t'(1) by (subst for_up.simps) simp
  next
    case False
    then have "i = n" using 1(2) by simp
    then show ?thesis using 1(3) by (subst for_up.simps) simp
  qed
qed

lemma for_up_eq:
  assumes "i \<le> n" "\<And>k. i \<le> k \<Longrightarrow> k < n \<Longrightarrow> body k (g k) = Some (g (Suc k))"
  shows "for_up i n body (g i) = Some (g n)"
  using for_up_inv [of i n "\<lambda>k s. s = g k" "g i" body] assms by auto

lemma buf_memcpy_eq:
  assumes "d + count \<le> length dest" "s + count \<le> length src"
  shows "buf_memcpy dest d src s count = Some (take d dest @ take count (drop s src) @ drop (d + count) dest)"
proof -
  define g where "g k = take d dest @ take k (drop s src) @ drop (d + k) dest" for k
  have "for_up 0 count (\<lambda>i dest. do { x \<leftarrow> rd src (s + i); wr dest (d + i) x }) (g 0) = Some (g count)"
  proof (rule for_up_eq)
    fix k assume k: "0 \<le> k" "k < count"
    have m: "min (length src - s) k = k" "min (length src - s) (Suc k) = Suc k" using assms k by simp_all
    have l: "length (g k) = length dest" using assms k by (simp add: g_def)
    have "(g k)[d + k := src ! (s + k)] = g (Suc k)"
    proof (rule nth_equalityI)
      show "length ((g k)[d + k := src ! (s + k)]) = length (g (Suc k))"
        using assms k by (simp add: g_def)
      fix j assume j: "j < length ((g k)[d + k := src ! (s + k)])"
      show "(g k)[d + k := src ! (s + k)] ! j = g (Suc k) ! j"
        using assms k j m by (auto simp: g_def nth_append nth_list_update less_Suc_eq)
    qed
    then show "(do { x \<leftarrow> rd src (s + k); wr (g k) (d + k) x }) = Some (g (Suc k))"
      using assms k l by simp
  qed simp
  then show ?thesis by (simp add: buf_memcpy_def g_def)
qed

lemma buf_memset_eq:
  assumes "count \<le> length s"
  shows "buf_memset s c count = Some (replicate count c @ drop count s)"
proof -
  define g where "g k = replicate k c @ drop k s" for k
  have "for_up 0 count (\<lambda>i s. wr s i c) (g 0) = Some (g count)"
  proof (rule for_up_eq)
    fix k assume k: "0 \<le> k" "k < count"
    then obtain x xs where d: "drop k s = x # xs" using assms by (cases "drop k s") auto
    then have "drop (Suc k) s = xs" by (metis drop_Suc list.sel(3) tl_drop)
    then show "wr (g k) k c = Some (g (Suc k))"
      using assms k d by (simp add: g_def list_update_append replicate_append_same [symmetric])
  qed simp
  then show ?thesis by (simp add: buf_memset_def g_def)
qed

lemma for_down_eq:
  assumes "\<And>k. k < n \<Longrightarrow> body k (g (Suc k)) = Some (g k)"
  shows "for_down n body (g n) = Some (g 0)"
  using assms by (induction n) auto

text \<open>Moving within an array copies the source as it was before, whether or not the areas overlap.\<close>

lemma buf_memmove_eq:
  assumes "d + n \<le> length xs" "s + n \<le> length xs"
  shows "buf_memmove xs d s n = Some (take d xs @ take n (drop s xs) @ drop (d + n) xs)"
proof (cases "d \<le> s")
  case True
  define g where "g k = take d xs @ take k (drop s xs) @ drop (d + k) xs" for k
  have "for_up 0 n (\<lambda>i xs. do { x \<leftarrow> rd xs (s + i); wr xs (d + i) x }) (g 0) = Some (g n)"
  proof (rule for_up_eq)
    fix k assume k: "0 \<le> k" "k < n"
    have m: "min (length xs - s) k = k" "min (length xs - s) (Suc k) = Suc k" using assms k by simp_all
    have l: "length (g k) = length xs" using assms k by (simp add: g_def)
    have x: "g k ! (s + k) = xs ! (s + k)" using assms k True m by (auto simp: g_def nth_append add.commute)
    have "(g k)[d + k := xs ! (s + k)] = g (Suc k)"
    proof (rule nth_equalityI)
      fix j assume j: "j < length ((g k)[d + k := xs ! (s + k)])"
      show "(g k)[d + k := xs ! (s + k)] ! j = g (Suc k) ! j"
        using assms k j m by (auto simp: g_def nth_append nth_list_update less_Suc_eq)
    qed (use assms k in \<open>simp add: g_def\<close>)
    then show "(do { x \<leftarrow> rd (g k) (s + k); wr (g k) (d + k) x }) = Some (g (Suc k))"
      using assms k l x by simp
  qed simp
  then show ?thesis using True by (simp add: buf_memmove_def g_def)
next
  case False
  define g where "g k = take (d + k) xs @ drop k (take n (drop s xs)) @ drop (d + n) xs" for k
  have "for_down n (\<lambda>i xs. do { x \<leftarrow> rd xs (s + i); wr xs (d + i) x }) (g n) = Some (g 0)"
  proof (rule for_down_eq)
    fix k assume k: "k < n"
    have l: "length (g j) = length xs" if "j \<le> n" for j using assms that by (simp add: g_def)
    have x: "g (Suc k) ! (s + k) = xs ! (s + k)" using assms k False by (auto simp: g_def nth_append)
    have "(g (Suc k))[d + k := xs ! (s + k)] = g k"
    proof (rule nth_equalityI)
      show "length ((g (Suc k))[d + k := xs ! (s + k)]) = length (g k)" using l k by simp
      fix j assume "j < length ((g (Suc k))[d + k := xs ! (s + k)])"
      then have j: "j < length xs" using l k by simp
      consider "j < d + k" | "j = d + k" | "\<exists>m. j = Suc (d + k) + m"
        by (metis linorder_less_linear less_iff_Suc_add add_Suc)
      then show "(g (Suc k))[d + k := xs ! (s + k)] ! j = g k ! j"
      proof cases
        case 3
        then obtain m where "j = Suc (d + k) + m" by blast
        then show ?thesis using assms k j by (auto simp: g_def nth_append)
      qed (use assms k j l [of "Suc k"] in \<open>auto simp: g_def nth_append\<close>)
    qed
    then show "(do { x \<leftarrow> rd (g (Suc k)) (s + k); wr (g (Suc k)) (d + k) x }) = Some (g k)"
      using assms k l [of "Suc k"] x by simp
  qed
  then show ?thesis using False assms by (simp add: buf_memmove_def g_def flip: append_assoc)
qed

section \<open>Overwriting a part of an array\<close>

definition overwrite :: "'a list \<Rightarrow> nat \<Rightarrow> 'a list \<Rightarrow> 'a list" where
  "overwrite d r bs = take r d @ bs @ drop (r + length bs) d"

lemma length_overwrite [simp]: "r + length bs \<le> length d \<Longrightarrow> length (overwrite d r bs) = length d"
  by (simp add: overwrite_def)

lemma overwrite_overwrite: "r + length a \<le> length d \<Longrightarrow> overwrite (overwrite d r a) (r + length a) b = overwrite d r (a @ b)"
  by (simp add: overwrite_def min_absorb2 ac_simps)

lemma overwrite_Nil [simp]: "overwrite d r [] = d"
  by (simp add: overwrite_def)

lemma upd_overwrite: "r < length d \<Longrightarrow> d[r := x] = overwrite d r [x]"
  by (simp add: overwrite_def upd_conv_take_nth_drop)

end
