(* ===== verification/Sha256.thy ===== *)
theory Sha256
  imports C_Buf
begin

text \<open>
  SHA-256 and HMAC-SHA-256 (\<^verbatim>\<open>kernel/sha256.c\<close>, \<^verbatim>\<open>kernel/hmac256.c\<close> and the generated code under
  \<^verbatim>\<open>kernel/hacl\<close>). The state is the array of 137 words of the code: the round constants in 0 to 63, the
  message schedule in 64 to 127, the hash value in 128 to 135 and the block counter in 136. Lengths
  and block counts are 32-bit words, as the code declares them; a \<^verbatim>\<open>size_t\<close> argument is cut to 32 bits
  where the code passes it on. A pointer into a buffer is the buffer and an offset.
\<close>

unbundle bit_operations_syntax

section \<open>Words and bytes\<close>

definition Hacl_Hash_Lib_LoadStore_uint32s_from_be_bytes ::
    "u32 list \<Rightarrow> u8 list \<Rightarrow> nat \<Rightarrow> u32 \<Rightarrow> u32 list option" where
  "Hacl_Hash_Lib_LoadStore_uint32s_from_be_bytes output input off len =
     for_up 0 (unat len) (\<lambda>i output.
       do { inputi \<leftarrow> get_unaligned_be32 input (off + unat (4 * word_of_nat i :: u32)); wr output i inputi }) output"

definition Hacl_Hash_Lib_LoadStore_uint32s_to_be_bytes ::
    "u8 list \<Rightarrow> u32 list \<Rightarrow> nat \<Rightarrow> u32 \<Rightarrow> u8 list option" where
  "Hacl_Hash_Lib_LoadStore_uint32s_to_be_bytes output input off len =
     for_up 0 (unat len) (\<lambda>i output.
       do { hd1 \<leftarrow> rd input (off + i); put_unaligned_be32 hd1 output (unat (4 * word_of_nat i :: u32)) }) output"

section \<open>Initialisation\<close>

text \<open>The stores to the state, in the order of the code, with the offsets of its pointers added up.\<close>

definition sha_init_stores :: "(nat \<times> u32) list" where
  "sha_init_stores =
      [(0, 0x428a2f98), (1, 0x71374491), (2, 0xb5c0fbcf), (3, 0xe9b5dba5),
       (4, 0x3956c25b), (5, 0x59f111f1), (6, 0x923f82a4), (7, 0xab1c5ed5),
       (8, 0xd807aa98), (9, 0x12835b01), (10, 0x243185be), (11, 0x550c7dc3),
       (12, 0x72be5d74), (13, 0x80deb1fe), (14, 0x9bdc06a7), (15, 0xc19bf174),
       (16, 0xe49b69c1), (17, 0xefbe4786), (18, 0x0fc19dc6), (19, 0x240ca1cc),
       (20, 0x2de92c6f), (21, 0x4a7484aa), (22, 0x5cb0a9dc), (23, 0x76f988da),
       (24, 0x983e5152), (25, 0xa831c66d), (26, 0xb00327c8), (27, 0xbf597fc7),
       (28, 0xc6e00bf3), (29, 0xd5a79147), (30, 0x06ca6351), (31, 0x14292967),
       (32, 0x27b70a85), (33, 0x2e1b2138), (34, 0x4d2c6dfc), (35, 0x53380d13),
       (36, 0x650a7354), (37, 0x766a0abb), (38, 0x81c2c92e), (39, 0x92722c85),
       (40, 0xa2bfe8a1), (41, 0xa81a664b), (42, 0xc24b8b70), (43, 0xc76c51a3),
       (44, 0xd192e819), (45, 0xd6990624), (46, 0xf40e3585), (47, 0x106aa070),
       (48, 0x19a4c116), (49, 0x1e376c08), (50, 0x2748774c), (51, 0x34b0bcb5),
       (52, 0x391c0cb3), (53, 0x4ed8aa4a), (54, 0x5b9cca4f), (55, 0x682e6ff3),
       (56, 0x748f82ee), (57, 0x78a5636f), (58, 0x84c87814), (59, 0x8cc70208),
       (60, 0x90befffa), (61, 0xa4506ceb), (62, 0xbef9a3f7), (63, 0xc67178f2),
       (128, 0x6a09e667), (129, 0xbb67ae85), (130, 0x3c6ef372), (131, 0xa54ff53a),
       (132, 0x510e527f), (133, 0x9b05688c), (134, 0x1f83d9ab), (135, 0x5be0cd19),
       (136, 0)]"

definition Hacl_Impl_SHA2_256_init :: "u32 list \<Rightarrow> u32 list option" where
  "Hacl_Impl_SHA2_256_init state =
     fold (\<lambda>(i, v) st. Option.bind st (\<lambda>st. wr st i v)) sha_init_stores (Some state)"

section \<open>One block\<close>

definition rotr32 :: "nat \<Rightarrow> u32 \<Rightarrow> u32" where
  "rotr32 n x = drop_bit n x OR push_bit (32 - n) x"

definition sha_schedule :: "nat \<Rightarrow> u32 list \<Rightarrow> u32 list option" where
  "sha_schedule i state =
     do { t16 \<leftarrow> rd state (64 + (i - 16)); t15 \<leftarrow> rd state (64 + (i - 15));
          t7 \<leftarrow> rd state (64 + (i - 7)); t2 \<leftarrow> rd state (64 + (i - 2));
          wr state (64 + i)
            ((rotr32 17 t2 XOR (rotr32 19 t2 XOR drop_bit 10 t2)) + t7 +
             (rotr32 7 t15 XOR (rotr32 18 t15 XOR drop_bit 3 t15)) + t16) }"

definition sha_shuffle :: "u32 list \<Rightarrow> nat \<Rightarrow> u32 list \<Rightarrow> u32 list option" where
  "sha_shuffle state i hash_0 =
     do { a \<leftarrow> rd hash_0 0; b \<leftarrow> rd hash_0 1; c \<leftarrow> rd hash_0 2; d \<leftarrow> rd hash_0 3;
          e \<leftarrow> rd hash_0 4; f1 \<leftarrow> rd hash_0 5; g \<leftarrow> rd hash_0 6; h \<leftarrow> rd hash_0 7;
          kt \<leftarrow> rd state i; wst \<leftarrow> rd state (64 + i);
          let t1 = h + (rotr32 6 e XOR (rotr32 11 e XOR rotr32 25 e)) + ((e AND f1) XOR (NOT e AND g)) + kt + wst;
              t2 = (rotr32 2 a XOR (rotr32 13 a XOR rotr32 22 a)) + ((a AND b) XOR ((a AND c) XOR (b AND c)));
              x1 = t1 + t2; x5 = d + t1
          in do { p \<leftarrow> wr hash_0 0 x1; p \<leftarrow> wr p 1 a; p \<leftarrow> wr p 2 b; p \<leftarrow> wr p 3 c;
                  p \<leftarrow> wr p 4 x5; p \<leftarrow> wr p 5 e; p \<leftarrow> wr p 6 f1; wr p 7 g } }"

definition Hacl_Impl_SHA2_256_update :: "u32 list \<Rightarrow> u8 list \<Rightarrow> nat \<Rightarrow> u32 list option" where
  "Hacl_Impl_SHA2_256_update state data off =
     do { data_w \<leftarrow> Hacl_Hash_Lib_LoadStore_uint32s_from_be_bytes (replicate 16 0) data off 16;
          state \<leftarrow> for_up 0 16 (\<lambda>i st. do { b \<leftarrow> rd data_w i; wr st (64 + i) b }) state;
          state \<leftarrow> for_up 16 64 sha_schedule state;
          hash_0 \<leftarrow> buf_memcpy (replicate 8 0) 0 state 128 8;
          hash_0 \<leftarrow> for_up 0 64 (sha_shuffle state) hash_0;
          state \<leftarrow> for_up 0 8 (\<lambda>i st. do { xi \<leftarrow> rd st (128 + i); yi \<leftarrow> rd hash_0 i; wr st (128 + i) (xi + yi) }) state;
          c0 \<leftarrow> rd state 136;
          wr state 136 (c0 + 1) }"

section \<open>Messages\<close>

definition Hacl_Impl_SHA2_256_update_multi :: "u32 list \<Rightarrow> u8 list \<Rightarrow> nat \<Rightarrow> u32 \<Rightarrow> u32 list option" where
  "Hacl_Impl_SHA2_256_update_multi state data off n1 =
     for_up 0 (unat n1) (\<lambda>i st. Hacl_Impl_SHA2_256_update st data (off + unat (word_of_nat i * 64 :: u32))) state"

definition Hacl_Impl_SHA2_256_update_last :: "u32 list \<Rightarrow> u8 list \<Rightarrow> nat \<Rightarrow> u32 \<Rightarrow> u32 list option" where
  "Hacl_Impl_SHA2_256_update_last state data off len =
     (let blocks = replicate 128 0;
          nb = (if len < 56 then 1 else 2);
          final_blocks = (if len < 56 then 64 else 0);
          pad0len = (64 - (len + 8 + 1) mod 64) mod 64;
          padding = final_blocks + unat len
      in do { blocks \<leftarrow> buf_memcpy blocks final_blocks data off (unat len);
              n1 \<leftarrow> rd state 136;
              let encodedlen = (ucast n1 * 64 + ucast len) * 8 :: u64
              in do { blocks \<leftarrow> wr blocks padding 0x80;
                      blocks \<leftarrow> put_unaligned_be64 encodedlen blocks (padding + 1 + unat pad0len);
                      Hacl_Impl_SHA2_256_update_multi state blocks final_blocks nb } })"

definition Hacl_Impl_SHA2_256_finish :: "u32 list \<Rightarrow> u8 list \<Rightarrow> u8 list option" where
  "Hacl_Impl_SHA2_256_finish state hash1 = Hacl_Hash_Lib_LoadStore_uint32s_to_be_bytes hash1 state 128 8"

definition Hacl_Impl_SHA2_256_hash :: "u8 list \<Rightarrow> u8 list \<Rightarrow> u32 \<Rightarrow> u8 list option" where
  "Hacl_Impl_SHA2_256_hash hash1 input len =
     (let state = replicate 137 0; n1 = len div 64; r = len mod 64; input_last = unat (n1 * 64)
      in do { state \<leftarrow> Hacl_Impl_SHA2_256_init state;
              state \<leftarrow> Hacl_Impl_SHA2_256_update_multi state input 0 n1;
              state \<leftarrow> Hacl_Impl_SHA2_256_update_last state input input_last r;
              Hacl_Impl_SHA2_256_finish state hash1 })"

section \<open>The interface of the kernel\<close>

definition sha256_init :: "u32 list \<Rightarrow> u32 list option" where
  "sha256_init ctx = Hacl_Impl_SHA2_256_init ctx"

definition sha256_update :: "u32 list \<Rightarrow> u8 list \<Rightarrow> u32 list option" where
  "sha256_update ctx data = Hacl_Impl_SHA2_256_update ctx data 0"

definition sha256_update_last :: "u32 list \<Rightarrow> u8 list \<Rightarrow> u64 \<Rightarrow> u32 list option" where
  "sha256_update_last ctx data len = Hacl_Impl_SHA2_256_update_last ctx data 0 (ucast len)"

definition sha256_finish :: "u32 list \<Rightarrow> u8 list \<Rightarrow> u8 list option" where
  "sha256_finish ctx out = Hacl_Impl_SHA2_256_finish ctx out"

definition sha256_update_multi :: "u32 list \<Rightarrow> u8 list \<Rightarrow> u64 \<Rightarrow> u32 list option" where
  "sha256_update_multi ctx data n = Hacl_Impl_SHA2_256_update_multi ctx data 0 (ucast n)"

definition sha256_hash :: "u8 list \<Rightarrow> u8 list \<Rightarrow> u64 \<Rightarrow> u8 list option" where
  "sha256_hash out data len = Hacl_Impl_SHA2_256_hash out data (ucast len)"

section \<open>HMAC\<close>

definition Hacl_Impl_HMAC_SHA2_256_xor_bytes_inplace :: "u8 list \<Rightarrow> u8 list \<Rightarrow> u32 \<Rightarrow> u8 list option" where
  "Hacl_Impl_HMAC_SHA2_256_xor_bytes_inplace a b len =
     for_up 0 (unat len) (\<lambda>i a. do { xi \<leftarrow> rd a i; yi \<leftarrow> rd b i; wr a i (xi XOR yi) }) a"

definition Hacl_Impl_HMAC_SHA2_256_hmac_core :: "u8 list \<Rightarrow> u8 list \<Rightarrow> u8 list \<Rightarrow> u32 \<Rightarrow> u8 list option" where
  "Hacl_Impl_HMAC_SHA2_256_hmac_core mac key data len =
     (let ipad = replicate 64 0x36; opad = replicate 64 0x5c;
          n0 = len div 64; r0 = len mod 64; last0 = unat (n0 * 64)
      in do { ipad \<leftarrow> Hacl_Impl_HMAC_SHA2_256_xor_bytes_inplace ipad key 64;
              state0 \<leftarrow> Hacl_Impl_SHA2_256_init (replicate 137 0);
              state0 \<leftarrow> Hacl_Impl_SHA2_256_update state0 ipad 0;
              state0 \<leftarrow> Hacl_Impl_SHA2_256_update_multi state0 data 0 n0;
              state0 \<leftarrow> Hacl_Impl_SHA2_256_update_last state0 data last0 r0;
              ipad \<leftarrow> Hacl_Impl_SHA2_256_finish state0 ipad;
              opad \<leftarrow> Hacl_Impl_HMAC_SHA2_256_xor_bytes_inplace opad key 64;
              state1 \<leftarrow> Hacl_Impl_SHA2_256_init (replicate 137 0);
              state1 \<leftarrow> Hacl_Impl_SHA2_256_update state1 opad 0;
              state1 \<leftarrow> Hacl_Impl_SHA2_256_update_last state1 ipad 0 32;
              Hacl_Impl_SHA2_256_finish state1 mac })"

definition Hacl_Impl_HMAC_SHA2_256_hmac :: "u8 list \<Rightarrow> u8 list \<Rightarrow> u32 \<Rightarrow> u8 list \<Rightarrow> u32 \<Rightarrow> u8 list option" where
  "Hacl_Impl_HMAC_SHA2_256_hmac mac key keylen data datalen =
     (let nkey = replicate 64 0
      in do { nkey \<leftarrow> (if keylen \<le> 64 then buf_memcpy nkey 0 key 0 (unat keylen)
                       else Hacl_Impl_SHA2_256_hash nkey key keylen);
              Hacl_Impl_HMAC_SHA2_256_hmac_core mac nkey data datalen })"

definition hmac256_hash :: "u8 list \<Rightarrow> u8 list \<Rightarrow> u64 \<Rightarrow> u8 list \<Rightarrow> u64 \<Rightarrow> u8 list option" where
  "hmac256_hash out key keylen data datalen =
     Hacl_Impl_HMAC_SHA2_256_hmac out key (ucast keylen) data (ucast datalen)"

end
