(* ===== verification/Sha256_Spec.thy ===== *)
theory Sha256_Spec
  imports Sha256
begin

text \<open>
  The standards the hash code implements: SHA-256 of FIPS 180-4 and HMAC of FIPS 198-1, as functions
  on lists of bytes. The constants are defined as fractions of roots, not as tables.
\<close>

unbundle bit_operations_syntax

section \<open>The standard\<close>

text \<open>SHA-256 after FIPS 180-4 and HMAC after FIPS 198-1, on lists of bytes.\<close>

text \<open>
  The constants as the standard defines them: the first 32 bits of the fractional parts of the cube
  roots of the first 64 primes, and of the square roots of the first eight. \<open>int_root n i x a\<close> is the
  integer root, found bit by bit.
\<close>

fun int_root :: "nat \<Rightarrow> nat \<Rightarrow> int \<Rightarrow> int \<Rightarrow> int" where
  "int_root n 0 x a = a"
| "int_root n (Suc i) x a = int_root n i x (if (a + 2 ^ i) ^ n \<le> x then a + 2 ^ i else a)"

lemma int_root:
  "a ^ n \<le> x \<Longrightarrow> x < (a + 2 ^ i) ^ n \<Longrightarrow> int_root n i x a ^ n \<le> x \<and> x < (int_root n i x a + 1) ^ n"
  by (induction n i x a rule: int_root.induct) (auto simp: algebra_simps)

definition sha_primes :: "int list" where
  "sha_primes =
  [2, 3, 5, 7, 11, 13, 17, 19, 23, 29, 31, 37, 41, 43, 47, 53, 59, 61, 67, 71, 73, 79, 83, 89, 97, 101,
   103, 107, 109, 113, 127, 131, 137, 139, 149, 151, 157, 163, 167, 173, 179, 181, 191, 193, 197, 199, 211, 223, 227, 229, 233, 239,
   241, 251, 257, 263, 269, 271, 277, 281, 283, 293, 307, 311]"

definition root_fraction :: "nat \<Rightarrow> int \<Rightarrow> u32" where
  "root_fraction n p = word_of_int (int_root n (32 + 5) (p * 2 ^ (32 * n)) 0)"

definition sha_K :: "u32 list" where
  "sha_K = map (root_fraction 3) sha_primes"

definition sha_H0 :: "u32 list" where
  "sha_H0 = map (root_fraction 2) (take 8 sha_primes)"

lemma root_fraction:
  assumes "n \<noteq> 0" "0 \<le> p" "p < 32 ^ n"
  obtains r where "root_fraction n p = word_of_int r" "r ^ n \<le> p * 2 ^ (32 * n)" "p * 2 ^ (32 * n) < (r + 1) ^ n"
proof -
  have "p * 2 ^ (32 * n) < (0 + 2 ^ (32 + 5)) ^ n"
    using assms(3) mult_strict_right_mono [of p "32 ^ n" "2 ^ (32 * n)"]
    by (simp add: power_mult power_mult_distrib [symmetric])
  then show thesis
    using int_root [of 0 n "p * 2 ^ (32 * n)" "32 + 5"] assms(1,2) that [OF root_fraction_def] by (simp add: power_0_left)
qed

definition sha_Ch :: "u32 \<Rightarrow> u32 \<Rightarrow> u32 \<Rightarrow> u32" where
  "sha_Ch x y z = (x AND y) XOR (NOT x AND z)"

definition sha_Maj :: "u32 \<Rightarrow> u32 \<Rightarrow> u32 \<Rightarrow> u32" where
  "sha_Maj x y z = (x AND y) XOR (x AND z) XOR (y AND z)"

definition sha_S0 :: "u32 \<Rightarrow> u32" where
  "sha_S0 x = word_rotr 2 x XOR word_rotr 13 x XOR word_rotr 22 x"

definition sha_S1 :: "u32 \<Rightarrow> u32" where
  "sha_S1 x = word_rotr 6 x XOR word_rotr 11 x XOR word_rotr 25 x"

definition sha_s0 :: "u32 \<Rightarrow> u32" where
  "sha_s0 x = word_rotr 7 x XOR word_rotr 18 x XOR drop_bit 3 x"

definition sha_s1 :: "u32 \<Rightarrow> u32" where
  "sha_s1 x = word_rotr 17 x XOR word_rotr 19 x XOR drop_bit 10 x"

fun sha_W :: "u32 list \<Rightarrow> nat \<Rightarrow> u32" where
  "sha_W M t =
     (if t < 16 then M ! t
      else sha_s1 (sha_W M (t - 2)) + sha_W M (t - 7) + sha_s0 (sha_W M (t - 15)) + sha_W M (t - 16))"

declare sha_W.simps [simp del]

fun sha_round :: "u32 list \<Rightarrow> nat \<Rightarrow> u32 list \<Rightarrow> u32 list" where
  "sha_round M t [a, b, c, d, e, f, g, h] =
     (let T1 = h + sha_S1 e + sha_Ch e f g + sha_K ! t + sha_W M t;
          T2 = sha_S0 a + sha_Maj a b c
      in [T1 + T2, a, b, c, d + T1, e, f, g])"
| "sha_round M t hs = hs"

definition sha_compress :: "u32 list \<Rightarrow> u32 list \<Rightarrow> u32 list" where
  "sha_compress H M = map2 (+) H (fold (sha_round M) [0..<64] H)"

definition be_word :: "u8 list \<Rightarrow> u32" where
  "be_word bs = fold (\<lambda>b w. push_bit 8 w OR ucast b) bs 0"

definition be_bytes :: "nat \<Rightarrow> 'a::len word \<Rightarrow> u8 list" where
  "be_bytes n w = map (\<lambda>i. ucast (drop_bit (8 * i) w)) (rev [0..<n])"

definition be_words :: "u8 list \<Rightarrow> u32 list" where
  "be_words bs = map (\<lambda>i. be_word (take 4 (drop (4 * i) bs))) [0..<length bs div 4]"

function sha_absorb :: "u32 list \<Rightarrow> u8 list \<Rightarrow> u32 list" where
  "sha_absorb H bs =
     (if length bs < 64 then H else sha_absorb (sha_compress H (be_words (take 64 bs))) (drop 64 bs))"
  by auto
termination
  by (relation "measure (\<lambda>(H, bs). length bs)") auto

declare sha_absorb.simps [simp del]

definition sha_pad :: "u8 list \<Rightarrow> u8 list" where
  "sha_pad msg =
     msg @ 0x80 # replicate ((64 - (length msg + 9) mod 64) mod 64) 0 @
     be_bytes 8 (word_of_nat (8 * length msg) :: u64)"

definition sha256_spec :: "u8 list \<Rightarrow> u8 list" where
  "sha256_spec msg = concat (map (be_bytes 4) (sha_absorb sha_H0 (sha_pad msg)))"

definition hmac_key :: "u8 list \<Rightarrow> u8 list" where
  "hmac_key key =
     (if length key \<le> 64 then key @ replicate (64 - length key) 0 else sha256_spec key @ replicate 32 0)"

definition hmac256_spec :: "u8 list \<Rightarrow> u8 list \<Rightarrow> u8 list" where
  "hmac256_spec key msg =
     sha256_spec (map (\<lambda>k. k XOR 0x5c) (hmac_key key) @ sha256_spec (map (\<lambda>k. k XOR 0x36) (hmac_key key) @ msg))"

end
