(* ===== verification/Sha256_Run.thy ===== *)
theory Sha256_Run
  imports Sha256_Spec
begin

text \<open>
  The loops of the hash code compute the functions of the standard: the message schedule, the rounds,
  whole blocks, the padding of the last block and the output.
\<close>

unbundle bit_operations_syntax

section \<open>Word operations\<close>

lemma rotr32_rotr: "0 < n \<Longrightarrow> n < 32 \<Longrightarrow> rotr32 n x = word_rotr n x"
proof (rule bit_word_eqI)
  fix k assume n: "0 < n" "n < 32" and k: "k < LENGTH(32)"
  have "(k + n) mod 32 = (if k + n < 32 then k + n else k + n - 32)"
    using n k by (auto simp: mod_if)
  then show "bit (rotr32 n x) k = bit (word_rotr n x) k"
    using n k by (auto simp: rotr32_def bit_simps bit_word_rotr_iff add.commute bit_imp_le_length dest: bit_imp_le_length)
qed

lemma sha_sigma:
  "rotr32 2 x XOR (rotr32 13 x XOR rotr32 22 x) = sha_S0 x"
  "rotr32 6 x XOR (rotr32 11 x XOR rotr32 25 x) = sha_S1 x"
  "rotr32 7 x XOR (rotr32 18 x XOR drop_bit 3 x) = sha_s0 x"
  "rotr32 17 x XOR (rotr32 19 x XOR drop_bit 10 x) = sha_s1 x"
  by (simp_all add: sha_S0_def sha_S1_def sha_s0_def sha_s1_def rotr32_rotr xor.assoc)

lemma be_word_4: "be_word [a, b, c, d] = push_bit 24 (ucast a) OR push_bit 16 (ucast b) OR push_bit 8 (ucast c) OR ucast d"
  by (simp add: be_word_def push_bit_or or.assoc)

lemma take_4_drop:
  assumes "i + 4 \<le> length bs"
  shows "take 4 (drop i bs) = [bs ! i, bs ! (i + 1), bs ! (i + 2), bs ! (i + 3)]"
  by (rule nth_equalityI) (use assms in \<open>auto simp: less_Suc_eq numeral_eq_Suc\<close>)

lemma get_be32:
  assumes "i + 4 \<le> length bs"
  shows "get_unaligned_be32 bs i = Some (be_word (take 4 (drop i bs)))"
  using assms by (simp add: get_unaligned_be32_def take_4_drop be_word_4)

lemma length_be_words [simp]: "length (be_words bs) = length bs div 4"
  by (simp add: be_words_def)

lemma nth_be_words: "i < length bs div 4 \<Longrightarrow> be_words bs ! i = be_word (take 4 (drop (4 * i) bs))"
  by (simp add: be_words_def)

lemma unat_word_small: "n < 2 ^ LENGTH('a) \<Longrightarrow> unat (word_of_nat n :: 'a::len word) = n"
  by (simp add: unsigned_of_nat take_bit_nat_eq_self)

lemma unat_mult_small:
  "c * i < 2 ^ 32 \<Longrightarrow> unat (word_of_nat c * word_of_nat i :: u32) = c * i"
  using unat_word_small [of "c * i", where 'a = 32] by simp

lemma from_be_bytes:
  assumes "off + 64 \<le> length data"
  shows "Hacl_Hash_Lib_LoadStore_uint32s_from_be_bytes (replicate 16 0) data off 16 =
    Some (be_words (take 64 (drop off data)))"
proof -
  define ws where "ws = be_words (take 64 (drop off data))"
  have lw: "length ws = 16" using assms by (simp add: ws_def)
  define g where "g k = take k ws @ replicate (16 - k) 0" for k
  have "for_up 0 16 (\<lambda>i output. do { inputi \<leftarrow> get_unaligned_be32 data (off + unat (4 * word_of_nat i :: u32)); wr output i inputi }) (g 0)
      = Some (g 16)"
  proof (rule for_up_eq)
    fix k :: nat assume k: "0 \<le> k" "k < 16"
    have u: "unat (4 * word_of_nat k :: u32) = 4 * k"
      using unat_mult_small [of 4 k] k by simp
    have t: "take 4 (drop (4 * k) (take 64 (drop off data))) = take 4 (drop (off + 4 * k) data)"
      using k by (simp add: drop_take min_def add.commute)
    have "get_unaligned_be32 data (off + 4 * k) = Some (ws ! k)"
      using assms k by (simp add: get_be32 ws_def nth_be_words t)
    moreover have "(g k)[k := ws ! k] = g (Suc k)"
    proof -
      obtain m where m: "16 - k = Suc m" using k by (cases "16 - k") auto
      then have "16 - Suc k = m" by simp
      then show ?thesis using k lw m by (simp add: g_def list_update_append take_Suc_conv_app_nth)
    qed
    moreover have "length (g k) = 16" using k lw by (simp add: g_def)
    ultimately show "(do { inputi \<leftarrow> get_unaligned_be32 data (off + unat (4 * word_of_nat k :: u32)); wr (g k) k inputi })
        = Some (g (Suc k))"
      using k u by simp
  qed simp
  then show ?thesis using lw by (simp add: Hacl_Hash_Lib_LoadStore_uint32s_from_be_bytes_def g_def ws_def)
qed

section \<open>The state array\<close>

definition sha_state :: "u32 list \<Rightarrow> u32 list \<Rightarrow> u32 \<Rightarrow> u32 list" where
  "sha_state ws hs n = sha_K @ ws @ hs @ [n]"

lemma length_sha_K [simp]: "length sha_K = 64"
  by (simp add: sha_K_def sha_primes_def)

lemma length_sha_H0 [simp]: "length sha_H0 = 8"
  by (simp add: sha_H0_def sha_primes_def)

lemma sha_state_rd:
  assumes "length ws = 64" "length hs = 8"
  shows "i < 64 \<Longrightarrow> rd (sha_state ws hs n) i = Some (sha_K ! i)"
    "i < 64 \<Longrightarrow> rd (sha_state ws hs n) (64 + i) = Some (ws ! i)"
    "i < 8 \<Longrightarrow> rd (sha_state ws hs n) (128 + i) = Some (hs ! i)"
    "rd (sha_state ws hs n) 136 = Some n"
  using assms by (auto simp: rd_def sha_state_def nth_append)

lemma sha_state_wr:
  assumes "length ws = 64" "length hs = 8"
  shows "i < 64 \<Longrightarrow> wr (sha_state ws hs n) (64 + i) v = Some (sha_state (ws[i := v]) hs n)"
    "i < 8 \<Longrightarrow> wr (sha_state ws hs n) (128 + i) v = Some (sha_state ws (hs[i := v]) n)"
    "wr (sha_state ws hs n) 136 v = Some (sha_state ws hs v)"
  using assms by (auto simp: wr_def sha_state_def list_update_append)

lemma fold_wr:
  assumes "j + length vs \<le> length st"
  shows "fold (\<lambda>(i, v) st. Option.bind st (\<lambda>st. wr st i v)) (zip [j..<j + length vs] vs) (Some st) =
    Some (take j st @ vs @ drop (j + length vs) st)"
  using assms
proof (induction vs arbitrary: j st)
  case (Cons v vs)
  have u: "[j..<j + length (v # vs)] = j # [Suc j..<Suc j + length vs]" by (simp add: upt_rec)
  have "fold (\<lambda>(i, v) st. Option.bind st (\<lambda>st. wr st i v)) (zip [Suc j..<Suc j + length vs] vs) (Some (st[j := v])) =
      Some (take (Suc j) (st[j := v]) @ vs @ drop (Suc j + length vs) (st[j := v]))"
    by (rule Cons.IH) (use Cons.prems in simp)
  moreover have "take (Suc j) (st[j := v]) = take j st @ [v]"
    using Cons.prems by (simp add: take_Suc_conv_app_nth)
  ultimately show ?case using Cons.prems unfolding u by simp
qed simp

lemma sha_init_stores_eq:
  "sha_init_stores = zip [0..<64] sha_K @ zip [128..<136] sha_H0 @ zip [136..<137] [0]"
  by code_simp

lemma sha_init:
  assumes "length st = 137"
  shows "Hacl_Impl_SHA2_256_init st = Some (sha_state (take 64 (drop 64 st)) sha_H0 0)"
proof -
  have l: "length sha_K = 64" "length sha_H0 = 8" by simp_all
  define st1 where "st1 = sha_K @ drop 64 st"
  define st2 where "st2 = take 128 st1 @ sha_H0 @ drop 136 st1"
  have "Hacl_Impl_SHA2_256_init st =
    fold (\<lambda>(i, v) st. Option.bind st (\<lambda>st. wr st i v))
      (zip [0..<0 + length sha_K] sha_K @ zip [128..<128 + length sha_H0] sha_H0 @ zip [136..<136 + length [0 :: u32]] [0]) (Some st)"
    by (simp add: Hacl_Impl_SHA2_256_init_def sha_init_stores_eq)
  also have "\<dots> = Some (take 136 st2 @ [0] @ drop (136 + 1) st2)"
    using assms fold_wr [of 0 sha_K st] fold_wr [of 128 sha_H0 st1] fold_wr [of 136 "[0]" st2]
    by (simp add: st1_def st2_def)
  also have "take 136 st2 @ [0] @ drop (136 + 1) st2 = sha_state (take 64 (drop 64 st)) sha_H0 0"
    using assms by (simp add: st1_def st2_def sha_state_def)
  finally show ?thesis .
qed

section \<open>One block\<close>

definition sha_schedule_upto :: "u32 list \<Rightarrow> nat \<Rightarrow> u32 list \<Rightarrow> u32 list" where
  "sha_schedule_upto M k ws = map (sha_W M) [0..<k] @ drop k ws"

lemma sha_schedule_upto_length [simp]: "k \<le> length ws \<Longrightarrow> length (sha_schedule_upto M k ws) = length ws"
  by (simp add: sha_schedule_upto_def)

lemma sha_schedule_upto_nth: "i < k \<Longrightarrow> sha_schedule_upto M k ws ! i = sha_W M i"
  by (simp add: sha_schedule_upto_def nth_append)

lemma sha_schedule_upto_step:
  "k < length ws \<Longrightarrow> (sha_schedule_upto M k ws)[k := sha_W M k] = sha_schedule_upto M (Suc k) ws"
  by (simp add: sha_schedule_upto_def list_update_append Cons_nth_drop_Suc [symmetric])

lemma sha_load_words:
  assumes "length M = 16" "length ws = 64" "length hs = 8"
  shows "for_up 0 16 (\<lambda>i st. do { b \<leftarrow> rd M i; wr st (64 + i) b }) (sha_state ws hs n) =
    Some (sha_state (sha_schedule_upto M 16 ws) hs n)"
proof -
  have "for_up 0 16 (\<lambda>i st. do { b \<leftarrow> rd M i; wr st (64 + i) b }) (sha_state (sha_schedule_upto M 0 ws) hs n) =
    Some (sha_state (sha_schedule_upto M 16 ws) hs n)"
  proof (rule for_up_eq [of 0 16 _ "\<lambda>k. sha_state (sha_schedule_upto M k ws) hs n"])
    fix k :: nat assume k: "0 \<le> k" "k < 16"
    have "M ! k = sha_W M k" using k by (simp add: sha_W.simps)
    then show "(do { b \<leftarrow> rd M k; wr (sha_state (sha_schedule_upto M k ws) hs n) (64 + k) b }) =
        Some (sha_state (sha_schedule_upto M (Suc k) ws) hs n)"
      using k assms by (simp add: sha_state_wr sha_schedule_upto_step)
  qed simp
  then show ?thesis by (simp add: sha_schedule_upto_def)
qed

lemma sha_schedule_loop:
  assumes "length ws = 64" "length hs = 8"
  shows "for_up 16 64 sha_schedule (sha_state (sha_schedule_upto M 16 ws) hs n) =
    Some (sha_state (sha_schedule_upto M 64 ws) hs n)"
proof (rule for_up_eq [of 16 64 _ "\<lambda>k. sha_state (sha_schedule_upto M k ws) hs n"])
  fix k :: nat assume k: "16 \<le> k" "k < 64"
  have "sha_W M k = sha_s1 (sha_W M (k - 2)) + sha_W M (k - 7) + sha_s0 (sha_W M (k - 15)) + sha_W M (k - 16)"
    using k by (subst sha_W.simps) simp
  moreover have r: "rd (sha_state (sha_schedule_upto M k ws) hs n) (64 + (k - j)) = Some (sha_W M (k - j))"
    if "0 < j" "j \<le> 16" for j
    using k assms that sha_state_rd(2) [of "sha_schedule_upto M k ws" hs "k - j" n]
    by (simp only: sha_schedule_upto_length sha_schedule_upto_nth less_imp_le)
  ultimately show "sha_schedule k (sha_state (sha_schedule_upto M k ws) hs n) =
      Some (sha_state (sha_schedule_upto M (Suc k) ws) hs n)"
    unfolding sha_schedule_def sha_sigma using k assms r [of 16] r [of 15] r [of 7] r [of 2]
    by (simp del: diff_diff_left add: sha_state_wr sha_schedule_upto_step [symmetric])
qed simp

lemma length_8:
  assumes "length xs = 8"
  obtains a b c d e f g h where "xs = [a, b, c, d, e, f, g, h]"
  using assms by (auto simp: numeral_eq_Suc length_Suc_conv)

lemma wr_8:
  "wr [a, b, c, d, e, f, g, h] 0 v = Some [v, b, c, d, e, f, g, h]"
  "wr [a, b, c, d, e, f, g, h] (Suc 0) v = Some [a, v, c, d, e, f, g, h]"
  "wr [a, b, c, d, e, f, g, h] 2 v = Some [a, b, v, d, e, f, g, h]"
  "wr [a, b, c, d, e, f, g, h] 3 v = Some [a, b, c, v, e, f, g, h]"
  "wr [a, b, c, d, e, f, g, h] 4 v = Some [a, b, c, d, v, f, g, h]"
  "wr [a, b, c, d, e, f, g, h] 5 v = Some [a, b, c, d, e, v, g, h]"
  "wr [a, b, c, d, e, f, g, h] 6 v = Some [a, b, c, d, e, f, v, h]"
  "wr [a, b, c, d, e, f, g, h] 7 v = Some [a, b, c, d, e, f, g, v]"
  by (simp_all add: wr_def numeral_eq_Suc)

lemma sha_round_length [simp]: "length xs = 8 \<Longrightarrow> length (sha_round M t xs) = 8"
  by (erule length_8) (simp add: Let_def)

lemma sha_shuffle_round:
  assumes "length ws = 64" "length hs = 8" "length xs = 8" "i < 64"
  shows "sha_shuffle (sha_state (sha_schedule_upto M 64 ws) hs n) i xs = Some (sha_round M i xs)"
proof -
  obtain a b c d e f g h where "xs = [a, b, c, d, e, f, g, h]" using length_8 [OF assms(3)] .
  then show ?thesis
    using assms sha_state_rd(1,2) [of "sha_schedule_upto M 64 ws" hs i n]
    by (simp add: sha_shuffle_def sha_schedule_upto_nth sha_sigma sha_Ch_def sha_Maj_def xor.assoc Let_def wr_8
        del: wr_simps)
qed

lemma sha_rounds:
  assumes "length ws = 64" "length hs = 8"
  shows "for_up 0 64 (sha_shuffle (sha_state (sha_schedule_upto M 64 ws) hs n)) hs = Some (fold (sha_round M) [0..<64] hs)"
proof -
  have l: "length (fold (sha_round M) [0..<k] hs) = 8" for k
    by (induction k) (simp_all add: assms)
  show ?thesis
    using for_up_eq [of 0 64 "sha_shuffle (sha_state (sha_schedule_upto M 64 ws) hs n)" "\<lambda>k. fold (sha_round M) [0..<k] hs"]
    using assms l by (simp add: sha_shuffle_round)
qed

lemma sha_add_hash:
  assumes "length ws = 64" "length hs = 8" "length xs = 8"
  shows "for_up 0 8 (\<lambda>i st. do { xi \<leftarrow> rd st (128 + i); yi \<leftarrow> rd xs i; wr st (128 + i) (xi + yi) }) (sha_state ws hs n) =
    Some (sha_state ws (map2 (+) hs xs) n)"
proof -
  define g where "g k = take k (map2 (+) hs xs) @ drop k hs" for k
  have l: "k \<le> 8 \<Longrightarrow> length (g k) = 8" for k using assms by (simp add: g_def)
  have "for_up 0 8 (\<lambda>i st. do { xi \<leftarrow> rd st (128 + i); yi \<leftarrow> rd xs i; wr st (128 + i) (xi + yi) }) (sha_state ws (g 0) n) =
    Some (sha_state ws (g 8) n)"
  proof (rule for_up_eq [of 0 8 _ "\<lambda>k. sha_state ws (g k) n"])
    fix k :: nat assume k: "0 \<le> k" "k < 8"
    have "g k ! k = hs ! k" using k assms by (simp add: g_def nth_append)
    moreover have "(g k)[k := hs ! k + xs ! k] = g (Suc k)"
      using k assms by (simp add: g_def list_update_append take_Suc_conv_app_nth Cons_nth_drop_Suc [symmetric])
    ultimately show "(do { xi \<leftarrow> rd (sha_state ws (g k) n) (128 + k); yi \<leftarrow> rd xs k; wr (sha_state ws (g k) n) (128 + k) (xi + yi) }) =
        Some (sha_state ws (g (Suc k)) n)"
      using k assms l [of k] by (simp add: sha_state_rd(3) sha_state_wr(2))
  qed simp
  then show ?thesis using assms by (simp add: g_def)
qed

lemma length_sha_compress [simp]: "length hs = 8 \<Longrightarrow> length (sha_compress hs M) = 8"
proof -
  assume "length hs = 8"
  moreover have "length (fold (sha_round M) ts hs) = length hs" if "length hs = 8" for ts
    using that by (induction ts arbitrary: hs) simp_all
  ultimately show ?thesis by (simp add: sha_compress_def)
qed

lemma sha_update:
  assumes "length ws = 64" "length hs = 8" "off + 64 \<le> length data"
  shows "\<exists>ws'. length ws' = 64 \<and> Hacl_Impl_SHA2_256_update (sha_state ws hs n) data off =
    Some (sha_state ws' (sha_compress hs (be_words (take 64 (drop off data)))) (n + 1))"
proof -
  define M where "M = be_words (take 64 (drop off data))"
  have M: "length M = 16" using assms by (simp add: M_def)
  let ?ws = "sha_schedule_upto M 64 ws"
  have cp: "buf_memcpy (replicate 8 0) 0 (sha_state ?ws hs n) 128 8 = Some hs"
    using assms by (subst buf_memcpy_eq) (simp_all add: sha_state_def)
  have r: "length (fold (sha_round M) [0..<k] hs) = 8" for k
    using assms by (induction k) simp_all
  have "Hacl_Impl_SHA2_256_update (sha_state ws hs n) data off = Some (sha_state ?ws (sha_compress hs M) (n + 1))"
    unfolding Hacl_Impl_SHA2_256_update_def from_be_bytes [OF assms(3), folded M_def]
    using assms sha_load_words [OF M assms(1,2), of n] sha_schedule_loop [OF assms(1,2), of M n] cp
      sha_rounds [OF assms(1,2), of M n] sha_add_hash [of ?ws hs "fold (sha_round M) [0..<64] hs" n] r
    by (simp add: sha_state_rd(4) sha_state_wr(3) sha_compress_def)
  moreover have "length ?ws = 64" using assms by simp
  ultimately show ?thesis unfolding M_def by blast
qed

section \<open>Messages\<close>

lemma sha_absorb_append:
  assumes "64 dvd length xs"
  shows "sha_absorb hs (xs @ ys) = sha_absorb (sha_absorb hs xs) ys"
  using assms
proof (induction hs xs rule: sha_absorb.induct)
  case (1 hs xs)
  show ?case
  proof (cases "length xs < 64")
    case True
    then have "xs = []" using 1(2) by (auto elim!: dvdE)
    then show ?thesis by (simp add: sha_absorb.simps [of hs "[]"])
  next
    case False
    then have "64 dvd length (drop 64 xs)" using 1(2) by (simp add: dvd_diff_nat)
    from 1(1) [OF False this] False show ?thesis
      by (subst sha_absorb.simps) (simp add: sha_absorb.simps [of hs xs])
  qed
qed

lemma sha_absorb_block: "length xs = 64 \<Longrightarrow> sha_absorb hs xs = sha_compress hs (be_words xs)"
  by (simp add: sha_absorb.simps)

lemma length_sha_absorb [simp]: "length hs = 8 \<Longrightarrow> length (sha_absorb hs xs) = 8"
  by (induction hs xs rule: sha_absorb.induct) (subst sha_absorb.simps, simp)

lemma sha_update_multi:
  assumes "length ws = 64" "length hs = 8" "off + 64 * unat n1 \<le> length data" "64 * unat n1 < 2 ^ 32"
  shows "\<exists>ws'. length ws' = 64 \<and> Hacl_Impl_SHA2_256_update_multi (sha_state ws hs n) data off n1 =
    Some (sha_state ws' (sha_absorb hs (take (64 * unat n1) (drop off data))) (n + n1))"
proof -
  let ?P = "\<lambda>k st. \<exists>ws'. length ws' = 64 \<and>
    st = sha_state ws' (sha_absorb hs (take (64 * k) (drop off data))) (n + word_of_nat k)"
  have "\<exists>st. for_up 0 (unat n1) (\<lambda>i st. Hacl_Impl_SHA2_256_update st data (off + unat (word_of_nat i * 64 :: u32))) (sha_state ws hs n) =
      Some st \<and> ?P (unat n1) st"
  proof (rule for_up_inv)
    show "?P 0 (sha_state ws hs n)" using assms(1) by (auto simp: sha_absorb.simps)
    fix k st assume k: "0 \<le> k" "k < unat n1" and "?P k st"
    then obtain ws' where ws': "length ws' = 64"
        "st = sha_state ws' (sha_absorb hs (take (64 * k) (drop off data))) (n + word_of_nat k)"
      by blast
    have u: "unat (word_of_nat k * 64 :: u32) = 64 * k"
      using unat_mult_small [of 64 k] k assms(4) by (simp add: mult.commute)
    have le: "off + 64 * k + 64 \<le> length data" using k assms(3) by linarith
    have t: "take (64 * Suc k) (drop off data) = take (64 * k) (drop off data) @ take 64 (drop (off + 64 * k) data)"
      using take_add [of "64 * k" 64 "drop off data"] by (simp add: add.commute)
    have d: "length (take (64 * k) (drop off data)) = 64 * k" using le by simp
    have "sha_absorb hs (take (64 * Suc k) (drop off data)) =
        sha_compress (sha_absorb hs (take (64 * k) (drop off data))) (be_words (take 64 (drop (off + 64 * k) data)))"
      unfolding t using le by (subst sha_absorb_append) (simp_all add: sha_absorb_block)
    with sha_update [OF ws'(1) _ le, of "sha_absorb hs (take (64 * k) (drop off data))" "n + word_of_nat k"] ws' assms(2) u
    show "\<exists>st'. Hacl_Impl_SHA2_256_update st data (off + unat (word_of_nat k * 64 :: u32)) = Some st' \<and> ?P (Suc k) st'"
      by (auto simp: add.assoc algebra_simps)
  qed simp
  then show ?thesis by (auto simp: Hacl_Impl_SHA2_256_update_multi_def)
qed

lemma be_bytes_4: "be_bytes 4 (v :: u32) = [ucast (drop_bit 24 v), ucast (drop_bit 16 v), ucast (drop_bit 8 v), ucast v]"
  by (simp add: be_bytes_def numeral_eq_Suc)

lemma be_bytes_8: "be_bytes 8 (v :: u64) = be_bytes 4 (ucast (drop_bit 32 v) :: u32) @ be_bytes 4 (ucast v :: u32)"
proof -
  have "rev [0..<8] = [7, 6, 5, 4, 3, 2, 1, 0 :: nat]" by (simp add: numeral_eq_Suc)
  then have "be_bytes 8 v = [ucast (drop_bit 56 v), ucast (drop_bit 48 v), ucast (drop_bit 40 v), ucast (drop_bit 32 v),
      ucast (drop_bit 24 v), ucast (drop_bit 16 v), ucast (drop_bit 8 v), ucast v]"
    by (simp add: be_bytes_def)
  also have "\<dots> = be_bytes 4 (ucast (drop_bit 32 v) :: u32) @ be_bytes 4 (ucast v :: u32)"
    unfolding be_bytes_4 by (simp, intro conjI; intro bit_word_eqI; auto simp: bit_simps)
  finally show ?thesis .
qed

lemma length_be_bytes [simp]: "length (be_bytes n w) = n"
  by (simp add: be_bytes_def)

lemma list_update_4:
  assumes "i + 4 \<le> length p"
  shows "p[i := a, Suc i := b, Suc (Suc i) := c, Suc (Suc (Suc i)) := d] = take i p @ [a, b, c, d] @ drop (i + 4) p"
proof (rule nth_equalityI)
  fix j assume "j < length (p[i := a, Suc i := b, Suc (Suc i) := c, Suc (Suc (Suc i)) := d])"
  then have j: "j < length p" by simp
  consider "j < i" | "j = i" | "j = Suc i" | "j = Suc (Suc i)" | "j = Suc (Suc (Suc i))" | "i + 4 \<le> j" by linarith
  then show "p[i := a, Suc i := b, Suc (Suc i) := c, Suc (Suc (Suc i)) := d] ! j = (take i p @ [a, b, c, d] @ drop (i + 4) p) ! j"
  proof cases
    case 6
    then obtain m where "j = i + 4 + m" using le_Suc_ex by blast
    then show ?thesis using assms j by (simp add: nth_append)
  qed (use assms j in \<open>simp_all add: nth_append nth_list_update numeral_eq_Suc\<close>)
qed (use assms in simp)

lemma put_be32:
  assumes "i + 4 \<le> length p"
  shows "put_unaligned_be32 v p i = Some (take i p @ be_bytes 4 v @ drop (i + 4) p)"
proof -
  have "(ucast (drop_bit 8 (ucast (drop_bit 16 v) :: u16)) :: u8) = ucast (drop_bit 24 v)"
    "(ucast (ucast (drop_bit 16 v) :: u16) :: u8) = ucast (drop_bit 16 v)"
    "(ucast (drop_bit 8 (ucast v :: u16)) :: u8) = ucast (drop_bit 8 v)" "(ucast (ucast v :: u16) :: u8) = ucast v"
    by (rule bit_word_eqI; auto simp: bit_simps)+
  then show ?thesis
    unfolding be_bytes_4 list_update_4 [OF assms, symmetric]
    using assms by (simp add: put_unaligned_be32_def put_unaligned_be16_def numeral_eq_Suc)
qed

lemma put_be64:
  assumes "i + 8 \<le> length p"
  shows "put_unaligned_be64 v p i = Some (take i p @ be_bytes 8 v @ drop (i + 8) p)"
  using assms by (simp add: put_unaligned_be64_def put_be32 be_bytes_8 add.commute [of 8 i])

lemma sha_finish:
  assumes "length ws = 64" "length hs = 8" "32 \<le> length out"
  shows "Hacl_Impl_SHA2_256_finish (sha_state ws hs n) out = Some (concat (map (be_bytes 4) hs) @ drop 32 out)"
proof -
  define g where "g k = concat (map (be_bytes 4) (take k hs)) @ drop (4 * k) out" for k
  have l: "k \<le> 8 \<Longrightarrow> length (concat (map (be_bytes 4) (take k hs))) = 4 * k" for k
    using assms by (simp add: length_concat o_def sum_list_triv)
  have "for_up 0 8 (\<lambda>i output. do { hd1 \<leftarrow> rd (sha_state ws hs n) (128 + i);
      put_unaligned_be32 hd1 output (unat (4 * word_of_nat i :: u32)) }) (g 0) = Some (g 8)"
  proof (rule for_up_eq)
    fix k :: nat assume k: "0 \<le> k" "k < 8"
    have u: "unat (4 * word_of_nat k :: u32) = 4 * k"
      using unat_mult_small [of 4 k] k by simp
    have "put_unaligned_be32 (hs ! k) (g k) (4 * k) = Some (g (Suc k))"
      using k assms l [of k] by (subst put_be32) (simp_all add: g_def take_Suc_conv_app_nth add.commute)
    then show "(do { hd1 \<leftarrow> rd (sha_state ws hs n) (128 + k); put_unaligned_be32 hd1 (g k) (unat (4 * word_of_nat k :: u32)) }) =
        Some (g (Suc k))"
      using k assms u by (simp add: sha_state_rd(3))
  qed simp
  then show ?thesis
    using assms by (simp add: Hacl_Impl_SHA2_256_finish_def Hacl_Hash_Lib_LoadStore_uint32s_to_be_bytes_def g_def)
qed

lemma pad0len:
  assumes "unat len < 64"
  shows "unat ((64 - (len + 8 + 1) mod 64) mod 64 :: u32) = (64 - (unat len + 9) mod 64) mod 64"
proof -
  have "len + 8 + 1 = word_of_nat (unat len + 9)" by simp
  moreover have "unat (word_of_nat (unat len + 9) :: u32) = unat len + 9"
    by (rule unat_word_small) (use assms in simp)
  ultimately have "unat (len + 8 + 1) = unat len + 9" by metis
  moreover define x where "x = len + 8 + 1"
  ultimately have m: "unat (x mod 64) = (unat len + 9) mod 64" by (simp only: unat_mod) simp
  then have "x mod 64 \<le> 64" by (simp add: word_le_nat_alt less_imp_le)
  then have "unat (64 - x mod 64) = 64 - (unat len + 9) mod 64" by (simp add: unat_sub m)
  then show ?thesis by (simp add: unat_mod x_def [symmetric])
qed

definition sha_tail :: "u8 list \<Rightarrow> u64 \<Rightarrow> u8 list" where
  "sha_tail bs bits = bs @ 0x80 # replicate ((64 - (length bs + 9) mod 64) mod 64) 0 @ be_bytes 8 bits"

lemma sha_tail_length:
  "length bs < 64 \<Longrightarrow> length (sha_tail bs bits) = (if length bs < 56 then 64 else 128)"
  by (auto simp: sha_tail_def mod_if)

lemma sha_last_blocks:
  fixes len :: u32
  assumes "length bs = unat len" "unat len < 64"
  defines "fb \<equiv> (if len < 56 then 64 else 0)" and "z \<equiv> (64 - (unat len + 9) mod 64) mod 64"
  shows "(replicate fb 0 @ bs @ replicate (128 - fb - unat len) 0)[fb + unat len := 0x80] =
      replicate fb 0 @ bs @ 0x80 # replicate (z + 8) (0 :: u8)"
    "fb + unat len < 128" "fb + unat len + 1 + z + 8 = 128"
proof -
  have c: "len < 56 \<longleftrightarrow> unat len < 56" by (simp add: word_less_nat_alt)
  show a: "fb + unat len < 128" "fb + unat len + 1 + z + 8 = 128"
    using assms(2) by (auto simp: fb_def z_def c mod_if)
  then have e: "128 - fb - unat len = Suc (z + 8)" by simp
  show "(replicate fb 0 @ bs @ replicate (128 - fb - unat len) 0)[fb + unat len := 0x80] =
      replicate fb 0 @ bs @ 0x80 # replicate (z + 8) 0"
    unfolding e replicate_Suc using assms(1) by (simp add: list_update_append)
qed

lemma sha_update_last:
  assumes "length ws = 64" "length hs = 8" "unat len < 64" "off + unat len \<le> length data"
  shows "\<exists>ws' n'. length ws' = 64 \<and> Hacl_Impl_SHA2_256_update_last (sha_state ws hs n) data off len =
    Some (sha_state ws' (sha_absorb hs (sha_tail (take (unat len) (drop off data)) ((ucast n * 64 + ucast len) * 8))) n')"
proof -
  define fb :: nat where "fb = (if len < 56 then 64 else 0)"
  define nb :: u32 where "nb = (if len < 56 then 1 else 2)"
  define z where "z = (64 - (unat len + 9) mod 64) mod 64"
  define bs where "bs = take (unat len) (drop off data)"
  define bits :: u64 where "bits = (ucast n * 64 + ucast len) * 8"
  have bs: "length bs = unat len" using assms(4) by (simp add: bs_def)
  note lb = sha_last_blocks [OF bs assms(3), folded fb_def z_def]
  have cp: "buf_memcpy (replicate 128 0) fb data off (unat len) = Some (replicate fb 0 @ bs @ replicate (128 - fb - unat len) 0)"
    using assms(4) lb(2) by (subst buf_memcpy_eq) (simp_all add: bs_def min_def)
  have w: "wr (replicate fb 0 @ bs @ replicate (128 - fb - unat len) 0) (fb + unat len) 0x80 =
      Some (replicate fb 0 @ bs @ 0x80 # replicate (z + 8) 0)"
    using lb bs by (simp add: wr_def)
  have tl: "sha_tail bs bits = bs @ 0x80 # replicate z 0 @ be_bytes 8 bits"
    by (simp add: sha_tail_def bs z_def)
  have p: "put_unaligned_be64 bits (replicate fb 0 @ bs @ 0x80 # replicate (z + 8) 0) (fb + unat len + 1 + z) =
      Some (replicate fb 0 @ sha_tail bs bits)"
    using bs by (subst put_be64) (simp_all add: tl replicate_add)
  have len: "length (sha_tail bs bits) = 64 * unat nb"
    using sha_tail_length [of bs bits] bs assms(3) by (simp add: nb_def word_less_nat_alt)
  have "\<exists>ws'. length ws' = 64 \<and> Hacl_Impl_SHA2_256_update_multi (sha_state ws hs n) (replicate fb 0 @ sha_tail bs bits) fb nb =
      Some (sha_state ws' (sha_absorb hs (sha_tail bs bits)) (n + nb))"
    using sha_update_multi [OF assms(1,2), of fb nb "replicate fb 0 @ sha_tail bs bits" n] len
    by (simp add: nb_def split: if_splits)
  moreover have "Hacl_Impl_SHA2_256_update_last (sha_state ws hs n) data off len =
      Hacl_Impl_SHA2_256_update_multi (sha_state ws hs n) (replicate fb 0 @ sha_tail bs bits) fb nb"
    unfolding Hacl_Impl_SHA2_256_update_last_def Let_def fb_def [symmetric] nb_def [symmetric] pad0len [OF assms(3), folded z_def]
      bits_def [symmetric] cp
    using w p assms by (simp add: sha_state_rd(4) bits_def)
  ultimately show ?thesis unfolding bs_def bits_def by metis
qed

section \<open>Whole messages\<close>

lemma sha_pad_split:
  assumes "length pre mod 64 = 0"
  shows "sha_pad (pre @ bs) = pre @ sha_tail bs (word_of_nat (8 * (length pre + length bs)))"
proof -
  have "(length pre + length bs + 9) mod 64 = (length bs + 9) mod 64"
    using assms mod_add_left_eq [of "length pre" 64 "length bs + 9"] by (simp add: add.assoc)
  then show ?thesis by (simp add: sha_pad_def sha_tail_def)
qed

lemma unat_div_mod_64:
  "unat (len div 64 :: u32) = unat len div 64" "unat (len mod 64 :: u32) = unat len mod 64"
  "unat (len div 64 * 64 :: u32) = 64 * (unat len div 64)"
proof -
  show "unat (len div 64) = unat len div 64" "unat (len mod 64) = unat len mod 64"
    by (simp_all add: unat_div unat_mod)
  have "unat len < 2 ^ 32" using unsigned_less [of len, where ?'a = nat] by simp
  moreover have "64 * (unat len div 64) \<le> unat len" by simp
  ultimately have "64 * (unat len div 64) < 2 ^ 32" by linarith
  then have "unat (word_of_nat (64 * (unat len div 64)) :: u32) = 64 * (unat len div 64)"
    by (intro unat_word_small) simp
  moreover have "word_of_nat (64 * (unat len div 64)) = len div 64 * 64"
    by (simp add: word_arith_nat_div mult.commute)
  ultimately show "unat (len div 64 * 64) = 64 * (unat len div 64)" by simp
qed

lemma sha_bits:
  assumes "unat n = m"
  shows "(ucast (n :: u32) * 64 + ucast (r :: u32)) * 8 = (word_of_nat (8 * (64 * m + unat r)) :: u64)"
proof -
  have "(ucast n :: u64) = word_of_nat m" "(ucast r :: u64) = word_of_nat (unat r)"
    using assms by auto
  then show ?thesis by (simp add: algebra_simps)
qed

lemma sha_stream:
  assumes "length ws = 64" "length pre = 64 * m" "m + unat len div 64 < 2 ^ 32" "unat len \<le> length data" "32 \<le> length out"
  shows "(do { st \<leftarrow> Hacl_Impl_SHA2_256_update_multi (sha_state ws (sha_absorb sha_H0 pre) (word_of_nat m)) data 0 (len div 64);
               st \<leftarrow> Hacl_Impl_SHA2_256_update_last st data (unat (len div 64 * 64)) (len mod 64);
               Hacl_Impl_SHA2_256_finish st out }) =
    Some (sha256_spec (pre @ take (unat len) data) @ drop 32 out)"
proof -
  define q where "q = unat len div 64"
  have q: "unat (len div 64) = q" "unat (len mod 64) = unat len mod 64" "unat (len div 64 * 64) = 64 * q"
    by (simp_all add: q_def unat_div_mod_64)
  have l32: "unat len < 2 ^ 32" using unsigned_less [of len, where ?'a = nat] by simp
  have lq: "64 * q + unat len mod 64 = unat len" by (simp add: q_def)
  define mid where "mid = pre @ take (64 * q) data"
  have mid: "length mid = 64 * (m + q)" using assms(2,4) lq by (simp add: mid_def)
  obtain ws1 where ws1: "length ws1 = 64"
      "Hacl_Impl_SHA2_256_update_multi (sha_state ws (sha_absorb sha_H0 pre) (word_of_nat m)) data 0 (len div 64) =
       Some (sha_state ws1 (sha_absorb sha_H0 mid) (word_of_nat m + len div 64))"
    using sha_update_multi [OF assms(1), of "sha_absorb sha_H0 pre" 0 "len div 64" data "word_of_nat m"] assms(2,4) lq l32 q(1)
    by (auto simp: mid_def sha_absorb_append)
  have n: "unat (word_of_nat m + len div 64 :: u32) = m + q"
  proof -
    have "word_of_nat m + len div 64 = (word_of_nat (m + q) :: u32)" using q(1) by auto
    moreover have "unat (word_of_nat (m + q) :: u32) = m + q"
      by (rule unat_word_small) (use assms(3) in \<open>simp add: q_def\<close>)
    ultimately show ?thesis by metis
  qed
  let ?bs = "take (unat (len mod 64)) (drop (64 * q) data)"
  have lb: "length ?bs = unat len mod 64" using q(2) assms(4) lq by simp
  obtain ws2 n2 where ws2: "length ws2 = 64"
      "Hacl_Impl_SHA2_256_update_last (sha_state ws1 (sha_absorb sha_H0 mid) (word_of_nat m + len div 64)) data (64 * q) (len mod 64) =
       Some (sha_state ws2 (sha_absorb (sha_absorb sha_H0 mid) (sha_tail ?bs (word_of_nat (8 * (64 * (m + q) + unat (len mod 64)))))) n2)"
    using sha_update_last [OF ws1(1), of "sha_absorb sha_H0 mid" "len mod 64" "64 * q" data "word_of_nat m + len div 64"]
      sha_bits [OF n, of "len mod 64"] assms(4) lq q(2) by (auto simp del: of_nat_mult of_nat_add)
  have msg: "pre @ take (unat len) data = mid @ ?bs"
    using take_add [of "64 * q" "unat len mod 64" data] lq q(2) by (simp add: mid_def)
  have "sha_pad (pre @ take (unat len) data) = mid @ sha_tail ?bs (word_of_nat (8 * (64 * (m + q) + unat (len mod 64))))"
    unfolding msg by (subst sha_pad_split) (use mid lb q(2) in simp_all)
  then have "sha256_spec (pre @ take (unat len) data) =
      concat (map (be_bytes 4) (sha_absorb (sha_absorb sha_H0 mid) (sha_tail ?bs (word_of_nat (8 * (64 * (m + q) + unat (len mod 64)))))))"
    using mid by (simp add: sha256_spec_def sha_absorb_append)
  then show ?thesis
    using ws1 ws2 sha_finish [OF ws2(1) _ assms(5), of "sha_absorb (sha_absorb sha_H0 mid) (sha_tail ?bs (word_of_nat (8 * (64 * (m + q) + unat (len mod 64)))))" n2] q(3)
    by (simp del: of_nat_mult of_nat_add)
qed

lemma length_sha256_spec [simp]: "length (sha256_spec msg) = 32"
proof -
  have "length (sha_absorb sha_H0 (sha_pad msg)) = 8" by simp
  then show ?thesis by (simp add: sha256_spec_def length_concat o_def sum_list_triv)
qed

lemma sha_hash:
  assumes "unat len \<le> length input" "32 \<le> length out"
  shows "Hacl_Impl_SHA2_256_hash out input len = Some (sha256_spec (take (unat len) input) @ drop 32 out)"
proof -
  have "unat len < 2 ^ 32" using unsigned_less [of len, where ?'a = nat] by simp
  then have "unat len div 64 < 2 ^ 32" by (simp add: less_mult_imp_div_less)
  then show ?thesis
    using sha_stream [of "replicate 64 0" "[]" 0 len input out] assms
    by (simp add: Hacl_Impl_SHA2_256_hash_def Let_def sha_init sha_absorb.simps)
qed

section \<open>HMAC\<close>

lemma hmac_xor:
  assumes "length key = 64"
  shows "Hacl_Impl_HMAC_SHA2_256_xor_bytes_inplace (replicate 64 c) key 64 = Some (map (\<lambda>k. k XOR c) key)"
proof -
  define g where "g j = map (\<lambda>k. k XOR c) (take j key) @ replicate (64 - j) c" for j
  have "for_up 0 64 (\<lambda>i a. do { xi \<leftarrow> rd a i; yi \<leftarrow> rd key i; wr a i (xi XOR yi) }) (g 0) = Some (g 64)"
  proof (rule for_up_eq)
    fix j :: nat assume j: "0 \<le> j" "j < 64"
    obtain m where m: "64 - j = Suc m" "64 - Suc j = m" using j by (cases "64 - j") auto
    have "g j ! j = c" "length (g j) = 64" using assms j by (simp_all add: g_def nth_append)
    moreover have "(g j)[j := c XOR key ! j] = g (Suc j)"
      unfolding g_def m using assms j by (simp add: list_update_append take_Suc_conv_app_nth xor.commute)
    ultimately show "(do { xi \<leftarrow> rd (g j) j; yi \<leftarrow> rd key j; wr (g j) j (xi XOR yi) }) = Some (g (Suc j))"
      using assms j by simp
  qed simp
  then show ?thesis using assms by (simp add: Hacl_Impl_HMAC_SHA2_256_xor_bytes_inplace_def g_def)
qed

lemma sha_first_block:
  assumes "length pad = 64"
  obtains ws where "length ws = 64"
    "(do { st \<leftarrow> Hacl_Impl_SHA2_256_init (replicate 137 0); Hacl_Impl_SHA2_256_update st pad 0 }) =
      Some (sha_state ws (sha_absorb sha_H0 pad) (word_of_nat 1))"
  using sha_update [of "replicate 64 0" sha_H0 0 pad 0] assms
  by (auto simp: sha_init sha_absorb_block)

lemma sha_update_multi_0: "Hacl_Impl_SHA2_256_update_multi st data off 0 = Some st"
  by (simp add: Hacl_Impl_SHA2_256_update_multi_def for_up.simps)

lemma hmac_core:
  assumes "length key = 64" "unat len \<le> length data" "32 \<le> length mac"
  shows "Hacl_Impl_HMAC_SHA2_256_hmac_core mac key data len =
    Some (sha256_spec (map (\<lambda>k. k XOR 0x5c) key @ sha256_spec (map (\<lambda>k. k XOR 0x36) key @ take (unat len) data)) @ drop 32 mac)"
proof -
  define ipad where "ipad = map (\<lambda>k. k XOR 0x36) key"
  define opad where "opad = map (\<lambda>k. k XOR 0x5c) key"
  have pads: "length ipad = 64" "length opad = 64" using assms(1) by (simp_all add: ipad_def opad_def)
  define inner where "inner = sha256_spec (ipad @ take (unat len) data)"
  obtain ws0 where ws0: "length ws0 = 64"
      "(do { st \<leftarrow> Hacl_Impl_SHA2_256_init (replicate 137 0); Hacl_Impl_SHA2_256_update st ipad 0 }) =
       Some (sha_state ws0 (sha_absorb sha_H0 ipad) (word_of_nat 1))"
    using sha_first_block [OF pads(1)] .
  obtain ws1 where ws1: "length ws1 = 64"
      "(do { st \<leftarrow> Hacl_Impl_SHA2_256_init (replicate 137 0); Hacl_Impl_SHA2_256_update st opad 0 }) =
       Some (sha_state ws1 (sha_absorb sha_H0 opad) (word_of_nat 1))"
    using sha_first_block [OF pads(2)] .
  have "unat len < 2 ^ 32" using unsigned_less [of len, where ?'a = nat] by simp
  then have l: "1 + unat len div 64 < 2 ^ 32" by simp
  note s0 = sha_stream [OF ws0(1) _ l assms(2), of ipad ipad, folded inner_def]
  note s1 = sha_stream [OF ws1(1), of opad 1 32 "inner @ drop 32 ipad" mac]
  have s1': "(do { st \<leftarrow> Hacl_Impl_SHA2_256_update_last (sha_state ws1 (sha_absorb sha_H0 opad) (word_of_nat 1)) (inner @ drop 32 ipad) 0 32;
               Hacl_Impl_SHA2_256_finish st mac }) = Some (sha256_spec (opad @ inner) @ drop 32 mac)"
    using s1 pads assms(3) by (simp add: sha_update_multi_0 inner_def)
  show ?thesis
    unfolding Hacl_Impl_HMAC_SHA2_256_hmac_core_def Let_def hmac_xor [OF assms(1)] ipad_def [symmetric] opad_def [symmetric]
      inner_def [symmetric]
    using s0 s1' ws0(2) ws1(2) pads
    by (auto simp: bind_eq_Some_conv)
qed

lemma hmac_hash:
  assumes "unat keylen \<le> length key" "unat datalen \<le> length data" "32 \<le> length mac"
  shows "Hacl_Impl_HMAC_SHA2_256_hmac mac key keylen data datalen =
    Some (hmac256_spec (take (unat keylen) key) (take (unat datalen) data) @ drop 32 mac)"
proof -
  have "(if keylen \<le> 64 then buf_memcpy (replicate 64 0) 0 key 0 (unat keylen) else Hacl_Impl_SHA2_256_hash (replicate 64 0) key keylen) =
      Some (hmac_key (take (unat keylen) key))"
    using assms(1) by (auto simp: hmac_key_def word_le_nat_alt buf_memcpy_eq sha_hash)
  moreover have "length (hmac_key (take (unat keylen) key)) = 64"
    by (simp add: hmac_key_def)
  ultimately show ?thesis
    using assms by (simp add: Hacl_Impl_HMAC_SHA2_256_hmac_def hmac_core hmac256_spec_def)
qed

end
