(* ===== verification/Sha256_Props.thy ===== *)
theory Sha256_Props
  imports Sha256_Run
begin

text \<open>
  The hash and message authentication functions of the kernel against the standards. A digest of a
  known message is evaluated with the code and serves as a test of the standard's formulation.
\<close>

unbundle bit_operations_syntax

lemma unat_ucast_32: "unat (ucast (len :: u64) :: u32) = unat len mod 2 ^ 32"
  by (simp add: unsigned_ucast_eq take_bit_eq_mod)

text \<open>The length is cut to 32 bits: a longer message is hashed as if it ended there.\<close>

theorem sha256_hash_truncates:
  assumes "unat len mod 2 ^ 32 \<le> length data" "32 \<le> length out"
  shows "sha256_hash out data len = Some (sha256_spec (take (unat len mod 2 ^ 32) data) @ drop 32 out)"
  using sha_hash [of "ucast len" data out] assms by (simp add: sha256_hash_def unat_ucast_32)

text \<open>C36: \<^verbatim>\<open>sha256_hash\<close> computes SHA-256: for a message of less than \<open>2 ^ 32\<close> bytes it writes the digest of the
  standard to the first 32 bytes of the output, stays within all buffers and leaves the rest of the
  output as it was.\<close>
theorem sha256_hash_correct:
  assumes "unat len < 2 ^ 32" "unat len \<le> length data" "32 \<le> length out"
  shows "sha256_hash out data len = Some (sha256_spec (take (unat len) data) @ drop 32 out)"
  using sha_hash [of "ucast len" data out] assms by (simp add: sha256_hash_def unat_ucast_32)

lemma sha256_abc:
  "sha256_hash (replicate 32 0) [0x61, 0x62, 0x63] 3 = Some
    [0xba, 0x78, 0x16, 0xbf, 0x8f, 0x1, 0xcf, 0xea, 0x41, 0x41, 0x40, 0xde, 0x5d, 0xae, 0x22, 0x23,
     0xb0, 0x3, 0x61, 0xa3, 0x96, 0x17, 0x7a, 0x9c, 0xb4, 0x10, 0xff, 0x61, 0xf2, 0x0, 0x15, 0xad]"
  by code_simp

theorem sha256_hash_correct_witness:
  "sha256_spec [0x61, 0x62, 0x63] =
    [0xba, 0x78, 0x16, 0xbf, 0x8f, 0x1, 0xcf, 0xea, 0x41, 0x41, 0x40, 0xde, 0x5d, 0xae, 0x22, 0x23,
     0xb0, 0x3, 0x61, 0xa3, 0x96, 0x17, 0x7a, 0x9c, 0xb4, 0x10, 0xff, 0x61, 0xf2, 0x0, 0x15, 0xad]"
  using sha256_hash_correct [of 3 "[0x61, 0x62, 0x63]" "replicate 32 0"] sha256_abc by simp

text \<open>C37: \<^verbatim>\<open>hmac256_hash\<close> computes HMAC with SHA-256: keys up to 64 bytes are padded with zeros, longer keys are
  hashed first, and the two passes are those of the standard.\<close>
theorem hmac256_hash_correct:
  assumes "unat keylen < 2 ^ 32" "unat keylen \<le> length key" "unat datalen < 2 ^ 32" "unat datalen \<le> length data"
    "32 \<le> length out"
  shows "hmac256_hash out key keylen data datalen =
    Some (hmac256_spec (take (unat keylen) key) (take (unat datalen) data) @ drop 32 out)"
  using hmac_hash [of "ucast keylen" key "ucast datalen" data out] assms by (simp add: hmac256_hash_def unat_ucast_32)

theorem hmac256_hash_correct_witness:
  "hmac256_hash (replicate 32 0) [0x4a, 0x65, 0x66, 0x65] 4 [0x77, 0x68] 2 =
    Some (hmac256_spec [0x4a, 0x65, 0x66, 0x65] [0x77, 0x68])"
  using hmac256_hash_correct [of 4 "[0x4a, 0x65, 0x66, 0x65]" 2 "[0x77, 0x68]" "replicate 32 0"] by simp

end
