(* ===== verification/Memblock.thy ===== *)
theory Memblock
  imports C_Buf
begin

text \<open>
  The boot-time memory map (\<^verbatim>\<open>kernel/memblock.c\<close>): two tables of address ranges, the memory of the
  machine and its reserved parts. A table is an array of \<open>max\<close> regions of which the first \<open>cnt\<close> are
  used; an empty table has one used region of size 0. A failed \<^verbatim>\<open>BUG_ON\<close>, the final \<^verbatim>\<open>panic\<close> and an access outside
  the array have no result (\<open>None\<close>). The two dump functions only print and are left out.
\<close>

unbundle bit_operations_syntax

section \<open>Tables\<close>

record memblock_region =
  base :: u64
  rsize :: u64

record memblock_type =
  cnt :: nat
  tmax :: nat
  total_size :: u64
  regions :: "memblock_region list"

record memblock =
  memory :: memblock_type
  reserved :: memblock_type

definition INIT_MEMBLOCK_REGIONS :: nat where
  "INIT_MEMBLOCK_REGIONS = 128"

definition PHYS_ADDR_MAX :: u64 where
  "PHYS_ADDR_MAX = NOT 0"

definition empty_table :: memblock_type where
  "empty_table =
     \<lparr>cnt = 1, tmax = INIT_MEMBLOCK_REGIONS, total_size = 0,
      regions = replicate INIT_MEMBLOCK_REGIONS \<lparr>base = 0, rsize = 0\<rparr>\<rparr>"

definition memblock_init :: memblock where
  "memblock_init = \<lparr>memory = empty_table, reserved = empty_table\<rparr>"

section \<open>Adding a range\<close>

definition memblock_cap_size :: "u64 \<Rightarrow> u64 \<Rightarrow> u64" where
  "memblock_cap_size b sz = min sz (PHYS_ADDR_MAX - b)"

definition memblock_insert_region :: "memblock_type \<Rightarrow> nat \<Rightarrow> u64 \<Rightarrow> u64 \<Rightarrow> memblock_type option" where
  "memblock_insert_region t idx b sz =
     (if cnt t \<ge> tmax t then None
      else do { rs \<leftarrow> buf_memmove (regions t) (idx + 1) idx (cnt t - idx);
                rs \<leftarrow> wr rs idx \<lparr>base = b, rsize = sz\<rparr>;
                Some (t\<lparr>regions := rs, cnt := cnt t + 1, total_size := total_size t + sz\<rparr>) })"

function merge_loop :: "nat \<Rightarrow> memblock_type \<Rightarrow> memblock_type option" where
  "merge_loop i t =
     (if cnt t = 0 then None
      else if i < cnt t - 1 then
        (case (rd (regions t) i, rd (regions t) (i + 1)) of
           (Some this, Some nxt) \<Rightarrow>
             if base this + rsize this \<noteq> base nxt then
               (if base this + rsize this > base nxt then None else merge_loop (i + 1) t)
             else
               (case buf_memmove ((regions t)[i := this\<lparr>rsize := rsize this + rsize nxt\<rparr>]) (i + 1) (i + 2) (cnt t - (i + 2)) of
                  None \<Rightarrow> None
                | Some rs \<Rightarrow> merge_loop i (t\<lparr>regions := rs, cnt := cnt t - 1\<rparr>))
         | _ \<Rightarrow> None)
      else Some t)"
  by auto
termination
  by (relation "measure (\<lambda>(i, t). cnt t - i)") auto

declare merge_loop.simps [simp del]

definition memblock_merge_regions :: "memblock_type \<Rightarrow> memblock_type option" where
  "memblock_merge_regions t = merge_loop 0 t"

lemma memblock_insert_region_cnt: "memblock_insert_region t idx b sz = Some t' \<Longrightarrow> cnt t' = cnt t + 1"
  by (auto simp: memblock_insert_region_def bind_eq_Some_conv split: if_splits)

text \<open>
  The loop of one round: the table, the index, the part of the area still to cover and the number of
  regions needed so far. The first round only counts, the second inserts.
\<close>

function add_loop ::
    "bool \<Rightarrow> u64 \<Rightarrow> memblock_type \<Rightarrow> nat \<Rightarrow> u64 \<Rightarrow> nat \<Rightarrow> (memblock_type \<times> nat \<times> u64 \<times> nat) option" where
  "add_loop ins e t idx b nr_new =
     (if idx < cnt t then
        (case rd (regions t) idx of
           None \<Rightarrow> None
         | Some rgn \<Rightarrow>
             let rbase = base rgn; rend = rbase + rsize rgn in
             if rbase \<ge> e then Some (t, idx, b, nr_new)
             else if rend \<le> b then add_loop ins e t (idx + 1) b nr_new
             else if rbase > b then
               (if ins then
                  (case memblock_insert_region t idx b (rbase - b) of
                     None \<Rightarrow> None
                   | Some t' \<Rightarrow> add_loop ins e t' (idx + 2) (min rend e) (nr_new + 1))
                else add_loop ins e t (idx + 1) (min rend e) (nr_new + 1))
             else add_loop ins e t (idx + 1) (min rend e) nr_new)
      else Some (t, idx, b, nr_new))"
  by auto
termination
  by (relation "measure (\<lambda>(ins, e, t, idx, b, nr). cnt t - idx)") (auto dest: memblock_insert_region_cnt)

declare add_loop.simps [simp del]

definition add_round :: "bool \<Rightarrow> memblock_type \<Rightarrow> u64 \<Rightarrow> u64 \<Rightarrow> (memblock_type \<times> nat) option" where
  "add_round ins t b e =
     do { (t, idx, b, nr_new) \<leftarrow> add_loop ins e t 0 b 0;
          if b < e then
            (if ins then do { t \<leftarrow> memblock_insert_region t idx b (e - b); Some (t, nr_new + 1) }
             else Some (t, nr_new + 1))
          else Some (t, nr_new) }"

definition memblock_add_range :: "memblock_type \<Rightarrow> u64 \<Rightarrow> u64 \<Rightarrow> (int \<times> memblock_type) option" where
  "memblock_add_range t b sz =
     (let sz = memblock_cap_size b sz; e = b + sz in
      if sz = 0 then Some (0, t)
      else do { r0 \<leftarrow> rd (regions t) 0;
        if rsize r0 = 0 then
          (if cnt t \<noteq> 1 \<or> total_size t \<noteq> 0 then None
           else Some (0, t\<lparr>regions := (regions t)[0 := \<lparr>base = b, rsize = sz\<rparr>], total_size := sz\<rparr>))
        else
          do { (t, nr_new) \<leftarrow> add_round False t b e;
               if nr_new = 0 then Some (0, t)
               else if cnt t + nr_new > tmax t then None
               else do { (t, nr_new) \<leftarrow> add_round True t b e;
                         if nr_new = 0 then Some (0, t)
                         else do { t \<leftarrow> memblock_merge_regions t; Some (0, t) } } } })"

definition memblock_add :: "u64 \<Rightarrow> u64 \<Rightarrow> memblock \<Rightarrow> (int \<times> memblock) option" where
  "memblock_add b sz m = map_option (\<lambda>(r, t). (r, m\<lparr>memory := t\<rparr>)) (memblock_add_range (memory m) b sz)"

definition memblock_reserve :: "u64 \<Rightarrow> u64 \<Rightarrow> memblock \<Rightarrow> (int \<times> memblock) option" where
  "memblock_reserve b sz m = map_option (\<lambda>(r, t). (r, m\<lparr>reserved := t\<rparr>)) (memblock_add_range (reserved m) b sz)"

section \<open>Searching for a free range\<close>

text \<open>The two indices of an iteration are packed into one 64-bit number.\<close>

definition pack_idx :: "int \<Rightarrow> int \<Rightarrow> u64" where
  "pack_idx idx_a idx_b = ucast (word_of_int idx_a :: u32) OR push_bit 32 (word_of_int idx_b)"

definition idx_lo :: "u64 \<Rightarrow> int" where
  "idx_lo idx = sint (ucast (idx AND 0xffffffff) :: u32)"

definition idx_hi :: "u64 \<Rightarrow> int" where
  "idx_hi idx = sint (ucast (drop_bit 32 idx) :: u32)"

text \<open>
  Both loops of \<^verbatim>\<open>__next_mem_range_rev\<close>, on the unpacked indices. The result is the range found and the
  indices to continue from; no range means that the iteration ends. Without a second table every
  region of the first is a result.
\<close>

datatype range_res = NoRange | Range u64 u64 int int | RangeUndef

function next_range :: "memblock_type \<Rightarrow> memblock_type option \<Rightarrow> int \<Rightarrow> int \<Rightarrow> range_res" where
  "next_range type_a type_b idx_a idx_b =
     (if idx_a < 0 then NoRange
      else case rd (regions type_a) (nat idx_a) of
        None \<Rightarrow> RangeUndef
      | Some m \<Rightarrow>
          let m_start = base m; m_end = base m + rsize m in
          (case type_b of
             None \<Rightarrow> Range m_start m_end (idx_a - 1) idx_b
           | Some tb \<Rightarrow>
               if idx_b < 0 then next_range type_a type_b (idx_a - 1) idx_b
               else
                 (case ((if idx_b = 0 then Some 0
                         else map_option (\<lambda>r. base r + rsize r) (rd (regions tb) (nat (idx_b - 1)))),
                        (if idx_b < int (cnt tb) then map_option base (rd (regions tb) (nat idx_b))
                         else Some PHYS_ADDR_MAX)) of
                    (Some r_start, Some r_end) \<Rightarrow>
                      if r_end \<le> m_start then next_range type_a type_b (idx_a - 1) idx_b
                      else if m_end > r_start then
                        Range (max m_start r_start) (min m_end r_end)
                          (if m_start \<ge> r_start then idx_a - 1 else idx_a)
                          (if m_start \<ge> r_start then idx_b else idx_b - 1)
                      else next_range type_a type_b idx_a (idx_b - 1)
                  | _ \<Rightarrow> RangeUndef)))"
  by auto
termination
  by (relation "measure (\<lambda>(type_a, type_b, idx_a, idx_b). nat (idx_a + 1) + nat (idx_b + 1))") auto

declare next_range.simps [simp del]

definition next_mem_range_rev ::
    "u64 \<Rightarrow> memblock_type \<Rightarrow> memblock_type option \<Rightarrow> (u64 \<times> (u64 \<times> u64) option) option" where
  "next_mem_range_rev idx type_a type_b =
     (let idx_a = (if idx = NOT 0 then int (cnt type_a) - 1 else idx_lo idx);
          idx_b = (if idx = NOT 0 then (case type_b of Some tb \<Rightarrow> int (cnt tb) | None \<Rightarrow> 0) else idx_hi idx)
      in case next_range type_a type_b idx_a idx_b of
           NoRange \<Rightarrow> Some (NOT 0, None)
         | Range s e a b \<Rightarrow> Some (pack_idx a b, Some (s, e))
         | RangeUndef \<Rightarrow> None)"

lemma next_range_Some:
  assumes "next_range type_a (Some tb) idx_a idx_b = Range s e a b"
  obtains (outer) "0 \<le> idx_a" "idx_b < 0 \<or> 0 \<le> idx_b" "next_range type_a (Some tb) (idx_a - 1) idx_b = Range s e a b"
  | (inner) "0 \<le> idx_a" "0 \<le> idx_b" "next_range type_a (Some tb) idx_a (idx_b - 1) = Range s e a b"
  | (found) m r_start r_end where "0 \<le> idx_a" "0 \<le> idx_b" "rd (regions type_a) (nat idx_a) = Some m"
      "(if idx_b = 0 then Some 0 else map_option (\<lambda>r. base r + rsize r) (rd (regions tb) (nat (idx_b - 1)))) = Some r_start"
      "(if idx_b < int (cnt tb) then map_option base (rd (regions tb) (nat idx_b)) else Some PHYS_ADDR_MAX) = Some r_end"
      "\<not> r_end \<le> base m" "base m + rsize m > r_start" "s = max (base m) r_start" "e = min (base m + rsize m) r_end"
      "a = (if base m \<ge> r_start then idx_a - 1 else idx_a)" "b = (if base m \<ge> r_start then idx_b else idx_b - 1)"
proof -
  obtain m where m: "0 \<le> idx_a" "rd (regions type_a) (nat idx_a) = Some m"
    using assms by (subst (asm) next_range.simps) (auto split: if_splits option.splits)
  show thesis
  proof (cases "idx_b < 0")
    case True
    then have "next_range type_a (Some tb) (idx_a - 1) idx_b = Range s e a b"
      using assms m by (subst (asm) next_range.simps) simp
    then show ?thesis using outer m True by blast
  next
    case False
    let ?rs = "if idx_b = 0 then Some 0 else map_option (\<lambda>r. base r + rsize r) (rd (regions tb) (nat (idx_b - 1)))"
    let ?re = "if idx_b < int (cnt tb) then map_option base (rd (regions tb) (nat idx_b)) else Some PHYS_ADDR_MAX"
    have eq: "(case (?rs, ?re) of
         (Some r_start, Some r_end) \<Rightarrow>
           if r_end \<le> base m then next_range type_a (Some tb) (idx_a - 1) idx_b
           else if base m + rsize m > r_start then
             Range (max (base m) r_start) (min (base m + rsize m) r_end)
               (if base m \<ge> r_start then idx_a - 1 else idx_a) (if base m \<ge> r_start then idx_b else idx_b - 1)
           else next_range type_a (Some tb) idx_a (idx_b - 1)
       | _ \<Rightarrow> RangeUndef) = Range s e a b"
      using assms m False by (subst (asm) next_range.simps) (simp add: Let_def)
    then obtain r_start r_end where r: "?rs = Some r_start" "?re = Some r_end"
      by (cases ?rs; cases ?re) (simp_all only: prod.case option.case, simp_all)
    show ?thesis
    proof (cases "r_end \<le> base m")
      case True
      then show ?thesis using eq outer m False unfolding r by simp
    next
      case ne: False
      show ?thesis
      proof (cases "base m + rsize m > r_start")
        case True
        then show ?thesis using eq found [OF m(1) _ m(2) r ne True] False ne unfolding r by simp
      next
        case no: False
        then show ?thesis using eq inner m False ne unfolding r by simp
      qed
    qed
  qed
qed

lemma next_range_bounds:
  assumes "next_range type_a (Some tb) idx_a idx_b = Range s e a b"
  shows "0 \<le> idx_a \<and> 0 \<le> idx_b \<and> - 1 \<le> a \<and> - 1 \<le> b \<and> a \<le> idx_a \<and> b \<le> idx_b \<and> a + b < idx_a + idx_b"
  using assms
proof (induction "nat (idx_a + 1) + nat (idx_b + 1)" arbitrary: idx_a idx_b rule: less_induct)
  case less
  from less.prems show ?case
  proof (cases rule: next_range_Some)
    case outer
    have "nat (idx_a - 1 + 1) + nat (idx_b + 1) < nat (idx_a + 1) + nat (idx_b + 1)" using outer(1) by simp
    from less.hyps [OF this outer(3)] outer(1) show ?thesis by simp
  next
    case inner
    have "nat (idx_a + 1) + nat (idx_b - 1 + 1) < nat (idx_a + 1) + nat (idx_b + 1)" using inner(2) by simp
    from less.hyps [OF this inner(3)] inner(1,2) show ?thesis by simp
  next
    case found
    then show ?thesis by (simp split: if_splits)
  qed
qed

lemma sint_word_of_int32: "- (2 ^ 31) \<le> a \<Longrightarrow> a < 2 ^ 31 \<Longrightarrow> sint (word_of_int a :: u32) = a"
  by (simp add: signed_of_int signed_take_bit_int_eq_self)

lemma pack_idx_unpack:
  assumes "- (2 ^ 31) \<le> a" "a < 2 ^ 31" "- (2 ^ 31) \<le> b" "b < 2 ^ 31"
  shows "idx_lo (pack_idx a b) = a" "idx_hi (pack_idx a b) = b"
proof -
  have m: "(0xffffffff :: u64) = mask 32" by (simp add: mask_eq_exp_minus_1)
  have "(ucast (pack_idx a b AND 0xffffffff) :: u32) = word_of_int a"
    unfolding m pack_idx_def by (rule bit_word_eqI) (auto simp: bit_simps)
  then show "idx_lo (pack_idx a b) = a" using assms by (simp add: idx_lo_def sint_word_of_int32)
  have "(ucast (drop_bit 32 (pack_idx a b)) :: u32) = word_of_int b"
    unfolding pack_idx_def by (rule bit_word_eqI) (auto simp: bit_simps)
  then show "idx_hi (pack_idx a b) = b" using assms by (simp add: idx_hi_def sint_word_of_int32)
qed

definition idx_measure :: "u64 \<Rightarrow> nat" where
  "idx_measure idx = (if idx = NOT 0 then 0 else Suc (nat (idx_lo idx + 1) + nat (idx_hi idx + 1)))"

lemma idx_range: "- (2 ^ 31) \<le> idx_lo idx" "idx_lo idx < 2 ^ 31" "- (2 ^ 31) \<le> idx_hi idx" "idx_hi idx < 2 ^ 31"
  using sint_ge [of "ucast (idx AND 0xffffffff) :: u32"] sint_lt [of "ucast (idx AND 0xffffffff) :: u32"]
    sint_ge [of "ucast (drop_bit 32 idx) :: u32"] sint_lt [of "ucast (drop_bit 32 idx) :: u32"]
  by (simp_all add: idx_lo_def idx_hi_def)

lemma next_mem_range_rev_decreases:
  assumes "next_mem_range_rev idx type_a (Some tb) = Some (idx', se)" "idx \<noteq> NOT 0"
  shows "idx_measure idx' < idx_measure idx"
proof (cases "idx' = NOT 0")
  case True
  then show ?thesis using assms(2) by (simp add: idx_measure_def)
next
  case False
  then obtain s e a b where r: "next_range type_a (Some tb) (idx_lo idx) (idx_hi idx) = Range s e a b" "idx' = pack_idx a b"
    using assms by (auto simp: next_mem_range_rev_def Let_def split: range_res.splits)
  note bnd = next_range_bounds [OF r(1)] and rng = idx_range [of idx]
  have "idx_lo idx' = a" "idx_hi idx' = b"
    using pack_idx_unpack [of a b] bnd rng unfolding r(2) by linarith+
  moreover have "nat (a + 1) + nat (b + 1) < nat (idx_lo idx + 1) + nat (idx_hi idx + 1)" using bnd by linarith
  ultimately show ?thesis using False assms(2) by (simp add: idx_measure_def)
qed

function find_loop :: "memblock \<Rightarrow> u64 \<Rightarrow> u64 \<Rightarrow> u64 \<Rightarrow> u64 \<Rightarrow> u64 \<Rightarrow> u64 option" where
  "find_loop m sz align idx this_start this_end =
     (if idx = NOT 0 then Some 0
      else
        let this_start = min (max this_start 0) PHYS_ADDR_MAX;
            this_end = min (max this_end 0) PHYS_ADDR_MAX;
            cand = (this_end - sz) - (this_end - sz) mod align
        in if \<not> this_end < sz \<and> align = 0 then None
           else if \<not> this_end < sz \<and> cand \<ge> this_start then Some cand
           else
             (case next_mem_range_rev idx (memory m) (Some (reserved m)) of
                None \<Rightarrow> None
              | Some (idx', se) \<Rightarrow>
                  (case se of
                     None \<Rightarrow> find_loop m sz align idx' this_start this_end
                   | Some (s, e) \<Rightarrow> find_loop m sz align idx' s e)))"
  by auto
termination
  by (relation "measure (\<lambda>(m, sz, align, idx, s, e). idx_measure idx)") (auto dest: next_mem_range_rev_decreases)

declare find_loop.simps [simp del]

definition memblock_find_in_range_node :: "memblock \<Rightarrow> u64 \<Rightarrow> u64 \<Rightarrow> u64 option" where
  "memblock_find_in_range_node m sz align =
     (case next_mem_range_rev (NOT 0) (memory m) (Some (reserved m)) of
        None \<Rightarrow> None
      | Some (idx, None) \<Rightarrow> (if idx = NOT 0 then Some 0 else None)
      | Some (idx, Some (s, e)) \<Rightarrow> find_loop m sz align idx s e)"

definition SMP_CACHE_BYTES :: u64 where
  "SMP_CACHE_BYTES = 64"

definition memblock_alloc :: "u64 \<Rightarrow> u64 \<Rightarrow> memblock \<Rightarrow> (u64 \<times> memblock) option" where
  "memblock_alloc sz align m =
     (let align = (if align = 0 then SMP_CACHE_BYTES else align) in
      do { found \<leftarrow> memblock_find_in_range_node m sz align;
           if found = 0 then None
           else do { (err, m) \<leftarrow> memblock_reserve found sz m;
                     if err = 0 then Some (found, m) else None } })"

end
