(* ===== verification/Memblock_Inv.thy ===== *)
theory Memblock_Inv
  imports Memblock
begin

text \<open>
  The tables of the memory map as sets of addresses. Insertion and merging are first described as
  functions on the list of used regions; the loops of the code compute these functions. The invariant
  of a table is that its regions are non-empty, sorted, neither overlapping nor adjacent, and that the
  total size is the sum of their sizes.
\<close>

unbundle bit_operations_syntax

section \<open>Ranges\<close>

definition rlo :: "memblock_region \<Rightarrow> nat" where
  "rlo r = unat (base r)"

definition rhi :: "memblock_region \<Rightarrow> nat" where
  "rhi r = unat (base r) + unat (rsize r)"

definition region_ok :: "memblock_region \<Rightarrow> bool" where
  "region_ok r = (0 < rsize r \<and> rhi r < 2 ^ 64)"

definition addrs :: "memblock_region list \<Rightarrow> nat set" where
  "addrs rs = (\<Union>r \<in> set rs. {rlo r..<rhi r})"

lemma addrs_simps [simp]:
  "addrs [] = {}" "addrs (r # rs) = {rlo r..<rhi r} \<union> addrs rs" "addrs (rs @ rs') = addrs rs \<union> addrs rs'"
  by (auto simp: addrs_def)

lemma unat_end: "rhi r < 2 ^ 64 \<Longrightarrow> unat (base r + rsize r) = rhi r"
  by (simp add: rhi_def unat_word_ariths)

lemma rlo_less_rhi: "region_ok r \<Longrightarrow> rlo r < rhi r"
  by (simp add: region_ok_def rlo_def rhi_def word_less_nat_alt)

lemma region_of_bounds:
  assumes "b \<le> e"
  shows "rlo \<lparr>base = b, rsize = e - b\<rparr> = unat b" "rhi \<lparr>base = b, rsize = e - b\<rparr> = unat e"
    "region_ok \<lparr>base = b, rsize = e - b\<rparr> \<longleftrightarrow> b < e"
proof -
  have e: "unat (e - b) = unat e - unat b" "unat b \<le> unat e" using assms by (simp_all add: unat_sub word_le_nat_alt)
  show "rlo \<lparr>base = b, rsize = e - b\<rparr> = unat b" "rhi \<lparr>base = b, rsize = e - b\<rparr> = unat e"
    using e by (simp_all add: rlo_def rhi_def)
  show "region_ok \<lparr>base = b, rsize = e - b\<rparr> \<longleftrightarrow> b < e"
    using e unsigned_less [of e, where ?'a = nat] by (auto simp: region_ok_def rhi_def word_less_nat_alt)
qed

section \<open>Insertion as a function on lists\<close>

fun ins_range :: "u64 \<Rightarrow> memblock_region list \<Rightarrow> u64 \<Rightarrow> memblock_region list" where
  "ins_range e [] b = (if b < e then [\<lparr>base = b, rsize = e - b\<rparr>] else [])"
| "ins_range e (r # rs) b =
     (if base r \<ge> e then (if b < e then [\<lparr>base = b, rsize = e - b\<rparr>] else []) @ r # rs
      else if base r + rsize r \<le> b then r # ins_range e rs b
      else if base r > b then \<lparr>base = b, rsize = base r - b\<rparr> # r # ins_range e rs (min (base r + rsize r) e)
      else r # ins_range e rs (min (base r + rsize r) e))"

definition touching :: "memblock_region \<Rightarrow> memblock_region \<Rightarrow> bool" where
  "touching r s = (rhi r \<le> rlo s)"

definition separated :: "memblock_region \<Rightarrow> memblock_region \<Rightarrow> bool" where
  "separated r s = (rhi r < rlo s)"

lemma ins_range_done: "e \<le> b \<Longrightarrow> ins_range e rs b = rs"
proof (induction rs arbitrary: b)
  case (Cons r rs)
  have "e \<le> min (base r + rsize r) e" if "\<not> base r + rsize r \<le> b" using that Cons.prems by (auto simp: min_def)
  with Cons show ?case by (auto simp: not_less)
qed auto

lemma word_end_le:
  assumes "region_ok r"
  shows "base r + rsize r \<le> b \<longleftrightarrow> rhi r \<le> unat b" "base r \<ge> b \<longleftrightarrow> unat b \<le> rlo r" "base r > b \<longleftrightarrow> unat b < rlo r"
  using unat_end [of r] assms by (simp_all add: region_ok_def rlo_def word_le_nat_alt word_less_nat_alt)

lemma unat_min: "unat (min x y) = min (unat x) (unat y)" for x y :: u64
  by (simp add: min_def word_le_nat_alt)

lemma unat_next: "region_ok r \<Longrightarrow> unat (min (base r + rsize r) e) = min (rhi r) (unat e)"
  by (simp add: unat_min unat_end region_ok_def)

lemma gap_below:
  assumes "unat b < rlo r"
  shows "rlo \<lparr>base = b, rsize = base r - b\<rparr> = unat b" "rhi \<lparr>base = b, rsize = base r - b\<rparr> = rlo r"
    "region_ok \<lparr>base = b, rsize = base r - b\<rparr>"
  using region_of_bounds [of b "base r"] assms by (simp_all add: rlo_def word_le_nat_alt word_less_nat_alt)

lemma ins_range_ok:
  "list_all region_ok rs \<Longrightarrow> list_all region_ok (ins_range e rs b)"
  by (induction rs arbitrary: b) (auto simp: region_of_bounds word_end_le gap_below)

lemma ins_range_addrs:
  "list_all region_ok rs \<Longrightarrow> addrs (ins_range e rs b) = addrs rs \<union> {unat b..<unat e}"
proof (induction rs arbitrary: b)
  case (Cons r rs)
  then have r: "region_ok r" "list_all region_ok rs" by simp_all
  have IH: "addrs (ins_range e rs c) = addrs rs \<union> {unat c..<unat e}" for c
    using Cons.IH r(2) by blast
  note lt = rlo_less_rhi [OF r(1)]
  have ne: "\<not> b < e \<Longrightarrow> {unat b..<unat e} = {}" by (auto simp: word_less_nat_alt)
  consider "unat e \<le> rlo r" | "rlo r < unat e" "rhi r \<le> unat b"
    | "rlo r < unat e" "\<not> rhi r \<le> unat b" "unat b < rlo r" | "rlo r < unat e" "\<not> rhi r \<le> unat b" "\<not> unat b < rlo r"
    by linarith
  then show ?case
  proof cases
    case 1
    then show ?thesis using r ne by (auto simp: word_end_le region_of_bounds)
  next
    case 2
    then show ?thesis using r by (auto simp: word_end_le IH)
  next
    case 3
    then show ?thesis using r lt by (auto simp: word_end_le IH gap_below unat_next)
  next
    case 4
    then show ?thesis using r lt by (auto simp: word_end_le IH unat_next)
  qed
qed (auto simp: region_of_bounds word_less_nat_alt word_le_nat_alt)

lemma ins_range_from:
  "list_all region_ok rs \<Longrightarrow> s \<in> set (ins_range e rs b) \<Longrightarrow> s \<in> set rs \<or> unat b \<le> rlo s"
proof (induction rs arbitrary: b)
  case (Cons r rs)
  have r: "region_ok r" "list_all region_ok rs" using Cons.prems(1) by simp_all
  show ?case
  proof (cases "e \<le> b")
    case True
    then show ?thesis using Cons.prems(2) ins_range_done by metis
  next
    case be: False
    have step: "s \<in> set rs \<or> unat b \<le> rlo s"
      if "s \<in> set (ins_range e rs (min (base r + rsize r) e))" "\<not> rhi r \<le> unat b"
      using Cons.IH [OF r(2) that(1)] that(2) be unat_next [OF r(1), of e] by (auto simp: word_le_nat_alt)
    have IH: "s \<in> set (ins_range e rs b) \<Longrightarrow> s \<in> set rs \<or> unat b \<le> rlo s" using Cons.IH [OF r(2)] by blast
    show ?thesis
      using Cons.prems(2) step IH r be
      by (auto simp: word_end_le gap_below region_of_bounds not_le less_imp_le split: if_splits)
  qed
qed (auto simp: region_of_bounds split: if_splits)

lemma ins_range_sorted:
  assumes "list_all region_ok rs" "sorted_wrt touching rs"
  shows "sorted_wrt touching (ins_range e rs b)"
  using assms
proof (induction rs arbitrary: b)
  case (Cons r rs)
  have r: "region_ok r" "list_all region_ok rs" "sorted_wrt touching rs" "\<forall>s \<in> set rs. touching r s"
    using Cons.prems by simp_all
  note lt = rlo_less_rhi [OF r(1)]
  have after: "\<forall>s \<in> set (ins_range e rs c). touching r s" if "rhi r \<le> unat c \<or> e \<le> c" for c
    using that ins_range_from [OF r(2), of _ e c] r(4) ins_range_done [of e c rs] by (fastforce simp: touching_def)
  have c: "rhi r \<le> unat (min (base r + rsize r) e) \<or> e \<le> min (base r + rsize r) e"
    using unat_next [OF r(1), of e] by (auto simp: word_le_nat_alt)
  have IH: "sorted_wrt touching (ins_range e rs c)" for c using Cons.IH r by blast
  have below: "touching \<lparr>base = b, rsize = base r - b\<rparr> s" if "unat b < rlo r" "s \<in> set (ins_range e rs (min (base r + rsize r) e))" for s
    using after [OF c] that lt by (fastforce simp: touching_def gap_below)
  have first: "touching \<lparr>base = b, rsize = e - b\<rparr> s" if "b < e" "unat e \<le> rlo r" "s \<in> set (r # rs)" for s
    using that r(4) lt by (fastforce simp: touching_def region_of_bounds)
  have "touching \<lparr>base = b, rsize = base r - b\<rparr> r" if "unat b < rlo r"
    using that by (simp add: touching_def gap_below)
  then show ?case
    using r IH after after [OF c] below first
    by (auto simp: word_end_le)
qed simp

lemma ins_range_length: "length rs \<le> length (ins_range e rs b)"
  by (induction rs arbitrary: b) (auto intro: le_SucI)

section \<open>The table\<close>

definition used :: "memblock_type \<Rightarrow> memblock_region list" where
  "used t = take (cnt t) (regions t)"

definition table_ok :: "memblock_type \<Rightarrow> bool" where
  "table_ok t = (cnt t \<le> tmax t \<and> length (regions t) = tmax t)"

lemma length_used: "table_ok t \<Longrightarrow> length (used t) = cnt t"
  by (simp add: used_def table_ok_def)

lemma rd_used:
  assumes "table_ok t" "used t = pre @ r # rs"
  shows "rd (regions t) (length pre) = Some r" "length pre < cnt t"
proof -
  have l: "cnt t = length pre + Suc (length rs)" using length_used [OF assms(1)] assms(2) by simp
  then show "length pre < cnt t" by simp
  have "regions t ! length pre = used t ! length pre" using l by (simp add: used_def)
  then show "rd (regions t) (length pre) = Some r"
    using assms l by (simp add: rd_def table_ok_def)
qed

lemma insert_region_ok:
  assumes "table_ok t" "used t = pre @ rs" "cnt t < tmax t"
  shows "\<exists>t'. memblock_insert_region t (length pre) b sz = Some t' \<and> used t' = pre @ \<lparr>base = b, rsize = sz\<rparr> # rs \<and>
    table_ok t' \<and> tmax t' = tmax t \<and> cnt t' = cnt t + 1 \<and> total_size t' = total_size t + sz"
proof -
  define rest where "rest = drop (cnt t) (regions t)"
  have c: "cnt t = length pre + length rs" using length_used [OF assms(1)] assms(2) by simp
  have R: "regions t = pre @ rs @ rest"
    unfolding rest_def by (metis append_assoc append_take_drop_id assms(2) used_def)
  obtain y rest' where y: "rest = y # rest'"
    using assms(1,3) by (cases rest) (auto simp: rest_def table_ok_def)
  obtain z zs where z: "rs @ [y] = z # zs" by (cases "rs @ [y]") auto
  have mv: "buf_memmove (regions t) (length pre + 1) (length pre) (cnt t - length pre) = Some (pre @ z # rs @ rest')"
    using R y z c by (subst buf_memmove_eq) (auto simp: Cons_eq_append_conv append_eq_Cons_conv)
  have "memblock_insert_region t (length pre) b sz =
      Some (t\<lparr>regions := pre @ \<lparr>base = b, rsize = sz\<rparr> # rs @ rest', cnt := cnt t + 1, total_size := total_size t + sz\<rparr>)"
    using assms(3) mv by (simp add: memblock_insert_region_def list_update_append)
  moreover have "length (regions t) = length pre + length rs + Suc (length rest')" using R y by simp
  ultimately show ?thesis
    using assms(1,3) c by (simp add: used_def table_ok_def)
qed

section \<open>The two rounds\<close>

definition sizes :: "memblock_region list \<Rightarrow> u64" where
  "sizes rs = sum_list (map rsize rs)"

lemma sizes_simps [simp]:
  "sizes [] = 0" "sizes (r # rs) = rsize r + sizes rs" "sizes (rs @ rs') = sizes rs + sizes rs'"
  by (simp_all add: sizes_def)

lemma add_loop_end:
  assumes "table_ok t" "used t = pre"
  shows "add_loop ins e t (length pre) b nr = Some (t, length pre, b, nr)"
  using length_used [OF assms(1)] assms(2) by (simp add: add_loop.simps)

lemma add_loop_step:
  assumes "table_ok t" "used t = pre @ r # rs"
  shows "add_loop ins e t (length pre) b nr =
    (if base r \<ge> e then Some (t, length pre, b, nr)
     else if base r + rsize r \<le> b then add_loop ins e t (length (pre @ [r])) b nr
     else if base r > b then
       (if ins then
          (case memblock_insert_region t (length pre) b (base r - b) of
             None \<Rightarrow> None
           | Some t' \<Rightarrow> add_loop ins e t' (length (pre @ [\<lparr>base = b, rsize = base r - b\<rparr>, r])) (min (base r + rsize r) e) (nr + 1))
        else add_loop ins e t (length (pre @ [r])) (min (base r + rsize r) e) (nr + 1))
     else add_loop ins e t (length (pre @ [r])) (min (base r + rsize r) e) nr)"
  using rd_used [OF assms] by (subst add_loop.simps) (simp add: Let_def split: option.split)

lemma add_loop_count:
  assumes "table_ok t" "used t = pre @ rs"
  shows "\<exists>idx b' nr'. add_loop False e t (length pre) b nr = Some (t, idx, b', nr') \<and>
    nr' + (if b' < e then 1 else 0) + length rs = nr + length (ins_range e rs b)"
  using assms(2)
proof (induction rs arbitrary: pre b nr)
  case Nil
  then show ?case using add_loop_end [OF assms(1), of pre False e b nr] by simp
next
  case (Cons r rs)
  have u: "used t = (pre @ [r]) @ rs" using Cons.prems by simp
  note step = add_loop_step [OF assms(1) Cons.prems, of False e b nr]
  note IH = Cons.IH [OF u]
  show ?case
    unfolding step using IH [of b nr] IH [of "min (base r + rsize r) e" nr] IH [of "min (base r + rsize r) e" "nr + 1"]
    by auto
qed

definition add_done :: "u64 \<Rightarrow> memblock_type \<Rightarrow> nat \<Rightarrow> u64 \<Rightarrow> memblock_region list \<Rightarrow> bool" where
  "add_done e t idx b rs' =
     (\<exists>pre rs. used t = pre @ rs \<and> idx = length pre \<and>
        rs' = pre @ (if b < e then [\<lparr>base = b, rsize = e - b\<rparr>] else []) @ rs)"

lemma add_loop_insert:
  assumes "table_ok t" "used t = pre @ rs" "length pre + length (ins_range e rs b) \<le> tmax t"
  shows "\<exists>t' idx b' nr'. add_loop True e t (length pre) b nr = Some (t', idx, b', nr') \<and>
    add_done e t' idx b' (pre @ ins_range e rs b) \<and> table_ok t' \<and> tmax t' = tmax t \<and>
    total_size t' - sizes (used t') = total_size t - sizes (used t) \<and>
    nr' + (if b' < e then 1 else 0) + length rs = nr + length (ins_range e rs b)"
  using assms
proof (induction rs arbitrary: t pre b nr)
  case Nil
  then show ?case using add_loop_end [OF Nil(1), of pre True e b nr] by (auto simp: add_done_def)
next
  case (Cons r rs)
  have u: "used t = (pre @ [r]) @ rs" using Cons.prems by simp
  note step = add_loop_step [OF Cons.prems(1,2), of True e b nr]
  consider (brk) "base r \<ge> e" | (skip) "\<not> base r \<ge> e" "base r + rsize r \<le> b"
    | (ins) "\<not> base r \<ge> e" "\<not> base r + rsize r \<le> b" "base r > b"
    | (over) "\<not> base r \<ge> e" "\<not> base r + rsize r \<le> b" "\<not> base r > b" by blast
  then show ?case
  proof cases
    case brk
    have "add_done e t (length pre) b (pre @ ins_range e (r # rs) b)"
      unfolding add_done_def using Cons.prems(2) brk by auto
    then show ?thesis using step brk Cons.prems(1) by auto
  next
    case skip
    with Cons.IH [OF Cons.prems(1) u, of b nr] Cons.prems(3) step show ?thesis by simp
  next
    case over
    with Cons.IH [OF Cons.prems(1) u, of "min (base r + rsize r) e" nr] Cons.prems(3) step show ?thesis by simp
  next
    case ins
    let ?new = "\<lparr>base = b, rsize = base r - b\<rparr>"
    have "length (ins_range e (r # rs) b) \<ge> length rs + 2"
      using ins ins_range_length [of rs e "min (base r + rsize r) e"] by simp
    then have "cnt t < tmax t" using Cons.prems length_used [OF Cons.prems(1)] by simp
    then obtain t' where t': "memblock_insert_region t (length pre) b (base r - b) = Some t'"
        "used t' = (pre @ [?new, r]) @ rs" "table_ok t'" "tmax t' = tmax t" "total_size t' = total_size t + (base r - b)"
      using insert_region_ok [OF Cons.prems(1,2), of b "base r - b"] by auto
    have "total_size t' - sizes (used t') = total_size t - sizes (used t)"
      using t'(2,5) Cons.prems(2) by simp
    with Cons.IH [OF t'(3,2), of "min (base r + rsize r) e" "nr + 1"] t'(1,4) Cons.prems(3) ins step show ?thesis
      by simp
  qed
qed

lemma add_round_count:
  assumes "table_ok t" "used t = rs"
  shows "add_round False t b e = Some (t, length (ins_range e rs b) - length rs)"
  using add_loop_count [OF assms(1), of "[]" rs e b 0] assms(2) by (auto simp: add_round_def)

lemma add_round_insert:
  assumes "table_ok t" "used t = rs" "length (ins_range e rs b) \<le> tmax t"
  shows "\<exists>t'. add_round True t b e = Some (t', length (ins_range e rs b) - length rs) \<and> used t' = ins_range e rs b \<and>
    table_ok t' \<and> tmax t' = tmax t \<and> total_size t' - sizes (used t') = total_size t - sizes (used t)"
proof -
  obtain t1 idx b' nr' where l: "add_loop True e t 0 b 0 = Some (t1, idx, b', nr')" "add_done e t1 idx b' (ins_range e rs b)"
      "table_ok t1" "tmax t1 = tmax t" "total_size t1 - sizes (used t1) = total_size t - sizes (used t)"
      "nr' + (if b' < e then 1 else 0) + length rs = length (ins_range e rs b)"
    using add_loop_insert [OF assms(1), of "[]" rs e b 0] assms(2,3) by auto
  obtain pre rs1 where d: "used t1 = pre @ rs1" "idx = length pre"
      "ins_range e rs b = pre @ (if b' < e then [\<lparr>base = b', rsize = e - b'\<rparr>] else []) @ rs1"
    using l(2) by (auto simp: add_done_def)
  show ?thesis
  proof (cases "b' < e")
    case True
    have "cnt t1 < tmax t1" using length_used [OF l(3)] d True assms(3) l(4) by simp
    then obtain t2 where t2: "memblock_insert_region t1 (length pre) b' (e - b') = Some t2"
        "used t2 = pre @ \<lparr>base = b', rsize = e - b'\<rparr> # rs1" "table_ok t2" "tmax t2 = tmax t1"
        "total_size t2 = total_size t1 + (e - b')"
      using insert_region_ok [OF l(3) d(1), of b' "e - b'"] by blast
    have tot: "total_size t2 - sizes (used t2) = total_size t - sizes (used t)"
      using t2(2,5) d(1) l(5) by (simp add: algebra_simps)
    have "add_round True t b e = Some (t2, length (ins_range e rs b) - length rs)"
      using l(1,6) t2(1) d(2) True by (simp add: add_round_def)
    moreover have "used t2 = ins_range e rs b" "tmax t2 = tmax t" using t2 d True l(4) by simp_all
    ultimately show ?thesis using t2(3) tot by blast
  next
    case False
    then have "nr' = length (ins_range e rs b) - length rs" using l(6) by simp
    with False l d show ?thesis by (auto simp: add_round_def)
  qed
qed

section \<open>Merging\<close>

function merge_list :: "memblock_region list \<Rightarrow> memblock_region list" where
  "merge_list (x # y # rs) =
     (if base x + rsize x = base y then merge_list (x\<lparr>rsize := rsize x + rsize y\<rparr> # rs) else x # merge_list (y # rs))"
| "merge_list [x] = [x]"
| "merge_list [] = []"
  by pat_completeness auto
termination
  by (relation "measure length") auto

lemma joined:
  assumes "region_ok x" "region_ok y" "rhi x = rlo y"
  shows "rlo (x\<lparr>rsize := rsize x + rsize y\<rparr>) = rlo x" "rhi (x\<lparr>rsize := rsize x + rsize y\<rparr>) = rhi y"
    "region_ok (x\<lparr>rsize := rsize x + rsize y\<rparr>)"
proof -
  have "unat (rsize x) + unat (rsize y) < 2 ^ 64"
    using assms by (auto simp: region_ok_def rhi_def rlo_def)
  then have s: "unat (rsize x + rsize y) = unat (rsize x) + unat (rsize y)" by (simp add: unat_word_ariths)
  then show "rlo (x\<lparr>rsize := rsize x + rsize y\<rparr>) = rlo x" "rhi (x\<lparr>rsize := rsize x + rsize y\<rparr>) = rhi y"
    using assms(3) by (simp_all add: rlo_def rhi_def)
  then show "region_ok (x\<lparr>rsize := rsize x + rsize y\<rparr>)"
    using assms s by (simp add: region_ok_def word_less_nat_alt)
qed

lemma word_joined: "region_ok x \<Longrightarrow> base x + rsize x = base y \<longleftrightarrow> rhi x = rlo y"
  using unat_end [of x] by (simp add: region_ok_def rlo_def flip: word_unat_eq_iff) (metis word_unat_eq_iff)

lemma merge_list_ok:
  assumes "list_all region_ok rs" "sorted_wrt touching rs"
  shows "list_all region_ok (merge_list rs) \<and> addrs (merge_list rs) = addrs rs \<and> sizes (merge_list rs) = sizes rs \<and>
    (\<forall>s \<in> set (merge_list rs). \<forall>a. (\<forall>r \<in> set rs. a \<le> rlo r) \<longrightarrow> a \<le> rlo s) \<and>
    length (merge_list rs) \<le> length rs"
  using assms
proof (induction rs rule: merge_list.induct)
  case (1 x y rs)
  have o: "region_ok x" "region_ok y" "list_all region_ok rs" and t: "rhi x \<le> rlo y" "\<forall>s \<in> set rs. rhi y \<le> rlo s" "sorted_wrt touching rs"
    using 1(3,4) by (simp_all add: touching_def [of x] touching_def [of y])
  note lt = rlo_less_rhi [OF o(1)] rlo_less_rhi [OF o(2)]
  show ?case
  proof (cases "rhi x = rlo y")
    case True
    note j = joined [OF o(1,2) True]
    have "sorted_wrt touching (x\<lparr>rsize := rsize x + rsize y\<rparr> # rs)" using t j by (simp add: touching_def [of "x\<lparr>rsize := rsize x + rsize y\<rparr>"])
    from 1(1) [OF _ _ this] o j True word_joined [OF o(1), of y]
    have IH: "list_all region_ok (merge_list (x\<lparr>rsize := rsize x + rsize y\<rparr> # rs))"
        "addrs (merge_list (x\<lparr>rsize := rsize x + rsize y\<rparr> # rs)) = addrs (x\<lparr>rsize := rsize x + rsize y\<rparr> # rs)"
        "sizes (merge_list (x\<lparr>rsize := rsize x + rsize y\<rparr> # rs)) = sizes (x\<lparr>rsize := rsize x + rsize y\<rparr> # rs)"
        "\<And>s a. s \<in> set (merge_list (x\<lparr>rsize := rsize x + rsize y\<rparr> # rs)) \<Longrightarrow>
          \<forall>r \<in> set (x\<lparr>rsize := rsize x + rsize y\<rparr> # rs). a \<le> rlo r \<Longrightarrow> a \<le> rlo s"
        "length (merge_list (x\<lparr>rsize := rsize x + rsize y\<rparr> # rs)) \<le> Suc (length rs)"
      by auto
    have "{rlo x..<rhi y} = {rlo x..<rhi x} \<union> {rlo y..<rhi y}" using True lt by auto
    then show ?thesis
      using IH j True word_joined [OF o(1), of y] by (auto simp: add.assoc)
  next
    case False
    have "sorted_wrt touching (y # rs)" using 1(4) by simp
    from 1(2) [OF _ _ this] o False word_joined [OF o(1), of y] show ?thesis by auto
  qed
qed auto

lemma merge_list_separated:
  assumes "list_all region_ok rs" "sorted_wrt touching rs"
  shows "sorted_wrt separated (merge_list rs)"
  using assms
proof (induction rs rule: merge_list.induct)
  case (1 x y rs)
  have o: "region_ok x" "region_ok y" "list_all region_ok rs" and t: "rhi x \<le> rlo y" "\<forall>s \<in> set rs. rhi y \<le> rlo s" "sorted_wrt touching rs"
    using 1(3,4) by (simp_all add: touching_def [of x] touching_def [of y])
  note lt = rlo_less_rhi [OF o(1)] rlo_less_rhi [OF o(2)]
  show ?case
  proof (cases "rhi x = rlo y")
    case True
    note j = joined [OF o(1,2) True]
    have "sorted_wrt touching (x\<lparr>rsize := rsize x + rsize y\<rparr> # rs)" using t j by (simp add: touching_def [of "x\<lparr>rsize := rsize x + rsize y\<rparr>"])
    from 1(1) [OF _ _ this] o j True word_joined [OF o(1), of y] show ?thesis by simp
  next
    case False
    have s: "sorted_wrt touching (y # rs)" using 1(4) by simp
    have "Suc (rhi x) \<le> rlo r" if "r \<in> set (merge_list (y # rs))" for r
    proof -
      have "\<forall>r \<in> set (y # rs). Suc (rhi x) \<le> rlo r" using t lt False by fastforce
      moreover have "list_all region_ok (y # rs)" using o by simp
      ultimately show ?thesis using merge_list_ok [OF _ s] that by blast
    qed
    with 1(2) [OF _ _ s] o False word_joined [OF o(1), of y] show ?thesis by (simp add: separated_def [of x] Suc_le_eq)
  qed
qed auto

lemma merge_loop_ok:
  assumes "table_ok t" "used t = pre @ rs" "rs \<noteq> []" "list_all region_ok rs" "sorted_wrt touching rs"
  shows "\<exists>t'. merge_loop (length pre) t = Some t' \<and> used t' = pre @ merge_list rs \<and> table_ok t' \<and> tmax t' = tmax t \<and>
    total_size t' = total_size t"
  using assms
proof (induction rs arbitrary: t pre rule: merge_list.induct)
  case (1 x y rs)
  define i where "i = length pre"
  have c: "cnt t = i + 2 + length rs" using length_used [OF 1(3)] 1(4) by (simp add: i_def)
  have rx: "rd (regions t) i = Some x" using rd_used(1) [OF 1(3,4)] by (simp add: i_def)
  have ry: "rd (regions t) (i + 1) = Some y"
    using rd_used(1) [OF 1(3), of "pre @ [x]" y rs] 1(4) by (simp add: i_def)
  have o: "region_ok x" "region_ok y" "list_all region_ok rs" and t: "rhi x \<le> rlo y" "\<forall>s \<in> set rs. rhi y \<le> rlo s" "sorted_wrt touching rs"
    using 1(6,7) by (simp_all add: touching_def [of x] touching_def [of y])
  have lt: "i < cnt t - 1" "cnt t \<noteq> 0" using c by simp_all
  show ?case
  proof (cases "base x + rsize x = base y")
    case False
    have "\<not> base x + rsize x > base y"
      using t(1) unat_end [of x] o(1) by (simp add: region_ok_def rlo_def word_less_nat_alt)
    then have step: "merge_loop i t = merge_loop (length (pre @ [x])) t"
      using lt rx ry False by (subst merge_loop.simps) (simp add: i_def)
    have u: "used t = (pre @ [x]) @ y # rs" using 1(4) by simp
    have "sorted_wrt touching (y # rs)" using 1(7) by simp
    from 1(2) [OF False 1(3) u _ _ this] o False step show ?thesis by (simp add: i_def)
  next
    case True
    let ?z = "x\<lparr>rsize := rsize x + rsize y\<rparr>"
    define rest where "rest = drop (cnt t) (regions t)"
    have R: "regions t = pre @ x # y # rs @ rest"
      unfolding rest_def by (metis append.assoc append_Cons append_take_drop_id 1(4) used_def)
    have mv: "buf_memmove ((regions t)[i := ?z]) (i + 1) (i + 2) (cnt t - (i + 2)) =
        Some (pre @ ?z # rs @ drop (length rs) (y # rs @ rest))"
      using R c by (subst buf_memmove_eq) (simp_all add: i_def list_update_append)
    define t1 where "t1 = t\<lparr>regions := pre @ ?z # rs @ drop (length rs) (y # rs @ rest), cnt := cnt t - 1\<rparr>"
    have step: "merge_loop i t = merge_loop i t1"
      using lt rx ry True mv by (subst merge_loop.simps) (simp add: t1_def)
    have len: "length (regions t1) = length (regions t)" using R by (simp add: t1_def)
    then have t1: "table_ok t1" "used t1 = pre @ ?z # rs" "tmax t1 = tmax t" "total_size t1 = total_size t"
      using 1(3) c by (simp_all add: table_ok_def t1_def used_def i_def)
    note j = joined [OF o(1,2)] word_joined [OF o(1), of y] True
    have "sorted_wrt touching (?z # rs)" using t j by (simp add: touching_def [of ?z])
    from 1(1) [OF True t1(1,2) _ _ this] o j t1(3,4) step show ?thesis by (simp add: i_def)
  qed
next
  case (2 x)
  have "cnt t = length pre + 1" using length_used [OF 2(1)] 2(2) by simp
  then show ?case using 2 by (subst merge_loop.simps) simp
qed simp

section \<open>The invariant\<close>

definition memblock_inv :: "memblock_type \<Rightarrow> bool" where
  "memblock_inv t =
     (table_ok t \<and> 1 \<le> cnt t \<and>
      (if rsize (regions t ! 0) = 0
       then cnt t = 1 \<and> total_size t = 0 \<and> base (regions t ! 0) = 0
       else list_all region_ok (used t) \<and> sorted_wrt separated (used t) \<and> total_size t = sizes (used t)))"

definition add_fits :: "memblock_type \<Rightarrow> u64 \<Rightarrow> u64 \<Rightarrow> bool" where
  "add_fits t b sz =
     (rsize (regions t ! 0) = 0 \<or> length (ins_range (b + memblock_cap_size b sz) (used t) b) \<le> tmax t)"

lemma cap_size:
  assumes "e = b + memblock_cap_size b sz"
  shows "b \<le> e" "unat e = min (unat b + unat sz) (2 ^ 64 - 1)" "e - b = memblock_cap_size b sz"
    "memblock_cap_size b sz = 0 \<longleftrightarrow> \<not> b < e"
proof -
  have m: "unat PHYS_ADDR_MAX = 2 ^ 64 - 1" by (simp add: PHYS_ADDR_MAX_def unsigned_minus_1_eq_mask mask_eq_exp_minus_1)
  have b: "unat b \<le> 2 ^ 64 - 1" using unsigned_less [of b, where ?'a = nat] by simp
  then have c: "unat (memblock_cap_size b sz) = min (unat sz) (2 ^ 64 - 1 - unat b)"
    by (simp add: memblock_cap_size_def unat_min unat_sub m word_le_nat_alt)
  have "unat b + unat (memblock_cap_size b sz) < 2 ^ 64" unfolding c using b by (auto simp: min_def)
  then have "unat e = unat b + unat (memblock_cap_size b sz)" unfolding assms by (simp add: unat_word_ariths)
  then have e: "unat e = unat b + min (unat sz) (2 ^ 64 - 1 - unat b)" by (simp add: c)
  then show "unat e = min (unat b + unat sz) (2 ^ 64 - 1)" using b by (auto simp: min_def)
  show "b \<le> e" using e by (simp add: word_le_nat_alt)
  have "memblock_cap_size b sz = 0 \<longleftrightarrow> min (unat sz) (2 ^ 64 - 1 - unat b) = 0"
    using c by (metis unat_0 word_unat_eq_iff)
  then show "memblock_cap_size b sz = 0 \<longleftrightarrow> \<not> b < e" using e by (simp only: word_less_nat_alt) linarith
  show "e - b = memblock_cap_size b sz" unfolding assms by simp
qed

lemma ins_range_same_length: "length (ins_range e rs b) = length rs \<Longrightarrow> ins_range e rs b = rs"
proof (induction rs arbitrary: b)
  case (Cons r rs)
  have "length (ins_range e rs c) \<noteq> Suc (length rs) - 2" if "rs \<noteq> []" for c
    using ins_range_length [of rs e c] that by (cases rs) auto
  then show ?case
    using Cons ins_range_length [of rs e "min (base r + rsize r) e"] by (auto split: if_splits)
qed (auto split: if_splits)

section \<open>Adding a range\<close>

lemma sorted_separated_touching: "sorted_wrt separated rs \<Longrightarrow> sorted_wrt touching rs"
  by (erule sorted_wrt_mono_rel [of rs separated touching, rotated]) (simp add: separated_def touching_def)

lemma used_first: "table_ok t \<Longrightarrow> 1 \<le> cnt t \<Longrightarrow> \<exists>rs. used t = regions t ! 0 # rs"
  by (cases "regions t"; cases "cnt t") (auto simp: used_def table_ok_def)

lemma merge_list_nonempty: "rs \<noteq> [] \<Longrightarrow> merge_list rs \<noteq> []"
  by (induction rs rule: merge_list.induct) auto

lemma ins_range_first_size:
  assumes "list_all region_ok (merge_list (ins_range e rs b))" "used t' = merge_list (ins_range e rs b)" "table_ok t'" "1 \<le> cnt t'"
  shows "rsize (regions t' ! 0) \<noteq> 0"
  using used_first [OF assms(3,4)] assms(1,2) by (auto simp: region_ok_def)

lemma memblock_add_range_ok:
  assumes "memblock_inv t" "add_fits t b sz"
  shows "\<exists>t'. memblock_add_range t b sz = Some (0, t') \<and> memblock_inv t' \<and> tmax t' = tmax t \<and>
    addrs (used t') = addrs (used t) \<union> {unat b..<min (unat b + unat sz) (2 ^ 64 - 1)}"
proof -
  define e where "e = b + memblock_cap_size b sz"
  note cs = cap_size [OF e_def]
  have tok: "table_ok t" "1 \<le> cnt t" using assms(1) by (simp_all add: memblock_inv_def)
  obtain rs0 where u0: "used t = regions t ! 0 # rs0" using used_first [OF tok] by blast
  have r0: "rd (regions t) 0 = Some (regions t ! 0)" using rd_used(1) [OF tok(1), of "[]"] u0 by simp
  define N where "N = {unat b..<unat e}"
  have N: "{unat b..<min (unat b + unat sz) (2 ^ 64 - 1)} = N" unfolding N_def cs(2) ..
  consider (empty) "\<not> b < e" | (first) "b < e" "rsize (regions t ! 0) = 0" | (more) "b < e" "rsize (regions t ! 0) \<noteq> 0" by blast
  then have "\<exists>t'. memblock_add_range t b sz = Some (0, t') \<and> memblock_inv t' \<and> tmax t' = tmax t \<and>
    addrs (used t') = addrs (used t) \<union> N"
  proof cases
    case empty
    then have "N = {}" by (simp add: word_less_nat_alt N_def)
    moreover have "memblock_cap_size b sz = 0" using empty cs(4) by blast
    then have "memblock_add_range t b sz = Some (0, t)" by (simp add: memblock_add_range_def Let_def)
    ultimately show ?thesis using assms(1) by (intro exI [of _ t]) simp
  next
    case first
    have c: "cnt t = 1" "total_size t = 0" using assms(1) first(2) by (simp_all add: memblock_inv_def)
    define t1 where "t1 = t\<lparr>regions := (regions t)[0 := \<lparr>base = b, rsize = e - b\<rparr>], total_size := e - b\<rparr>"
    have "memblock_add_range t b sz = Some (0, t1)"
      using first r0 c cs(3,4) by (simp add: memblock_add_range_def Let_def t1_def)
    moreover have u1: "used t1 = [\<lparr>base = b, rsize = e - b\<rparr>]" and z: "addrs (used t) = {}"
      using tok c u0 first(2) by (cases "regions t"; simp add: used_def t1_def table_ok_def rlo_def rhi_def)+
    moreover have "memblock_inv t1"
      using u1 tok c first(1) region_of_bounds [OF cs(1)]
      by (cases "regions t") (auto simp: memblock_inv_def t1_def table_ok_def)
    moreover have "tmax t1 = tmax t" by (simp add: t1_def)
    ultimately show ?thesis using region_of_bounds [OF cs(1)] by (simp add: N_def)
  next
    case more
    define rs where "rs = ins_range e (used t) b"
    have ok: "list_all region_ok (used t)" "sorted_wrt touching (used t)" "total_size t = sizes (used t)"
      using assms(1) more(2) sorted_separated_touching by (simp_all add: memblock_inv_def)
    have rs: "list_all region_ok rs" "sorted_wrt touching rs" "addrs rs = addrs (used t) \<union> N" "length rs \<le> tmax t"
      using ins_range_ok ins_range_sorted ins_range_addrs ok assms(2) more(2) by (simp_all add: rs_def add_fits_def e_def N_def)
    have ge: "length (used t) \<le> length rs" by (simp add: rs_def ins_range_length)
    note cntr = add_round_count [OF tok(1) refl, of b e, folded rs_def]
    show ?thesis
    proof (cases "length rs = length (used t)")
      case True
      have "memblock_add_range t b sz = Some (0, t)"
        using more cs(4) r0 cntr True by (simp add: memblock_add_range_def Let_def e_def [symmetric])
      moreover have "rs = used t"
        using True ins_range_same_length rs_def by metis
      then have "addrs (used t) = addrs (used t) \<union> N"
        using rs(3) by (rule subst)
      ultimately show ?thesis using assms(1) by blast
    next
      case False
      obtain t1 where t1: "add_round True t b e = Some (t1, length rs - length (used t))" "used t1 = rs" "table_ok t1"
          "tmax t1 = tmax t" "total_size t1 - sizes (used t1) = total_size t - sizes (used t)"
        using add_round_insert [OF tok(1) refl rs(4) [unfolded rs_def]] by (auto simp: rs_def)
      have ne: "rs \<noteq> []" using ge u0 by auto
      obtain t2 where t2: "memblock_merge_regions t1 = Some t2" "used t2 = merge_list rs" "table_ok t2" "tmax t2 = tmax t1"
          "total_size t2 = total_size t1"
        using merge_loop_ok [OF t1(3), of "[]" rs] t1(2) ne rs(1,2) by (auto simp: memblock_merge_regions_def)
      have m: "list_all region_ok (merge_list rs)" "addrs (merge_list rs) = addrs rs" "sizes (merge_list rs) = sizes rs"
        "sorted_wrt separated (merge_list rs)"
        using merge_list_ok [OF rs(1,2)] merge_list_separated [OF rs(1,2)] by simp_all
      have "merge_list rs \<noteq> []" using ne merge_list_nonempty by blast
      then have c2: "1 \<le> cnt t2" using length_used [OF t2(3)] t2(2) by (cases "merge_list rs") auto
      have "memblock_add_range t b sz = Some (0, t2)"
        using more cs(4) r0 cntr False ge t1(1) t2(1) rs(4) length_used [OF tok(1)]
        by (simp add: memblock_add_range_def Let_def e_def [symmetric])
      moreover have "memblock_inv t2"
        using ins_range_first_size [of e "used t" b t2] m t2 c2 t1(2,5) ok(3) by (simp add: memblock_inv_def rs_def)
      moreover have "addrs (used t2) = addrs (used t) \<union> N"
        unfolding t2(2) m(2) rs(3) ..
      moreover have "tmax t2 = tmax t" using t2(4) t1(4) by simp
      ultimately show ?thesis by blast
    qed
  qed
  then show ?thesis unfolding N .
qed

lemma memblock_add_range_full:
  assumes "memblock_inv t" "\<not> add_fits t b sz"
  shows "memblock_add_range t b sz = None"
proof -
  define e where "e = b + memblock_cap_size b sz"
  note cs = cap_size [OF e_def]
  have tok: "table_ok t" "1 \<le> cnt t" using assms(1) by (simp_all add: memblock_inv_def)
  obtain rs0 where u0: "used t = regions t ! 0 # rs0" using used_first [OF tok] by blast
  have r0: "rd (regions t) 0 = Some (regions t ! 0)" using rd_used(1) [OF tok(1), of "[]"] u0 by simp
  have f: "rsize (regions t ! 0) \<noteq> 0" "tmax t < length (ins_range e (used t) b)"
    using assms(2) by (simp_all add: add_fits_def e_def)
  have "b < e"
  proof (rule ccontr)
    assume "\<not> b < e"
    then have "ins_range e (used t) b = used t" by (simp add: ins_range_done)
    with f(2) length_used [OF tok(1)] tok(1) show False by (simp add: table_ok_def)
  qed
  then show ?thesis
    using cs(4) r0 f add_round_count [OF tok(1) refl, of b e] length_used [OF tok(1)] tok(1)
    by (simp add: memblock_add_range_def Let_def e_def [symmetric] table_ok_def)
qed

lemma ins_range_length_le: "length (ins_range e rs b) \<le> 2 * length rs + 1"
proof (induction rs arbitrary: b)
  case (Cons r rs)
  show ?case using Cons [of b] Cons [of "min (base r + rsize r) e"] by (simp del: min_def)
qed simp

lemma add_fits_room: "memblock_inv t \<Longrightarrow> 2 * cnt t + 1 \<le> tmax t \<Longrightarrow> add_fits t b sz"
  using ins_range_length_le [of "b + memblock_cap_size b sz" "used t" b] length_used [of t]
  by (auto simp: add_fits_def memblock_inv_def)

end
