(* ===== verification/Memblock_Alloc.thy ===== *)
theory Memblock_Alloc
  imports Memblock_Inv
begin

text \<open>
  The reverse iteration over the free ranges and the allocation from the top of memory. The iteration
  visits exactly the addresses that are in the memory table and not in the reserved table, in
  descending maximal ranges, so the search finds the highest address that fits.
\<close>

unbundle bit_operations_syntax

section \<open>Free ranges\<close>

definition memblock_ok :: "memblock \<Rightarrow> bool" where
  "memblock_ok m =
     (memblock_inv (memory m) \<and> memblock_inv (reserved m) \<and>
      tmax (memory m) = INIT_MEMBLOCK_REGIONS \<and> tmax (reserved m) = INIT_MEMBLOCK_REGIONS)"

definition free_addrs :: "memblock \<Rightarrow> nat set" where
  "free_addrs m = addrs (used (memory m)) - addrs (used (reserved m))"

lemma inv_region:
  assumes "memblock_inv t" "i < cnt t"
  shows "rd (regions t) i = Some (regions t ! i)" "regions t ! i \<in> set (used t)" "rhi (regions t ! i) < 2 ^ 64"
proof -
  have tok: "table_ok t" using assms(1) by (simp add: memblock_inv_def)
  have l: "i < length (used t)" using length_used [OF tok] assms(2) by simp
  have u: "used t ! i = regions t ! i" using assms(2) by (simp add: used_def)
  show "rd (regions t) i = Some (regions t ! i)" using assms(2) tok by (simp add: table_ok_def)
  show s: "regions t ! i \<in> set (used t)" using nth_mem [OF l] u by simp
  show "rhi (regions t ! i) < 2 ^ 64"
  proof (cases "rsize (regions t ! 0) = 0")
    case True
    then have "i = 0" "base (regions t ! 0) = 0" using assms by (auto simp: memblock_inv_def)
    then show ?thesis using True by (simp add: rhi_def)
  next
    case False
    then have "list_all region_ok (used t)" using assms(1) by (simp add: memblock_inv_def)
    then show ?thesis using s by (simp add: list_all_iff region_ok_def)
  qed
qed

lemma inv_order:
  assumes "memblock_inv t" "i < j" "j < cnt t"
  shows "rhi (regions t ! i) < rlo (regions t ! j)"
proof -
  have "\<not> rsize (regions t ! 0) = 0" using assms by (auto simp: memblock_inv_def)
  then have "sorted_wrt separated (used t)" "length (used t) = cnt t"
    using assms(1) length_used by (simp_all add: memblock_inv_def)
  then have "separated (used t ! i) (used t ! j)" using assms(2,3) by (simp add: sorted_wrt_nth_less)
  then show ?thesis using assms(2,3) by (simp add: separated_def used_def)
qed

lemma addrs_used: "table_ok t \<Longrightarrow> x \<in> addrs (used t) \<longleftrightarrow> (\<exists>i < cnt t. rlo (regions t ! i) \<le> x \<and> x < rhi (regions t ! i))"
proof -
  assume "table_ok t"
  then have "length (used t) = cnt t" by (rule length_used)
  moreover have "\<And>i. i < cnt t \<Longrightarrow> used t ! i = regions t ! i" by (simp add: used_def)
  ultimately show ?thesis unfolding addrs_def UN_iff set_conv_nth by auto
qed

text \<open>
  Between two neighbouring regions of a table lies a gap. Gap \<open>j\<close> ends where region \<open>j\<close> begins. \<open>rest\<close> is what
  an iteration that stands at the two indices has still to visit.
\<close>

definition gap_lo :: "memblock_type \<Rightarrow> nat \<Rightarrow> nat" where
  "gap_lo t j = (if j = 0 then 0 else rhi (regions t ! (j - 1)))"

definition gap_hi :: "memblock_type \<Rightarrow> nat \<Rightarrow> nat" where
  "gap_hi t j = (if j < cnt t then rlo (regions t ! j) else 2 ^ 64 - 1)"

definition rest :: "memblock_type \<Rightarrow> memblock_type \<Rightarrow> int \<Rightarrow> int \<Rightarrow> nat set" where
  "rest ta tb a b =
     {x. \<exists>i j. int i \<le> a \<and> int j \<le> b \<and> rlo (regions ta ! i) \<le> x \<and> x < rhi (regions ta ! i) \<and>
            gap_lo tb j \<le> x \<and> x < gap_hi tb j}"

lemma rlo_le_rhi: "rlo r \<le> rhi r"
  by (simp add: rlo_def rhi_def)

lemma inv_mono:
  assumes "memblock_inv t" "i \<le> j" "j < cnt t"
  shows "rlo (regions t ! i) \<le> rlo (regions t ! j)" "rhi (regions t ! i) \<le> rhi (regions t ! j)"
proof -
  have "i = j \<or> rhi (regions t ! i) < rlo (regions t ! j)"
    using inv_order [OF assms(1), of i j] assms(2,3) by (cases "i = j") simp_all
  then show "rlo (regions t ! i) \<le> rlo (regions t ! j)" "rhi (regions t ! i) \<le> rhi (regions t ! j)"
    using rlo_le_rhi [of "regions t ! i"] rlo_le_rhi [of "regions t ! j"] by auto
qed

lemma gap_hi_mono:
  assumes "memblock_inv t" "i \<le> j" "j \<le> cnt t"
  shows "gap_hi t i \<le> gap_hi t j"
proof (cases "j < cnt t")
  case True
  then show ?thesis using inv_mono [OF assms(1,2)] assms(2) by (simp add: gap_hi_def)
next
  case False
  show ?thesis
  proof (cases "i < cnt t")
    case True
    then show ?thesis
      using inv_region(3) [OF assms(1) True] rlo_le_rhi [of "regions t ! i"] False by (simp add: gap_hi_def)
  qed (use assms False in \<open>simp add: gap_hi_def\<close>)
qed

lemma gap_hi_le_lo:
  assumes "memblock_inv t" "i < j" "j \<le> cnt t"
  shows "gap_hi t i \<le> gap_lo t j" "0 < gap_lo t j \<Longrightarrow> gap_hi t i < gap_lo t j"
proof -
  have h: "gap_hi t i \<le> rlo (regions t ! (j - 1))"
    using inv_mono(1) [OF assms(1), of i "j - 1"] assms(2,3) by (simp add: gap_hi_def)
  then show "gap_hi t i \<le> gap_lo t j"
    using assms(2) rlo_le_rhi [of "regions t ! (j - 1)"] by (simp add: gap_lo_def)
  assume p: "0 < gap_lo t j"
  have "0 < rsize (regions t ! (j - 1))"
  proof (cases "rsize (regions t ! 0) = 0")
    case True
    then have "cnt t = 1" "base (regions t ! 0) = 0" using assms(1) by (auto simp: memblock_inv_def)
    then have "gap_lo t j = 0" using assms True by (simp add: gap_lo_def rhi_def)
    with p show ?thesis by simp
  next
    case False
    then have "list_all region_ok (used t)" using assms(1) by (simp add: memblock_inv_def)
    moreover have "regions t ! (j - 1) \<in> set (used t)" using inv_region(2) [OF assms(1), of "j - 1"] assms(2,3) by simp
    ultimately show ?thesis by (simp add: list_all_iff region_ok_def word_gt_0)
  qed
  then show "gap_hi t i < gap_lo t j" using h assms(2) by (simp add: gap_lo_def rlo_def rhi_def word_less_nat_alt)
qed

lemma gap_iff:
  assumes "memblock_inv tb" "x < 2 ^ 64 - 1"
  shows "x \<notin> addrs (used tb) \<longleftrightarrow> (\<exists>j \<le> cnt tb. gap_lo tb j \<le> x \<and> x < gap_hi tb j)"
proof -
  have tok: "table_ok tb" using assms(1) by (simp add: memblock_inv_def)
  show ?thesis
  proof
  assume n: "x \<notin> addrs (used tb)"
  define j where "j = (LEAST j. x < gap_hi tb j)"
  have c: "x < gap_hi tb (cnt tb)" using assms(2) by (simp add: gap_hi_def)
  have j: "x < gap_hi tb j" "j \<le> cnt tb" 
    using LeastI [of "\<lambda>j. x < gap_hi tb j", OF c] Least_le [of "\<lambda>j. x < gap_hi tb j", OF c] by (simp_all add: j_def)
  have "gap_lo tb j \<le> x"
  proof (cases j)
    case (Suc k)
    have "\<not> x < gap_hi tb k" using not_less_Least [of k "\<lambda>j. x < gap_hi tb j"] Suc by (simp add: j_def)
    then have "rlo (regions tb ! k) \<le> x" "k < cnt tb" using j(2) Suc by (simp_all add: gap_hi_def)
    then have "\<not> x < rhi (regions tb ! k)" using n addrs_used [OF tok, of x] by blast
    then show ?thesis using Suc by (simp add: gap_lo_def)
  qed (simp add: gap_lo_def)
  then show "\<exists>j \<le> cnt tb. gap_lo tb j \<le> x \<and> x < gap_hi tb j" using j by blast
next
  assume "\<exists>j \<le> cnt tb. gap_lo tb j \<le> x \<and> x < gap_hi tb j"
  then obtain j where j: "j \<le> cnt tb" "gap_lo tb j \<le> x" "x < gap_hi tb j" by blast
  show "x \<notin> addrs (used tb)"
  proof
    assume "x \<in> addrs (used tb)"
    then obtain i where i: "i < cnt tb" "rlo (regions tb ! i) \<le> x" "x < rhi (regions tb ! i)"
      using addrs_used [OF tok] by blast
    show False
    proof (cases "i < j")
      case True
      then have "i \<le> j - 1" "j - 1 < cnt tb" "j \<noteq> 0" using j(1) by linarith+
      from inv_mono(2) [OF assms(1) this(1,2)] this(3) show ?thesis using i(3) j(2) by (simp add: gap_lo_def)
    next
      case False
      then show ?thesis using inv_mono(1) [OF assms(1), of j i] i(1,2) j(3) by (simp add: gap_hi_def)
    qed
  qed
qed
qed

lemma rest_all:
  assumes "memblock_inv ta" "memblock_inv tb"
  shows "rest ta tb (int (cnt ta) - 1) (int (cnt tb)) = addrs (used ta) - addrs (used tb)"
proof (rule set_eqI)
  fix x
  have tok: "table_ok ta" using assms by (simp add: memblock_inv_def)
  have r: "x \<in> rest ta tb (int (cnt ta) - 1) (int (cnt tb)) \<longleftrightarrow>
      x \<in> addrs (used ta) \<and> (\<exists>j \<le> cnt tb. gap_lo tb j \<le> x \<and> x < gap_hi tb j)"
    unfolding rest_def addrs_used [OF tok] by auto
  show "x \<in> rest ta tb (int (cnt ta) - 1) (int (cnt tb)) \<longleftrightarrow> x \<in> addrs (used ta) - addrs (used tb)"
  proof (cases "x \<in> addrs (used ta)")
    case True
    then obtain i where "i < cnt ta" "x < rhi (regions ta ! i)" using addrs_used [OF tok] by blast
    then have "x < 2 ^ 64 - 1" using inv_region(3) [OF assms(1), of i] by simp
    from gap_iff [OF assms(2) this] show ?thesis using r True by simp
  qed (simp add: r)
qed

lemma next_range_step:
  assumes "memblock_inv ta" "memblock_inv tb" "0 \<le> ia" "ia < int (cnt ta)" "0 \<le> ib" "ib \<le> int (cnt tb)"
  obtains m lo hi where "m = regions ta ! nat ia" "unat lo = gap_lo tb (nat ib)" "unat hi = gap_hi tb (nat ib)"
    "next_range ta (Some tb) ia ib =
       (if hi \<le> base m then next_range ta (Some tb) (ia - 1) ib
        else if base m + rsize m > lo then
          Range (max (base m) lo) (min (base m + rsize m) hi)
            (if base m \<ge> lo then ia - 1 else ia) (if base m \<ge> lo then ib else ib - 1)
        else next_range ta (Some tb) ia (ib - 1))"
proof -
  define lo where "lo = (if ib = 0 then 0 else base (regions tb ! nat (ib - 1)) + rsize (regions tb ! nat (ib - 1)))"
  define hi where "hi = (if ib < int (cnt tb) then base (regions tb ! nat ib) else PHYS_ADDR_MAX)"
  have na: "nat ia < cnt ta" using assms(3,4) by simp
  have l: "(if ib = 0 then Some 0 else map_option (\<lambda>r. base r + rsize r) (rd (regions tb) (nat (ib - 1)))) = Some lo"
    using inv_region(1) [OF assms(2), of "nat (ib - 1)"] assms(5,6) by (simp add: lo_def)
  have h: "(if ib < int (cnt tb) then map_option base (rd (regions tb) (nat ib)) else Some PHYS_ADDR_MAX) = Some hi"
    using inv_region(1) [OF assms(2), of "nat ib"] assms(5,6) by (simp add: hi_def)
  show thesis
  proof (rule that [OF refl, of lo hi])
    show "unat lo = gap_lo tb (nat ib)"
    proof (cases "ib = 0")
      case False
      then have k: "nat (ib - 1) < cnt tb" "nat (ib - 1) = nat ib - 1" "nat ib \<noteq> 0" using assms(5,6) by simp_all
      show ?thesis
        using unat_end [OF inv_region(3) [OF assms(2) k(1)]] False k(3) unfolding lo_def gap_lo_def k(2) by simp
    qed (simp add: lo_def gap_lo_def)
    show "unat hi = gap_hi tb (nat ib)"
      using assms(5) by (simp add: hi_def gap_hi_def rlo_def PHYS_ADDR_MAX_def nat_less_iff unsigned_minus_1_eq_mask mask_eq_exp_minus_1)
  qed (subst next_range.simps, use assms(3,5) l h inv_region(1) [OF assms(1) na] in \<open>simp add: Let_def\<close>)
qed

lemma next_range_none: "memblock_inv ta \<Longrightarrow> ia < int (cnt ta) \<Longrightarrow> ib < 0 \<Longrightarrow> next_range ta (Some tb) ia ib = NoRange"
proof (induction "nat (ia + 1)" arbitrary: ia rule: less_induct)
  case less
  show ?case
  proof (cases "ia < 0")
    case True
    then show ?thesis by (subst next_range.simps) simp
  next
    case False
    then have "next_range ta (Some tb) ia ib = next_range ta (Some tb) (ia - 1) ib"
      using inv_region(1) [OF less.prems(1), of "nat ia"] less.prems by (subst next_range.simps) (simp add: Let_def)
    then show ?thesis using less.hyps [of "ia - 1"] less.prems False by simp
  qed
qed

text \<open>What each of the three moves of the iteration leaves to visit.\<close>

lemma rest_outer:
  assumes "memblock_inv tb" "0 \<le> ib" "ib \<le> int (cnt tb)" "gap_hi tb (nat ib) \<le> rlo (regions ta ! nat ia)"
  shows "rest ta tb ia ib = rest ta tb (ia - 1) ib"
proof -
  have "int i \<le> ia - 1"
    if "int i \<le> ia" "int j \<le> ib" "rlo (regions ta ! i) \<le> x" "x < gap_hi tb j" for i j x
  proof (rule ccontr)
    assume "\<not> int i \<le> ia - 1"
    then have i: "i = nat ia" using that(1) by simp
    have "j \<le> nat ib" "nat ib \<le> cnt tb" using that(2) assms(2,3) by linarith+
    from gap_hi_mono [OF assms(1) this] show False using that(3,4) assms(4) i by simp
  qed
  then show ?thesis unfolding rest_def by (intro Collect_cong iff_exI) fastforce
qed

lemma rest_inner:
  assumes "memblock_inv ta" "ia < int (cnt ta)" "0 \<le> ib" "rhi (regions ta ! nat ia) \<le> gap_lo tb (nat ib)"
  shows "rest ta tb ia ib = rest ta tb ia (ib - 1)"
proof -
  have "int j \<le> ib - 1"
    if "int i \<le> ia" "int j \<le> ib" "x < rhi (regions ta ! i)" "gap_lo tb j \<le> x" for i j x
  proof (rule ccontr)
    assume "\<not> int j \<le> ib - 1"
    then have j: "j = nat ib" using that(2) by simp
    have "i \<le> nat ia" "nat ia < cnt ta" using that(1) assms(2) by linarith+
    from inv_mono(2) [OF assms(1) this] show False using that(3,4) assms(4) j by simp
  qed
  then show ?thesis unfolding rest_def by (intro Collect_cong iff_exI) fastforce
qed

lemma ex_split:
  assumes "\<And>i. I i \<longleftrightarrow> i = a \<or> I' i" "\<And>j. J j \<longleftrightarrow> j = b \<or> J' j"
  shows "(\<exists>i j. I i \<and> J j \<and> P i j) \<longleftrightarrow> P a b \<or> (\<exists>i j. I' i \<and> J j \<and> P i j) \<or> (\<exists>i j. I i \<and> J' j \<and> P i j)"
  unfolding assms by blast

lemma rest_split:
  assumes "0 \<le> ia" "0 \<le> ib"
  shows "rest ta tb ia ib =
     {max (rlo (regions ta ! nat ia)) (gap_lo tb (nat ib))..<min (rhi (regions ta ! nat ia)) (gap_hi tb (nat ib))} \<union>
     (rest ta tb (ia - 1) ib \<union> rest ta tb ia (ib - 1))"
proof -
  have i: "int i \<le> ia \<longleftrightarrow> i = nat ia \<or> int i \<le> ia - 1" for i using assms(1) by auto
  have j: "int j \<le> ib \<longleftrightarrow> j = nat ib \<or> int j \<le> ib - 1" for j using assms(2) by auto
  show ?thesis
    unfolding rest_def ex_split [of "\<lambda>i. int i \<le> ia", OF i j] by (rule set_eqI) (simp add: conj_ac)
qed

lemma rest_below_region:
  assumes "memblock_inv ta" "0 \<le> ia" "ia < int (cnt ta)" "x \<in> rest ta tb (ia - 1) ib"
  shows "x + 1 < rlo (regions ta ! nat ia)"
proof -
  obtain i where i: "int i \<le> ia - 1" "x < rhi (regions ta ! i)" using assms(4) by (auto simp: rest_def)
  then have "i < nat ia" "nat ia < cnt ta" using assms(2,3) by linarith+
  from inv_order [OF assms(1) this] show ?thesis using i(2) by simp
qed

lemma rest_below_gap:
  assumes "memblock_inv tb" "0 \<le> ib" "ib \<le> int (cnt tb)" "0 < gap_lo tb (nat ib)" "x \<in> rest ta tb ia (ib - 1)"
  shows "x + 1 < gap_lo tb (nat ib)"
proof -
  obtain j where j: "int j \<le> ib - 1" "x < gap_hi tb j" using assms(5) by (auto simp: rest_def)
  then have "j < nat ib" "nat ib \<le> cnt tb" using assms(2,3) by linarith+
  from gap_hi_le_lo(2) [OF assms(1) this assms(4)] show ?thesis using j(2) by simp
qed

lemma rest_mono: "a \<le> a' \<Longrightarrow> b \<le> b' \<Longrightarrow> rest ta tb a b \<subseteq> rest ta tb a' b'"
  unfolding rest_def by (intro Collect_mono impI) (meson order_trans)

lemma rest_neg [simp]: "a < 0 \<or> b < 0 \<Longrightarrow> rest ta tb a b = {}"
  by (auto simp: rest_def)

text \<open>A region that overlaps a gap: the one that reaches lower stays, the other is done.\<close>

lemma rest_region_done:
  assumes "memblock_inv tb" "0 \<le> ia" "0 \<le> ib" "ib \<le> int (cnt tb)" "gap_lo tb (nat ib) \<le> rlo (regions ta ! nat ia)"
  shows "rest ta tb ia ib =
     {rlo (regions ta ! nat ia)..<min (rhi (regions ta ! nat ia)) (gap_hi tb (nat ib))} \<union> rest ta tb (ia - 1) ib"
proof -
  have "rest ta tb ia (ib - 1) \<subseteq> rest ta tb (ia - 1) ib"
  proof (cases "ib = 0")
    case False
    then have "nat (ib - 1) < nat ib" "nat ib \<le> cnt tb" using assms(3,4) by simp_all
    from gap_hi_le_lo(1) [OF assms(1) this] assms(5) have "gap_hi tb (nat (ib - 1)) \<le> rlo (regions ta ! nat ia)" by simp
    from rest_outer [OF assms(1) _ _ this] False assms(3,4) have "rest ta tb ia (ib - 1) = rest ta tb (ia - 1) (ib - 1)" by simp
    then show ?thesis using rest_mono [of "ia - 1" "ia - 1" "ib - 1" ib ta tb] by simp
  qed simp
  then show ?thesis using rest_split [OF assms(2,3), of ta tb] assms(5) by (auto simp: max_absorb1)
qed

lemma rest_gap_done:
  assumes "memblock_inv ta" "0 \<le> ia" "0 \<le> ib" "ia < int (cnt ta)" "rlo (regions ta ! nat ia) \<le> gap_lo tb (nat ib)"
  shows "rest ta tb ia ib =
     {gap_lo tb (nat ib)..<min (rhi (regions ta ! nat ia)) (gap_hi tb (nat ib))} \<union> rest ta tb ia (ib - 1)"
proof -
  have "rest ta tb (ia - 1) ib \<subseteq> rest ta tb ia (ib - 1)"
  proof (cases "ia = 0")
    case False
    then have "nat (ia - 1) < nat ia" "nat ia < cnt ta" using assms(2,4) by simp_all
    from inv_order [OF assms(1) this] assms(5) have "rhi (regions ta ! nat (ia - 1)) \<le> gap_lo tb (nat ib)" by simp
    from rest_inner [OF assms(1) _ assms(3) this] assms(4) have "rest ta tb (ia - 1) ib = rest ta tb (ia - 1) (ib - 1)" by simp
    then show ?thesis using rest_mono [of "ia - 1" ia "ib - 1" "ib - 1" ta tb] by simp
  qed simp
  then show ?thesis using rest_split [OF assms(2,3), of ta tb] assms(5) by (auto simp: max_absorb2)
qed

lemma overlap_nonempty:
  assumes "memblock_inv ta" "memblock_inv tb" "i < cnt ta" "j \<le> cnt tb"
    "gap_lo tb j < rhi (regions ta ! i)" "rlo (regions ta ! i) < gap_hi tb j"
  shows "max (rlo (regions ta ! i)) (gap_lo tb j) < min (rhi (regions ta ! i)) (gap_hi tb j)"
proof -
  have "rlo (regions ta ! i) < rhi (regions ta ! i)"
  proof (cases "rsize (regions ta ! 0) = 0")
    case True
    then have "i = 0" "base (regions ta ! 0) = 0" using assms(1,3) by (auto simp: memblock_inv_def)
    then show ?thesis using assms(5) True by (simp add: rhi_def)
  next
    case False
    then have "list_all region_ok (used ta)" using assms(1) by (simp add: memblock_inv_def)
    then show ?thesis using inv_region(2) [OF assms(1,3)] rlo_less_rhi by (simp add: list_all_iff)
  qed
  moreover have "gap_lo tb j < gap_hi tb j"
  proof (cases "j < cnt tb")
    case True
    then show ?thesis using inv_order [OF assms(2), of "j - 1" j] assms(6) by (cases j) (auto simp: gap_lo_def gap_hi_def)
  next
    case False
    then show ?thesis using inv_region(3) [OF assms(1,3)] assms(5) by (simp add: gap_hi_def)
  qed
  ultimately show ?thesis using assms(5,6) by simp
qed

lemma next_range_spec:
  assumes "memblock_inv ta" "memblock_inv tb" "ia < int (cnt ta)" "ib \<le> int (cnt tb)"
  shows "next_range ta (Some tb) ia ib = NoRange \<and> rest ta tb ia ib = {} \<or>
    (\<exists>s e a b. next_range ta (Some tb) ia ib = Range s e a b \<and> s < e \<and> 0 \<le> b \<and>
       rest ta tb ia ib = {unat s..<unat e} \<union> rest ta tb a b \<and> (\<forall>x \<in> rest ta tb a b. x + 1 < unat s))"
  using assms(3,4)
proof (induction "nat (ia + 1) + nat (ib + 1)" arbitrary: ia ib rule: less_induct)
  case less
  consider (neg) "ia < 0 \<or> ib < 0" | (pos) "0 \<le> ia" "0 \<le> ib" by linarith
  then show ?case
  proof cases
    case neg
    then have "rest ta tb ia ib = {}" by (auto simp: rest_def)
    moreover have "next_range ta (Some tb) ia ib = NoRange"
      using neg next_range_none [OF assms(1) less.prems(1)] by (cases "ia < 0") (auto simp: next_range.simps [of ta _ ia])
    ultimately show ?thesis by blast
  next
    case pos
    note b = less.prems pos
    obtain m lo hi where m: "m = regions ta ! nat ia" and u: "unat lo = gap_lo tb (nat ib)" "unat hi = gap_hi tb (nat ib)"
      and eq: "next_range ta (Some tb) ia ib =
       (if hi \<le> base m then next_range ta (Some tb) (ia - 1) ib
        else if base m + rsize m > lo then
          Range (max (base m) lo) (min (base m + rsize m) hi)
            (if base m \<ge> lo then ia - 1 else ia) (if base m \<ge> lo then ib else ib - 1)
        else next_range ta (Some tb) ia (ib - 1))"
      using next_range_step [OF assms(1,2) b(3,1,4,2)] by metis
    have e: "unat (base m + rsize m) = rhi m" "unat (base m) = rlo m"
      using unat_end inv_region(3) [OF assms(1), of "nat ia"] b m by (simp_all add: rlo_def)
    show ?thesis
    proof (cases "hi \<le> base m")
      case True
      then have "gap_hi tb (nat ib) \<le> rlo (regions ta ! nat ia)" using u e m by (simp add: word_le_nat_alt)
      from rest_outer [OF assms(2) b(4,2) this] show ?thesis
        using eq True less.hyps [of "ia - 1" ib] b by simp
    next
      case h: False
      show ?thesis
      proof (cases "base m + rsize m > lo")
        case False
        then have "rhi (regions ta ! nat ia) \<le> gap_lo tb (nat ib)" using u e m by (simp add: word_less_nat_alt)
        from rest_inner [OF assms(1) b(1,4) this] show ?thesis
          using eq h False less.hyps [of ia "ib - 1"] b by simp
      next
        case l: True
        have ov: "gap_lo tb (nat ib) < rhi m" "rlo m < gap_hi tb (nat ib)"
          using h l u e by (simp_all add: word_less_nat_alt word_le_nat_alt)
        have mm: "unat (max (base m) lo) = max (rlo m) (gap_lo tb (nat ib))"
            "unat (min (base m + rsize m) hi) = min (rhi m) (gap_hi tb (nat ib))"
          using u e by (auto simp: max_def min_def word_le_nat_alt)
        have lt: "max (base m) lo < min (base m + rsize m) hi"
          unfolding word_less_nat_alt mm
          using overlap_nonempty [OF assms(1,2), of "nat ia" "nat ib"] ov b m by simp
        show ?thesis
        proof (cases "lo \<le> base m")
          case True
          then have g: "gap_lo tb (nat ib) \<le> rlo m" using u e by (simp add: word_le_nat_alt)
          show ?thesis
            using eq h l True lt b(4) rest_region_done [OF assms(2) b(3,4,2) g [unfolded m]]
              rest_below_region [OF assms(1) b(3,1)] g
            unfolding m [symmetric] by (simp add: mm e)
        next
          case False
          then have g: "rlo m < gap_lo tb (nat ib)" using u e by (simp add: word_le_nat_alt)
          then have "ib \<noteq> 0" by (auto simp: gap_lo_def)
          then show ?thesis
            using eq h l False lt b(4) rest_gap_done [OF assms(1) b(3,4,1) less_imp_le [OF g [unfolded m]]]
              rest_below_gap [OF assms(2) b(4,2)] g
            unfolding m [symmetric] by (simp add: mm u)
        qed
      qed
    qed
  qed
qed

section \<open>Finding and allocating\<close>

text \<open>
  An address fits when it is aligned and the block that begins there is free. The search returns the
  highest address that fits, or 0.
\<close>

definition fits :: "nat set \<Rightarrow> nat \<Rightarrow> nat \<Rightarrow> nat \<Rightarrow> bool" where
  "fits F sz align x = (align dvd x \<and> {x..<x + sz} \<subseteq> F)"

definition highest_fit :: "nat set \<Rightarrow> nat \<Rightarrow> nat \<Rightarrow> nat \<Rightarrow> bool" where
  "highest_fit F sz align x =
     (if \<exists>y. fits F sz align y then fits F sz align x \<and> (\<forall>y. fits F sz align y \<longrightarrow> y \<le> x) else x = 0)"

lemma fits_split:
  assumes "0 < sz" "\<forall>x \<in> R. x + 1 < s"
  shows "fits ({s..<e} \<union> R) sz align x \<longleftrightarrow> fits {s..<e} sz align x \<or> fits R sz align x"
proof
  assume f: "fits ({s..<e} \<union> R) sz align x"
  then have sub: "{x..<x + sz} \<subseteq> {s..<e} \<union> R" by (simp add: fits_def)
  show "fits {s..<e} sz align x \<or> fits R sz align x"
  proof (cases "s \<le> x")
    case True
    then have "{x..<x + sz} \<subseteq> {s..<e}" using sub assms(2) by fastforce
    then show ?thesis using f by (simp add: fits_def)
  next
    case False
    have "x + sz < s"
    proof (rule ccontr)
      assume "\<not> x + sz < s"
      then have "s - 1 \<in> {x..<x + sz}" using False assms(1) by auto
      then have "s - 1 \<in> {s..<e} \<union> R" using sub by blast
      then have "s - 1 \<in> R" using False by auto
      then show False using assms(2) False by fastforce
    qed
    then have "{x..<x + sz} \<subseteq> R" using sub by fastforce
    then show ?thesis using f by (simp add: fits_def)
  qed
qed (auto simp: fits_def)

lemma round_down:
  assumes "align dvd y" "y \<le> n" "0 < (align :: nat)"
  shows "y \<le> n - n mod align"
proof -
  obtain k where "y = align * k" using assms(1) by (rule dvdE)
  moreover from this have "k \<le> n div align" using assms(2,3) by (simp add: less_eq_div_iff_mult_less_eq mult.commute)
  moreover have "n - n mod align = align * (n div align)" by (simp add: minus_mod_eq_mult_div)
  ultimately show ?thesis by simp
qed

lemma fits_interval:
  assumes "0 < sz" "0 < align" "sz \<le> e"
  shows "s \<le> (e - sz) - (e - sz) mod align \<Longrightarrow> fits {s..<e} sz align ((e - sz) - (e - sz) mod align)"
    and "fits {s..<e} sz align y \<Longrightarrow> s \<le> y \<and> y \<le> (e - sz) - (e - sz) mod align"
proof -
  have d: "align dvd (e - sz) - (e - sz) mod align" by (simp add: minus_mod_eq_mult_div)
  then show "s \<le> (e - sz) - (e - sz) mod align \<Longrightarrow> fits {s..<e} sz align ((e - sz) - (e - sz) mod align)"
    using assms by (auto simp: fits_def)
  assume f: "fits {s..<e} sz align y"
  then have "y \<in> {s..<e}" "y + sz - 1 \<in> {s..<e}" using assms(1) by (auto simp: fits_def)
  then have "s \<le> y" "y \<le> e - sz" using assms by auto
  then show "s \<le> y \<and> y \<le> (e - sz) - (e - sz) mod align" using round_down [of align y "e - sz"] f assms by (simp add: fits_def)
qed

lemma fits_interval_small: "0 < sz \<Longrightarrow> e < sz \<Longrightarrow> \<not> fits {s..<e} sz align y"
proof
  assume a: "0 < sz" "e < sz" "fits {s..<e} sz align y"
  then have "y + sz - 1 \<in> {s..<e}" by (auto simp: fits_def)
  then show False using a by auto
qed

text \<open>One turn of the search: either the top interval holds the answer, or the rest decides.\<close>

lemma highest_fit_top:
  assumes "0 < sz" "0 < align" "\<forall>x \<in> R. x + 1 < s" "sz \<le> e" "s \<le> (e - sz) - (e - sz) mod align"
  shows "highest_fit ({s..<e} \<union> R) sz align ((e - sz) - (e - sz) mod align)"
proof -
  define c where "c = (e - sz) - (e - sz) mod align"
  have c: "fits {s..<e} sz align c" using fits_interval(1) assms by (simp add: c_def)
  have "y \<le> c" if "fits R sz align y" for y
  proof -
    have "y \<in> R" using that assms(1) by (auto simp: fits_def)
    then show ?thesis using assms(3,5) by (fastforce simp: c_def)
  qed
  then show ?thesis
    using c fits_interval(2) [OF assms(1,2,4)] fits_split [OF assms(1,3)] unfolding highest_fit_def c_def by auto
qed

lemma highest_fit_rest:
  assumes "0 < sz" "0 < align" "\<forall>x \<in> R. x + 1 < s"
    "sz \<le> e \<Longrightarrow> (e - sz) - (e - sz) mod align < s" "highest_fit R sz align x"
  shows "highest_fit ({s..<e} \<union> R) sz align x"
proof -
  have "\<not> fits {s..<e} sz align y" for y
  proof (cases "sz \<le> e")
    case True
    then show ?thesis using fits_interval(2) [OF assms(1,2) True, of s y] assms(4) by fastforce
  next
    case False
    then show ?thesis using fits_interval_small assms(1) by simp
  qed
  then show ?thesis using assms(5) fits_split [OF assms(1,3)] by (simp add: highest_fit_def)
qed

lemma highest_fit_empty: "0 < sz \<Longrightarrow> highest_fit {} sz align 0"
  by (auto simp: highest_fit_def fits_def)

lemma idx_hi_NOT_0: "idx_hi (NOT 0) = - 1" "idx_hi (- 1) = - 1"
  by code_simp+

lemma unat_round_down: "unat (x - x mod y) = unat x - unat x mod unat y" for x y :: u64
proof -
  have "unat (x mod y) \<le> unat x" by (simp add: unat_mod_distrib)
  then show ?thesis by (simp add: unat_sub word_le_nat_alt unat_mod_distrib)
qed

lemma find_loop_spec:
  assumes "memblock_ok m" "sz \<noteq> 0" "align \<noteq> 0"
    "idx_lo idx < int (cnt (memory m))" "0 \<le> idx_hi idx" "idx_hi idx \<le> int (cnt (reserved m))"
    "\<forall>x \<in> rest (memory m) (reserved m) (idx_lo idx) (idx_hi idx). x + 1 < unat s"
  shows "\<exists>found. find_loop m sz align idx s e = Some found \<and>
    highest_fit ({unat s..<unat e} \<union> rest (memory m) (reserved m) (idx_lo idx) (idx_hi idx)) (unat sz) (unat align) (unat found)"
  using assms(4-7)
proof (induction "idx_measure idx" arbitrary: idx s e rule: less_induct)
  case less
  let ?R = "rest (memory m) (reserved m) (idx_lo idx) (idx_hi idx)"
  have inv: "memblock_inv (memory m)" "memblock_inv (reserved m)" and
    c: "cnt (memory m) \<le> 128" "cnt (reserved m) \<le> 128"
    using assms(1) by (auto simp: memblock_ok_def memblock_inv_def table_ok_def INIT_MEMBLOCK_REGIONS_def)
  have i: "idx \<noteq> - 1" using less.prems(2) idx_hi_NOT_0 by auto
  have z: "0 < unat sz" "0 < unat align" using assms(2,3) by (simp_all add: unat_gt_0)
  define cand where "cand = (e - sz) - (e - sz) mod align"
  have u: "unat cand = (unat e - unat sz) - (unat e - unat sz) mod unat align" if "\<not> e < sz"
    using that by (simp add: cand_def unat_round_down unat_sub)
  have cl: "min (max x 0) PHYS_ADDR_MAX = x" "min x PHYS_ADDR_MAX = x" for x :: u64
    by (simp_all add: PHYS_ADDR_MAX_def min_absorb1)
  have eq: "find_loop m sz align idx s e =
      (if \<not> e < sz \<and> s \<le> cand then Some cand
       else case next_mem_range_rev idx (memory m) (Some (reserved m)) of
              None \<Rightarrow> None
            | Some (idx', None) \<Rightarrow> find_loop m sz align idx' s e
            | Some (idx', Some (s, e)) \<Rightarrow> find_loop m sz align idx' s e)"
    using i assms(3) by (subst find_loop.simps) (simp add: Let_def cl cand_def split: option.split prod.split)
  show ?case
  proof (cases "\<not> e < sz \<and> s \<le> cand")
    case True
    then show ?thesis
      using eq highest_fit_top [OF z less.prems(4), of "unat e"] u by (simp add: word_le_nat_alt word_less_nat_alt)
  next
    case False
    have low: "unat sz \<le> unat e \<Longrightarrow> (unat e - unat sz) - (unat e - unat sz) mod unat align < unat s"
      using False u by (simp add: word_le_nat_alt word_less_nat_alt)
    note go = highest_fit_rest [OF z less.prems(4) low]
    from next_range_spec [OF inv less.prems(1,3)] show ?thesis
    proof (elim disjE conjE exE)
      assume n: "next_range (memory m) (Some (reserved m)) (idx_lo idx) (idx_hi idx) = NoRange" "?R = {}"
      have "find_loop m sz align (- 1) s e = Some 0" by (subst find_loop.simps) simp
      then have "find_loop m sz align idx s e = Some 0"
        using eq False i n(1) by (simp add: next_mem_range_rev_def)
      then show ?thesis using go [of 0] highest_fit_empty [OF z(1)] n(2) by simp
    next
      fix s' e' a b
      assume r: "next_range (memory m) (Some (reserved m)) (idx_lo idx) (idx_hi idx) = Range s' e' a b"
        and b0: "0 \<le> b" and R: "?R = {unat s'..<unat e'} \<union> rest (memory m) (reserved m) a b"
        and below: "\<forall>x \<in> rest (memory m) (reserved m) a b. x + 1 < unat s'"
      have nx: "next_mem_range_rev idx (memory m) (Some (reserved m)) = Some (pack_idx a b, Some (s', e'))"
        using i r by (simp add: next_mem_range_rev_def)
      note bd = next_range_bounds [OF r]
      have ab: "idx_lo (pack_idx a b) = a" "idx_hi (pack_idx a b) = b"
        using pack_idx_unpack [of a b] bd less.prems(1,3) c by simp_all
      have "\<exists>found. find_loop m sz align (pack_idx a b) s' e' = Some found \<and> highest_fit ?R (unat sz) (unat align) (unat found)"
        using less.hyps [of "pack_idx a b" s' e'] next_mem_range_rev_decreases [OF nx] i below b0 bd less.prems
        unfolding R ab by simp
      then show ?thesis using eq False nx go by auto
    qed
  qed
qed

lemma memblock_find_spec:
  assumes "memblock_ok m" "sz \<noteq> 0" "align \<noteq> 0"
  shows "\<exists>found. memblock_find_in_range_node m sz align = Some found \<and> highest_fit (free_addrs m) (unat sz) (unat align) (unat found)"
proof -
  have inv: "memblock_inv (memory m)" "memblock_inv (reserved m)" and
    c: "cnt (memory m) \<le> 128" "cnt (reserved m) \<le> 128"
    using assms(1) by (auto simp: memblock_ok_def memblock_inv_def table_ok_def INIT_MEMBLOCK_REGIONS_def)
  have z: "0 < unat sz" using assms(2) by (simp add: unat_gt_0)
  let ?a = "int (cnt (memory m)) - 1" and ?b = "int (cnt (reserved m))"
  have F: "free_addrs m = rest (memory m) (reserved m) ?a ?b" by (simp add: free_addrs_def rest_all [OF inv])
  have lt: "?a < int (cnt (memory m))" "?b \<le> int (cnt (reserved m))" by simp_all
  from next_range_spec [OF inv lt] show ?thesis
  proof (elim disjE conjE exE)
    assume n: "next_range (memory m) (Some (reserved m)) ?a ?b = NoRange" "rest (memory m) (reserved m) ?a ?b = {}"
    then have "memblock_find_in_range_node m sz align = Some 0"
      by (simp add: memblock_find_in_range_node_def next_mem_range_rev_def)
    then show ?thesis using highest_fit_empty [OF z] F n(2) by simp
  next
    fix s' e' a b
    assume r: "next_range (memory m) (Some (reserved m)) ?a ?b = Range s' e' a b"
      and b0: "0 \<le> b" and R: "rest (memory m) (reserved m) ?a ?b = {unat s'..<unat e'} \<union> rest (memory m) (reserved m) a b"
      and below: "\<forall>x \<in> rest (memory m) (reserved m) a b. x + 1 < unat s'"
    note bd = next_range_bounds [OF r]
    have ab: "idx_lo (pack_idx a b) = a" "idx_hi (pack_idx a b) = b"
      using pack_idx_unpack [of a b] bd c by simp_all
    have "memblock_find_in_range_node m sz align = find_loop m sz align (pack_idx a b) s' e'"
      using r by (simp add: memblock_find_in_range_node_def next_mem_range_rev_def)
    then show ?thesis
      using find_loop_spec [OF assms, of "pack_idx a b" s' e'] below b0 bd unfolding F R ab by simp
  qed
qed

lemma highest_fit_pos: "highest_fit F sz align x \<Longrightarrow> x \<noteq> 0 \<Longrightarrow> fits F sz align x"
  by (simp add: highest_fit_def split: if_splits)

section \<open>The two tables together\<close>

lemma memblock_reserve_ok:
  assumes "memblock_ok m" "memblock_reserve b sz m = Some (err, m')" "unat b + unat sz < 2 ^ 64"
  shows "err = 0" "memblock_ok m'" "memory m' = memory m"
    "addrs (used (reserved m')) = addrs (used (reserved m)) \<union> {unat b..<unat b + unat sz}"
proof -
  have inv: "memblock_inv (reserved m)" using assms(1) by (simp add: memblock_ok_def)
  obtain t where t: "memblock_add_range (reserved m) b sz = Some (err, t)" "m' = m\<lparr>reserved := t\<rparr>"
    using assms(2) by (auto simp: memblock_reserve_def split: option.splits)
  then have "add_fits (reserved m) b sz" using memblock_add_range_full [OF inv, of b sz] by fastforce
  from memblock_add_range_ok [OF inv this] t assms(1,3)
  show "err = 0" "memblock_ok m'" "memory m' = memory m"
    "addrs (used (reserved m')) = addrs (used (reserved m)) \<union> {unat b..<unat b + unat sz}"
    by (auto simp: memblock_ok_def)
qed

lemma highest_fit_zero:
  assumes "highest_fit F sz align 0" "fits F sz align x"
  shows "x = 0"
proof -
  have "\<exists>y. fits F sz align y" using assms(2) by blast
  then show ?thesis using assms by (simp add: highest_fit_def)
qed

lemma memblock_alloc_cases:
  assumes "memblock_ok m" "sz \<noteq> 0"
  obtains (panic) "memblock_alloc sz align m = None"
      "\<And>x. fits (free_addrs m) (unat sz) (unat (if align = 0 then SMP_CACHE_BYTES else align)) x \<Longrightarrow> x \<noteq> 0 \<Longrightarrow>
         \<exists>y \<ge> x. fits (free_addrs m) (unat sz) (unat (if align = 0 then SMP_CACHE_BYTES else align)) y \<and>
            y < 2 ^ 64 \<and> \<not> add_fits (reserved m) (of_nat y) sz"
  | (found) p m' where "memblock_alloc sz align m = Some (p, m')" "p \<noteq> 0"
      "highest_fit (free_addrs m) (unat sz) (unat (if align = 0 then SMP_CACHE_BYTES else align)) (unat p)"
      "unat p + unat sz < 2 ^ 64" "memblock_ok m'" "memory m' = memory m"
      "addrs (used (reserved m')) = addrs (used (reserved m)) \<union> {unat p..<unat p + unat sz}"
proof -
  define al where "al = (if align = 0 then SMP_CACHE_BYTES else align)"
  have al: "al \<noteq> 0" by (simp add: al_def SMP_CACHE_BYTES_def)
  have inv: "memblock_inv (memory m)" "memblock_inv (reserved m)" using assms(1) by (simp_all add: memblock_ok_def)
  obtain p where p: "memblock_find_in_range_node m sz al = Some p" "highest_fit (free_addrs m) (unat sz) (unat al) (unat p)"
    using memblock_find_spec [OF assms al] by blast
  have A: "memblock_alloc sz align m =
      (if p = 0 then None
       else do { (err, m) \<leftarrow> memblock_reserve p sz m; if err = 0 then Some (p, m) else None })"
    using p(1) by (simp add: memblock_alloc_def al_def)
  show thesis
  proof (cases "p = 0")
    case True
    then have "memblock_alloc sz align m = None" using A by simp
    then show ?thesis using panic highest_fit_zero p(2) True unfolding al_def [symmetric] by fastforce
  next
    case False
    then have f: "fits (free_addrs m) (unat sz) (unat al) (unat p)"
      using highest_fit_pos [OF p(2)] by (simp add: unat_eq_zero)
    have "0 < unat sz" using assms(2) by (simp add: unat_gt_0)
    then have "unat p + unat sz - 1 \<in> {unat p..<unat p + unat sz}" by auto
    then have "unat p + unat sz - 1 \<in> addrs (used (memory m))" using f unfolding fits_def free_addrs_def by blast
    then obtain i where "i < cnt (memory m)" "unat p + unat sz - 1 < rhi (regions (memory m) ! i)"
      using addrs_used inv(1) by (auto simp: memblock_inv_def)
    then have bnd: "unat p + unat sz < 2 ^ 64" using inv_region(3) [OF inv(1), of i] by simp
    show ?thesis
    proof (cases "memblock_reserve p sz m")
      case None
      then have "memblock_alloc sz align m = None" using A False by simp
      moreover have "\<not> add_fits (reserved m) p sz"
        using None memblock_add_range_ok [OF inv(2), of p sz] by (auto simp: memblock_reserve_def)
      moreover have "x \<le> unat p" if "fits (free_addrs m) (unat sz) (unat al) x" for x
        using p(2) that unfolding highest_fit_def by metis
      ultimately show ?thesis
        using f bnd unfolding al_def [symmetric]
        by (intro panic [folded al_def]) (auto intro!: exI [of _ "unat p"])
    next
      case (Some r)
      then obtain err m' where r: "memblock_reserve p sz m = Some (err, m')" by (cases r) auto
      note ok = memblock_reserve_ok [OF assms(1) r bnd]
      have "memblock_alloc sz align m = Some (p, m')" using A False r ok(1) by simp
      then show ?thesis using found [OF _ False _ bnd ok(2-4)] p(2) unfolding al_def [symmetric] by simp
    qed
  qed
qed

section \<open>The tables as an interface\<close>

text \<open>
  What a client of a table relies on: an addition that is accepted adds exactly the range, and the
  invariant stays. A sequence of accepted additions then holds the union of their ranges.
\<close>

primrec adds :: "('t \<Rightarrow> u64 \<Rightarrow> u64 \<Rightarrow> (int \<times> 't) option) \<Rightarrow> (u64 \<times> u64) list \<Rightarrow> 't \<Rightarrow> 't option" where
  "adds f [] t = Some t"
| "adds f (r # rs) t = (case f t (fst r) (snd r) of None \<Rightarrow> None | Some (err, t') \<Rightarrow> adds f rs t')"

locale range_table =
  fixes inv :: "'t \<Rightarrow> bool" and abs :: "'t \<Rightarrow> nat set"
    and add :: "'t \<Rightarrow> u64 \<Rightarrow> u64 \<Rightarrow> (int \<times> 't) option" and clip :: "u64 \<Rightarrow> u64 \<Rightarrow> nat set"
  assumes add_inv: "inv t \<Longrightarrow> add t b sz = Some (err, t') \<Longrightarrow> inv t'"
    and add_abs: "inv t \<Longrightarrow> add t b sz = Some (err, t') \<Longrightarrow> abs t' = abs t \<union> clip b sz"
begin

lemma adds_union: "inv t \<Longrightarrow> adds add rs t = Some t' \<Longrightarrow> inv t' \<and> abs t' = abs t \<union> (\<Union>(b, sz) \<in> set rs. clip b sz)"
proof (induction rs arbitrary: t)
  case (Cons r rs)
  then obtain err t1 where "add t (fst r) (snd r) = Some (err, t1)" "adds add rs t1 = Some t'"
    by (auto split: option.splits)
  then show ?case using Cons.IH [of t1] Cons.prems(1) add_inv add_abs by (auto simp: case_prod_beta)
qed simp

end

lemma add_range_Some:
  assumes "memblock_inv t" "memblock_add_range t b sz = Some (err, t')"
  shows "err = 0" "memblock_inv t'" "tmax t' = tmax t"
    "addrs (used t') = addrs (used t) \<union> {unat b..<min (unat b + unat sz) (2 ^ 64 - 1)}"
proof -
  have "add_fits t b sz" using memblock_add_range_full [OF assms(1), of b sz] assms(2) by fastforce
  from memblock_add_range_ok [OF assms(1) this] assms(2)
  show "err = 0" "memblock_inv t'" "tmax t' = tmax t"
    "addrs (used t') = addrs (used t) \<union> {unat b..<min (unat b + unat sz) (2 ^ 64 - 1)}" by auto
qed

interpretation mb: range_table memblock_inv "\<lambda>t. addrs (used t)" memblock_add_range
    "\<lambda>b sz. {unat b..<min (unat b + unat sz) (2 ^ 64 - 1)}"
  by unfold_locales (fact add_range_Some)+

lemma memblock_init_ok: "memblock_ok memblock_init"
  by (simp add: memblock_ok_def memblock_init_def memblock_inv_def table_ok_def empty_table_def INIT_MEMBLOCK_REGIONS_def)

end
