(* ===== verification/Memblock_Props.thy ===== *)
theory Memblock_Props
  imports Memblock_Alloc
begin

text \<open>
  The properties of the memory map: additions are set union, a sequence of additions from the empty
  map gives the set difference of memory and reservations, and an allocation takes the highest free
  block that fits.
\<close>

definition mb_demo :: memblock where
  "mb_demo = snd (the (memblock_reserve 0x80000000 0x400 (snd (the (memblock_add 0x80000000 0x1000 memblock_init)))))"

lemma mb_demo_eval:
  "memblock_add 0x80000000 0x1000 memblock_init \<noteq> None"
  "memblock_reserve 0x80000000 0x400 (snd (the (memblock_add 0x80000000 0x1000 memblock_init))) \<noteq> None"
  "map_option fst (memblock_alloc 0x100 0x40 mb_demo) = Some 0x80000F00"
  by code_simp+

text \<open>C38: A range added to the memory map is added to the set of memory addresses, cut off below the last
  address, and nothing else changes; the tables stay sorted, disjoint and merged with the right total.
  The addition stops the machine exactly when the pieces do not fit into the table.
\<close>

theorem memblock_add_correct:
  assumes "memblock_ok m"
  shows "case memblock_add b sz m of
      None \<Rightarrow> \<not> add_fits (memory m) b sz
    | Some (err, m') \<Rightarrow>
        add_fits (memory m) b sz \<and> err = 0 \<and> memblock_ok m' \<and> reserved m' = reserved m \<and>
        addrs (used (memory m')) = addrs (used (memory m)) \<union> {unat b..<min (unat b + unat sz) (2 ^ 64 - 1)}"
proof -
  have inv: "memblock_inv (memory m)" using assms by (simp add: memblock_ok_def)
  show ?thesis
  proof (cases "add_fits (memory m) b sz")
    case True
    from memblock_add_range_ok [OF inv this] True assms show ?thesis
      by (auto simp: memblock_add_def memblock_ok_def)
  next
    case False
    then show ?thesis using memblock_add_range_full [OF inv False] by (simp add: memblock_add_def)
  qed
qed

lemma mb_demo_ok: "memblock_ok mb_demo"
proof -
  define m where "m = snd (the (memblock_add 0x80000000 0x1000 memblock_init))"
  obtain err t where t: "memblock_add_range (memory memblock_init) 0x80000000 0x1000 = Some (err, t)" "m = memblock_init\<lparr>memory := t\<rparr>"
    using mb_demo_eval(1) by (auto simp: memblock_add_def m_def)
  have m: "memblock_ok m"
    using add_range_Some [OF _ t(1)] memblock_init_ok by (simp add: memblock_ok_def t(2))
  obtain err t' where t': "memblock_add_range (reserved m) 0x80000000 0x400 = Some (err, t')" "mb_demo = m\<lparr>reserved := t'\<rparr>"
    using mb_demo_eval(2) by (auto simp: memblock_reserve_def m_def mb_demo_def)
  show ?thesis using add_range_Some [OF _ t'(1)] m by (simp add: memblock_ok_def t'(2))
qed

theorem memblock_add_correct_witness:
  "memblock_ok mb_demo \<and>
   (case memblock_add 0x80001000 0x1000 mb_demo of
      None \<Rightarrow> False
    | Some (err, m') \<Rightarrow> err = 0 \<and> cnt (memory m') = 1 \<and> memblock_ok m')"
proof -
  have "(case memblock_add 0x80001000 0x1000 mb_demo of None \<Rightarrow> False | Some (err, m') \<Rightarrow> cnt (memory m') = 1)"
    by code_simp
  then show ?thesis
    using memblock_add_correct [OF mb_demo_ok, of "0x80001000" "0x1000"] mb_demo_ok by (auto split: option.splits)
qed

text \<open>C39: An allocation returns the highest non-zero aligned address whose block lies in memory and touches
  no reservation, and reserves exactly that block, so two allocations never overlap. It stops the machine
  only when no block at a non-zero address fits, or when the reservation table is full.
\<close>

theorem memblock_alloc_correct:
  assumes "memblock_ok m" "sz \<noteq> 0" "al = (if align = 0 then SMP_CACHE_BYTES else align)"
  shows "case memblock_alloc sz align m of
      None \<Rightarrow> \<forall>x. x \<noteq> 0 \<and> fits (free_addrs m) (unat sz) (unat al) x \<longrightarrow>
        (\<exists>y \<ge> x. fits (free_addrs m) (unat sz) (unat al) y \<and> \<not> add_fits (reserved m) (of_nat y) sz)
    | Some (p, m') \<Rightarrow>
        p \<noteq> 0 \<and> fits (free_addrs m) (unat sz) (unat al) (unat p) \<and>
        (\<forall>y. fits (free_addrs m) (unat sz) (unat al) y \<longrightarrow> y \<le> unat p) \<and>
        memblock_ok m' \<and> memory m' = memory m \<and> free_addrs m' = free_addrs m - {unat p..<unat p + unat sz}"
  using assms(1,2)
proof (cases rule: memblock_alloc_cases [where align = align])
  case panic
  then show ?thesis using assms(3) by fastforce
next
  case (found p m')
  have "fits (free_addrs m) (unat sz) (unat al) (unat p)"
    using highest_fit_pos [OF found(3)] found(2) assms(3) by (simp add: unat_eq_zero)
  then have "\<forall>y. fits (free_addrs m) (unat sz) (unat al) y \<longrightarrow> y \<le> unat p"
    using found(3) unfolding highest_fit_def assms(3) by metis
  then show ?thesis
    using found \<open>fits (free_addrs m) (unat sz) (unat al) (unat p)\<close> by (auto simp: free_addrs_def)
qed

theorem memblock_alloc_correct_witness:
  "memblock_ok mb_demo \<and>
   (case memblock_alloc 0x100 0x40 mb_demo of
      None \<Rightarrow> False
    | Some (p, m') \<Rightarrow> p = 0x80000F00 \<and> fits (free_addrs mb_demo) 0x100 0x40 0x80000F00 \<and> memblock_ok m')"
  using memblock_alloc_correct [OF mb_demo_ok, of "0x100" "0x40" "0x40"] mb_demo_ok mb_demo_eval(3)
  by (auto split: option.splits)

end
