(* ===== verification/C_String.thy ===== *)
theory C_String
  imports C_Buf
begin

text \<open>
  The string routines of \<^verbatim>\<open>kernel/string.c\<close>. A pointer is an index into the buffer it points into, and
  reading or writing outside the buffer has no result. A routine that returns a pointer gives \<open>None\<close> for
  \<^verbatim>\<open>NULL\<close> within that outer option. Loops that only stop at a byte of the buffer recurse on the rest of
  the buffer. Sizes are natural numbers: no size is increased.
\<close>

unbundle bit_operations_syntax

section \<open>Searching and comparing memory\<close>

fun memchr :: "u8 list \<Rightarrow> nat \<Rightarrow> u32 \<Rightarrow> nat \<Rightarrow> nat option option" where
  "memchr s p c 0 = Some None"
| "memchr s p c (Suc n) =
     (case rd s p of None \<Rightarrow> None | Some x \<Rightarrow> if ucast c = x then Some (Some p) else memchr s (p + 1) c n)"

fun memcmp :: "u8 list \<Rightarrow> nat \<Rightarrow> u8 list \<Rightarrow> nat \<Rightarrow> nat \<Rightarrow> int option" where
  "memcmp cs su1 ct su2 0 = Some 0"
| "memcmp cs su1 ct su2 (Suc count) =
     (case (rd cs su1, rd ct su2) of
        (Some a, Some b) \<Rightarrow> if uint a - uint b \<noteq> 0 then Some (uint a - uint b) else memcmp cs (su1 + 1) ct (su2 + 1) count
      | _ \<Rightarrow> None)"

function memfind :: "'a list \<Rightarrow> 'a \<Rightarrow> nat \<Rightarrow> nat \<Rightarrow> nat option" where
  "memfind s v n i =
     (if i < n then (case rd s i of None \<Rightarrow> None | Some x \<Rightarrow> if x = v then Some i else memfind s v n (i + 1)) else Some i)"
  by auto
termination
  by (relation "measure (\<lambda>(s, v, n, i). n - i)") auto

declare memfind.simps [simp del]

definition memfind64 :: "u64 list \<Rightarrow> u64 \<Rightarrow> nat \<Rightarrow> nat option" where
  "memfind64 s v n = memfind s v n 0"

definition memfind128 :: "128 word list \<Rightarrow> 128 word \<Rightarrow> nat \<Rightarrow> nat option" where
  "memfind128 s v n = memfind s v n 0"

definition memset64 :: "u64 list \<Rightarrow> u64 \<Rightarrow> nat \<Rightarrow> u64 list option" where
  "memset64 s v count = for_up 0 count (\<lambda>i s. wr s i v) s"

definition memzero_explicit :: "u8 list \<Rightarrow> nat \<Rightarrow> u8 list option" where
  "memzero_explicit s count = buf_memset s 0 count"

section \<open>Strings\<close>

function strchr :: "u8 list \<Rightarrow> nat \<Rightarrow> u32 \<Rightarrow> nat option option" where
  "strchr s p c =
     (case rd s p of
        None \<Rightarrow> None
      | Some x \<Rightarrow> if x \<noteq> ucast c then (if x = 0 then Some None else strchr s (p + 1) c) else Some (Some p))"
  by auto
termination
  by (relation "measure (\<lambda>(s, p, c). length s - p)") (auto simp: rd_def split: if_splits)

function strcmp :: "u8 list \<Rightarrow> nat \<Rightarrow> u8 list \<Rightarrow> nat \<Rightarrow> int option" where
  "strcmp cs p ct q =
     (case (rd cs p, rd ct q) of
        (Some c1, Some c2) \<Rightarrow>
          if c1 \<noteq> c2 then Some (if c1 < c2 then - 1 else 1)
          else if c1 = 0 then Some 0
          else strcmp cs (p + 1) ct (q + 1)
      | _ \<Rightarrow> None)"
  by auto
termination
  by (relation "measure (\<lambda>(cs, p, ct, q). length cs - p)") (auto simp: rd_def split: if_splits)

fun strncmp :: "u8 list \<Rightarrow> nat \<Rightarrow> u8 list \<Rightarrow> nat \<Rightarrow> nat \<Rightarrow> int option" where
  "strncmp cs p ct q 0 = Some 0"
| "strncmp cs p ct q (Suc count) =
     (case (rd cs p, rd ct q) of
        (Some c1, Some c2) \<Rightarrow>
          if c1 \<noteq> c2 then Some (if c1 < c2 then - 1 else 1)
          else if c1 = 0 then Some 0
          else strncmp cs (p + 1) ct (q + 1) count
      | _ \<Rightarrow> None)"

function strlen_loop :: "u8 list \<Rightarrow> nat \<Rightarrow> nat option" where
  "strlen_loop s sc = (case rd s sc of None \<Rightarrow> None | Some x \<Rightarrow> if x \<noteq> 0 then strlen_loop s (sc + 1) else Some sc)"
  by auto
termination
  by (relation "measure (\<lambda>(s, sc). length s - sc)") (auto simp: rd_def split: if_splits)

definition strlen :: "u8 list \<Rightarrow> nat \<Rightarrow> nat option" where
  "strlen s p = map_option (\<lambda>sc. sc - p) (strlen_loop s p)"

fun strnlen_loop :: "u8 list \<Rightarrow> nat \<Rightarrow> nat \<Rightarrow> nat option" where
  "strnlen_loop s sc 0 = Some sc"
| "strnlen_loop s sc (Suc count) =
     (case rd s sc of None \<Rightarrow> None | Some x \<Rightarrow> if x \<noteq> 0 then strnlen_loop s (sc + 1) count else Some sc)"

definition strnlen :: "u8 list \<Rightarrow> nat \<Rightarrow> nat \<Rightarrow> nat option" where
  "strnlen s p count = map_option (\<lambda>sc. sc - p) (strnlen_loop s p count)"

text \<open>The inner loop of \<^verbatim>\<open>strpbrk\<close> looks one byte up in the set of bytes.\<close>

function strpbrk_in :: "u8 \<Rightarrow> u8 list \<Rightarrow> nat \<Rightarrow> bool option" where
  "strpbrk_in x ct sc2 =
     (case rd ct sc2 of
        None \<Rightarrow> None
      | Some y \<Rightarrow> if y \<noteq> 0 then (if x = y then Some True else strpbrk_in x ct (sc2 + 1)) else Some False)"
  by auto
termination
  by (relation "measure (\<lambda>(x, ct, sc2). length ct - sc2)") (auto simp: rd_def split: if_splits)

function strpbrk :: "u8 list \<Rightarrow> nat \<Rightarrow> u8 list \<Rightarrow> nat \<Rightarrow> nat option option" where
  "strpbrk cs sc1 ct p =
     (case rd cs sc1 of
        None \<Rightarrow> None
      | Some x \<Rightarrow>
          if x \<noteq> 0 then
            (case strpbrk_in x ct p of
               None \<Rightarrow> None
             | Some True \<Rightarrow> Some (Some sc1)
             | Some False \<Rightarrow> strpbrk cs (sc1 + 1) ct p)
          else Some None)"
  by auto
termination
  by (relation "measure (\<lambda>(cs, sc1, ct, p). length cs - sc1)") (auto simp: rd_def split: if_splits)

function strrchr_loop :: "u8 list \<Rightarrow> nat \<Rightarrow> u32 \<Rightarrow> nat option \<Rightarrow> nat option option" where
  "strrchr_loop s p c found =
     (case rd s p of
        None \<Rightarrow> None
      | Some x \<Rightarrow>
          let found = (if x = ucast c then Some p else found) in
          if x \<noteq> 0 then strrchr_loop s (p + 1) c found else Some found)"
  by auto
termination
  by (relation "measure (\<lambda>(s, p, c, found). length s - p)") (auto simp: rd_def split: if_splits)

declare strchr.simps [simp del] strcmp.simps [simp del] strlen_loop.simps [simp del] strpbrk_in.simps [simp del]
  strpbrk.simps [simp del] strrchr_loop.simps [simp del]

definition strrchr :: "u8 list \<Rightarrow> nat \<Rightarrow> u32 \<Rightarrow> nat option option" where
  "strrchr s p c = strrchr_loop s p c None"

definition kbasename :: "u8 list \<Rightarrow> nat \<Rightarrow> nat option" where
  "kbasename s path = map_option (\<lambda>tail. case tail of Some t \<Rightarrow> t + 1 | None \<Rightarrow> path) (strrchr s path 0x2f)"

text \<open>\<^verbatim>\<open>strsep\<close> returns the token, the updated pointer and the buffer it terminated the token in.\<close>

definition strsep :: "u8 list \<Rightarrow> nat option \<Rightarrow> u8 list \<Rightarrow> nat \<Rightarrow> (nat option \<times> nat option \<times> u8 list) option" where
  "strsep buf s ct p =
     (case s of
        None \<Rightarrow> Some (None, None, buf)
      | Some sbegin \<Rightarrow>
          do { e \<leftarrow> strpbrk buf sbegin ct p;
               case e of
                 None \<Rightarrow> Some (Some sbegin, None, buf)
               | Some i \<Rightarrow> do { buf \<leftarrow> wr buf i 0; Some (Some sbegin, Some (i + 1), buf) } })"

function strstr_loop :: "u8 list \<Rightarrow> nat \<Rightarrow> u8 list \<Rightarrow> nat \<Rightarrow> nat \<Rightarrow> nat \<Rightarrow> nat option option" where
  "strstr_loop a s1 b s2 l1 l2 =
     (if l2 = 0 then None
      else if l2 \<le> l1 then
        (case memcmp a s1 b s2 l2 of
           None \<Rightarrow> None
         | Some r \<Rightarrow> if r = 0 then Some (Some s1) else strstr_loop a (s1 + 1) b s2 (l1 - 1) l2)
      else Some None)"
  by auto
termination
  by (relation "measure (\<lambda>(a, s1, b, s2, l1, l2). l1)") auto

declare strstr_loop.simps [simp del]

definition strstr :: "u8 list \<Rightarrow> nat \<Rightarrow> u8 list \<Rightarrow> nat \<Rightarrow> nat option option" where
  "strstr a s1 b s2 =
     do { l2 \<leftarrow> strlen b s2;
          if l2 = 0 then Some (Some s1)
          else do { l1 \<leftarrow> strlen a s1; strstr_loop a s1 b s2 l1 l2 } }"

section \<open>Words of bytes\<close>

text \<open>The highest set bit, and the zero byte tests of \<^verbatim>\<open>asm/word-at-a-time.h\<close>.\<close>

definition fls :: "u64 \<Rightarrow> nat" where
  "fls word =
     (let num = 63; w = word;
          (num, w) = (if w AND push_bit 32 (NOT 0) = 0 then (num - 32, push_bit 32 w) else (num, w));
          (num, w) = (if w AND push_bit 48 (NOT 0) = 0 then (num - 16, push_bit 16 w) else (num, w));
          (num, w) = (if w AND push_bit 56 (NOT 0) = 0 then (num - 8, push_bit 8 w) else (num, w));
          (num, w) = (if w AND push_bit 60 (NOT 0) = 0 then (num - 4, push_bit 4 w) else (num, w));
          (num, w) = (if w AND push_bit 62 (NOT 0) = 0 then (num - 2, push_bit 2 w) else (num, w))
      in if w AND push_bit 63 (NOT 0) = 0 then num - 1 else num)"

definition fls64 :: "u64 \<Rightarrow> nat" where
  "fls64 x = (if x = 0 then 0 else fls x + 1)"

definition REPEAT_BYTE :: "u64 \<Rightarrow> u64" where
  "REPEAT_BYTE x = (NOT 0 div 0xff) * x"

definition has_zero :: "u64 \<Rightarrow> u64" where
  "has_zero val = ((val - REPEAT_BYTE 0x01) AND NOT val) AND REPEAT_BYTE 0x80"

definition prep_zero_mask :: "u64 \<Rightarrow> u64 \<Rightarrow> u64" where
  "prep_zero_mask val bits = bits"

definition create_zero_mask :: "u64 \<Rightarrow> u64" where
  "create_zero_mask bits = drop_bit 7 ((bits - 1) AND NOT bits)"

definition find_zero :: "u64 \<Rightarrow> nat" where
  "find_zero m = drop_bit 3 (fls64 m)"

text \<open>Little-endian words in a byte buffer.\<close>

definition le_word :: "u8 list \<Rightarrow> u64" where
  "le_word bs = foldr (\<lambda>b w. ucast b OR push_bit 8 w) bs 0"

definition le_bytes :: "u64 \<Rightarrow> u8 list" where
  "le_bytes w = map (\<lambda>k. ucast (drop_bit (8 * k) w)) [0..<8]"

definition rd64 :: "u8 list \<Rightarrow> nat \<Rightarrow> u64 option" where
  "rd64 s i = (if i + 8 \<le> length s then Some (le_word (take 8 (drop i s))) else None)"

definition wr64 :: "u8 list \<Rightarrow> nat \<Rightarrow> u64 \<Rightarrow> u8 list option" where
  "wr64 s i w = (if i + 8 \<le> length s then Some (take i s @ le_bytes w @ drop (i + 8) s) else None)"

section \<open>Copying a string into a sized buffer\<close>

abbreviation E2BIG :: int where "E2BIG \<equiv> 7"

text \<open>The loop over words returns the length when it meets the end, otherwise where to go on.\<close>

datatype scpy = Copied nat "u8 list" | Rest nat nat "u8 list"

function scpy_words :: "u8 list \<Rightarrow> u8 list \<Rightarrow> nat \<Rightarrow> nat \<Rightarrow> nat \<Rightarrow> scpy option" where
  "scpy_words dest src res count mx =
     (if 8 \<le> mx then
        (case rd64 src res of
           None \<Rightarrow> None
         | Some c \<Rightarrow>
             if has_zero c \<noteq> 0 then
               (let data = create_zero_mask (prep_zero_mask c (has_zero c)) in
                map_option (Copied (res + find_zero data)) (wr64 dest res (c AND data)))
             else
               (case wr64 dest res c of
                  None \<Rightarrow> None
                | Some dest' \<Rightarrow> scpy_words dest' src (res + 8) (count - 8) (mx - 8)))
      else Some (Rest res count dest))"
  by auto
termination
  by (relation "measure (\<lambda>(dest, src, res, count, mx). mx)") auto

declare scpy_words.simps [simp del]

fun scpy_bytes :: "u8 list \<Rightarrow> u8 list \<Rightarrow> nat \<Rightarrow> nat \<Rightarrow> (int \<times> u8 list) option" where
  "scpy_bytes dest src res 0 =
     (if res \<noteq> 0 then map_option (Pair (- E2BIG)) (wr dest (res - 1) 0) else Some (- E2BIG, dest))"
| "scpy_bytes dest src res (Suc count) =
     (case rd src res of
        None \<Rightarrow> None
      | Some c \<Rightarrow>
          (case wr dest res c of
             None \<Rightarrow> None
           | Some dest' \<Rightarrow> if c = 0 then Some (int res, dest') else scpy_bytes dest' src (res + 1) count))"

definition strscpy :: "u64 \<Rightarrow> u8 list \<Rightarrow> u64 \<Rightarrow> u8 list \<Rightarrow> nat \<Rightarrow> (int \<times> u8 list) option" where
  "strscpy dest_addr dest src_addr src count =
     (if count = 0 then Some (- E2BIG, dest)
      else
        let mx = (if (dest_addr OR src_addr) AND 7 \<noteq> 0 then 0 else count) in
        (case scpy_words dest src 0 count mx of
           None \<Rightarrow> None
         | Some (Copied n dest') \<Rightarrow> Some (int n, dest')
         | Some (Rest res count dest') \<Rightarrow> scpy_bytes dest' src res count))"

end
