(* ===== verification/C_String_Spec.thy ===== *)
theory C_String_Spec
  imports C_String "HOL-Library.List_Lexorder" "HOL-Library.Sublist"
begin

text \<open>
  What the string routines compute. The word-wise zero test is proved on the bytes of the word; the
  routines on strings are related to list functions: lengths, first and last positions, the
  lexicographic order, the first occurrence of a substring, and the copy into a sized buffer.
\<close>

unbundle bit_operations_syntax

section \<open>Zero bytes of a word\<close>

lemma bit_u8: "8 \<le> n \<Longrightarrow> \<not> bit (b :: u8) n"
  using bit_imp_le_length [of b n] by auto

lemma le_word_simps [simp]: "le_word [] = 0" "le_word (b # bs) = ucast b OR push_bit 8 (le_word bs)"
  by (simp_all add: le_word_def)

lemma byte_or: "(ucast (x :: u8) :: u64) OR push_bit 8 w = ucast x + push_bit 8 w"
proof -
  have "(ucast x :: u64) AND push_bit 8 w = 0" by (rule bit_word_eqI) (auto simp: bit_simps bit_u8)
  then show ?thesis by (simp add: disjunctive_add_eq_or)
qed

lemma bit_le_word: "bit (le_word bs) n \<longleftrightarrow> n < 64 \<and> n div 8 < length bs \<and> bit (bs ! (n div 8)) (n mod 8)"
proof (induction bs arbitrary: n)
  case (Cons b bs)
  show ?case
  proof (cases "n < 8")
    case True
    then show ?thesis by (simp add: bit_simps)
  next
    case False
    have d: "n div 8 = Suc ((n - 8) div 8)" "n mod 8 = (n - 8) mod 8" using False by (simp_all add: le_div_geq le_mod_geq)
    have "bit (le_word (b # bs)) n \<longleftrightarrow> n < 64 \<and> bit (le_word bs) (n - 8)"
      using False bit_u8 [of n b] by (simp add: bit_or_iff bit_push_bit_iff bit_ucast_iff)
    then show ?thesis using False unfolding Cons.IH d by auto
  qed
qed simp

lemma REPEAT_BYTE_word: "REPEAT_BYTE 1 = le_word (replicate 8 1)" "REPEAT_BYTE 0x80 = le_word (replicate 8 0x80)"
  by code_simp+

text \<open>The test on the lowest \<open>n\<close> bytes.\<close>

definition zero_test :: "nat \<Rightarrow> u64 \<Rightarrow> u64" where
  "zero_test n w = ((w - le_word (replicate n 1)) AND NOT w) AND le_word (replicate n 0x80)"

lemma bit7_u8: "bit (x :: u8) 7 \<longleftrightarrow> 128 \<le> unat x"
proof -
  have "unat x < 256" using unsigned_less [of x] by simp
  then have "unat x div 128 = (if 128 \<le> unat x then 1 else 0)" by auto
  moreover have "bit x 7 \<longleftrightarrow> bit (unat x) 7" by (simp add: bit_unsigned_iff)
  ultimately show ?thesis by (simp add: bit_iff_odd)
qed

lemma high_bit_byte: "b \<noteq> 0 \<Longrightarrow> bit (b - 1 :: u8) 7 \<Longrightarrow> bit b 7"
  by (simp add: bit7_u8 unat_minus_one)

lemma unat_ucast8: "unat (ucast (b :: u8) :: u64) = unat b"
proof -
  have "unat b < 2 ^ LENGTH(8)" by (rule unsigned_less)
  then show ?thesis by (simp add: unsigned_ucast_eq take_bit_nat_eq_self)
qed

lemma ucast_dec: "b \<noteq> 0 \<Longrightarrow> (ucast (b - 1 :: u8) :: u64) = ucast b - 1"
proof -
  assume b: "b \<noteq> 0"
  then have "(ucast b :: u64) \<noteq> 0" using unat_ucast8 [of b] by (metis unat_eq_zero)
  then have "unat (ucast (b - 1) :: u64) = unat (ucast b - 1 :: u64)"
    using b by (simp add: unat_minus_one unat_ucast8)
  then show ?thesis by (simp add: word_unat_eq_iff)
qed

lemma bit_highs: "bit (le_word (replicate n 0x80)) k \<longleftrightarrow> k < 64 \<and> k div 8 < n \<and> k mod 8 = 7"
proof -
  have p: "(0x80 :: u8) = push_bit 7 1" by simp
  have b: "bit (0x80 :: u8) i \<longleftrightarrow> i = 7" for i unfolding p bit_push_bit_iff bit_1_iff by auto
  show ?thesis unfolding bit_le_word length_replicate by (cases "k div 8 < n") (simp_all only: nth_replicate b simp_thms)
qed

lemma zero_test_step:
  assumes "b \<noteq> 0"
  shows "zero_test (Suc n) (le_word (b # bs)) = push_bit 8 (zero_test n (le_word bs))"
proof -
  let ?W = "le_word bs" and ?O = "le_word (replicate n 1)"
  have "le_word (b # bs) - le_word (replicate (Suc n) 1) = (ucast b + push_bit 8 ?W) - (ucast (1 :: u8) + push_bit 8 ?O)"
    by (simp only: replicate_Suc le_word_simps byte_or)
  also have "\<dots> = ucast (b - 1) + push_bit 8 (?W - ?O)"
    by (simp add: ucast_dec [OF assms] push_bit_eq_mult algebra_simps)
  also have "\<dots> = ucast (b - 1) OR push_bit 8 (?W - ?O)" by (simp only: byte_or)
  finally have d: "le_word (b # bs) - le_word (replicate (Suc n) 1) = ucast (b - 1) OR push_bit 8 (?W - ?O)" .
  show ?thesis
  proof (rule bit_word_eqI)
    fix k assume k: "k < LENGTH(64)"
    show "bit (zero_test (Suc n) (le_word (b # bs))) k \<longleftrightarrow> bit (push_bit 8 (zero_test n ?W)) k"
    proof (cases "k < 8")
      case True
      then have "\<not> bit (zero_test (Suc n) (le_word (b # bs))) k"
        unfolding zero_test_def d bit_and_iff bit_highs
        using high_bit_byte [OF assms] k
        by (auto simp: bit_or_iff bit_not_iff bit_and_iff bit_push_bit_iff bit_ucast_iff)
      then show ?thesis using True by (simp add: bit_push_bit_iff)
    next
      case False
      then have "k div 8 = Suc ((k - 8) div 8)" "k mod 8 = (k - 8) mod 8" by (simp_all add: le_div_geq le_mod_geq)
      then show ?thesis
        unfolding zero_test_def d bit_and_iff bit_push_bit_iff bit_highs
        using bit_u8 [of k] k False by (auto simp: bit_and_iff bit_or_iff bit_not_iff bit_push_bit_iff bit_ucast_iff)
    qed
  qed
qed

lemma zero_test_zero:
  "bit (zero_test (Suc n) (le_word (0 # bs))) 7" "k < 7 \<Longrightarrow> \<not> bit (zero_test (Suc n) (le_word (0 # bs))) k"
proof -
  let ?W = "le_word bs" and ?O = "le_word (replicate n 1)"
  have "le_word (0 # bs) - le_word (replicate (Suc n) 1) = push_bit 8 ?W - (ucast (1 :: u8) + push_bit 8 ?O)"
    by (simp only: replicate_Suc le_word_simps byte_or) simp
  also have "\<dots> = NOT (push_bit 8 (?O - ?W))"
    by (simp add: push_bit_eq_mult not_eq_complement algebra_simps)
  finally have d: "le_word (0 # bs) - le_word (replicate (Suc n) 1) = NOT (push_bit 8 (?O - ?W))" .
  show "bit (zero_test (Suc n) (le_word (0 # bs))) 7"
    unfolding zero_test_def d bit_and_iff bit_highs by (simp add: bit_or_iff bit_not_iff bit_push_bit_iff bit_ucast_iff)
  show "\<not> bit (zero_test (Suc n) (le_word (0 # bs))) k" if "k < 7"
    using that unfolding zero_test_def bit_and_iff bit_highs by simp
qed

lemma zero_test_prefix:
  "0 \<notin> set xs \<Longrightarrow> zero_test (length xs + n) (le_word (xs @ ys)) = push_bit (8 * length xs) (zero_test n (le_word ys))"
proof (induction xs)
  case (Cons x xs)
  then have "zero_test (length (x # xs) + n) (le_word ((x # xs) @ ys)) = push_bit 8 (push_bit (8 * length xs) (zero_test n (le_word ys)))"
    using zero_test_step [of x "length xs + n" "xs @ ys"] by (simp del: le_word_simps)
  then show ?case by (simp del: le_word_simps add: algebra_simps)
qed simp

lemma has_zero_test: "has_zero w = zero_test 8 w"
  by (simp only: has_zero_def zero_test_def REPEAT_BYTE_word)

lemma has_zero_none:
  assumes "length bs = 8" "0 \<notin> set bs"
  shows "has_zero (le_word bs) = 0"
  using zero_test_prefix [of bs 0 "[]"] assms by (simp add: has_zero_test zero_test_def)

lemma lowest_bit_mask:
  fixes m :: u64
  assumes "bit m j" "\<And>k. k < j \<Longrightarrow> \<not> bit m k"
  shows "(m - 1) AND NOT m = mask j"
proof -
  have m: "m = push_bit j (drop_bit j m)"
  proof (rule bit_word_eqI)
    fix n assume "n < LENGTH(64)"
    then show "bit m n \<longleftrightarrow> bit (push_bit j (drop_bit j m)) n"
      using assms(2) [of n] by (cases "n < j") (simp_all add: bit_push_bit_iff bit_drop_bit_eq)
  qed
  have "odd (drop_bit j m)" using assms(1) by (simp add: bit_iff_odd_drop_bit)
  then obtain w where w: "drop_bit j m = 1 + 2 * w" by (metis add.commute oddE)
  have ev: "\<not> bit (w * 2) 0" by (simp add: bit_0)
  have mw: "m = push_bit j (1 + 2 * w)" by (subst m) (simp only: w)
  have "m - 1 = push_bit (Suc j) w + mask j"
    unfolding mw by (simp add: push_bit_eq_mult mask_eq_exp_minus_1 algebra_simps)
  also have "\<dots> = push_bit (Suc j) w OR mask j"
    by (rule disjunctive_add_eq_or, rule bit_word_eqI) (auto simp: bit_simps ev)
  finally have d: "m - 1 = push_bit (Suc j) w OR mask j" .
  have "m = push_bit (Suc j) w OR push_bit j 1"
  proof -
    have "m = push_bit (Suc j) w + push_bit j 1" unfolding mw by (simp add: push_bit_eq_mult algebra_simps)
    also have "\<dots> = push_bit (Suc j) w OR push_bit j 1"
      by (rule disjunctive_add_eq_or, rule bit_word_eqI) (auto simp: bit_simps ev)
    finally show ?thesis .
  qed
  then show ?thesis using d by (intro bit_word_eqI) (auto simp: bit_simps ev)
qed

lemma has_zero_first:
  assumes "length xs + length ys = 7" "0 \<notin> set xs"
  shows "has_zero (le_word (xs @ 0 # ys)) \<noteq> 0"
    "create_zero_mask (has_zero (le_word (xs @ 0 # ys))) = mask (8 * length xs)"
proof -
  let ?z = "has_zero (le_word (xs @ 0 # ys))" and ?j = "8 * length xs + 7"
  have z: "?z = push_bit (8 * length xs) (zero_test (Suc (length ys)) (le_word (0 # ys)))"
    using zero_test_prefix [of xs "Suc (length ys)" "0 # ys"] assms by (simp add: has_zero_test del: le_word_simps)
  have b: "bit ?z ?j" unfolding z using assms(1) zero_test_zero(1) by (simp add: bit_push_bit_iff del: le_word_simps)
  then show "?z \<noteq> 0" by auto
  have l: "\<not> bit ?z k" if "k < ?j" for k
    unfolding z using that zero_test_zero(2) [of "k - 8 * length xs"] by (simp add: bit_push_bit_iff del: le_word_simps)
  have "(?z - 1) AND NOT ?z = mask ?j" by (rule lowest_bit_mask [OF b l])
  then have "create_zero_mask ?z = drop_bit 7 (mask ?j)" by (simp only: create_zero_mask_def)
  then show "create_zero_mask ?z = mask (8 * length xs)"
    using assms(1) by (simp only:) (intro bit_word_eqI, auto simp: bit_simps)
qed

lemma find_zero_mask: "k < 8 \<Longrightarrow> find_zero (mask (8 * k)) = k"
proof -
  assume "k < 8"
  have "find_zero (mask (8 * 0)) = 0" "find_zero (mask (8 * 1)) = 1" "find_zero (mask (8 * 2)) = 2"
    "find_zero (mask (8 * 3)) = 3" "find_zero (mask (8 * 4)) = 4" "find_zero (mask (8 * 5)) = 5"
    "find_zero (mask (8 * 6)) = 6" "find_zero (mask (8 * 7)) = 7"
    by (simp_all add: find_zero_def fls64_def fls_def mask_numeral Let_def)
  moreover have "k = 0 \<or> k = 1 \<or> k = 2 \<or> k = 3 \<or> k = 4 \<or> k = 5 \<or> k = 6 \<or> k = 7" using \<open>k < 8\<close> by linarith
  ultimately show ?thesis by metis
qed

lemma le_bytes_word: "length bs = 8 \<Longrightarrow> le_bytes (le_word bs) = bs"
proof (rule nth_equalityI)
  fix i assume l: "length bs = 8" "i < length (le_bytes (le_word bs))"
  then have i: "i < 8" by (simp add: le_bytes_def)
  show "le_bytes (le_word bs) ! i = bs ! i"
  proof (rule bit_word_eqI)
    fix k assume "k < LENGTH(8)"
    then show "bit (le_bytes (le_word bs) ! i) k \<longleftrightarrow> bit (bs ! i) k"
      using i l by (simp add: le_bytes_def bit_ucast_iff bit_drop_bit_eq bit_le_word)
  qed
qed (simp add: le_bytes_def)

lemma le_bytes_mask:
  assumes "length bs = 8" "k \<le> 8"
  shows "le_bytes (le_word bs AND mask (8 * k)) = take k bs @ replicate (8 - k) 0"
proof (rule nth_equalityI)
  fix i assume "i < length (le_bytes (le_word bs AND mask (8 * k)))"
  then have i: "i < 8" by (simp add: le_bytes_def)
  show "le_bytes (le_word bs AND mask (8 * k)) ! i = (take k bs @ replicate (8 - k) 0) ! i"
  proof (rule bit_word_eqI)
    fix j assume "j < LENGTH(8)"
    then show "bit (le_bytes (le_word bs AND mask (8 * k)) ! i) j \<longleftrightarrow> bit ((take k bs @ replicate (8 - k) 0) ! i) j"
      using i assms by (auto simp: le_bytes_def bit_ucast_iff bit_drop_bit_eq bit_le_word bit_and_iff bit_mask_iff nth_append)
  qed
qed (use assms in \<open>simp add: le_bytes_def\<close>)

section \<open>Strings in a buffer\<close>

text \<open>\<open>cstr s p xs\<close>: the bytes \<open>xs\<close>, none of them zero, and a terminating zero byte stand at \<open>p\<close>.\<close>

definition cstr :: "u8 list \<Rightarrow> nat \<Rightarrow> u8 list \<Rightarrow> bool" where
  "cstr s p xs = (take (length xs + 1) (drop p s) = xs @ [0] \<and> 0 \<notin> set xs)"

lemma drop_rd: "drop p s = (case rd s p of None \<Rightarrow> [] | Some x \<Rightarrow> x # drop (Suc p) s)"
  by (simp add: rd_def Cons_nth_drop_Suc)

lemma cstr_Nil [simp]: "cstr s p [] \<longleftrightarrow> rd s p = Some 0"
  by (subst cstr_def, subst drop_rd) (auto split: option.split)

lemma cstr_Cons [simp]: "cstr s p (x # xs) \<longleftrightarrow> rd s p = Some x \<and> x \<noteq> 0 \<and> cstr s (Suc p) xs"
  unfolding cstr_def by (subst drop_rd) (auto split: option.split)

lemma cstr_length: "cstr s p xs \<Longrightarrow> p + length xs < length s"
  by (induction xs arbitrary: p) (fastforce simp: rd_def split: if_splits)+

lemma cstr_nth: "cstr s p xs \<Longrightarrow> i < length xs \<Longrightarrow> s ! (p + i) = xs ! i"
proof -
  assume a: "cstr s p xs" "i < length xs"
  then have "take (length xs) (take (length xs + 1) (drop p s)) = xs" by (simp add: cstr_def)
  then have "take (length xs) (drop p s) = xs" by simp
  then have "take (length xs) (drop p s) ! i = xs ! i" by simp
  then show ?thesis using a cstr_length [OF a(1)] by simp
qed

lemma cstr_drop: "cstr s p xs \<Longrightarrow> i \<le> length xs \<Longrightarrow> cstr s (p + i) (drop i xs)"
proof (induction i arbitrary: p xs)
  case (Suc i)
  then show ?case using Suc.IH [of "Suc p" "tl xs"] by (cases xs) simp_all
qed simp

lemma strlen_eq: "cstr s p xs \<Longrightarrow> strlen s p = Some (length xs)"
proof -
  have "cstr s p xs \<Longrightarrow> strlen_loop s p = Some (p + length xs)"
    by (induction xs arbitrary: p) (auto simp: strlen_loop.simps [of s p for p])
  then show "cstr s p xs \<Longrightarrow> strlen s p = Some (length xs)" by (simp add: strlen_def)
qed

lemma strnlen_eq: "cstr s p xs \<Longrightarrow> strnlen s p n = Some (min n (length xs))"
proof -
  have "cstr s p xs \<Longrightarrow> strnlen_loop s p n = Some (p + min n (length xs))"
  proof (induction xs arbitrary: p n)
    case Nil
    then show ?case by (cases n) simp_all
  next
    case (Cons x xs)
    then show ?case by (cases n) simp_all
  qed
  then show "cstr s p xs \<Longrightarrow> strnlen s p n = Some (min n (length xs))" by (simp add: strnlen_def)
qed

definition index_of :: "('a \<Rightarrow> bool) \<Rightarrow> 'a list \<Rightarrow> nat option" where
  "index_of P xs = (if \<exists>x \<in> set xs. P x then Some (length (takeWhile (\<lambda>x. \<not> P x) xs)) else None)"

lemma index_of_simps [simp]:
  "index_of P [] = None"
  "index_of P (x # xs) = (if P x then Some 0 else map_option Suc (index_of P xs))"
  by (auto simp: index_of_def)

lemma map_option_Suc: "map_option ((+) (Suc p)) r = map_option (\<lambda>i. Suc (p + i)) r"
  by (cases r) simp_all

lemma strchr_eq: "cstr s p xs \<Longrightarrow> strchr s p c = Some (map_option (\<lambda>i. p + i) (index_of ((=) (ucast c)) (xs @ [0])))"
proof (induction xs arbitrary: p)
  case Nil
  then show ?case by (subst strchr.simps) auto
next
  case (Cons x xs)
  then show ?case by (subst strchr.simps) (auto simp: option.map_comp comp_def map_option_Suc)
qed

lemma strpbrk_in_eq: "cstr ct q ys \<Longrightarrow> strpbrk_in x ct q = Some (x \<in> set ys)"
proof (induction ys arbitrary: q)
  case Nil
  then show ?case by (subst strpbrk_in.simps) auto
next
  case (Cons y ys)
  then show ?case by (subst strpbrk_in.simps) auto
qed

lemma strpbrk_eq:
  "cstr cs p xs \<Longrightarrow> cstr ct q ys \<Longrightarrow> strpbrk cs p ct q = Some (map_option (\<lambda>i. p + i) (index_of (\<lambda>x. x \<in> set ys) xs))"
proof (induction xs arbitrary: p)
  case Nil
  then show ?case by (subst strpbrk.simps) auto
next
  case (Cons x xs)
  then show ?case by (subst strpbrk.simps) (auto simp: strpbrk_in_eq option.map_comp comp_def map_option_Suc)
qed

fun last_index_of :: "('a \<Rightarrow> bool) \<Rightarrow> 'a list \<Rightarrow> nat option" where
  "last_index_of P [] = None"
| "last_index_of P (x # xs) =
     (case last_index_of P xs of Some i \<Rightarrow> Some (Suc i) | None \<Rightarrow> if P x then Some 0 else None)"

lemma strrchr_loop_eq:
  "cstr s p xs \<Longrightarrow> strrchr_loop s p c found =
    Some (case last_index_of ((=) (ucast c)) (xs @ [0]) of Some i \<Rightarrow> Some (p + i) | None \<Rightarrow> found)"
proof (induction xs arbitrary: p found)
  case Nil
  then show ?case by (subst strrchr_loop.simps) auto
next
  case (Cons x xs)
  then show ?case by (subst strrchr_loop.simps) (auto simp: Let_def split: option.split)
qed

lemma strrchr_eq: "cstr s p xs \<Longrightarrow> strrchr s p c = Some (map_option (\<lambda>i. p + i) (last_index_of ((=) (ucast c)) (xs @ [0])))"
  by (simp add: strrchr_def strrchr_loop_eq split: option.split)

text \<open>Comparison is the lexicographic order of the strings.\<close>

definition order_int :: "'a::linorder \<Rightarrow> 'a \<Rightarrow> int" where
  "order_int x y = (if x < y then - 1 else if x = y then 0 else 1)"

lemma order_int_Cons [simp]:
  "order_int [] [] = 0" "order_int [] (y # ys) = - 1" "order_int (x # xs) [] = 1"
  "order_int (x # xs) (y # ys) = (if x = y then order_int xs ys else if x < y then - 1 else 1)"
  by (auto simp: order_int_def)

lemma strcmp_eq: "cstr cs p xs \<Longrightarrow> cstr ct q ys \<Longrightarrow> strcmp cs p ct q = Some (order_int xs ys)"
proof (induction xs arbitrary: p q ys)
  case Nil
  then show ?case by (cases ys) (subst strcmp.simps, auto simp: word_gt_0)+
next
  case (Cons x xs)
  then show ?case by (cases ys) (subst strcmp.simps, auto simp: word_gt_0)+
qed

lemma strncmp_eq:
  "cstr cs p xs \<Longrightarrow> cstr ct q ys \<Longrightarrow> strncmp cs p ct q n = Some (order_int (take n xs) (take n ys))"
proof (induction n arbitrary: p q xs ys)
  case (Suc n)
  then show ?case by (cases xs; cases ys) (auto simp: word_gt_0)
qed simp

lemma memcmp_zero:
  assumes "p + n \<le> length a" "q + n \<le> length b"
  shows "\<exists>r. memcmp a p b q n = Some r \<and> (r = 0 \<longleftrightarrow> take n (drop p a) = take n (drop q b))"
  using assms
proof (induction n arbitrary: p q)
  case (Suc n)
  have "drop p a = a ! p # drop (Suc p) a" "drop q b = b ! q # drop (Suc q) b"
    using Suc.prems by (simp_all add: Cons_nth_drop_Suc)
  then show ?case using Suc by (auto simp: word_uint_eq_iff)
qed simp

text \<open>The first position where the pattern is a prefix of the rest.\<close>

fun sub_index :: "'a list \<Rightarrow> 'a list \<Rightarrow> nat option" where
  "sub_index ys [] = (if ys = [] then Some 0 else None)"
| "sub_index ys (x # xs) = (if prefix ys (x # xs) then Some 0 else map_option Suc (sub_index ys xs))"

lemma sub_index_short: "length xs < length ys \<Longrightarrow> sub_index ys xs = None"
proof (induction xs)
  case (Cons x xs)
  then show ?case using prefix_length_le [of ys "x # xs"] by auto
qed auto

lemma cstr_prefix:
  assumes "cstr a p xs" "cstr b q ys" "length ys \<le> length xs"
  shows "take (length ys) (drop p a) = take (length ys) (drop q b) \<longleftrightarrow> prefix ys xs"
proof -
  have t: "take (length zs) (drop r s) = zs" if "cstr s r zs" for s r zs
  proof -
    from that have "take (length zs) (take (length zs + 1) (drop r s)) = take (length zs) (zs @ [0])" by (simp add: cstr_def)
    then show ?thesis by simp
  qed
  have "take (length ys) (drop p a) = take (length ys) (take (length xs) (drop p a))" using assms(3) by (simp add: min_absorb1)
  then have "take (length ys) (drop p a) = take (length ys) xs" by (simp only: t [OF assms(1)])
  then show ?thesis using t [OF assms(2)] by (metis prefix_def append_eq_conv_conj)
qed

lemma strstr_loop_eq:
  assumes "cstr b q ys" "ys \<noteq> []"
  shows "cstr a p xs \<Longrightarrow> strstr_loop a p b q (length xs) (length ys) = Some (map_option (\<lambda>i. p + i) (sub_index ys xs))"
proof (induction xs arbitrary: p)
  case Nil
  then show ?case using assms(2) by (subst strstr_loop.simps) simp
next
  case (Cons x xs)
  show ?case
  proof (cases "length ys \<le> length (x # xs)")
    case True
    have "p + length ys \<le> length a" "q + length ys \<le> length b"
      using cstr_length [OF Cons.prems] cstr_length [OF assms(1)] True by simp_all
    then obtain r where r: "memcmp a p b q (length ys) = Some r" "r = 0 \<longleftrightarrow> prefix ys (x # xs)"
      using memcmp_zero cstr_prefix [OF Cons.prems assms(1) True] by metis
    have "strstr_loop a p b q (length (x # xs)) (length ys) =
        (if r = 0 then Some (Some p) else strstr_loop a (Suc p) b q (length xs) (length ys))"
      using True assms(2) r(1) by (subst strstr_loop.simps) simp
    then show ?thesis using r(2) Cons.IH [of "Suc p"] Cons.prems by (simp add: option.map_comp comp_def map_option_Suc)
  next
    case False
    then show ?thesis using assms(2) sub_index_short [of "x # xs" ys] by (subst strstr_loop.simps) simp
  qed
qed

lemma strstr_eq:
  assumes "cstr a p xs" "cstr b q ys"
  shows "strstr a p b q = Some (map_option (\<lambda>i. p + i) (sub_index ys xs))"
proof (cases "ys = []")
  case True
  then have "sub_index ys xs = Some 0" by (cases xs) simp_all
  then show ?thesis using True assms strlen_eq [OF assms(2)] by (simp add: strstr_def)
next
  case False
  then show ?thesis
    using strstr_loop_eq [OF assms(2) False assms(1)] strlen_eq [OF assms(1)] strlen_eq [OF assms(2)] by (simp add: strstr_def)
qed

section \<open>Copying\<close>

lemma wr64_overwrite: "r + 8 \<le> length d \<Longrightarrow> wr64 d r w = Some (overwrite d r (le_bytes w))"
  by (simp add: wr64_def overwrite_def le_bytes_def)

lemma rd64_Some: "r + 8 \<le> length s \<Longrightarrow> rd64 s r = Some (le_word (take 8 (drop r s)))"
  by (simp add: rd64_def)

lemma cstr_drop_eq: "cstr s p xs \<Longrightarrow> drop p s = xs @ 0 # drop (p + length xs + 1) s"
proof (induction xs arbitrary: p)
  case Nil
  then show ?case by (subst drop_rd) simp
next
  case (Cons x xs)
  then show ?case by (subst drop_rd) simp
qed

lemma scpy_words_fit:
  assumes "cstr src res xs" "8 * (length xs div 8 + 1) \<le> mx" "res + mx \<le> length dest"
    "res + 8 * (length xs div 8 + 1) \<le> length src"
  shows "scpy_words dest src res cnt mx =
    Some (Copied (res + length xs) (overwrite dest res (xs @ replicate (8 * (length xs div 8 + 1) - length xs) 0)))"
  using assms
proof (induction mx arbitrary: dest res xs cnt rule: less_induct)
  case (less mx)
  let ?bs = "take 8 (drop res src)"
  have len: "length ?bs = 8" using less.prems(4) by simp
  have r: "rd64 src res = Some (le_word ?bs)" using less.prems(4) by (intro rd64_Some) simp
  have d8: "res + 8 \<le> length dest" "8 \<le> mx" using less.prems(2,3) by simp_all
  show ?case
  proof (cases "length xs < 8")
    case True
    define ys where "ys = take (7 - length xs) (drop (res + length xs + 1) src)"
    have bs: "?bs = xs @ 0 # ys" using True cstr_drop_eq [OF less.prems(1)] by (simp add: ys_def take_Cons')
    then have l: "length xs + length ys = 7" using len by simp
    have z: "0 \<notin> set xs" using less.prems(1) by (simp add: cstr_def)
    note hz = has_zero_first [OF l z, folded bs]
    have "le_bytes (le_word ?bs AND mask (8 * length xs)) = xs @ replicate (8 - length xs) 0"
      using le_bytes_mask [OF len, of "length xs"] True bs by simp
    then show ?thesis
      using r d8 hz True
      by (subst scpy_words.simps) (simp add: Let_def prep_zero_mask_def wr64_overwrite find_zero_mask)
  next
    case False
    have e: "length xs div 8 = Suc (length (drop 8 xs) div 8)" using False by (simp add: le_div_geq)
    have bs: "?bs = take 8 xs" using False cstr_drop_eq [OF less.prems(1)] by simp
    have z: "0 \<notin> set ?bs" using less.prems(1) set_take_subset [of 8 xs] unfolding bs by (auto simp: cstr_def)
    note hz = has_zero_none [OF len z]
    have "scpy_words dest src res cnt mx = scpy_words (overwrite dest res ?bs) src (res + 8) (cnt - 8) (mx - 8)"
      using r d8 hz by (subst scpy_words.simps) (simp add: wr64_overwrite le_bytes_word [OF len])
    also have "\<dots> = Some (Copied (res + 8 + length (drop 8 xs))
        (overwrite (overwrite dest res ?bs) (res + 8) (drop 8 xs @ replicate (8 * (length (drop 8 xs) div 8 + 1) - length (drop 8 xs)) 0)))"
      by (rule less.IH) (use False less.prems e d8 len cstr_drop [OF less.prems(1), of 8] in \<open>auto simp: le_diff_conv2\<close>)
    also have "\<dots> = Some (Copied (res + length xs) (overwrite dest res (xs @ replicate (8 * (length xs div 8 + 1) - length xs) 0)))"
      using overwrite_overwrite [of res ?bs dest] d8(1) len False e bs
      by (simp add: append_assoc [symmetric] del: append_assoc)
    finally show ?thesis .
  qed
qed

lemma scpy_words_rest:
  assumes "0 \<notin> set (take (8 * (mx div 8)) (drop res src))" "res + 8 * (mx div 8) \<le> length src" "res + mx \<le> length dest"
  shows "scpy_words dest src res cnt mx =
    Some (Rest (res + 8 * (mx div 8)) (cnt - 8 * (mx div 8)) (overwrite dest res (take (8 * (mx div 8)) (drop res src))))"
  using assms
proof (induction mx arbitrary: dest res cnt rule: less_induct)
  case (less mx)
  show ?case
  proof (cases "8 \<le> mx")
    case False
    then show ?thesis by (subst scpy_words.simps) simp
  next
    case True
    let ?bs = "take 8 (drop res src)" and ?k = "8 * ((mx - 8) div 8)"
    have k: "8 * (mx div 8) = 8 + ?k" using True by (simp add: le_div_geq)
    have len: "length ?bs = 8" using less.prems(2) k by simp
    have t: "take (8 + ?k) (drop res src) = ?bs @ take ?k (drop (res + 8) src)"
      by (simp add: take_add add.commute)
    have z: "0 \<notin> set ?bs" "0 \<notin> set (take ?k (drop (res + 8) src))" using less.prems(1) unfolding k t by auto
    have r: "rd64 src res = Some (le_word ?bs)" using less.prems(2) k by (intro rd64_Some) simp
    have "scpy_words dest src res cnt mx = scpy_words (overwrite dest res ?bs) src (res + 8) (cnt - 8) (mx - 8)"
      using r True less.prems(3) has_zero_none [OF len z(1)]
      by (subst scpy_words.simps) (simp add: wr64_overwrite le_bytes_word [OF len])
    also have "\<dots> = Some (Rest (res + 8 + ?k) (cnt - 8 - ?k) (overwrite (overwrite dest res ?bs) (res + 8) (take ?k (drop (res + 8) src))))"
      by (rule less.IH) (use True less.prems k z len in simp_all)
    finally show ?thesis using overwrite_overwrite [of res ?bs dest] len less.prems(3) True unfolding k t by simp
  qed
qed

lemma scpy_bytes_fit:
  "cstr src res xs \<Longrightarrow> length xs < count \<Longrightarrow> res + count \<le> length dest \<Longrightarrow>
    scpy_bytes dest src res count = Some (int (res + length xs), overwrite dest res (xs @ [0]))"
proof (induction count arbitrary: res xs dest)
  case (Suc count)
  show ?case
  proof (cases xs)
    case Nil
    then show ?thesis using Suc.prems by (simp add: upd_overwrite)
  next
    case (Cons x ys)
    then show ?thesis
      using Suc.prems Suc.IH [of "Suc res" ys "overwrite dest res [x]"] overwrite_overwrite [of res "[x]" dest] by (simp add: upd_overwrite)
  qed
qed simp

lemma scpy_bytes_full:
  "0 \<notin> set (take count (drop res src)) \<Longrightarrow> res + count \<le> length src \<Longrightarrow> res + count \<le> length dest \<Longrightarrow> 0 < res + count \<Longrightarrow>
    scpy_bytes dest src res count = Some (- E2BIG, (overwrite dest res (take count (drop res src)))[res + count - 1 := 0])"
proof (induction count arbitrary: res dest)
  case (Suc count)
  have t: "take (Suc count) (drop res src) = src ! res # take count (drop (Suc res) src)"
    using Suc.prems(2) by (simp add: Cons_nth_drop_Suc [symmetric])
  then have "src ! res \<noteq> 0" "0 \<notin> set (take count (drop (Suc res) src))" using Suc.prems(1) by auto
  then show ?case
    using Suc.prems Suc.IH [of "Suc res" "overwrite dest res [src ! res]"] overwrite_overwrite [of res "[src ! res]" dest]
    unfolding t by (simp add: upd_overwrite)
qed simp

text \<open>
  A string that fits is copied with its terminator; the bytes between the terminator and the end of
  its word may be cleared, nothing beyond the given size is written.
\<close>

lemma strscpy_fit:
  assumes "cstr src 0 xs" "length xs < count" "count \<le> length dest"
    "(da OR sa) AND 7 = 0 \<Longrightarrow> min count (8 * (length xs div 8 + 1)) \<le> length src"
  shows "\<exists>k. strscpy da dest sa src count = Some (int (length xs), overwrite dest 0 (xs @ replicate (Suc k) 0)) \<and>
    length xs + Suc k \<le> count"
proof (cases "(da OR sa) AND 7 = 0 \<and> 8 * (length xs div 8 + 1) \<le> count")
  case True
  have w: "scpy_words dest src 0 count count =
      Some (Copied (length xs) (overwrite dest 0 (xs @ replicate (8 * (length xs div 8 + 1) - length xs) 0)))"
    using scpy_words_fit [OF assms(1), of count dest count] True assms(3,4) by (simp add: min_absorb2)
  obtain k where k: "8 * (length xs div 8 + 1) - length xs = Suc k"
    using mult_div_mod_eq [of 8 "length xs"] by (metis Suc_diff_Suc add.commute distrib_left dividend_less_div_times mult.commute mult_numeral_1_right nat_mult_1_right numeral_One zero_less_numeral)
  show ?thesis using w True assms(2) k by (intro exI [of _ k]) (auto simp: strscpy_def)
next
  case False
  define mx where "mx = (if (da OR sa) AND 7 \<noteq> 0 then 0 else count)"
  define m where "m = 8 * (mx div 8)"
  have mxs: "m \<le> length xs"
  proof (cases "(da OR sa) AND 7 = 0")
    case True
    then have "count div 8 \<le> length xs div 8" using False by auto
    then have "8 * (count div 8) \<le> 8 * (length xs div 8)" by simp
    also have "\<dots> \<le> length xs" by simp
    finally show ?thesis using True by (simp add: m_def mx_def)
  qed (simp add: m_def mx_def)
  have le: "mx \<le> count" "m \<le> mx" by (simp_all add: m_def mx_def)
  have d: "take m (drop 0 src) = take m xs" using arg_cong [OF cstr_drop_eq [OF assms(1)], of "take m"] mxs by simp
  have "scpy_words dest src 0 count mx = Some (Rest (0 + m) (count - m) (overwrite dest 0 (take m (drop 0 src))))"
    unfolding m_def
  proof (rule scpy_words_rest)
    show "0 \<notin> set (take (8 * (mx div 8)) (drop 0 src))"
      using assms(1) set_take_subset [of m xs] unfolding m_def [symmetric] d by (auto simp: cstr_def)
    show "0 + 8 * (mx div 8) \<le> length src" using cstr_length [OF assms(1)] mxs by (simp add: m_def)
  qed (use le assms(3) in simp)
  then have w: "scpy_words dest src 0 count mx = Some (Rest m (count - m) (overwrite dest 0 (take m xs)))" by (simp add: d [simplified])
  have "scpy_bytes (overwrite dest 0 (take m xs)) src m (count - m) =
      Some (int (m + length (drop m xs)), overwrite (overwrite dest 0 (take m xs)) m (drop m xs @ [0]))"
    by (rule scpy_bytes_fit) (use cstr_drop [OF assms(1) mxs] assms(2,3) mxs le in auto)
  moreover have "overwrite (overwrite dest 0 (take m xs)) m (drop m xs @ [0]) = overwrite dest 0 (xs @ [0])"
    using overwrite_overwrite [of 0 "take m xs" dest "drop m xs @ [0]"] assms(2,3) mxs le
    by (simp add: append_assoc [symmetric] del: append_assoc)
  ultimately show ?thesis using w mxs assms(2) by (intro exI [of _ 0]) (simp add: strscpy_def mx_def Let_def)
qed

lemma strscpy_full:
  assumes "0 \<notin> set (take count src)" "0 < count" "count \<le> length src" "count \<le> length dest"
  shows "strscpy da dest sa src count = Some (- E2BIG, overwrite dest 0 (take (count - 1) src @ [0]))"
proof -
  define mx where "mx = (if (da OR sa) AND 7 \<noteq> 0 then 0 else count)"
  define m where "m = 8 * (mx div 8)"
  have le: "mx \<le> count" "m \<le> mx" by (simp_all add: m_def mx_def)
  have z: "0 \<notin> set (take m src)" "0 \<notin> set (take (count - m) (drop m src))"
    using assms(1) le set_take_subset_set_take [of m count src] in_set_takeD
    by (auto simp: take_drop dest!: in_set_dropD)
  have "scpy_words dest src 0 count mx = Some (Rest (0 + m) (count - m) (overwrite dest 0 (take m (drop 0 src))))"
    unfolding m_def by (rule scpy_words_rest) (use z le assms(3,4) in \<open>simp_all add: m_def [symmetric]\<close>)
  then have w: "scpy_words dest src 0 count mx = Some (Rest m (count - m) (overwrite dest 0 (take m src)))" by simp
  have t: "take m src @ take (count - m) (drop m src) = take count src"
    using le take_add [of m "count - m" src] by simp
  have b: "scpy_bytes (overwrite dest 0 (take m src)) src m (count - m) =
      Some (- E2BIG, (overwrite (overwrite dest 0 (take m src)) m (take (count - m) (drop m src)))[m + (count - m) - 1 := 0])"
    by (rule scpy_bytes_full) (use z assms le in auto)
  have o: "overwrite (overwrite dest 0 (take m src)) m (take (count - m) (drop m src)) = overwrite dest 0 (take count src)"
    using overwrite_overwrite [of 0 "take m src" dest] assms(3,4) le t by (simp add: min_absorb2)
  have "m + (count - m) - 1 = count - 1" using le by simp
  then have "(overwrite (overwrite dest 0 (take m src)) m (take (count - m) (drop m src)))[m + (count - m) - 1 := 0] =
      (overwrite dest 0 (take count src))[count - 1 := 0]" by (simp only: o)
  also have "\<dots> = overwrite dest 0 ((take count src)[count - 1 := 0])"
    using assms by (simp add: overwrite_def list_update_append)
  also have "(take count src)[count - 1 := 0] = take (count - 1) src @ [0]"
    using assms(2,3) by (simp add: upd_conv_take_nth_drop min_absorb2 min_absorb1)
  finally show ?thesis using w b assms(2) by (simp add: strscpy_def mx_def Let_def)
qed

section \<open>Tokens\<close>

lemma cstr_upd_other: "cstr s p xs \<Longrightarrow> i < p \<Longrightarrow> cstr (s[i := v]) p xs"
  by (simp add: cstr_def drop_update_cancel)

lemma cstr_cut: "cstr s p xs \<Longrightarrow> i \<le> length xs \<Longrightarrow> cstr (s[p + i := 0]) p (take i xs)"
proof (induction i arbitrary: p xs)
  case 0
  then show ?case using cstr_length [of s p xs] by simp
next
  case (Suc i)
  then obtain x ys where xs: "xs = x # ys" by (cases xs) auto
  have "p < length s" "s ! p = x" using Suc.prems xs by (auto simp: rd_def split: if_splits)
  then show ?case using Suc.prems Suc.IH [of "Suc p" ys] xs by simp
qed

lemma index_of_Some: "index_of P xs = Some i \<Longrightarrow> i < length xs \<and> P (xs ! i) \<and> (\<forall>j < i. \<not> P (xs ! j))"
proof (induction xs arbitrary: i)
  case (Cons x xs)
  then show ?case by (cases i) (auto simp: less_Suc_eq_0_disj split: if_splits)
qed simp

text \<open>A token ends at the first delimiter; what follows it is the string for the next call.\<close>

lemma strsep_token:
  assumes "cstr buf p xs" "cstr ct q ys" "index_of (\<lambda>x. x \<in> set ys) xs = Some i"
  shows "strsep buf (Some p) ct q = Some (Some p, Some (p + i + 1), buf[p + i := 0])"
    "cstr (buf[p + i := 0]) p (take i xs)" "cstr (buf[p + i := 0]) (p + i + 1) (drop (i + 1) xs)"
proof -
  have i: "i < length xs" using index_of_Some [OF assms(3)] by simp
  show "strsep buf (Some p) ct q = Some (Some p, Some (p + i + 1), buf[p + i := 0])"
    using strpbrk_eq [OF assms(1,2)] assms(3) cstr_length [OF assms(1)] i by (simp add: strsep_def)
  show "cstr (buf[p + i := 0]) p (take i xs)" using cstr_cut assms(1) i by simp
  have "cstr buf (p + (i + 1)) (drop (i + 1) xs)" by (rule cstr_drop [OF assms(1)]) (use i in simp)
  then show "cstr (buf[p + i := 0]) (p + i + 1) (drop (i + 1) xs)" using cstr_upd_other [of buf "p + i + 1" _ "p + i"] by simp
qed

lemma strsep_last:
  assumes "cstr buf p xs" "cstr ct q ys" "index_of (\<lambda>x. x \<in> set ys) xs = None"
  shows "strsep buf (Some p) ct q = Some (Some p, None, buf)"
  using strpbrk_eq [OF assms(1,2)] assms(3) by (simp add: strsep_def)

section \<open>The copy as a whole\<close>

text \<open>\<^verbatim>\<open>strscpy\<close> copies a string that fits with its terminator and returns its length, and otherwise stores as much
  as fits, terminated, and returns \<^verbatim>\<open>-E2BIG\<close>; it does so word by word or byte by byte with the same result,
  never writes beyond the given size, and reads no byte beyond the size or the word of the terminator.\<close>

theorem strscpy_correct:
  assumes "cstr src 0 xs" "count \<le> length dest"
    "(da OR sa) AND 7 = 0 \<Longrightarrow> min count (8 * (length xs div 8 + 1)) \<le> length src"
  shows "if count = 0 then strscpy da dest sa src count = Some (- E2BIG, dest)
    else if count \<le> length xs then
      strscpy da dest sa src count = Some (- E2BIG, overwrite dest 0 (take (count - 1) xs @ [0]))
    else \<exists>k. strscpy da dest sa src count = Some (int (length xs), overwrite dest 0 (xs @ replicate (Suc k) 0)) \<and>
           length xs + Suc k \<le> count"
proof -
  have s: "src = xs @ 0 # drop (length xs + 1) src" using cstr_drop_eq [OF assms(1)] by simp
  have "strscpy da dest sa src count = Some (- E2BIG, overwrite dest 0 (take (count - 1) xs @ [0]))"
    if "count \<noteq> 0" "count \<le> length xs"
  proof -
    have t: "take n src = take n xs" if "n \<le> length xs" for n using that by (subst s) simp
    have "0 \<notin> set (take count src)"
      using assms(1) that(2) set_take_subset [of count xs] by (auto simp: t cstr_def)
    from strscpy_full [OF this, of dest da sa] show ?thesis
      using that assms(2) cstr_length [OF assms(1)] by (simp add: t)
  qed
  moreover have "\<exists>k. strscpy da dest sa src count = Some (int (length xs), overwrite dest 0 (xs @ replicate (Suc k) 0)) \<and>
      length xs + Suc k \<le> count" if "length xs < count"
    by (rule strscpy_fit) (use assms that in auto)
  ultimately show ?thesis by (simp add: strscpy_def)
qed

theorem strscpy_correct_witness:
  "cstr [0x48, 0x65, 0x6c, 0x6c, 0x6f, 0x2c, 0x20, 0x77, 0x6f, 0x72, 0x6c, 0x64, 0, 1, 1, 1] 0
     [0x48, 0x65, 0x6c, 0x6c, 0x6f, 0x2c, 0x20, 0x77, 0x6f, 0x72, 0x6c, 0x64] \<and>
   map_option fst (strscpy 0x1000 (replicate 16 2) 0x2000
     [0x48, 0x65, 0x6c, 0x6c, 0x6f, 0x2c, 0x20, 0x77, 0x6f, 0x72, 0x6c, 0x64, 0, 1, 1, 1] 16) = Some 12"
proof -
  let ?s = "[0x48, 0x65, 0x6c, 0x6c, 0x6f, 0x2c, 0x20, 0x77, 0x6f, 0x72, 0x6c, 0x64, 0, 1, 1, 1] :: u8 list"
  let ?x = "[0x48, 0x65, 0x6c, 0x6c, 0x6f, 0x2c, 0x20, 0x77, 0x6f, 0x72, 0x6c, 0x64] :: u8 list"
  have c: "cstr ?s 0 ?x" by (simp add: cstr_def)
  then show ?thesis using strscpy_correct [OF c, of 16 "replicate 16 2" "0x1000" "0x2000"] by auto
qed

end
