(* ===== verification/Ctype_Hex.thy ===== *)
theory Ctype_Hex
  imports C_Buf
begin

text \<open>
  Character classes (\<^verbatim>\<open>kernel/ctype.c\<close>, \<^verbatim>\<open>include/sys/ctype.h\<close>) and hexadecimal conversion
  (\<^verbatim>\<open>kernel/hexdump.c\<close>). A character is a byte: \<^verbatim>\<open>char\<close> is unsigned on RISC-V. Pointers are indices into
  buffers, and accesses outside a buffer have no result.
\<close>

unbundle bit_operations_syntax

text \<open>The bytes of a string literal, with the terminating zero.\<close>

definition ascii :: "string \<Rightarrow> u8 list" where
  "ascii s = map of_char s @ [0]"

abbreviation (input) chr :: "char \<Rightarrow> u8" where "chr \<equiv> of_char"

section \<open>Character classes\<close>

abbreviation (input) CT_U :: u8 where "CT_U \<equiv> 0x01"
abbreviation (input) CT_L :: u8 where "CT_L \<equiv> 0x02"
abbreviation (input) CT_D :: u8 where "CT_D \<equiv> 0x04"
abbreviation (input) CT_C :: u8 where "CT_C \<equiv> 0x08"
abbreviation (input) CT_P :: u8 where "CT_P \<equiv> 0x10"
abbreviation (input) CT_S :: u8 where "CT_S \<equiv> 0x20"
abbreviation (input) CT_X :: u8 where "CT_X \<equiv> 0x40"
abbreviation (input) CT_SP :: u8 where "CT_SP \<equiv> 0x80"

definition ctype_table :: "u8 list" where
  "ctype_table =
     replicate 9 CT_C @ replicate 5 (CT_C OR CT_S) @ replicate 18 CT_C @
     [CT_S OR CT_SP] @ replicate 15 CT_P @ replicate 10 CT_D @ replicate 7 CT_P @
     replicate 6 (CT_U OR CT_X) @ replicate 20 CT_U @ replicate 6 CT_P @
     replicate 6 (CT_L OR CT_X) @ replicate 20 CT_L @ replicate 4 CT_P @ [CT_C] @
     replicate 32 0 @
     [CT_S OR CT_SP] @ replicate 31 CT_P @
     replicate 23 CT_U @ [CT_P] @ replicate 7 CT_U @ [CT_L] @
     replicate 23 CT_L @ [CT_P] @ replicate 8 CT_L"

definition ismask :: "u8 \<Rightarrow> u8" where
  "ismask x = ctype_table ! unat x"

definition isalnum :: "u8 \<Rightarrow> bool" where
  "isalnum c = (ismask c AND (CT_U OR CT_L OR CT_D) \<noteq> 0)"

definition isupper :: "u8 \<Rightarrow> bool" where
  "isupper c = (ismask c AND CT_U \<noteq> 0)"

definition islower :: "u8 \<Rightarrow> bool" where
  "islower c = (ismask c AND CT_L \<noteq> 0)"

definition isdigit :: "u8 \<Rightarrow> bool" where
  "isdigit c = (chr CHR ''0'' \<le> c \<and> c \<le> chr CHR ''9'')"

definition tolower :: "u8 \<Rightarrow> u8" where
  "tolower c = (if isupper c then c - (chr CHR ''A'' - chr CHR ''a'') else c)"

definition toupper :: "u8 \<Rightarrow> u8" where
  "toupper c = (if islower c then c - (chr CHR ''a'' - chr CHR ''A'') else c)"

definition fast_tolower :: "u8 \<Rightarrow> u8" where
  "fast_tolower c = c OR 0x20"

section \<open>Hexadecimal digits\<close>

definition hex_asc :: "u8 list" where
  "hex_asc = ascii ''0123456789abcdef''"

definition hex_asc_upper :: "u8 list" where
  "hex_asc_upper = ascii ''0123456789ABCDEF''"

definition hex_asc_lo :: "u8 \<Rightarrow> u8" where
  "hex_asc_lo x = hex_asc ! unat (x AND 0x0f)"

definition hex_asc_hi :: "u8 \<Rightarrow> u8" where
  "hex_asc_hi x = hex_asc ! unat (drop_bit 4 (x AND 0xf0))"

definition hex_byte_pack :: "u8 list \<Rightarrow> nat \<Rightarrow> u8 \<Rightarrow> (u8 list \<times> nat) option" where
  "hex_byte_pack m buf byte =
     do { m \<leftarrow> wr m buf (hex_asc_hi byte); m \<leftarrow> wr m (buf + 1) (hex_asc_lo byte); Some (m, buf + 2) }"

definition hex_to_bin :: "u8 \<Rightarrow> int" where
  "hex_to_bin ch =
     (if chr CHR ''0'' \<le> ch \<and> ch \<le> chr CHR ''9'' then uint ch - uint (chr CHR ''0'')
      else let ch = tolower ch in
        if chr CHR ''a'' \<le> ch \<and> ch \<le> chr CHR ''f'' then uint ch - uint (chr CHR ''a'') + 10
        else - 1)"

text \<open>\<^verbatim>\<open>hex2bin\<close> stores the bytes up to the first bad digit.\<close>

fun hex2bin :: "u8 list \<Rightarrow> nat \<Rightarrow> u8 list \<Rightarrow> nat \<Rightarrow> nat \<Rightarrow> (int \<times> u8 list) option" where
  "hex2bin dst d src s 0 = Some (0, dst)"
| "hex2bin dst d src s (Suc count) =
     (case (rd src s, rd src (s + 1)) of
        (Some a, Some b) \<Rightarrow>
          let hi = hex_to_bin a; lo = hex_to_bin b in
          if hi < 0 \<or> lo < 0 then Some (- 22, dst)
          else (case wr dst d (word_of_int (push_bit 4 hi OR lo)) of
                  None \<Rightarrow> None
                | Some dst' \<Rightarrow> hex2bin dst' (d + 1) src (s + 2) count)
      | _ \<Rightarrow> None)"

fun bin2hex :: "u8 list \<Rightarrow> nat \<Rightarrow> u8 list \<Rightarrow> nat \<Rightarrow> nat \<Rightarrow> (u8 list \<times> nat) option" where
  "bin2hex m dst src s 0 = Some (m, dst)"
| "bin2hex m dst src s (Suc count) =
     (case rd src s of
        None \<Rightarrow> None
      | Some b \<Rightarrow> (case hex_byte_pack m dst b of None \<Rightarrow> None | Some (m', dst') \<Rightarrow> bin2hex m' dst' src (s + 1) count))"

section \<open>Round trip\<close>

lemma length_ctype_table: "length ctype_table = 256"
  by (simp add: ctype_table_def)

definition hex_text :: "u8 list \<Rightarrow> u8 list" where
  "hex_text bs = concat (map (\<lambda>b. [hex_asc_hi b, hex_asc_lo b]) bs)"

lemma hex_text_simps [simp]: "hex_text [] = []" "hex_text (b # bs) = hex_asc_hi b # hex_asc_lo b # hex_text bs"
  by (simp_all add: hex_text_def)

lemma length_hex_text [simp]: "length (hex_text bs) = 2 * length bs"
  by (induction bs) simp_all

lemma bin2hex_eq:
  "s + n \<le> length src \<Longrightarrow> d + 2 * n \<le> length m \<Longrightarrow>
    bin2hex m d src s n = Some (overwrite m d (hex_text (take n (drop s src))), d + 2 * n)"
proof (induction n arbitrary: s d m)
  case (Suc n)
  let ?b = "src ! s"
  have t: "take (Suc n) (drop s src) = ?b # take n (drop (Suc s) src)"
    using Suc.prems(1) by (simp add: Cons_nth_drop_Suc [symmetric])
  have "hex_byte_pack m d ?b = Some (overwrite m d [hex_asc_hi ?b, hex_asc_lo ?b], d + 2)"
    using Suc.prems(2) overwrite_overwrite [of d "[hex_asc_hi ?b]" m "[hex_asc_lo ?b]"] by (simp add: hex_byte_pack_def upd_overwrite)
  then show ?case
    using Suc.prems Suc.IH [of "Suc s" "d + 2" "overwrite m d [hex_asc_hi ?b, hex_asc_lo ?b]"]
      overwrite_overwrite [of d "[hex_asc_hi ?b, hex_asc_lo ?b]" m "hex_text (take n (drop (Suc s) src))"]
    unfolding t by simp
qed simp

lemma hex_to_bin_table: "list_all (\<lambda>n. hex_to_bin (hex_asc ! n) = int n) [0..<16]"
  by code_simp

lemma hex_to_bin_asc: "n < 16 \<Longrightarrow> hex_to_bin (hex_asc ! n) = int n"
  using hex_to_bin_table by (simp add: list_all_iff)

lemma nibbles_less: "unat (b AND 0x0f :: u8) < 16" "unat (drop_bit 4 (b AND 0xf0 :: u8)) < 16"
proof -
  have m: "(0x0f :: u8) = mask 4" by (simp add: mask_eq_exp_minus_1)
  show "unat (b AND 0x0f :: u8) < 16"
    unfolding m by (simp flip: take_bit_eq_mask add: take_bit_eq_mod unat_mod_distrib)
  have "unat (drop_bit 4 x) < 16" for x :: u8
  proof -
    have "unat x < 2 ^ LENGTH(8)" by (rule unsigned_less)
    then show ?thesis by (simp add: drop_bit_eq_div unat_div_distrib)
  qed
  then show "unat (drop_bit 4 (b AND 0xf0 :: u8)) < 16" .
qed

lemma nibbles_join: "push_bit 4 (drop_bit 4 (b AND 0xf0)) OR (b AND 0x0f) = (b :: u8)"
proof -
  have m: "(0xf0 :: u8) = push_bit 4 (mask 4)" "(0x0f :: u8) = mask 4" by (simp_all add: mask_eq_exp_minus_1)
  show ?thesis unfolding m by (rule bit_word_eqI) (auto simp: bit_simps)
qed

lemma hex_pair:
  "0 \<le> hex_to_bin (hex_asc_hi b)" "0 \<le> hex_to_bin (hex_asc_lo b)"
  "word_of_int (push_bit 4 (hex_to_bin (hex_asc_hi b)) OR hex_to_bin (hex_asc_lo b)) = b"
proof -
  note e = hex_to_bin_asc [OF nibbles_less(2) [of b]] hex_to_bin_asc [OF nibbles_less(1) [of b]]
  show "0 \<le> hex_to_bin (hex_asc_hi b)" "0 \<le> hex_to_bin (hex_asc_lo b)" by (simp_all only: hex_asc_hi_def hex_asc_lo_def e of_nat_0_le_iff)
  have "word_of_int (push_bit 4 (int (unat x)) OR int (unat y)) = (push_bit 4 x OR y :: u8)" for x y :: u8
    by (simp add: of_int_or_eq push_bit_eq_mult)
  then show "word_of_int (push_bit 4 (hex_to_bin (hex_asc_hi b)) OR hex_to_bin (hex_asc_lo b)) = b"
    by (simp only: hex_asc_hi_def hex_asc_lo_def e nibbles_join)
qed

text \<open>What \<^verbatim>\<open>bin2hex\<close> writes, \<^verbatim>\<open>hex2bin\<close> reads back.\<close>

lemma hex2bin_hex_text:
  "take (2 * length bs) (drop s src) = hex_text bs \<Longrightarrow> d + length bs \<le> length dst \<Longrightarrow>
    hex2bin dst d src s (length bs) = Some (0, overwrite dst d bs)"
proof (induction bs arbitrary: s d dst)
  case (Cons b bs)
  have l: "s + 2 * length (b # bs) \<le> length src" using arg_cong [OF Cons.prems(1), of length] by simp
  have dr: "drop s src = src ! s # src ! (s + 1) # drop (s + 2) src"
    using l by (simp add: Cons_nth_drop_Suc)
  then have r: "src ! s = hex_asc_hi b" "src ! (s + 1) = hex_asc_lo b" "take (2 * length bs) (drop (s + 2) src) = hex_text bs"
    using Cons.prems(1) by simp_all
  have "hex2bin dst d src s (length (b # bs)) = hex2bin (overwrite dst d [b]) (d + 1) src (s + 2) (length bs)"
    using l r(1,2) Cons.prems(2) hex_pair [of b] by (simp add: Let_def not_less upd_overwrite)
  then show ?case
    using Cons.IH [OF r(3), of "d + 1" "overwrite dst d [b]"] Cons.prems(2) overwrite_overwrite [of d "[b]" dst bs] by simp
qed simp

lemma hex_round_trip:
  assumes "length bs = n" "2 * n \<le> length m" "n \<le> length dst"
  shows "\<exists>m'. bin2hex m 0 bs 0 n = Some (m', 2 * n) \<and> hex2bin dst 0 m' 0 n = Some (0, overwrite dst 0 bs)"
  using bin2hex_eq [of 0 n bs 0 m] hex2bin_hex_text [of bs 0 "overwrite m 0 (hex_text bs)" 0 dst] assms
  by (simp add: overwrite_def)

end
