(* ===== verification/Vsprintf.thy ===== *)
theory Vsprintf
  imports Ctype_Hex
begin

text \<open>
  Formatted output (\<^verbatim>\<open>kernel/vsprintf.c\<close>). The output is the buffer and the position \<^verbatim>\<open>str - buf\<close>, which
  may run past the end of the buffer; every store is guarded by \<^verbatim>\<open>buf < end\<close> in the code, and a store
  outside the buffer has no result in the model. Format strings and string arguments are buffers with an index.
  The variable arguments are a list: integers as 64-bit registers, strings as pointers into a buffer, and
  pointers with what they point to. Using an argument as something it is not has no result.
\<close>

unbundle bit_operations_syntax

section \<open>Output\<close>

type_synonym out = "u8 list \<times> nat"

definition emit :: "nat \<Rightarrow> u8 \<Rightarrow> out \<Rightarrow> out option" where
  "emit e c st =
     (if snd st < e then map_option (\<lambda>m. (m, snd st + 1)) (wr (fst st) (snd st) c) else Some (fst st, snd st + 1))"

fun emit_n :: "nat \<Rightarrow> nat \<Rightarrow> u8 \<Rightarrow> out \<Rightarrow> out option" where
  "emit_n e 0 c st = Some st"
| "emit_n e (Suc n) c st = (case emit e c st of None \<Rightarrow> None | Some st' \<Rightarrow> emit_n e n c st')"

text \<open>\<^verbatim>\<open>while (--field_width >= 0)\<close> with one character per turn.\<close>

definition pad :: "nat \<Rightarrow> u8 \<Rightarrow> int \<Rightarrow> out \<Rightarrow> (int \<times> out) option" where
  "pad e c fw st = map_option (Pair (if 0 \<le> fw then - 1 else fw - 1)) (emit_n e (nat fw) c st)"

section \<open>Decimal digits\<close>

definition decpair :: "u16 list" where
  "decpair = map (\<lambda>x. (of_nat (x mod 10) OR push_bit 8 (of_nat (x div 10))) + 0x3030) [0..<100]"

definition put_pair :: "u8 list \<Rightarrow> nat \<Rightarrow> u32 \<Rightarrow> u8 list option" where
  "put_pair m buf x =
     do { d \<leftarrow> rd decpair (unat x); m \<leftarrow> wr m buf (ucast d); wr m (buf + 1) (ucast (drop_bit 8 d)) }"

definition put_last :: "u8 list \<Rightarrow> nat \<Rightarrow> u32 \<Rightarrow> (u8 list \<times> nat) option" where
  "put_last m buf r = do { m \<leftarrow> put_pair m buf r; Some (m, buf + (if r < 10 then 1 else 2)) }"

definition div100 :: "u32 \<Rightarrow> u32" where
  "div100 r = ucast (drop_bit 32 (ucast r * 0x28f5c29 :: u64))"

definition put_dec_trunc8 :: "u8 list \<Rightarrow> nat \<Rightarrow> u32 \<Rightarrow> (u8 list \<times> nat) option" where
  "put_dec_trunc8 m buf r =
     (if r < 100 then put_last m buf r
      else let q = div100 r in
      do { m \<leftarrow> put_pair m buf (r - 100 * q);
        if q < 100 then put_last m (buf + 2) q
        else let r = div100 q in
        do { m \<leftarrow> put_pair m (buf + 2) (q - 100 * r);
          if r < 100 then put_last m (buf + 4) r
          else let q = drop_bit 19 (r * 0x147b) in
          do { m \<leftarrow> put_pair m (buf + 4) (r - 100 * q); put_last m (buf + 6) q } } })"

definition put_dec_full8 :: "u8 list \<Rightarrow> nat \<Rightarrow> u32 \<Rightarrow> (u8 list \<times> nat) option" where
  "put_dec_full8 m buf r =
     (let q = div100 r in
      do { m \<leftarrow> put_pair m buf (r - 100 * q);
        let r = div100 q in
        do { m \<leftarrow> put_pair m (buf + 2) (q - 100 * r);
          let q = drop_bit 19 (r * 0x147b) in
          do { m \<leftarrow> put_pair m (buf + 4) (r - 100 * q);
               m \<leftarrow> put_pair m (buf + 6) q;
               Some (m, buf + 8) } } })"

definition put_dec :: "u8 list \<Rightarrow> nat \<Rightarrow> u64 \<Rightarrow> (u8 list \<times> nat) option" where
  "put_dec m buf n =
     do { (m, buf, n) \<leftarrow>
            (if n \<ge> 100000000
             then do { (m, buf) \<leftarrow> put_dec_full8 m buf (ucast (n mod 100000000)); Some (m, buf, n div 100000000) }
             else Some (m, buf, n));
          (m, buf, n) \<leftarrow>
            (if n \<ge> 100000000
             then do { (m, buf) \<leftarrow> put_dec_full8 m buf (ucast (n mod 100000000)); Some (m, buf, n div 100000000) }
             else Some (m, buf, n));
          put_dec_trunc8 m buf (ucast n) }"

section \<open>Numbers\<close>

abbreviation (input) SIGN :: u8 where "SIGN \<equiv> 1"
abbreviation (input) LEFT :: u8 where "LEFT \<equiv> 2"
abbreviation (input) PLUS :: u8 where "PLUS \<equiv> 4"
abbreviation (input) SPACE :: u8 where "SPACE \<equiv> 8"
abbreviation (input) ZEROPAD :: u8 where "ZEROPAD \<equiv> 16"
abbreviation (input) SMALL :: u8 where "SMALL \<equiv> 32"
abbreviation (input) SPECIAL :: u8 where "SPECIAL \<equiv> 64"

datatype format_type =
    FORMAT_TYPE_NONE | FORMAT_TYPE_WIDTH | FORMAT_TYPE_PRECISION | FORMAT_TYPE_CHAR | FORMAT_TYPE_STR
  | FORMAT_TYPE_PTR | FORMAT_TYPE_PERCENT_CHAR | FORMAT_TYPE_INVALID | FORMAT_TYPE_LONG_LONG
  | FORMAT_TYPE_ULONG | FORMAT_TYPE_LONG | FORMAT_TYPE_UBYTE | FORMAT_TYPE_BYTE | FORMAT_TYPE_USHORT
  | FORMAT_TYPE_SHORT | FORMAT_TYPE_UINT | FORMAT_TYPE_INT | FORMAT_TYPE_SIZE_T | FORMAT_TYPE_PTRDIFF

record printf_spec =
  ftype :: format_type
  field_width :: "24 word"
  flags :: u8
  sbase :: u8
  precision :: u16

function digit_loop :: "u8 list \<Rightarrow> nat \<Rightarrow> u64 \<Rightarrow> int \<Rightarrow> nat \<Rightarrow> u8 \<Rightarrow> (u8 list \<times> nat) option" where
  "digit_loop tmp i num msk shift locase =
     (case rd hex_asc_upper (nat (uint (ucast num :: u8) AND msk)) of
        None \<Rightarrow> None
      | Some d \<Rightarrow>
          if i < length tmp then
            (let tmp = tmp[i := d OR locase]; num = drop_bit shift num in
             if num \<noteq> 0 then digit_loop tmp (i + 1) num msk shift locase else Some (tmp, i + 1))
          else None)"
  by auto
termination
  by (relation "measure (\<lambda>(tmp, i, num, msk, shift, locase). length tmp - i)") auto

declare digit_loop.simps [simp del]

text \<open>The digits in reverse order, in \<^verbatim>\<open>char tmp[3 * sizeof(num)]\<close>.\<close>

definition number_digits :: "u64 \<Rightarrow> u8 \<Rightarrow> u8 \<Rightarrow> (u8 list \<times> nat) option" where
  "number_digits num b locase =
     (let tmp = replicate 24 0 in
      if num < ucast b then
        do { d \<leftarrow> rd hex_asc_upper (unat num); tmp \<leftarrow> wr tmp 0 (d OR locase); Some (tmp, 1) }
      else if b \<noteq> 10 then
        digit_loop tmp 0 num (uint b - 1) (if b = 16 then 4 else 3) locase
      else put_dec tmp 0 num)"

definition number :: "nat \<Rightarrow> u64 \<Rightarrow> printf_spec \<Rightarrow> out \<Rightarrow> out option" where
  "number e num spec st =
     (let need_pfx = (flags spec AND SPECIAL \<noteq> 0 \<and> sbase spec \<noteq> 10);
          is_zero = (num = 0);
          fw = sint (field_width spec);
          prec = sint (precision spec);
          locase = flags spec AND SMALL;
          fl = (if flags spec AND LEFT \<noteq> 0 then flags spec AND NOT ZEROPAD else flags spec);
          (sign, num, fw) =
            (if fl AND SIGN \<noteq> 0 then
               if sint num < 0 then (chr CHR ''-'', - num, fw - 1)
               else if fl AND PLUS \<noteq> 0 then (chr CHR ''+'', num, fw - 1)
               else if fl AND SPACE \<noteq> 0 then (chr CHR '' '', num, fw - 1)
               else (0, num, fw)
             else (0, num, fw));
          fw = (if need_pfx then (if sbase spec = 16 then fw - 2 else if \<not> is_zero then fw - 1 else fw) else fw)
      in do { (tmp, i) \<leftarrow> number_digits num (sbase spec) locase;
              let prec = (if int i > prec then int i else prec); fw = fw - prec in
              do { (fw, st) \<leftarrow> (if fl AND (ZEROPAD OR LEFT) = 0 then pad e (chr CHR '' '') fw st else Some (fw, st));
                   st \<leftarrow> (if sign \<noteq> 0 then emit e sign st else Some st);
                   st \<leftarrow> (if need_pfx \<and> (sbase spec = 16 \<or> \<not> is_zero) then emit e (chr CHR ''0'') st else Some st);
                   st \<leftarrow> (if need_pfx \<and> sbase spec = 16 then emit e (chr CHR ''X'' OR locase) st else Some st);
                   (fw, st) \<leftarrow> (if fl AND LEFT = 0 then pad e (chr CHR '' '' + (fl AND ZEROPAD)) fw st else Some (fw, st));
                   st \<leftarrow> emit_n e (nat (prec - int i)) (chr CHR ''0'') st;
                   st \<leftarrow> for_down i (\<lambda>k st. do { c \<leftarrow> rd tmp k; emit e c st }) st;
                   (fw, st) \<leftarrow> pad e (chr CHR '' '') fw st;
                   Some st } })"

definition special_hex_number :: "nat \<Rightarrow> u64 \<Rightarrow> nat \<Rightarrow> out \<Rightarrow> out option" where
  "special_hex_number e num n =
     number e num \<lparr>ftype = FORMAT_TYPE_PTR, field_width = of_nat (2 + 2 * n),
       flags = SPECIAL OR SMALL OR ZEROPAD, sbase = 16, precision = - 1\<rparr>"

section \<open>Strings\<close>

definition memset_at :: "u8 list \<Rightarrow> nat \<Rightarrow> u8 \<Rightarrow> nat \<Rightarrow> u8 list option" where
  "memset_at m p c n = for_up 0 n (\<lambda>i m. wr m (p + i) c) m"

definition move_right :: "u8 list \<Rightarrow> nat \<Rightarrow> nat \<Rightarrow> nat \<Rightarrow> nat \<Rightarrow> u8 list option" where
  "move_right m buf e len spaces =
     (if buf \<ge> e then Some m
      else let n = e - buf in
        if n \<le> spaces then memset_at m buf (chr CHR '' '') n
        else do { m \<leftarrow> (if len \<noteq> 0 then buf_memmove m (buf + spaces) buf (if len > n - spaces then n - spaces else len)
                       else Some m);
                  memset_at m buf (chr CHR '' '') spaces })"

definition widen_string :: "nat \<Rightarrow> nat \<Rightarrow> printf_spec \<Rightarrow> out \<Rightarrow> out option" where
  "widen_string n e spec st =
     (if int n \<ge> sint (field_width spec) then Some st
      else let spaces = nat (sint (field_width spec) - int n) in
        if flags spec AND LEFT = 0 then
          (if snd st < n then None
           else do { m \<leftarrow> move_right (fst st) (snd st - n) e n spaces; Some (m, snd st + spaces) })
        else emit_n e spaces (chr CHR '' '') st)"

text \<open>The copying loop of \<^verbatim>\<open>string\<close> also counts the characters.\<close>

function str_loop :: "nat \<Rightarrow> u8 list \<Rightarrow> nat \<Rightarrow> u64 \<Rightarrow> out \<Rightarrow> nat \<Rightarrow> (out \<times> nat) option" where
  "str_loop e s p lim st len =
     (if lim = 0 then Some (st, len)
      else case rd s p of
        None \<Rightarrow> None
      | Some c \<Rightarrow>
          if c = 0 then Some (st, len)
          else (case emit e c st of None \<Rightarrow> None | Some st' \<Rightarrow> str_loop e s (p + 1) (lim - 1) st' (len + 1)))"
  by auto
termination
  by (relation "measure (\<lambda>(e, s, p, lim, st, len). length s - p)") (auto simp: rd_def split: if_splits)

declare str_loop.simps [simp del]

definition string_out :: "nat \<Rightarrow> (u8 list \<times> nat) option \<Rightarrow> printf_spec \<Rightarrow> out \<Rightarrow> out option" where
  "string_out e s spec st =
     (let (b, p) = (case s of None \<Rightarrow> (ascii ''(null)'', 0) | Some bp \<Rightarrow> bp) in
      do { (st, len) \<leftarrow> str_loop e b p (scast (precision spec)) st 0; widen_string len e spec st })"

section \<open>Pointers\<close>

record resource =
  rstart :: u64
  rend :: u64
  rflags :: u64

abbreviation (input) IORESOURCE_IO :: u64 where "IORESOURCE_IO \<equiv> 0x100"
abbreviation (input) IORESOURCE_MEM :: u64 where "IORESOURCE_MEM \<equiv> 0x200"
abbreviation (input) IORESOURCE_IRQ :: u64 where "IORESOURCE_IRQ \<equiv> 0x400"
abbreviation (input) IORESOURCE_DMA :: u64 where "IORESOURCE_DMA \<equiv> 0x800"
abbreviation (input) IORESOURCE_BUS :: u64 where "IORESOURCE_BUS \<equiv> 0x1000"
abbreviation (input) IORESOURCE_PREFETCH :: u64 where "IORESOURCE_PREFETCH \<equiv> 0x2000"
abbreviation (input) IORESOURCE_MEM_64 :: u64 where "IORESOURCE_MEM_64 \<equiv> 0x100000"
abbreviation (input) IORESOURCE_WINDOW :: u64 where "IORESOURCE_WINDOW \<equiv> 0x200000"
abbreviation (input) IORESOURCE_DISABLED :: u64 where "IORESOURCE_DISABLED \<equiv> 0x10000000"
abbreviation (input) IORESOURCE_UNSET :: u64 where "IORESOURCE_UNSET \<equiv> 0x20000000"

definition resource_size :: "resource \<Rightarrow> u64" where
  "resource_size r = rend r - rstart r + 1"

datatype pointee = PointsTo "u8 list" | ToResource resource | ToWord u64 | Opaque

datatype varg = IntArg u64 | StrArg "(u8 list \<times> nat) option" | PtrArg u64 pointee

definition symbol_string :: "nat \<Rightarrow> u64 \<Rightarrow> out \<Rightarrow> out option" where
  "symbol_string e ptr = special_hex_number e ptr 8"

abbreviation (input) mk_spec :: "24 word \<Rightarrow> u8 \<Rightarrow> u8 \<Rightarrow> u16 \<Rightarrow> printf_spec" where
  "mk_spec fw fl b prec \<equiv> \<lparr>ftype = FORMAT_TYPE_NONE, field_width = fw, flags = fl, sbase = b, precision = prec\<rparr>"

abbreviation (input) io_spec :: printf_spec where "io_spec \<equiv> mk_spec 6 (SPECIAL OR SMALL OR ZEROPAD) 16 (- 1)"
abbreviation (input) mem_spec :: printf_spec where "mem_spec \<equiv> mk_spec 10 (SPECIAL OR SMALL OR ZEROPAD) 16 (- 1)"
abbreviation (input) bus_spec :: printf_spec where "bus_spec \<equiv> mk_spec 2 (SMALL OR ZEROPAD) 16 (- 1)"
abbreviation (input) dec_spec :: printf_spec where "dec_spec \<equiv> mk_spec 0 0 10 (- 1)"
abbreviation (input) str_spec :: printf_spec where "str_spec \<equiv> mk_spec (- 1) LEFT 0 10"
abbreviation (input) flag_spec :: printf_spec where "flag_spec \<equiv> mk_spec 0 (SPECIAL OR SMALL) 16 (- 1)"

text \<open>\<^verbatim>\<open>char sym[]\<close> has 75 bytes; the brackets, the dash and the terminator are stored without a check.\<close>

definition put1 :: "u8 \<Rightarrow> out \<Rightarrow> out option" where
  "put1 c st = map_option (\<lambda>m. (m, snd st + 1)) (wr (fst st) (snd st) c)"

definition lit :: "nat \<Rightarrow> string \<Rightarrow> out \<Rightarrow> out option" where
  "lit e s = string_out e (Some (ascii s, 0)) str_spec"

definition resource_string :: "nat \<Rightarrow> resource \<Rightarrow> printf_spec \<Rightarrow> bool \<Rightarrow> out \<Rightarrow> out option" where
  "resource_string e res spec decode st =
     (let pend = 75;
          has = (\<lambda>f. rflags res AND f \<noteq> 0);
          (kind, specp, decode) =
            (if has IORESOURCE_IO then (''io  '', io_spec, decode)
             else if has IORESOURCE_MEM then (''mem '', mem_spec, decode)
             else if has IORESOURCE_IRQ then (''irq '', dec_spec, decode)
             else if has IORESOURCE_DMA then (''dma '', dec_spec, decode)
             else if has IORESOURCE_BUS then (''bus '', bus_spec, decode)
             else (''??? '', mem_spec, False))
      in do { p \<leftarrow> put1 (chr CHR ''['') (replicate 75 0, 0);
              p \<leftarrow> lit pend kind p;
              p \<leftarrow> (if decode \<and> has IORESOURCE_UNSET
                   then do { p \<leftarrow> lit pend ''size '' p; number pend (resource_size res) specp p }
                   else do { p \<leftarrow> number pend (rstart res) specp p;
                             if rstart res \<noteq> rend res
                             then do { p \<leftarrow> put1 (chr CHR ''-'') p; number pend (rend res) specp p }
                             else Some p });
              p \<leftarrow> (if decode
                   then do { p \<leftarrow> (if has IORESOURCE_MEM_64 then lit pend '' 64bit'' p else Some p);
                             p \<leftarrow> (if has IORESOURCE_PREFETCH then lit pend '' pref'' p else Some p);
                             p \<leftarrow> (if has IORESOURCE_WINDOW then lit pend '' window'' p else Some p);
                             if has IORESOURCE_DISABLED then lit pend '' disabled'' p else Some p }
                   else do { p \<leftarrow> lit pend '' flags '' p; number pend (rflags res) flag_spec p });
              p \<leftarrow> put1 (chr CHR '']'') p;
              p \<leftarrow> put1 0 p;
              string_out e (Some (fst p, 0)) spec st })"

fun hex_loop :: "nat \<Rightarrow> u8 list \<Rightarrow> nat \<Rightarrow> nat \<Rightarrow> u8 \<Rightarrow> out \<Rightarrow> out option" where
  "hex_loop e addr i 0 separator st = Some st"
| "hex_loop e addr i (Suc n) separator st =
     do { b \<leftarrow> rd addr i;
          st \<leftarrow> emit e (hex_asc_hi b) st;
          st \<leftarrow> emit e (hex_asc_lo b) st;
          st \<leftarrow> (if separator \<noteq> 0 \<and> n \<noteq> 0 then emit e separator st else Some st);
          hex_loop e addr (i + 1) n separator st }"

definition hex_string :: "nat \<Rightarrow> u8 list \<Rightarrow> printf_spec \<Rightarrow> u8 \<Rightarrow> out \<Rightarrow> out option" where
  "hex_string e addr spec fmt1 st =
     (if field_width spec = 0 then Some st
      else let separator = (if fmt1 = chr CHR ''C'' then chr CHR '':'' else if fmt1 = chr CHR ''D'' then chr CHR ''-''
                            else if fmt1 = chr CHR ''N'' then 0 else chr CHR '' '');
               len = (if 0 < sint (field_width spec) then min (nat (sint (field_width spec))) 64 else 1)
           in hex_loop e addr 0 len separator st)"

fun mac_loop :: "u8 list \<Rightarrow> bool \<Rightarrow> bool \<Rightarrow> u8 \<Rightarrow> nat \<Rightarrow> out \<Rightarrow> out option" where
  "mac_loop addr reversed colon separator 0 p = Some p"
| "mac_loop addr reversed colon separator (Suc n) p =
     do { b \<leftarrow> rd addr (if reversed then n else 5 - n);
          p \<leftarrow> hex_byte_pack (fst p) (snd p) b;
          p \<leftarrow> (if colon \<and> n \<noteq> 0 then put1 separator p else Some p);
          mac_loop addr reversed colon separator n p }"

definition mac_address_string :: "nat \<Rightarrow> u8 list \<Rightarrow> printf_spec \<Rightarrow> u8 \<Rightarrow> u8 \<Rightarrow> out \<Rightarrow> out option" where
  "mac_address_string e addr spec fmt0 fmt1 st =
     (let separator = (if fmt1 = chr CHR ''F'' then chr CHR ''-'' else chr CHR '':'');
          reversed = (fmt1 = chr CHR ''R'')
      in do { p \<leftarrow> mac_loop addr reversed (fmt0 = chr CHR ''M'') separator 6 (replicate 18 0, 0);
              p \<leftarrow> put1 0 p;
              string_out e (Some (fst p, 0)) spec st })"

definition pointer_string :: "nat \<Rightarrow> u64 \<Rightarrow> printf_spec \<Rightarrow> out \<Rightarrow> out option" where
  "pointer_string e ptr spec =
     (let spec = spec\<lparr>sbase := 16, flags := flags spec OR SMALL\<rparr>;
          spec = (if field_width spec = - 1 then spec\<lparr>field_width := 16, flags := flags spec OR ZEROPAD\<rparr> else spec)
      in number e ptr spec)"

definition address_val :: "nat \<Rightarrow> u64 \<Rightarrow> out \<Rightarrow> out option" where
  "address_val e num = special_hex_number e num 8"

definition pointer :: "u8 list \<Rightarrow> nat \<Rightarrow> nat \<Rightarrow> u64 \<Rightarrow> pointee \<Rightarrow> printf_spec \<Rightarrow> out \<Rightarrow> out option" where
  "pointer fmt j e ptr tgt spec st =
     (if ptr = 0 then
        string_out e (Some (ascii ''(null)'', 0))
          (if field_width spec = - 1 then spec\<lparr>field_width := 16\<rparr> else spec) st
      else do { f0 \<leftarrow> rd fmt j;
        if f0 \<in> set (map of_char ''FfSsB'') then do { f1 \<leftarrow> rd fmt (j + 1); symbol_string e ptr st }
        else if f0 = chr CHR ''R'' \<or> f0 = chr CHR ''r'' then
          (case tgt of ToResource res \<Rightarrow> resource_string e res spec (f0 = chr CHR ''R'') st | _ \<Rightarrow> None)
        else if f0 = chr CHR ''h'' then
          do { f1 \<leftarrow> rd fmt (j + 1); case tgt of PointsTo addr \<Rightarrow> hex_string e addr spec f1 st | _ \<Rightarrow> None }
        else if f0 = chr CHR ''M'' \<or> f0 = chr CHR ''m'' then
          do { f1 \<leftarrow> rd fmt (j + 1); case tgt of PointsTo addr \<Rightarrow> mac_address_string e addr spec f0 f1 st | _ \<Rightarrow> None }
        else if f0 = chr CHR ''a'' then
          do { f1 \<leftarrow> rd fmt (j + 1); case tgt of ToWord num \<Rightarrow> address_val e num st | _ \<Rightarrow> None }
        else pointer_string e ptr spec st })"

section \<open>Format strings\<close>

function skip_loop :: "u8 list \<Rightarrow> nat \<Rightarrow> int \<Rightarrow> (int \<times> nat) option" where
  "skip_loop fmt s i =
     (case (rd fmt s, rd fmt (s + 1)) of
        (Some c, Some d) \<Rightarrow>
          if i * 10 + uint c > 2 ^ 31 - 1 then None
          else let i = i * 10 + uint c - uint (chr CHR ''0'') in
            if isdigit d then skip_loop fmt (s + 1) i else Some (i, s + 1)
      | _ \<Rightarrow> None)"
  by auto
termination
  by (relation "measure (\<lambda>(fmt, s, i). length fmt - s)") (auto simp: rd_def split: if_splits)

declare skip_loop.simps [simp del]

definition skip_atoi :: "u8 list \<Rightarrow> nat \<Rightarrow> (int \<times> nat) option" where
  "skip_atoi fmt s = skip_loop fmt s 0"

text \<open>
  \<^verbatim>\<open>format_decode\<close> from its labels on: each part takes the position in the format and the specification and
  returns them updated.
\<close>

definition num_type :: "u8 \<Rightarrow> u8 \<Rightarrow> format_type" where
  "num_type q fl =
     (if q = chr CHR ''L'' then FORMAT_TYPE_LONG_LONG
      else if q = chr CHR ''l'' then (if fl AND SIGN \<noteq> 0 then FORMAT_TYPE_LONG else FORMAT_TYPE_ULONG)
      else if q = chr CHR ''z'' then FORMAT_TYPE_SIZE_T
      else if q = chr CHR ''t'' then FORMAT_TYPE_PTRDIFF
      else if q = chr CHR ''H'' then (if fl AND SIGN \<noteq> 0 then FORMAT_TYPE_BYTE else FORMAT_TYPE_UBYTE)
      else if q = chr CHR ''h'' then (if fl AND SIGN \<noteq> 0 then FORMAT_TYPE_SHORT else FORMAT_TYPE_USHORT)
      else if fl AND SIGN \<noteq> 0 then FORMAT_TYPE_INT else FORMAT_TYPE_UINT)"

definition fd_type :: "u8 list \<Rightarrow> nat \<Rightarrow> u8 \<Rightarrow> printf_spec \<Rightarrow> (printf_spec \<times> nat) option" where
  "fd_type fmt p q spec =
     do { c \<leftarrow> rd fmt p;
          let spec = spec\<lparr>sbase := 10\<rparr>;
              int_type = (\<lambda>spec. Some (spec\<lparr>ftype := num_type q (flags spec)\<rparr>, p + 1)) in
          if c = chr CHR ''c'' then Some (spec\<lparr>ftype := FORMAT_TYPE_CHAR\<rparr>, p + 1)
          else if c = chr CHR ''s'' then Some (spec\<lparr>ftype := FORMAT_TYPE_STR\<rparr>, p + 1)
          else if c = chr CHR ''p'' then Some (spec\<lparr>ftype := FORMAT_TYPE_PTR\<rparr>, p + 1)
          else if c = chr CHR ''%'' then Some (spec\<lparr>ftype := FORMAT_TYPE_PERCENT_CHAR\<rparr>, p + 1)
          else if c = chr CHR ''o'' then int_type (spec\<lparr>sbase := 8\<rparr>)
          else if c = chr CHR ''x'' then int_type (spec\<lparr>flags := flags spec OR SMALL, sbase := 16\<rparr>)
          else if c = chr CHR ''X'' then int_type (spec\<lparr>sbase := 16\<rparr>)
          else if c = chr CHR ''d'' \<or> c = chr CHR ''i'' then int_type (spec\<lparr>flags := flags spec OR SIGN\<rparr>)
          else if c = chr CHR ''u'' then int_type spec
          else Some (spec\<lparr>ftype := FORMAT_TYPE_INVALID\<rparr>, p) }"

definition fd_qualifier :: "u8 list \<Rightarrow> nat \<Rightarrow> printf_spec \<Rightarrow> (printf_spec \<times> nat) option" where
  "fd_qualifier fmt p spec =
     do { c \<leftarrow> rd fmt p;
          if c = chr CHR ''h'' \<or> fast_tolower c = chr CHR ''l'' \<or> c = chr CHR ''z'' \<or> c = chr CHR ''t'' then
            do { d \<leftarrow> rd fmt (p + 1);
                 if c = d \<and> c = chr CHR ''l'' then fd_type fmt (p + 2) (chr CHR ''L'') spec
                 else if c = d \<and> c = chr CHR ''h'' then fd_type fmt (p + 2) (chr CHR ''H'') spec
                 else fd_type fmt (p + 1) c spec }
          else fd_type fmt p 0 spec }"

definition fd_precision :: "u8 list \<Rightarrow> nat \<Rightarrow> printf_spec \<Rightarrow> (printf_spec \<times> nat) option" where
  "fd_precision fmt p spec =
     (let spec = spec\<lparr>precision := - 1\<rparr> in
      do { c \<leftarrow> rd fmt p;
           if c = chr CHR ''.'' then
             do { d \<leftarrow> rd fmt (p + 1);
                  if isdigit d then
                    do { (i, p) \<leftarrow> skip_atoi fmt (p + 1);
                         let prec = word_of_int i in
                         fd_qualifier fmt p (spec\<lparr>precision := (if sint prec < 0 then 0 else prec)\<rparr>) }
                  else if d = chr CHR ''*'' then Some (spec\<lparr>ftype := FORMAT_TYPE_PRECISION\<rparr>, p + 2)
                  else fd_qualifier fmt (p + 1) spec }
           else fd_qualifier fmt p spec })"

definition fd_width :: "u8 list \<Rightarrow> nat \<Rightarrow> printf_spec \<Rightarrow> (printf_spec \<times> nat) option" where
  "fd_width fmt p spec =
     (let spec = spec\<lparr>field_width := - 1\<rparr> in
      do { c \<leftarrow> rd fmt p;
           if isdigit c then
             do { (i, p) \<leftarrow> skip_atoi fmt p; fd_precision fmt p (spec\<lparr>field_width := word_of_int i\<rparr>) }
           else if c = chr CHR ''*'' then Some (spec\<lparr>ftype := FORMAT_TYPE_WIDTH\<rparr>, p + 1)
           else fd_precision fmt p spec })"

function fd_flags :: "u8 list \<Rightarrow> nat \<Rightarrow> printf_spec \<Rightarrow> (printf_spec \<times> nat) option" where
  "fd_flags fmt p spec =
     (case rd fmt (p + 1) of
        None \<Rightarrow> None
      | Some c \<Rightarrow>
          let set_flag = (\<lambda>f. fd_flags fmt (p + 1) (spec\<lparr>flags := flags spec OR f\<rparr>)) in
          if c = chr CHR ''-'' then set_flag LEFT
          else if c = chr CHR ''+'' then set_flag PLUS
          else if c = chr CHR '' '' then set_flag SPACE
          else if c = chr CHR ''#'' then set_flag SPECIAL
          else if c = chr CHR ''0'' then set_flag ZEROPAD
          else fd_width fmt (p + 1) spec)"
  by auto
termination
  by (relation "measure (\<lambda>(fmt, p, spec). length fmt - p)") (auto simp: rd_def split: if_splits)

declare fd_flags.simps [simp del]

text \<open>The end of the text before the next \<^verbatim>\<open>%\<close>.\<close>

function fd_text :: "u8 list \<Rightarrow> nat \<Rightarrow> nat option" where
  "fd_text fmt p =
     (case rd fmt p of None \<Rightarrow> None | Some c \<Rightarrow> if c = 0 \<or> c = chr CHR ''%'' then Some p else fd_text fmt (p + 1))"
  by auto
termination
  by (relation "measure (\<lambda>(fmt, p). length fmt - p)") (auto simp: rd_def split: if_splits)

declare fd_text.simps [simp del]

definition format_decode :: "u8 list \<Rightarrow> nat \<Rightarrow> printf_spec \<Rightarrow> (printf_spec \<times> nat) option" where
  "format_decode fmt start spec =
     (if ftype spec = FORMAT_TYPE_WIDTH then
        let spec = (if sint (field_width spec) < 0
                    then spec\<lparr>field_width := - field_width spec, flags := flags spec OR LEFT\<rparr> else spec)
        in fd_precision fmt start (spec\<lparr>ftype := FORMAT_TYPE_NONE\<rparr>)
      else if ftype spec = FORMAT_TYPE_PRECISION then
        let spec = (if sint (precision spec) < 0 then spec\<lparr>precision := 0\<rparr> else spec)
        in fd_qualifier fmt start (spec\<lparr>ftype := FORMAT_TYPE_NONE\<rparr>)
      else let spec = spec\<lparr>ftype := FORMAT_TYPE_NONE\<rparr> in
        do { p \<leftarrow> fd_text fmt start;
             c \<leftarrow> rd fmt p;
             if p \<noteq> start \<or> c = 0 then Some (spec, p) else fd_flags fmt p (spec\<lparr>flags := 0\<rparr>) })"

section \<open>The formatter\<close>

text \<open>\<^verbatim>\<open>while (--spec.field_width > 0)\<close> on the 24-bit field.\<close>

function char_pad :: "nat \<Rightarrow> 24 word \<Rightarrow> out \<Rightarrow> (24 word \<times> out) option" where
  "char_pad e fw st =
     (if 0 < sint (fw - 1)
      then (case emit e (chr CHR '' '') st of None \<Rightarrow> None | Some st' \<Rightarrow> char_pad e (fw - 1) st')
      else Some (fw - 1, st))"
  by auto
termination
proof (relation "measure (\<lambda>(e, fw, st). unat (fw - 1))")
  fix e :: nat and fw :: "24 word" and st st' :: out
  assume "0 < sint (fw - 1)"
  then have "fw - 1 \<noteq> 0" by auto
  then show "((e, fw - 1, st'), e, fw, st) \<in> measure (\<lambda>(e, fw, st). unat (fw - 1))"
    using unat_minus_one [of "fw - 1"] by (simp add: unat_gt_0)
qed simp

declare char_pad.simps [simp del]

function skip_alnum :: "u8 list \<Rightarrow> nat \<Rightarrow> nat option" where
  "skip_alnum fmt p = (case rd fmt p of None \<Rightarrow> None | Some c \<Rightarrow> if isalnum c then skip_alnum fmt (p + 1) else Some p)"
  by auto
termination
  by (relation "measure (\<lambda>(fmt, p). length fmt - p)") (auto simp: rd_def split: if_splits)

declare skip_alnum.simps [simp del]

text \<open>The integer of a numeric conversion, as \<^verbatim>\<open>unsigned long long\<close>.\<close>

definition int_arg :: "format_type \<Rightarrow> u64 \<Rightarrow> u64" where
  "int_arg t a =
     (case t of
        FORMAT_TYPE_LONG_LONG \<Rightarrow> a
      | FORMAT_TYPE_ULONG \<Rightarrow> a
      | FORMAT_TYPE_LONG \<Rightarrow> a
      | FORMAT_TYPE_SIZE_T \<Rightarrow> a
      | FORMAT_TYPE_PTRDIFF \<Rightarrow> a
      | FORMAT_TYPE_UBYTE \<Rightarrow> ucast (ucast a :: u8)
      | FORMAT_TYPE_BYTE \<Rightarrow> scast (ucast a :: u8)
      | FORMAT_TYPE_USHORT \<Rightarrow> ucast (ucast a :: u16)
      | FORMAT_TYPE_SHORT \<Rightarrow> scast (ucast a :: u16)
      | FORMAT_TYPE_INT \<Rightarrow> scast (ucast a :: u32)
      | _ \<Rightarrow> ucast (ucast a :: u32))"

text \<open>One turn of the loop after decoding: the position in the format, the specification, the arguments and
  the output; \<open>None\<close> within the result ends the output.\<close>

type_synonym vstate = "nat \<times> printf_spec \<times> varg list \<times> out"

definition vs_text :: "nat \<Rightarrow> u8 list \<Rightarrow> nat \<Rightarrow> nat \<Rightarrow> out \<Rightarrow> out option" where
  "vs_text e fmt i j st =
     do { m \<leftarrow> (if snd st < e
               then buf_memcpy (fst st) (snd st) fmt i (if j - i > e - snd st then e - snd st else j - i)
               else Some (fst st));
          Some (m, snd st + (j - i)) }"

definition vs_char :: "nat \<Rightarrow> u64 \<Rightarrow> printf_spec \<Rightarrow> out \<Rightarrow> (24 word \<times> out) option" where
  "vs_char e a spec st =
     do { (fw, st) \<leftarrow> (if flags spec AND LEFT = 0 then char_pad e (field_width spec) st else Some (field_width spec, st));
          st \<leftarrow> emit e (ucast a) st;
          char_pad e fw st }"

definition vs_item :: "nat \<Rightarrow> u8 list \<Rightarrow> nat \<Rightarrow> nat \<Rightarrow> printf_spec \<Rightarrow> varg list \<Rightarrow> out \<Rightarrow> vstate option" where
  "vs_item e fmt i j spec args st =
     (case ftype spec of
        FORMAT_TYPE_NONE \<Rightarrow> do { st \<leftarrow> vs_text e fmt i j st; Some (j, spec, args, st) }
      | FORMAT_TYPE_WIDTH \<Rightarrow>
          (case args of IntArg a # as \<Rightarrow> Some (j, spec\<lparr>field_width := ucast a\<rparr>, as, st) | _ \<Rightarrow> None)
      | FORMAT_TYPE_PRECISION \<Rightarrow>
          (case args of IntArg a # as \<Rightarrow> Some (j, spec\<lparr>precision := ucast a\<rparr>, as, st) | _ \<Rightarrow> None)
      | FORMAT_TYPE_CHAR \<Rightarrow>
          (case args of
             IntArg a # as \<Rightarrow> do { (fw, st) \<leftarrow> vs_char e a spec st; Some (j, spec\<lparr>field_width := fw\<rparr>, as, st) }
           | _ \<Rightarrow> None)
      | FORMAT_TYPE_STR \<Rightarrow>
          (case args of StrArg s # as \<Rightarrow> do { st \<leftarrow> string_out e s spec st; Some (j, spec, as, st) } | _ \<Rightarrow> None)
      | FORMAT_TYPE_PTR \<Rightarrow>
          (case args of
             PtrArg a t # as \<Rightarrow>
               do { st \<leftarrow> pointer fmt j e a t spec st; k \<leftarrow> skip_alnum fmt j; Some (k, spec, as, st) }
           | _ \<Rightarrow> None)
      | FORMAT_TYPE_PERCENT_CHAR \<Rightarrow> do { st \<leftarrow> emit e (chr CHR ''%'') st; Some (j, spec, args, st) }
      | t \<Rightarrow>
          (case args of
             IntArg a # as \<Rightarrow> do { st \<leftarrow> number e (int_arg t a) spec st; Some (j, spec, as, st) }
           | _ \<Rightarrow> None))"

text \<open>Decoding goes forward, except at an invalid conversion.\<close>

lemma rd_bound: "rd xs i = Some c \<Longrightarrow> i < length xs"
  by (simp add: rd_def split: if_splits)

lemma skip_loop_mono: "skip_loop fmt s i = Some (v, p) \<Longrightarrow> s < p"
proof (induction "length fmt - s" arbitrary: s i rule: less_induct)
  case less
  have "s < p" if "skip_loop fmt (s + 1) j = Some (v, p)" "s < length fmt" for j
    using less.hyps [OF _ that(1)] that(2) by force
  then show ?case using less.prems
    by (subst (asm) skip_loop.simps) (auto simp: Let_def split: option.splits if_splits dest: rd_bound)
qed

lemma num_type_valid [simp]: "num_type q fl \<noteq> FORMAT_TYPE_INVALID"
  by (simp add: num_type_def)

definition forward :: "nat \<Rightarrow> (printf_spec \<times> nat) option \<Rightarrow> bool" where
  "forward p r = (case r of None \<Rightarrow> True | Some (spec, j) \<Rightarrow> p \<le> j \<and> (ftype spec = FORMAT_TYPE_INVALID \<or> p < j))"

lemma forward_simps [simp]: "forward p None" "forward p (Some (spec, j)) \<longleftrightarrow> p \<le> j \<and> (ftype spec = FORMAT_TYPE_INVALID \<or> p < j)"
  by (simp_all add: forward_def)

lemma forward_mono: "forward q r \<Longrightarrow> p \<le> q \<Longrightarrow> forward p r"
  by (auto simp: forward_def split: option.splits)

lemma forward_bind: "(\<And>x. m = Some x \<Longrightarrow> forward p (f x)) \<Longrightarrow> forward p (Option.bind m f)"
  by (cases m) simp_all

lemma fd_type_forward: "forward p (fd_type fmt p q spec)"
  unfolding fd_type_def by (rule forward_bind) (simp add: Let_def)

lemma fd_qualifier_forward: "forward p (fd_qualifier fmt p spec)"
  unfolding fd_qualifier_def
  by (intro forward_bind) (auto intro!: forward_bind intro!: forward_mono [OF fd_type_forward])

lemma fd_precision_forward: "forward p (fd_precision fmt p spec)"
  unfolding fd_precision_def Let_def
  by (intro forward_bind)
    (auto intro!: forward_bind intro!: forward_mono [OF fd_qualifier_forward] dest!: skip_loop_mono simp: skip_atoi_def Let_def)

lemma fd_width_forward: "forward p (fd_width fmt p spec)"
  unfolding fd_width_def Let_def
  by (intro forward_bind)
    (auto intro!: forward_bind intro!: forward_mono [OF fd_precision_forward] dest!: skip_loop_mono simp: skip_atoi_def)

lemma fd_flags_forward: "forward (Suc p) (fd_flags fmt p spec)"
proof (induction "length fmt - p" arbitrary: p spec rule: less_induct)
  case less
  have "forward (Suc p) (fd_flags fmt (Suc p) sp)" if "rd fmt (Suc p) = Some c" for sp c
    by (rule forward_mono [OF less]) (use rd_bound [OF that] in simp_all)
  then show ?case
    by (subst fd_flags.simps) (auto simp: Let_def split: option.split intro!: forward_mono [OF fd_width_forward])
qed

lemma fd_text_mono: "fd_text fmt p = Some q \<Longrightarrow> p \<le> q"
proof (induction fmt p rule: fd_text.induct)
  case (1 fmt p)
  from 1(2) show ?case by (subst (asm) fd_text.simps) (fastforce split: option.splits if_splits dest: 1(1))
qed

lemma fd_text_char: "fd_text fmt p = Some q \<Longrightarrow> \<exists>c. rd fmt q = Some c \<and> (c = 0 \<or> c = chr CHR ''%'')"
proof (induction fmt p rule: fd_text.induct)
  case (1 fmt p)
  from 1(2) show ?case by (subst (asm) fd_text.simps) (fastforce split: option.splits if_splits dest: 1(1))
qed

lemma format_decode_forward:
  assumes "rd fmt i = Some c" "c \<noteq> 0"
  shows "forward i (format_decode fmt i spec)"
proof -
  have "forward i (do { p \<leftarrow> fd_text fmt i; c \<leftarrow> rd fmt p;
             if p \<noteq> i \<or> c = 0 then Some (sp, p) else fd_flags fmt p (sp\<lparr>flags := 0\<rparr>) })" for sp
  proof (intro forward_bind)
    fix p d
    assume "fd_text fmt i = Some p" "rd fmt p = Some d"
    then show "forward i (if p \<noteq> i \<or> d = 0 then Some (sp, p) else fd_flags fmt p (sp\<lparr>flags := 0\<rparr>))"
      using fd_text_mono [of fmt i p] assms by (auto intro: forward_mono [OF fd_flags_forward])
  qed
  then show ?thesis
    unfolding format_decode_def Let_def using fd_precision_forward fd_qualifier_forward by auto
qed

lemma skip_alnum_mono: "skip_alnum fmt p = Some q \<Longrightarrow> p \<le> q"
proof (induction fmt p rule: skip_alnum.induct)
  case (1 fmt p)
  from 1(2) show ?case by (subst (asm) skip_alnum.simps) (fastforce split: option.splits if_splits dest: 1(1))
qed

lemma vs_item_mono: "vs_item e fmt i j spec args st = Some (k, r) \<Longrightarrow> j \<le> k"
  unfolding vs_item_def
  by (auto simp: bind_eq_Some_conv split: format_type.splits list.splits varg.splits dest: skip_alnum_mono)

function vs_loop :: "nat \<Rightarrow> u8 list \<Rightarrow> nat \<Rightarrow> printf_spec \<Rightarrow> varg list \<Rightarrow> out \<Rightarrow> out option" where
  "vs_loop e fmt i spec args st =
     (case rd fmt i of
        None \<Rightarrow> None
      | Some c \<Rightarrow>
          if c = 0 then Some st
          else (case format_decode fmt i spec of
            None \<Rightarrow> None
          | Some (spec', j) \<Rightarrow>
              if ftype spec' = FORMAT_TYPE_INVALID then Some st
              else (case vs_item e fmt i j spec' args st of
                None \<Rightarrow> None
              | Some (k, spec'', args', st') \<Rightarrow> vs_loop e fmt k spec'' args' st')))"
  by pat_completeness auto
termination
proof (relation "measure (\<lambda>(e, fmt, i, spec, args, st). length fmt - i)")
  fix e fmt i spec args st c x spec' j y k z spec'' w args' st'
  assume a: "rd fmt i = Some c" "c \<noteq> 0" "format_decode fmt i spec = Some x" "(spec', j) = x"
    "ftype spec' \<noteq> FORMAT_TYPE_INVALID" "vs_item e fmt i j spec' args st = Some y" "(k, z) = y" "(spec'', w) = z" "(args', st') = w"
  have "i < j" using format_decode_forward [OF a(1,2), of spec] a(3-5) by auto
  moreover have "j \<le> k" using vs_item_mono a(6,7) by metis
  moreover have "i < length fmt" using a(1) by (simp add: rd_def split: if_splits)
  ultimately show "((e, fmt, k, spec'', args', st'), e, fmt, i, spec, args, st) \<in> measure (\<lambda>(e, fmt, i, spec, args, st). length fmt - i)"
    by simp
qed simp

declare vs_loop.simps [simp del]

definition vsnprintf :: "u8 list \<Rightarrow> nat \<Rightarrow> u8 list \<Rightarrow> nat \<Rightarrow> varg list \<Rightarrow> (int \<times> u8 list) option" where
  "vsnprintf buf n fmt i args =
     (if n > 2 ^ 31 - 1 then Some (0, buf)
      else do { (m, pos) \<leftarrow> vs_loop n fmt i
                  \<lparr>ftype = FORMAT_TYPE_NONE, field_width = 0, flags = 0, sbase = 0, precision = 0\<rparr> args (buf, 0);
                m \<leftarrow> (if n > 0 then (if pos < n then wr m pos 0 else wr m (n - 1) 0) else Some m);
                Some (sint (of_nat pos :: u32), m) })"

definition vscnprintf :: "u8 list \<Rightarrow> nat \<Rightarrow> u8 list \<Rightarrow> nat \<Rightarrow> varg list \<Rightarrow> (int \<times> u8 list) option" where
  "vscnprintf buf n fmt i args =
     do { (r, m) \<leftarrow> vsnprintf buf n fmt i args;
          Some (if (word_of_int r :: u64) < of_nat n then r else if n \<noteq> 0 then int n - 1 else 0, m) }"

end
