(* ===== verification/Vsprintf_Digits.thy ===== *)
theory Vsprintf_Digits
  imports Vsprintf
begin

text \<open>
  The digits of a number: the multiply-and-shift divisions by 100 and the table of digit pairs of
  \<^verbatim>\<open>kernel/vsprintf.c\<close> leave the decimal digits of the number in the buffer, least significant first, and the
  masking loop the octal or hexadecimal ones; 24 bytes are always enough.
\<close>

unbundle bit_operations_syntax

fun digits_rev :: "nat \<Rightarrow> nat \<Rightarrow> nat list" where
  "digits_rev b n = (if b < 2 \<or> n < b then [n] else n mod b # digits_rev b (n div b))"

declare digits_rev.simps [simp del]

lemma digits_rev_small: "n < b \<Longrightarrow> digits_rev b n = [n]"
  by (subst digits_rev.simps) simp

lemma digits_rev_step: "2 \<le> b \<Longrightarrow> b \<le> n \<Longrightarrow> digits_rev b n = n mod b # digits_rev b (n div b)"
  by (subst digits_rev.simps) simp

lemma digits_rev_length_le: "2 \<le> b \<Longrightarrow> n < b ^ Suc k \<Longrightarrow> length (digits_rev b n) \<le> Suc k"
proof (induction k arbitrary: n)
  case 0
  then show ?case by (simp add: digits_rev_small)
next
  case (Suc k)
  then show ?case
    by (cases "n < b") (simp_all add: digits_rev_small digits_rev_step [of b n] less_mult_imp_div_less mult.commute)
qed

text \<open>The value of the digits, least significant first.\<close>

lemma digits_rev_value: "2 \<le> b \<Longrightarrow> foldr (\<lambda>d v. d + b * v) (digits_rev b n) 0 = n"
proof (induction b n rule: digits_rev.induct)
  case (1 b n)
  then show ?case by (cases "n < b") (simp_all add: digits_rev_small digits_rev_step [of b n])
qed

lemma digits_rev_bound: "2 \<le> b \<Longrightarrow> d \<in> set (digits_rev b n) \<Longrightarrow> d < b"
proof (induction b n rule: digits_rev.induct)
  case (1 b n)
  show ?case
  proof (cases "n < b")
    case True
    then show ?thesis using 1(3) by (simp add: digits_rev_small)
  next
    case False
    then have "digits_rev b n = n mod b # digits_rev b (n div b)" using 1(2) by (simp add: digits_rev_step)
    then have "d = n mod b \<or> d \<in> set (digits_rev b (n div b))" using 1(3) by simp
    then show ?thesis
    proof
      assume "d = n mod b"
      then show ?thesis using 1(2) by simp
    next
      assume "d \<in> set (digits_rev b (n div b))"
      then show ?thesis using 1(1,2) False by simp
    qed
  qed
qed

primrec dec_fix :: "nat \<Rightarrow> nat \<Rightarrow> nat list" where
  "dec_fix 0 n = []"
| "dec_fix (Suc k) n = n mod 10 # dec_fix k (n div 10)"

lemma length_dec_fix [simp]: "length (dec_fix k n) = k"
  by (induction k arbitrary: n) simp_all

lemma dec_fix_add: "dec_fix (j + k) n = dec_fix j n @ dec_fix k (n div 10 ^ j)"
  by (induction j arbitrary: n) (simp_all add: div_mult2_eq)

lemma dec_fix_mod: "j \<le> k \<Longrightarrow> dec_fix j (n mod 10 ^ k) = dec_fix j n"
proof (induction j arbitrary: n k)
  case (Suc j)
  then obtain l where k: "k = Suc l" by (cases k) auto
  have "n mod 10 ^ k div 10 = n div 10 mod 10 ^ l" by (simp add: k mod_mult2_eq)
  moreover have "n mod 10 ^ k mod 10 = n mod 10" by (simp add: k mod_mult2_eq)
  ultimately show ?case using Suc k by simp
qed simp

lemma dec_fix_digits: "10 ^ k \<le> n \<Longrightarrow> digits_rev 10 n = dec_fix k n @ digits_rev 10 (n div 10 ^ k)"
proof (induction k arbitrary: n)
  case (Suc k)
  have p: "10 ^ k \<le> n div 10" using Suc.prems by (simp add: less_eq_div_iff_mult_less_eq mult.commute)
  have "(1 :: nat) \<le> 10 ^ k" by simp
  then have "1 \<le> n div 10" using p by linarith
  then have "digits_rev 10 n = n mod 10 # digits_rev 10 (n div 10)" by (intro digits_rev_step) simp_all
  also have "\<dots> = n mod 10 # dec_fix k (n div 10) @ digits_rev 10 (n div 10 div 10 ^ k)" by (simp only: Suc.IH [OF p])
  finally show ?case by (simp add: div_mult2_eq)
qed simp

definition chars10 :: "nat list \<Rightarrow> u8 list" where
  "chars10 ds = map (\<lambda>d. 48 + of_nat d) ds"

lemma chars10_simps [simp]: "chars10 [] = []" "chars10 (d # ds) = (48 + of_nat d) # chars10 ds" "chars10 (a @ b) = chars10 a @ chars10 b"
  "length (chars10 ds) = length ds"
  by (simp_all add: chars10_def)

lemma decpair_table:
  "list_all (\<lambda>a. list_all (\<lambda>b.
     (ucast ((of_nat a OR push_bit 8 (of_nat b)) + 0x3030 :: u16) :: u8) = 48 + of_nat a \<and>
     (ucast (drop_bit 8 ((of_nat a OR push_bit 8 (of_nat b)) + 0x3030 :: u16)) :: u8) = 48 + of_nat b) [0..<10]) [0..<10]"
  by code_simp

lemma length_decpair [simp]: "length decpair = 100"
  by (simp add: decpair_def)

lemma decpair_nth:
  assumes "x < 100"
  shows "(ucast (decpair ! x) :: u8) = 48 + of_nat (x mod 10)" "(ucast (drop_bit 8 (decpair ! x)) :: u8) = 48 + of_nat (x div 10)"
proof -
  have n: "decpair ! x = (of_nat (x mod 10) OR push_bit 8 (of_nat (x div 10))) + 0x3030"
    unfolding decpair_def by (subst nth_map) (use assms in simp_all)
  have "x mod 10 \<in> set [0..<10]" "x div 10 \<in> set [0..<10]" using assms by simp_all
  then show "(ucast (decpair ! x) :: u8) = 48 + of_nat (x mod 10)" "(ucast (drop_bit 8 (decpair ! x)) :: u8) = 48 + of_nat (x div 10)"
    using decpair_table unfolding n list_all_iff by blast+
qed

lemma put_pair_eq:
  assumes "unat x < 100" "buf + 2 \<le> length m"
  shows "put_pair m buf x = Some (overwrite m buf (chars10 (dec_fix 2 (unat x))))"
  using assms overwrite_overwrite [of buf "[48 + of_nat (unat x mod 10)]" m "[48 + of_nat (unat x div 10)]"]
  by (simp add: put_pair_def decpair_nth upd_overwrite numeral_2_eq_2)

lemma unat_u32_less: "unat (x :: u32) < 2 ^ 32"
  using unsigned_less [of x] by simp

lemma div100_eq:
  assumes "unat r < 10 ^ 8"
  shows "unat (div100 r) = unat r div 100"
proof -
  have u: "unat (ucast r :: u64) = unat r" by (simp add: unsigned_ucast_eq take_bit_nat_eq_self_iff order_less_trans [OF unat_u32_less])
  have "unat (ucast r * 0x28f5c29 :: u64) = unat r * 0x28f5c29"
    by (subst unat_mult_lem [THEN iffD1]) (use assms u in simp_all)
  then have "unat (drop_bit 32 (ucast r * 0x28f5c29 :: u64)) = unat r * 0x28f5c29 div 2 ^ 32"
    by (simp only: drop_bit_eq_div unat_div_distrib) simp
  moreover have "unat r * 0x28f5c29 div 2 ^ 32 = unat r div 100"
  proof -
    define q s where "q = unat r div 100" "s = unat r mod 100"
    have r: "unat r = 100 * q + s" "s < 100" "q < 10 ^ 6" using assms by (simp_all add: q_s_def)
    have "unat r * 0x28f5c29 = 2 ^ 32 * q + (4 * q + s * 0x28f5c29)" by (simp add: r)
    moreover have "4 * q + s * 0x28f5c29 < 2 ^ 32"
    proof -
      have "s * 0x28f5c29 \<le> 99 * 0x28f5c29" using r(2) by simp
      then show ?thesis using r(3) by simp
    qed
    ultimately have "unat r * 0x28f5c29 div 2 ^ 32 = q" by (simp add: div_mult_self4)
    then show ?thesis by (simp add: q_s_def)
  qed
  ultimately show ?thesis
    using assms by (simp add: div100_def unsigned_ucast_eq take_bit_nat_eq_self_iff)
qed

lemma div100_small_eq:
  fixes r :: u32
  assumes "unat r < 10 ^ 4"
  shows "unat (drop_bit 19 (r * 0x147b)) = unat r div 100"
proof -
  have "unat (r * 0x147b) = unat r * 0x147b"
    by (subst unat_mult_lem [THEN iffD1]) (use assms in simp_all)
  then have e: "unat (drop_bit 19 (r * 0x147b)) = unat r * 0x147b div 2 ^ 19"
    by (simp only: drop_bit_eq_div unat_div_distrib) simp
  define q s where "q = unat r div 100" "s = unat r mod 100"
  have r: "unat r = 100 * q + s" "s < 100" "q < 100" using assms by (simp_all add: q_s_def)
  have "unat r * 0x147b = 2 ^ 19 * q + (12 * q + s * 0x147b)" by (simp add: r)
  moreover have "12 * q + s * 0x147b < 2 ^ 19" using r by simp
  ultimately have "unat r * 0x147b div 2 ^ 19 = q" by (simp add: div_mult_self4)
  then show ?thesis by (simp add: e q_s_def)
qed

lemma unat_rest100:
  fixes r q :: u32
  assumes "unat q = unat r div 100"
  shows "unat (r - 100 * q) = unat r mod 100"
proof -
  have l: "100 * (unat r div 100) < 2 ^ 32" using unat_u32_less [of r] by (simp add: order_le_less_trans [OF times_div_less_eq_dividend])
  have m: "unat (100 * q) = 100 * (unat r div 100)"
    by (subst unat_mult_lem [THEN iffD1]) (use assms l in simp_all)
  then have "100 * q \<le> r" by (simp add: word_le_nat_alt)
  then show ?thesis using m by (simp add: unat_sub minus_mult_div_eq_mod)
qed

text \<open>What a decimal routine leaves in the buffer: the digits from \<open>buf\<close> on, and anything after them.\<close>

definition wrote :: "u8 list \<Rightarrow> nat \<Rightarrow> u8 list \<Rightarrow> (u8 list \<times> nat) option \<Rightarrow> bool" where
  "wrote m buf ds r =
     (case r of None \<Rightarrow> False
      | Some (m', p) \<Rightarrow> p = buf + length ds \<and> length m' = length m \<and> take (buf + length ds) m' = take buf m @ ds)"

lemma take_overwrite: "r + length bs \<le> length d \<Longrightarrow> take (r + length bs) (overwrite d r bs) = take r d @ bs"
  by (simp add: overwrite_def min_absorb2)

lemma wrote_after:
  assumes "buf + length a \<le> length m" "wrote (overwrite m buf a) (buf + length a) ds r"
  shows "wrote m buf (a @ ds) r"
  using assms by (auto simp: wrote_def take_overwrite add.assoc split: option.splits)

lemma put_last_wrote:
  assumes "unat r < 100" "buf + 2 \<le> length m"
  shows "wrote m buf (chars10 (digits_rev 10 (unat r))) (put_last m buf r)"
proof (cases "unat r < 10")
  case True
  then have "r < 10" by (simp add: word_less_nat_alt)
  then show ?thesis
    using assms True by (simp add: put_last_def put_pair_eq wrote_def digits_rev_small overwrite_def numeral_2_eq_2)
next
  case False
  then have "\<not> r < 10" by (simp add: word_less_nat_alt)
  moreover have "digits_rev 10 (unat r) = [unat r mod 10, unat r div 10]"
    using False assms by (simp add: digits_rev_step [of 10 "unat r"] digits_rev_small)
  ultimately show ?thesis
    using assms by (simp add: put_last_def put_pair_eq wrote_def overwrite_def numeral_2_eq_2)
qed

lemma put_pair_rest:
  assumes "unat q = unat r div 100" "buf + 2 \<le> length m"
  shows "put_pair m buf (r - 100 * q) = Some (overwrite m buf (chars10 (dec_fix 2 (unat r))))"
  using put_pair_eq [of "r - 100 * q" buf m] dec_fix_mod [of 2 2 "unat r"] assms by (simp add: unat_rest100)

lemma pair_wrote:
  assumes "unat q = unat r div 100" "buf + 2 \<le> length m" "100 \<le> unat r"
    and "wrote (overwrite m buf (chars10 (dec_fix 2 (unat r)))) (buf + 2) (chars10 (digits_rev 10 (unat q))) (f (overwrite m buf (chars10 (dec_fix 2 (unat r)))))"
  shows "wrote m buf (chars10 (digits_rev 10 (unat r))) (Option.bind (put_pair m buf (r - 100 * q)) f)"
proof -
  have "digits_rev 10 (unat r) = dec_fix 2 (unat r) @ digits_rev 10 (unat q)"
    using dec_fix_digits [of 2 "unat r"] assms by simp
  then show ?thesis
    using assms wrote_after [of buf "chars10 (dec_fix 2 (unat r))" m] by (simp add: put_pair_rest)
qed

lemma put_dec_trunc8_wrote:
  assumes "unat r < 10 ^ 8" "buf + 8 \<le> length m"
  shows "wrote m buf (chars10 (digits_rev 10 (unat r))) (put_dec_trunc8 m buf r)"
proof -
  define q p o' where "q = div100 r" "p = div100 q" "o' = drop_bit 19 (p * 0x147b)"
  have q: "unat q = unat r div 100" using assms by (simp add: q_p_o'_def div100_eq)
  have p: "unat p = unat q div 100" using assms q by (simp add: q_p_o'_def(2) div100_eq)
  have o: "unat o' = unat p div 100" using assms q p by (simp add: q_p_o'_def(3) div100_small_eq)
  have b: "unat o' < 100" using assms q p o by simp
  have l: "x < 100 \<longleftrightarrow> unat x < 100" for x :: u32 by (simp add: word_less_nat_alt)
  show ?thesis
    unfolding put_dec_trunc8_def q_p_o'_def [symmetric] Let_def l
    using assms(2) b
    by (auto intro!: put_last_wrote pair_wrote [OF q] pair_wrote [OF p] pair_wrote [OF o] simp del: add_2_eq_Suc add_2_eq_Suc' simp: add.assoc)
qed

lemma put_dec_full8_eq:
  assumes "unat r < 10 ^ 8" "buf + 8 \<le> length m"
  shows "put_dec_full8 m buf r = Some (overwrite m buf (chars10 (dec_fix 8 (unat r))), buf + 8)"
proof -
  define q p o' where "q = div100 r" "p = div100 q" "o' = drop_bit 19 (p * 0x147b)"
  have q: "unat q = unat r div 100" using assms by (simp add: q_p_o'_def div100_eq)
  have p: "unat p = unat q div 100" using assms q by (simp add: q_p_o'_def(2) div100_eq)
  have o: "unat o' = unat p div 100" using assms q p by (simp add: q_p_o'_def(3) div100_small_eq)
  have b: "unat o' < 100" using assms q p o by simp
  have ow: "overwrite (overwrite m buf a) (buf + k) c = overwrite m buf (a @ c)"
    if "k = length a" "k + length c \<le> 8" for a c k
    using that assms overwrite_overwrite [of buf a m c] by simp
  have "dec_fix 8 (unat r) = dec_fix 2 (unat r) @ dec_fix 2 (unat q) @ dec_fix 2 (unat p) @ dec_fix 2 (unat o')"
    using dec_fix_add [of 2 6 "unat r"] dec_fix_add [of 2 4 "unat q"] dec_fix_add [of 2 2 "unat p"] by (simp add: q p o)
  then show ?thesis
    unfolding put_dec_full8_def q_p_o'_def [symmetric] Let_def
    using assms(2) b by (simp add: put_pair_rest [OF q] put_pair_rest [OF p] put_pair_rest [OF o] put_pair_eq ow del: add_2_eq_Suc add_2_eq_Suc')
qed

lemma unat_div_mod_1e8:
  fixes n :: u64
  shows "unat (n div 100000000) = unat n div 10 ^ 8" "unat (ucast (n mod 100000000) :: u32) = unat n mod 10 ^ 8"
proof -
  show "unat (n div 100000000) = unat n div 10 ^ 8" by (simp add: unat_div_distrib)
  have "unat (n mod 100000000) = unat n mod 10 ^ 8" by (simp add: unat_mod_distrib)
  moreover have "unat n mod 10 ^ 8 < 10 ^ 8" by simp
  ultimately show "unat (ucast (n mod 100000000) :: u32) = unat n mod 10 ^ 8"
    by (simp add: unsigned_ucast_eq take_bit_nat_eq_self_iff del: mod_less_divisor)
qed

lemma put_dec_wrote:
  assumes "buf + 24 \<le> length m"
  shows "wrote m buf (chars10 (digits_rev 10 (unat n))) (put_dec m buf n)"
proof -
  define rest where "rest = (\<lambda>m buf (n :: u64). put_dec_trunc8 m buf (ucast n))"
  define one :: "(u8 list \<Rightarrow> nat \<Rightarrow> u64 \<Rightarrow> (u8 list \<times> nat) option) \<Rightarrow> u8 list \<Rightarrow> nat \<Rightarrow> u64 \<Rightarrow> (u8 list \<times> nat) option"
    where "one = (\<lambda>g m buf n. if n \<ge> 100000000
      then do { (m, buf) \<leftarrow> put_dec_full8 m buf (ucast (n mod 100000000)); g m buf (n div 100000000) } else g m buf n)"
  have le: "100000000 \<le> x \<longleftrightarrow> 10 ^ 8 \<le> unat x" for x :: u64 by (simp add: word_le_nat_alt)
  have r: "wrote m buf (chars10 (digits_rev 10 (unat x))) (rest m buf x)"
    if "unat x < 10 ^ 8" "buf + 8 \<le> length m" for m buf x
  proof -
    have u: "unat (ucast x :: u32) = unat x" using that(1) by (simp add: unsigned_ucast_eq take_bit_nat_eq_self_iff)
    show ?thesis using put_dec_trunc8_wrote [of "ucast x" buf m] that unfolding rest_def u by blast
  qed
  have s: "wrote m buf (chars10 (digits_rev 10 (unat x))) (one g m buf x)"
    if g: "\<And>m buf x. unat x < k \<Longrightarrow> buf + j \<le> length m \<Longrightarrow> wrote m buf (chars10 (digits_rev 10 (unat x))) (g m buf x)"
      and x: "unat x < k * 10 ^ 8" "buf + 8 + j \<le> length m" and k: "10 ^ 8 \<le> k" for g m buf x k j
  proof (cases "10 ^ 8 \<le> unat x")
    case True
    let ?a = "chars10 (dec_fix 8 (unat x))"
    have "unat x div 10 ^ 8 < k" using x(1) by (simp add: less_mult_imp_div_less)
    then have "wrote (overwrite m buf ?a) (buf + length ?a) (chars10 (digits_rev 10 (unat (x div 100000000)))) (g (overwrite m buf ?a) (buf + 8) (x div 100000000))"
      using g [of "x div 100000000" "buf + 8" "overwrite m buf ?a"] x(2) by (simp add: unat_div_mod_1e8)
    then have "wrote m buf (?a @ chars10 (digits_rev 10 (unat x div 10 ^ 8))) (g (overwrite m buf ?a) (buf + 8) (x div 100000000))"
      using wrote_after [of buf ?a m] x(2) by (simp add: unat_div_mod_1e8)
    moreover have "one g m buf x = g (overwrite m buf ?a) (buf + 8) (x div 100000000)"
      using True x(2) put_dec_full8_eq [of "ucast (x mod 100000000)" buf m] dec_fix_mod [of 8 8 "unat x"]
      by (simp add: one_def le unat_div_mod_1e8)
    ultimately show ?thesis using dec_fix_digits [OF True] by simp
  next
    case False
    then show ?thesis using g [of x buf m] x k by (simp add: one_def le)
  qed
  have "put_dec m buf n = one (one rest) m buf n"
    by (cases "put_dec_full8 m buf (ucast (n mod 100000000))") (auto simp: put_dec_def one_def rest_def bind_assoc split_def)
  moreover have "wrote m buf (chars10 (digits_rev 10 (unat n))) (one (one rest) m buf n)"
  proof (rule s [where k = "10 ^ 16" and j = 16])
    show "unat n < 10 ^ 16 * 10 ^ 8" using unsigned_less [of n, where ?'a = nat] by simp
    show "wrote m buf (chars10 (digits_rev 10 (unat x))) (one rest m buf x)"
      if "unat x < 10 ^ 16" "buf + 16 \<le> length m" for m buf x
      by (rule s [where k = "10 ^ 8" and j = 8]) (use r that in simp_all)
  qed (use assms in simp_all)
  ultimately show ?thesis by simp
qed

section \<open>The digits of a number\<close>

definition digit_chars :: "u8 \<Rightarrow> nat \<Rightarrow> nat \<Rightarrow> u8 list" where
  "digit_chars locase b n = map (\<lambda>d. hex_asc_upper ! d OR locase) (digits_rev b n)"

lemma length_hex_asc_upper [simp]: "length hex_asc_upper = 17"
  by (simp add: hex_asc_upper_def ascii_def)

lemma dec_char_table: "list_all (\<lambda>d. hex_asc_upper ! d = 48 + of_nat d \<and> hex_asc_upper ! d OR 32 = hex_asc_upper ! d) [0..<10]"
  by code_simp

lemma digit_chars_10:
  assumes "locase = 0 \<or> locase = 32"
  shows "digit_chars locase 10 n = chars10 (digits_rev 10 n)"
proof -
  have "hex_asc_upper ! d OR locase = 48 + of_nat d" if "d \<in> set (digits_rev 10 n)" for d
  proof -
    have "d \<in> set [0..<10]" using digits_rev_bound [OF _ that] by simp
    then have "hex_asc_upper ! d = 48 + of_nat d" "hex_asc_upper ! d OR 32 = hex_asc_upper ! d"
      using dec_char_table unfolding list_all_iff by blast+
    then show ?thesis using assms by auto
  qed
  then show ?thesis by (simp add: digit_chars_def chars10_def)
qed

lemma low_digit:
  fixes num :: u64
  assumes "k \<le> 8"
  shows "nat (uint (ucast num :: u8) AND (2 ^ k - 1)) = unat num mod 2 ^ k"
proof -
  have "uint (ucast num :: u8) AND (2 ^ k - 1) = take_bit k (uint num)"
    using assms by (simp add: mask_eq_exp_minus_1 [symmetric] take_bit_eq_mask [symmetric] unsigned_ucast_eq take_bit_take_bit min_absorb1)
  then show ?thesis by (simp add: take_bit_eq_mod nat_mod_distrib nat_power_eq)
qed

lemma unat_drop_bit: "unat (drop_bit k (num :: u64)) = unat num div 2 ^ k"
proof -
  have "take_bit 64 (unat num) = unat num" using unsigned_less [of num, where ?'a = nat] by (intro take_bit_nat_eq_self) simp
  then show ?thesis by (subst unsigned_drop_bit_eq) (simp add: drop_bit_eq_div)
qed

lemma digit_loop_wrote:
  assumes k: "0 < k" "k \<le> 4"
  shows "i + length (digits_rev (2 ^ k) (unat num)) \<le> length tmp \<Longrightarrow>
    wrote tmp i (digit_chars locase (2 ^ k) (unat num)) (digit_loop tmp i num (2 ^ k - 1) k locase)"
proof (induction "unat num" arbitrary: tmp i num rule: less_induct)
  case less
  have b: "2 \<le> (2 :: nat) ^ k" using k power_increasing [of 1 k "2 :: nat"] by simp
  have "(2 :: nat) ^ k \<le> 2 ^ 4" using k(2) by (intro power_increasing) simp_all
  then have d: "unat num mod 2 ^ k < 16" using mod_less_divisor [of "2 ^ k" "unat num"] by (simp del: mod_less_divisor)
  let ?c = "hex_asc_upper ! (unat num mod 2 ^ k) OR locase"
  have z: "drop_bit k num = 0 \<longleftrightarrow> unat num < 2 ^ k" by (simp add: unat_eq_zero [symmetric] unat_drop_bit div_eq_0_iff del: unat_eq_zero)
  show ?case
  proof (cases "unat num < 2 ^ k")
    case True
    then have "i < length tmp" "digit_chars locase (2 ^ k) (unat num) = [?c]"
      using less.prems by (simp_all add: digits_rev_small digit_chars_def)
    then show ?thesis
      using True d z k by (subst digit_loop.simps) (simp add: low_digit wrote_def upd_overwrite take_overwrite [of i "[_]", simplified])
  next
    case False
    let ?q = "drop_bit k num"
    have s: "digits_rev (2 ^ k) (unat num) = unat num mod 2 ^ k # digits_rev (2 ^ k) (unat ?q)"
      using False b by (simp add: digits_rev_step [of "2 ^ k" "unat num"] unat_drop_bit)
    have "unat ?q < unat num" using False b unfolding unat_drop_bit by (intro div_less_dividend) simp_all
    then have "wrote (overwrite tmp i [?c]) (Suc i) (digit_chars locase (2 ^ k) (unat ?q)) (digit_loop (overwrite tmp i [?c]) (Suc i) ?q (2 ^ k - 1) k locase)"
      using less.hyps [of ?q "Suc i" "overwrite tmp i [?c]"] less.prems by (simp add: s)
    then have "wrote tmp i (?c # digit_chars locase (2 ^ k) (unat ?q)) (digit_loop (overwrite tmp i [?c]) (Suc i) ?q (2 ^ k - 1) k locase)"
      using wrote_after [of i "[?c]" tmp] less.prems by (simp add: s)
    then show ?thesis
      using False d z k less.prems by (subst digit_loop.simps) (simp add: low_digit s digit_chars_def upd_overwrite)
  qed
qed

lemma number_digits_ok:
  assumes b: "b = 8 \<or> b = 10 \<or> b = 16" and l: "locase = 0 \<or> locase = 32"
  shows "wrote (replicate 24 0) 0 (digit_chars locase (unat b) (unat num)) (number_digits num b locase)"
proof (cases "num < ucast b")
  case True
  moreover have "unat (ucast b :: u64) = unat b" using b by auto
  ultimately have u: "unat num < unat b" by (simp add: word_less_nat_alt)
  then have "unat num < 16" using b by auto
  then show ?thesis
    using True u by (simp add: number_digits_def digit_chars_def digits_rev_small wrote_def numeral_eq_Suc)
next
  case False
  have n: "unat num < 2 ^ 64" using unsigned_less [of num, where ?'a = nat] by simp
  consider "b = 8" | "b = 16" | "b = 10" using b by auto
  then show ?thesis
  proof cases
    case 1
    have "length (digits_rev 8 (unat num)) \<le> Suc 21" by (rule digits_rev_length_le) (use n in simp_all)
    then show ?thesis
      using digit_loop_wrote [of 3 0 num "replicate 24 0" locase] False 1 by (simp add: number_digits_def)
  next
    case 2
    have "length (digits_rev 16 (unat num)) \<le> Suc 15" by (rule digits_rev_length_le) (use n in simp_all)
    then show ?thesis
      using digit_loop_wrote [of 4 0 num "replicate 24 0" locase] False 2 by (simp add: number_digits_def)
  next
    case 3
    then show ?thesis
      using put_dec_wrote [of 0 "replicate 24 0" num] False digit_chars_10 [OF l] by (simp add: number_digits_def)
  qed
qed

end
