(* ===== verification/Vsprintf_Text.thy ===== *)
theory Vsprintf_Text
  imports Vsprintf_Digits
begin

text \<open>
  Formatted output against a specification without a buffer: the text of a number, a string, a resource, an
  address and of a whole format is a list of characters, and every routine of \<^verbatim>\<open>kernel/vsprintf.c\<close> writes its text
  as far as it fits and advances its position by the length of the text (\<open>put\<close>). The buffers on the stack that
  resources and hardware addresses are assembled in never overflow.
\<close>

unbundle bit_operations_syntax

section \<open>Output to a bounded buffer\<close>

definition put :: "nat \<Rightarrow> u8 list \<Rightarrow> nat \<Rightarrow> u8 list \<Rightarrow> u8 list" where
  "put e m pos t = overwrite m pos (take (e - pos) t)"

lemma length_put [simp]: "e \<le> length m \<Longrightarrow> length (put e m pos t) = length m"
  by (cases "pos \<le> e") (simp_all add: put_def)

lemma put_Nil [simp]: "put e m pos [] = m"
  by (simp add: put_def)

lemma put_past: "e \<le> pos \<Longrightarrow> put e m pos t = m"
  by (simp add: put_def)

lemma put_put:
  assumes "e \<le> length m" "p = pos + length a"
  shows "put e (put e m pos a) p b = put e m pos (a @ b)"
proof (cases "p \<le> e")
  case True
  then show ?thesis using assms overwrite_overwrite [of pos a m "take (e - p) b"] by (simp add: put_def)
next
  case False
  then show ?thesis using assms by (simp add: put_def)
qed

lemma emit_put:
  assumes "e \<le> length m"
  shows "emit e c (m, pos) = Some (put e m pos [c], pos + 1)"
proof (cases "pos < e")
  case True
  then have "take (e - pos) [c] = [c]" by simp
  then show ?thesis using True assms by (simp add: emit_def put_def upd_overwrite)
next
  case False
  then show ?thesis by (simp add: emit_def put_def)
qed

lemma emit_n_put:
  assumes "e \<le> length m"
  shows "emit_n e n c (m, pos) = Some (put e m pos (replicate n c), pos + n)"
  using assms by (induction n arbitrary: m pos) (simp_all add: emit_put put_put)

lemma emit_if:
  assumes "e \<le> length m"
  shows "(if b then emit e c (m, pos) else Some (m, pos)) =
    Some (put e m pos (if b then [c] else []), pos + length (if b then [c] else []))"
  using assms by (simp add: emit_put)



section \<open>Numbers\<close>

text \<open>The text of a number: sign, prefix and digits, with leading zeros up to the precision, in a field.\<close>

abbreviation (input) spaces :: "nat \<Rightarrow> u8 list" where "spaces n \<equiv> replicate n (chr CHR '' '')"






section \<open>Strings\<close>

definition widen_text :: "printf_spec \<Rightarrow> u8 list \<Rightarrow> u8 list" where
  "widen_text spec t =
     (let fill = spaces (nat (sint (field_width spec)) - length t) in if flags spec AND LEFT \<noteq> 0 then t @ fill else fill @ t)"

definition str_text :: "u8 list \<Rightarrow> nat \<Rightarrow> nat \<Rightarrow> u8 list option" where
  "str_text s p lim =
     (let t = takeWhile (\<lambda>c. c \<noteq> 0) (drop p s) in
      if lim \<le> length t then Some (take lim t) else if p + length t < length s then Some t else None)"

definition prec_limit :: "printf_spec \<Rightarrow> nat" where
  "prec_limit spec = unat (scast (precision spec) :: u64)"

definition string_text :: "(u8 list \<times> nat) option \<Rightarrow> printf_spec \<Rightarrow> u8 list option" where
  "string_text s spec =
     (let (b, p) = (case s of None \<Rightarrow> (ascii ''(null)'', 0) | Some bp \<Rightarrow> bp)
      in map_option (widen_text spec) (str_text b p (prec_limit spec)))"

lemma str_text_step:
  assumes "0 < lim" "p < length s" "s ! p \<noteq> 0"
  shows "str_text s p lim = map_option ((#) (s ! p)) (str_text s (Suc p) (lim - 1))"
proof -
  obtain k where "lim = Suc k" using assms(1) by (cases lim) auto
  moreover have "takeWhile (\<lambda>c. c \<noteq> 0) (drop p s) = s ! p # takeWhile (\<lambda>c. c \<noteq> 0) (drop (Suc p) s)"
    using assms by (simp add: Cons_nth_drop_Suc [of p s, symmetric])
  ultimately show ?thesis by (simp add: str_text_def Let_def)
qed

lemma str_loop_put:
  assumes "e \<le> length m"
  shows "str_loop e s p lim (m, pos) n =
    map_option (\<lambda>t. ((put e m pos t, pos + length t), n + length t)) (str_text s p (unat lim))"
  using assms
proof (induction "length s - p" arbitrary: p lim m pos n rule: less_induct)
  case less
  show ?case
  proof (cases "lim = 0 \<or> length s \<le> p \<or> s ! p = 0")
    case True
    then show ?thesis
      by (subst str_loop.simps) (auto simp: str_text_def rd_def unat_eq_zero Cons_nth_drop_Suc [symmetric])
  next
    case False
    then have l: "p < length s" "0 < unat lim" "unat lim - 1 = unat (lim - 1)"
      by (simp_all add: unat_gt_0 unat_minus_one)
    have "str_loop e s (p + 1) (lim - 1) (put e m pos [s ! p], pos + 1) (n + 1) =
      map_option (\<lambda>t. ((put e m pos (s ! p # t), pos + 1 + length t), n + 1 + length t)) (str_text s (p + 1) (unat (lim - 1)))"
      using less.hyps [of "p + 1" "put e m pos [s ! p]" "lim - 1" "pos + 1" "n + 1"] less.prems l(1) by (simp add: put_put)
    then show ?thesis
      using False less.prems l str_text_step [of "unat lim" p s]
      by (subst str_loop.simps) (simp add: emit_put option.map_comp comp_def)
  qed
qed

lemma memset_at_eq:
  assumes "p + n \<le> length m"
  shows "memset_at m p c n = Some (overwrite m p (replicate n c))"
proof -
  define g where "g k = overwrite m p (replicate k c)" for k
  have "for_up 0 n (\<lambda>i m. wr m (p + i) c) (g 0) = Some (g n)"
  proof (rule for_up_eq)
    fix k
    assume "k < n"
    then show "wr (g k) (p + k) c = Some (g (Suc k))"
      using assms overwrite_overwrite [of p "replicate k c" m "[c]"] by (simp add: g_def upd_overwrite replicate_append_same [symmetric])
  qed simp
  then show ?thesis by (simp add: memset_at_def g_def)
qed


lemma nth_overwrite:
  assumes "r + length bs \<le> length d" "i < length d"
  shows "overwrite d r bs ! i = (if r \<le> i \<and> i < r + length bs then bs ! (i - r) else d ! i)"
  using assms by (auto simp: overwrite_def nth_append min_absorb2)

lemma move_right_put:
  assumes e: "e \<le> length m"
  shows "move_right (put e m pos t) pos e (length t) k = Some (put e m pos (spaces k @ t))"
proof (cases "pos < e")
  case False
  then show ?thesis by (simp add: move_right_def put_past)
next
  case True
  define n where "n = e - pos"
  have n: "pos + n \<le> length m" using True e by (simp add: n_def)
  define M where "M = overwrite m pos (take n t)"
  have M: "length M = length m" using n by (simp add: M_def)
  have p: "put e m pos u = overwrite m pos (take n u)" for u by (simp add: put_def n_def)
  show ?thesis
  proof (cases "n \<le> k")
    case k: True
    have "overwrite M pos (spaces n) = overwrite m pos (spaces n)"
      by (rule nth_equalityI) (use n M in \<open>auto simp: nth_overwrite M_def\<close>)
    then show ?thesis
      using True k n M by (simp add: move_right_def p M_def [symmetric] n_def [symmetric] memset_at_eq)
  next
    case False
    define j where "j = (if length t > n - k then n - k else length t)"
    have j: "j \<le> length t" "k + j \<le> n" "j = length t \<or> k + j = n" using False by (auto simp: j_def)
    have src: "take j (drop pos M) = take j t"
      using j n M by (intro nth_equalityI) (auto simp: M_def nth_overwrite)
    have "buf_memmove M (pos + k) pos j = Some (overwrite M (pos + k) (take j t))"
      using buf_memmove_eq [of "pos + k" j M pos] j(1,2) n M src by (simp add: overwrite_def)
    then have mv: "(if length t \<noteq> 0 then buf_memmove M (pos + k) pos j else Some M) = Some (overwrite M (pos + k) (take j t))"
      by (cases "length t = 0") simp_all
    have "overwrite (overwrite M (pos + k) (take j t)) pos (spaces k) = overwrite m pos (take n (spaces k @ t))"
      by (rule nth_equalityI) (use j n M False in \<open>auto simp: nth_overwrite M_def nth_append\<close>)
    then show ?thesis
      using True False n M j mv
      by (cases "t = []") (simp_all add: move_right_def p M_def [symmetric] n_def [symmetric] j_def [symmetric] memset_at_eq)
  qed
qed

lemma string_out_put:
  assumes "e \<le> length m"
  shows "string_out e s spec (m, pos) = map_option (\<lambda>t. (put e m pos t, pos + length t)) (string_text s spec)"
proof -
  have w: "widen_string (length t) e spec (put e m pos t, pos + length t) =
      Some (put e m pos (widen_text spec t), pos + length (widen_text spec t))" for t
    using assms by (auto simp: widen_string_def widen_text_def Let_def move_right_put emit_n_put put_put nat_diff_distrib')
  obtain b p where b: "(case s of None \<Rightarrow> (ascii ''(null)'', 0) | Some bp \<Rightarrow> bp) = (b, p)" by fastforce
  show ?thesis
    unfolding string_out_def string_text_def b Let_def prod.case str_loop_put [OF assms] prec_limit_def
    by (cases "str_text b p (unat (scast (precision spec) :: u64))") (simp_all add: w)
qed
section \<open>Pointers\<close>

abbreviation (input) chars :: "string \<Rightarrow> u8 list" where "chars s \<equiv> map of_char s"





definition fit :: "printf_spec \<Rightarrow> u8 list \<Rightarrow> u8 list" where
  "fit spec t = widen_text spec (take (prec_limit spec) t)"





lemma str_text_full: "0 \<notin> set t \<Longrightarrow> str_text (t @ 0 # r) 0 lim = Some (take lim t)"
proof -
  assume "0 \<notin> set t"
  then have "takeWhile (\<lambda>c. c \<noteq> 0) (t @ 0 # r) = t" by (subst takeWhile_append2) auto
  then show ?thesis by (simp add: str_text_def)
qed

lemma string_text_fit: "0 \<notin> set t \<Longrightarrow> string_text (Some (t @ 0 # r, 0)) spec = Some (fit spec t)"
  by (simp add: string_text_def str_text_full fit_def)

lemma lit_put:
  assumes "e \<le> length m" "length s \<le> 10" "0 \<notin> set (chars s)"
  shows "lit e s (m, pos) = Some (put e m pos (chars s), pos + length s)"
proof -
  have "fit str_spec (chars s) = chars s" using assms(2) by (simp add: fit_def widen_text_def prec_limit_def)
  then show ?thesis
    unfolding lit_def string_out_put [OF assms(1)] ascii_def using string_text_fit [OF assms(3), of "[]" str_spec] by simp
qed



text \<open>The buffer \<open>sym\<close> while the text of a resource is built up in it.\<close>

definition sym :: "u8 list \<Rightarrow> out" where
  "sym t = (put 75 (replicate 75 0) 0 t, length t)"


lemma sym_lit: "length s \<le> 10 \<Longrightarrow> 0 \<notin> set (chars s) \<Longrightarrow> lit 75 s (sym t) = Some (sym (t @ chars s))"
  by (simp add: sym_def lit_put put_put)

lemma sym_lit_if:
  "length s \<le> 10 \<Longrightarrow> 0 \<notin> set (chars s) \<Longrightarrow>
    (if b then lit 75 s (sym t) else Some (sym t)) = Some (sym (t @ chars (if b then s else '''')))"
  by (simp add: sym_lit)



















section \<open>The formatter\<close>









text \<open>Decoding stays within the format, and a conversion of a number has one of three bases.\<close>

definition decoded :: "nat \<Rightarrow> (printf_spec \<times> nat) option \<Rightarrow> bool" where
  "decoded n r =
     (case r of None \<Rightarrow> True
      | Some (spec, j) \<Rightarrow> j \<le> n \<and> (sbase spec = 8 \<or> sbase spec = 10 \<or> sbase spec = 16 \<or>
          ftype spec \<in> {FORMAT_TYPE_NONE, FORMAT_TYPE_WIDTH, FORMAT_TYPE_PRECISION}))"

lemma decoded_simps [simp]:
  "decoded n None"
  "decoded n (Some (spec, j)) \<longleftrightarrow> j \<le> n \<and> (sbase spec = 8 \<or> sbase spec = 10 \<or> sbase spec = 16 \<or>
          ftype spec \<in> {FORMAT_TYPE_NONE, FORMAT_TYPE_WIDTH, FORMAT_TYPE_PRECISION})"
  by (simp_all add: decoded_def)













section \<open>Correctness\<close>

text \<open>
  The decimal conversion with its table of digit pairs and its multiplications in place of divisions writes
  the decimal digits of every 64-bit number, least significant first, for which 24 bytes are enough.
\<close>

lemma put_dec_correct:
  assumes "24 \<le> length m"
  shows "\<exists>m'. put_dec m 0 n = Some (m', length (digits_rev 10 (unat n))) \<and> length m' = length m \<and>
    take (length (digits_rev 10 (unat n))) m' = map (\<lambda>d. 48 + of_nat d) (digits_rev 10 (unat n)) \<and>
    foldr (\<lambda>d v. d + 10 * v) (digits_rev 10 (unat n)) 0 = unat n"
  using put_dec_wrote [of 0 m n] assms digits_rev_value [of 10 "unat n"]
  by (auto simp: wrote_def chars10_def split: option.splits)




end
