(* ===== verification/Spec2Isabelle.thy ===== *)
theory Spec2Isabelle
  imports Komodo_Main Certikos_Props Keystone_Props Jit_Rv64_Props Sha256_Props Memblock_Props C_String_Spec Vsprintf_Text
begin

text \<open>
  This library verifies the C code of the Serval artifact: three security monitors for RISC-V, an interpreter
  and a compiler for BPF, and the kernel routines they are linked with. Paths below are relative to
  \<^verbatim>\<open>src/\<close>.

  \<^bold>\<open>The program.\<close> A monitor runs in machine mode. It starts from its \<^verbatim>\<open>main\<close>, which programs the physical
  memory protection registers, and then only runs when the processor traps. The trap entry saves the general
  registers and calls \<^verbatim>\<open>do_trap\<close>. A handler either returns to the trapped code or leaves by \<^verbatim>\<open>mret\<close> with other
  registers. Komodo and Keystone isolate enclaves from an untrusted host kernel; CertiKOS isolates processes
  from each other. BPF programs are interpreted by \<^verbatim>\<open>bpf/kbpf.c\<close> and compiled by
  \<^verbatim>\<open>bpf/jit/bpf_jit_riscv64.c\<close>.

  \<^bold>\<open>Shared theories.\<close>
  \<^item> \<open>Serval_Prelude\<close>: machine integers as words of their width, theorem collections, the outcome of a handler
    (\<open>Return\<close>, \<open>Mret\<close>, \<open>Halt\<close>, \<open>Panic\<close>), reachability, and the locale \<open>inv_system\<close> of an inductive invariant.
    Each monitor interprets it with its boot states, its steps and its invariant.
  \<^item> \<open>Riscv_Arch\<close>: \<^verbatim>\<open>struct pt_regs\<close>, the control registers with \<^verbatim>\<open>sstatus\<close> and its like as views of the machine
    registers (\<^verbatim>\<open>include/asm/csr.h\<close>), memory protection with the rule that decides an access
    (\<^verbatim>\<open>include/asm/pmp.h\<close>), page table entries (\<^verbatim>\<open>include/asm/pgtable.h\<close>), machine calls (\<^verbatim>\<open>bios/mcall.c\<close>) and
    the console they read and write (\<^verbatim>\<open>kernel/console.c\<close>).
  \<^item> \<open>Kernel_Traps\<close>: \<^verbatim>\<open>kernel/traps.c\<close> and the masked index of \<^verbatim>\<open>include/io/nospec.h\<close>.
  \<^item> \<open>Byte_Mem\<close>, \<open>C_Buf\<close>: byte memory, and arrays with bounds and counting loops. An access out of bounds has no
    result, so every theorem that a routine has a result includes memory safety.
  \<^item> \<open>Simulation\<close>: the locale \<open>forward_sim\<close> of a forward simulation, interpreted for the BPF compiler.

  \<^bold>\<open>Komodo\<close> (\<^verbatim>\<open>monitors/komodo\<close>). \<open>Komodo\<close> has the page database, the secure pages as raw words, all secure
  monitor calls and enclave calls (\<^verbatim>\<open>monitor.c\<close>), trap dispatch (\<^verbatim>\<open>traps.c\<close>) and boot (\<^verbatim>\<open>main.c\<close>).
  \<open>Komodo_Inv\<close> has the invariant, \<open>Komodo_Safe\<close> that every handler keeps it and does not panic, \<open>Komodo_Sec\<close> the
  machine: between traps the host and the enclaves change registers, and memory as far as protection registers and
  page tables grant it. \<open>Komodo_NI\<close> has integrity, confidentiality and the world switch for single steps, and
  \<open>Komodo_Main\<close> the properties C1 to C9. C7 and C8 follow contexts across arbitrary runs: from an
  interrupt to the resume call that continues the thread, and from the call that enters an enclave to the
  exit or interrupt that leaves it.

  \<^bold>\<open>CertiKOS\<close> (\<^verbatim>\<open>monitors/certikos\<close>). \<open>Certikos\<close> has the process table, the system calls, the context switch and
  boot (\<^verbatim>\<open>proc.c\<close>, \<^verbatim>\<open>traps.c\<close>, \<^verbatim>\<open>main.c\<close>); \<open>Certikos_Inv\<close> the invariant with the ring of runnable
  processes; \<open>Certikos_Main\<close> the machine and the view of a process; \<open>Certikos_Props\<close> the properties C10 to C17. C10
  leaves out the firmware calls that a build without \<^verbatim>\<open>CONFIG_VERIFICATION\<close> passes on: they read a console that
  all processes share.

  \<^bold>\<open>Keystone\<close> (\<^verbatim>\<open>monitors/keystone\<close>). \<open>Keystone\<close> has the enclave table, the calls, the protection segments and boot
  (\<^verbatim>\<open>enclave.c\<close>, \<^verbatim>\<open>pmp.c\<close>, \<^verbatim>\<open>traps.c\<close>, \<^verbatim>\<open>main.c\<close>); \<open>Keystone_Inv\<close> that the protection registers mirror the table;
  \<open>Keystone_Main\<close> and \<open>Keystone_Props\<close> the machine and the properties C18 to C26. C25 and C26 state two defects of
  the code.

  \<^bold>\<open>BPF\<close>. \<open>Bpf\<close> is the interpreter, with what C leaves undefined as a result of its own; \<open>Bpf_Run\<close> has its
  termination. \<open>Rv64\<close> is the processor, after \<^verbatim>\<open>serval/serval/riscv\<close>: its encoder, and its interpreter at 64
  bits. The source looks an instruction up in a table made by a disassembler; the model decodes the word at the
  program counter with \<open>decode_instr\<close>, which \<open>Rv64_Code\<close> proves to be the inverse of the encoder. \<open>Jit_Rv64\<close> is
  the compiler; \<open>Jit_Rv64_Enc\<close>, \<open>Jit_Rv64_Imm\<close>, \<open>Jit_Rv64_Sim\<close> and \<open>Jit_Rv64_Main\<close> have its encoders, immediates,
  single instructions and whole programs; \<open>Jit_Rv64_Props\<close> the properties C27 to C35. C27 and C28 are about the
  instructions that compile exactly (\<open>jit_exact\<close>); C29 and C30 say what the others among the 32-bit operations do.

  \<^bold>\<open>Hashes\<close>. \<open>Sha256\<close> follows \<^verbatim>\<open>kernel/hacl\<close>, \<^verbatim>\<open>kernel/sha256.c\<close> and \<^verbatim>\<open>kernel/hmac256.c\<close>; \<open>Sha256_Spec\<close> is FIPS 180-4
  and FIPS 198-1 on byte lists; \<open>Sha256_Run\<close> relates the loops to it; \<open>Sha256_Props\<close> has C36 and C37.

  \<^bold>\<open>Memory map\<close>. \<open>Memblock\<close> follows \<^verbatim>\<open>kernel/memblock.c\<close>; \<open>Memblock_Inv\<close> and \<open>Memblock_Alloc\<close> read its tables as sets
  of addresses, through the locale \<open>range_table\<close>; \<open>Memblock_Props\<close> has C38 and C39.

  \<^bold>\<open>Strings and formatted output\<close>. \<open>C_String\<close> follows \<^verbatim>\<open>kernel/string.c\<close>, and \<open>C_String_Spec\<close> relates each routine to
  functions on lists, \<^verbatim>\<open>strscpy\<close> with its word-wise zero test included. \<open>Ctype_Hex\<close> has the character classes and
  \<^verbatim>\<open>kernel/hexdump.c\<close>. \<open>Vsprintf\<close> follows \<^verbatim>\<open>kernel/vsprintf.c\<close>; \<open>Vsprintf_Digits\<close> shows that its reciprocal
  divisions give the decimal digits; \<open>Vsprintf_Text\<close> defines the text of a format without a buffer and
  proves C40.

  \<^bold>\<open>Termination.\<close> All loops are total functions except the BPF dispatch loop: \<open>bpf_loop\<close> may run
  forever and is a partial function, and C34 gives programs on which it returns, within one step per
  remaining instruction plus one. The machines of the monitors run forever by design and are step relations.
  The bounds in the statements are those of the code: messages below \<open>2 ^ 32\<close> bytes, because lengths are cut to 32 bits
  (C36, C37), and buffers below \<open>2 ^ 31\<close> bytes, because \<^verbatim>\<open>vsnprintf\<close> refuses larger ones (C40).

  \<^bold>\<open>Choices of the models.\<close> The sum \<^verbatim>\<open>val + (1 << 11)\<close> of \<^verbatim>\<open>emit_imm\<close> wraps, where C leaves the overflow undefined.
  The readback in \<^verbatim>\<open>pmpcfg_write\<close>, which only prints, is left out. An unaligned atomic addition is an addition at that
  address. \<^verbatim>\<open>CONFIG_VERIFICATION\<close> is a parameter of the monitors; the addresses the linker chooses are too, with
  the layout as a hypothesis (\<open>layout_ok\<close> and its like).

  \<^bold>\<open>Not modelled.\<close>
  \<^item> Assembly entry code, link scripts, processor start-up and devices (\<^verbatim>\<open>kernel/entry.S\<close>, \<^verbatim>\<open>kernel/boot\<close>, \<^verbatim>\<open>bios/htif.c\<close>,
    \<^verbatim>\<open>bios/uart8250.c\<close>, \<^verbatim>\<open>bios/sifive.c\<close>): the models begin and end at the C functions that these call.
  \<^item> Console output and register dumps: they change no state of a monitor.
  \<^item> Device tree and archive parsing (\<^verbatim>\<open>kernel/of.c\<close>, \<^verbatim>\<open>kernel/libfdt\<close>, \<^verbatim>\<open>kernel/cpio.c\<close>): no handler calls them.
  \<^item> Control registers, fences, calls into the environment and compressed instructions of the RISC-V interpreter, and its
    symbolic memory: the BPF compiler emits none of these instructions.
  \<^item> The parts of the BPF compiler under \<^verbatim>\<open>#if 0\<close>, the compiler for 32-bit RISC-V and the generators
    (\<^verbatim>\<open>bpf/jit/*.rkt\<close>).
  \<^item> The Racket framework and specifications (\<^verbatim>\<open>serval\<close> apart from the RISC-V semantics, \<^verbatim>\<open>racket\<close>,
    \<^verbatim>\<open>monitors/*/verif\<close>): tools that check the C code, which is modelled here directly.
  \<^item> The test and toy monitors, the host kernels and user programs (\<^verbatim>\<open>monitors/*/kernel\<close>, \<^verbatim>\<open>monitors/certikos/user\<close>):
    the theorems hold for every host, enclave and process.
  \<^item> Concurrency: each monitor runs on one processor.
\<close>

end
